(* ===== verification/Prelude.thy ===== *)
theory Prelude
  imports Main "HOL-Library.Word" "HOL-Library.Sublist"
begin

text \<open>
  Shared vocabulary of the development: fallible computations as values of a sum type
  (a Go function that returns \<open>(T, error)\<close> is \<open>'e + 'a\<close>, with \<open>Inl\<close> for a non-nil error),
  their sequencing \<open>bindE\<close> (the \<open>if err != nil { return err }\<close> of the code), early-returning
  loops over a slice, and generic facts on lists and finite maps.
\<close>

named_theorems result_simps \<open>rewrite rules for sequencing of fallible computations\<close>

section \<open>Fallible computations\<close>

type_synonym ('e, 'a) result = "'e + 'a"

definition bindE :: "'e + 'a \<Rightarrow> ('a \<Rightarrow> 'e + 'b) \<Rightarrow> 'e + 'b" where
  "bindE m f = (case m of Inl e \<Rightarrow> Inl e | Inr x \<Rightarrow> f x)"

definition guardE :: "bool \<Rightarrow> 'e \<Rightarrow> 'e + unit" where
  "guardE b e = (if b then Inr () else Inl e)"

definition mapErr :: "('e \<Rightarrow> 'f) \<Rightarrow> 'e + 'a \<Rightarrow> 'f + 'a" where
  "mapErr g m = (case m of Inl e \<Rightarrow> Inl (g e) | Inr x \<Rightarrow> Inr x)"

definition isOk :: "'e + 'a \<Rightarrow> bool" where
  "isOk m \<longleftrightarrow> (case m of Inl _ \<Rightarrow> False | Inr _ \<Rightarrow> True)"

lemma bindE_simps [simp]:
  "bindE (Inl e) f = Inl e"
  "bindE (Inr x) f = f x"
  by (simp_all add: bindE_def)

lemma bindE_cong [fundef_cong]:
  "m = m' \<Longrightarrow> (\<And>x. m' = Inr x \<Longrightarrow> f x = g x) \<Longrightarrow> bindE m f = bindE m' g"
  by (auto simp: bindE_def split: sum.splits)

lemma bindE_eq_Inr [result_simps]:
  "bindE m f = Inr y \<longleftrightarrow> (\<exists>x. m = Inr x \<and> f x = Inr y)"
  by (cases m) auto

lemma bindE_eq_Inl [result_simps]:
  "bindE m f = Inl e \<longleftrightarrow> m = Inl e \<or> (\<exists>x. m = Inr x \<and> f x = Inl e)"
  by (cases m) auto

lemma guardE_eq_Inr [simp]: "guardE b e = Inr u \<longleftrightarrow> b"
  by (simp add: guardE_def)

lemma guardE_eq_Inl [simp]: "guardE b e = Inl e' \<longleftrightarrow> \<not> b \<and> e' = e"
  by (auto simp: guardE_def)

lemma guardE_simps [simp]:
  "guardE True e = Inr ()"
  "guardE False e = Inl e"
  by (simp_all add: guardE_def)

lemma mapErr_simps [simp]:
  "mapErr g (Inl e) = Inl (g e)"
  "mapErr g (Inr x) = Inr x"
  by (simp_all add: mapErr_def)

lemma mapErr_eq_Inr [simp]: "mapErr g m = Inr x \<longleftrightarrow> m = Inr x"
  by (cases m) auto

lemma isOk_simps [simp]:
  "isOk (Inr x)"
  "\<not> isOk (Inl e)"
  by (simp_all add: isOk_def)

lemma isOk_iff: "isOk m \<longleftrightarrow> (\<exists>x. m = Inr x)"
  by (cases m) auto

lemma unit_result_cases:
  fixes m :: "'e + unit"
  obtains (Err) e where "m = Inl e" | (Ok) "m = Inr ()"
  by (cases m) auto

section \<open>Loops that return early\<close>

text \<open>
  \<open>mapE f xs\<close> is the loop \<open>for _, x := range xs { y, err := f(x); if err != nil { return err };
  out = append(out, y) }\<close>; \<open>forE\<close> is the same loop with no result.
\<close>

fun mapE :: "('a \<Rightarrow> 'e + 'b) \<Rightarrow> 'a list \<Rightarrow> 'e + 'b list" where
  "mapE f [] = Inr []"
| "mapE f (x # xs) = bindE (f x) (\<lambda>y. bindE (mapE f xs) (\<lambda>ys. Inr (y # ys)))"

fun forE :: "('a \<Rightarrow> 'e + unit) \<Rightarrow> 'a list \<Rightarrow> 'e + unit" where
  "forE f [] = Inr ()"
| "forE f (x # xs) = bindE (f x) (\<lambda>_. forE f xs)"

lemma mapE_cong [fundef_cong]:
  "xs = ys \<Longrightarrow> (\<And>x. x \<in> set ys \<Longrightarrow> f x = g x) \<Longrightarrow> mapE f xs = mapE g ys"
  by (induction xs arbitrary: ys) auto

lemma mapE_eq_Inr [result_simps]:
  "mapE f xs = Inr ys \<longleftrightarrow> list_all2 (\<lambda>x y. f x = Inr y) xs ys"
proof (induction xs arbitrary: ys)
  case Nil
  then show ?case by auto
next
  case (Cons x xs)
  then show ?case
    by (cases ys) (auto simp: bindE_eq_Inr list_all2_Cons1)
qed

lemma mapE_length: "mapE f xs = Inr ys \<Longrightarrow> length ys = length xs"
  by (auto simp: mapE_eq_Inr dest: list_all2_lengthD)

lemma mapE_map_ok: "(\<And>x. x \<in> set xs \<Longrightarrow> f x = Inr (g x)) \<Longrightarrow> mapE f xs = Inr (map g xs)"
  by (induction xs) auto

lemma forE_eq_Inr [result_simps]: "forE f xs = Inr u \<longleftrightarrow> (\<forall>x \<in> set xs. f x = Inr ())"
  by (induction xs) (auto simp: bindE_eq_Inr)

section \<open>Lists and maps\<close>

lemma in_set_enumerate_iff: "(i, x) \<in> set (List.enumerate n xs) \<longleftrightarrow> n \<le> i \<and> i < n + length xs \<and> x = xs ! (i - n)"
  by (auto simp: enumerate_eq_zip in_set_zip) (metis add_diff_inverse_nat add_less_cancel_left not_le nth_upt)

lemma distinct_append_single [simp]: "distinct (xs @ [x]) \<longleftrightarrow> distinct xs \<and> x \<notin> set xs"
  by auto

lemma last_append_nonempty: "ys \<noteq> [] \<Longrightarrow> last (xs @ ys) = last ys"
  by simp

lemma sorted_distinct_less:
  fixes xs :: "nat list"
  assumes "sorted xs" "distinct xs" "i < j" "j < length xs"
  shows "xs ! i < xs ! j"
proof -
  have "xs ! i \<le> xs ! j" using assms by (simp add: sorted_nth_mono)
  moreover have "xs ! i \<noteq> xs ! j" using assms by (simp add: nth_eq_iff_index_eq)
  ultimately show ?thesis by simp
qed

end
