(* ===== verification/GoStrings.thy ===== *)
theory GoStrings
  imports Prelude
begin

text \<open>
  The part of Go's \<open>strings\<close>, \<open>strconv\<close> and \<open>fmt\<close> packages that the program calls, on
  strings as byte sequences (\<open>string\<close> is a list of 8-bit \<open>char\<close>).
\<close>

section \<open>Prefixes, suffixes and indices\<close>

definition hasPrefix :: "string \<Rightarrow> string \<Rightarrow> bool" where
  "hasPrefix s p \<longleftrightarrow> take (length p) s = p"

definition hasSuffix :: "string \<Rightarrow> string \<Rightarrow> bool" where
  "hasSuffix s p \<longleftrightarrow> hasPrefix (rev s) (rev p)"

definition trimPrefix :: "string \<Rightarrow> string \<Rightarrow> string" where
  "trimPrefix s p = (if hasPrefix s p then drop (length p) s else s)"

definition trimSuffix :: "string \<Rightarrow> string \<Rightarrow> string" where
  "trimSuffix s p = (if hasSuffix s p then take (length s - length p) s else s)"

text \<open>\<open>strings.Index\<close>: the first position of a substring; \<open>None\<close> stands for \<open>-1\<close>.\<close>

fun indexStr :: "string \<Rightarrow> string \<Rightarrow> nat option" where
  "indexStr [] p = (if p = [] then Some 0 else None)"
| "indexStr (c # s) p = (if hasPrefix (c # s) p then Some 0 else map_option Suc (indexStr s p))"

text \<open>\<open>strings.LastIndex\<close> for a one-byte substring.\<close>

fun lastIndexChar :: "string \<Rightarrow> char \<Rightarrow> nat option" where
  "lastIndexChar [] c = None"
| "lastIndexChar (d # s) c =
     (case lastIndexChar s c of Some i \<Rightarrow> Some (Suc i) | None \<Rightarrow> if d = c then Some 0 else None)"

lemma hasPrefix_iff: "hasPrefix s p \<longleftrightarrow> prefix p s"
  by (auto simp: hasPrefix_def prefix_def) (metis append_take_drop_id)

lemma hasSuffix_iff: "hasSuffix s p \<longleftrightarrow> suffix p s"
  by (simp add: hasSuffix_def hasPrefix_iff suffix_to_prefix)

lemma hasPrefix_append [simp]: "hasPrefix (p @ s) p"
  by (simp add: hasPrefix_iff)

lemma hasPrefix_Nil [simp]: "hasPrefix s []"
  by (simp add: hasPrefix_iff)

lemma hasPrefix_Nil2 [simp]: "hasPrefix [] p \<longleftrightarrow> p = []"
  by (auto simp: hasPrefix_iff)

lemma hasPrefix_Cons [simp]: "hasPrefix (c # s) (d # p) \<longleftrightarrow> c = d \<and> hasPrefix s p"
  by (auto simp: hasPrefix_iff)

lemma hasSuffix_append [simp]: "hasSuffix (s @ p) p"
  by (simp add: hasSuffix_iff suffix_def)

lemma hasSuffix_snoc: "hasSuffix s [c] \<longleftrightarrow> s \<noteq> [] \<and> last s = c"
  by (cases s rule: rev_cases) (auto simp: hasSuffix_def)

lemma trimPrefix_append [simp]: "trimPrefix (p @ s) p = s"
  by (simp add: trimPrefix_def)

lemma trimSuffix_append [simp]: "trimSuffix (s @ p) p = s"
  by (simp add: trimSuffix_def)

lemma indexStr_char_None: "c \<notin> set s \<Longrightarrow> indexStr s [c] = None"
  by (induction s) auto

lemma indexStr_char: "c \<notin> set s \<Longrightarrow> indexStr (s @ c # t) [c] = Some (length s)"
  by (induction s) auto

lemma lastIndexChar_None: "c \<notin> set s \<Longrightarrow> lastIndexChar s c = None"
  by (induction s) auto

lemma lastIndexChar_append: "c \<notin> set t \<Longrightarrow> lastIndexChar (s @ c # t) c = Some (length s)"
  by (induction s) (auto simp: lastIndexChar_None)

section \<open>White space\<close>

text \<open>
  The UTF-8 encodings of the code points with \<open>unicode.IsSpace\<close>: six ASCII bytes, U+0085, U+00A0,
  U+1680, U+2000 to U+200A, U+2028, U+2029, U+202F, U+205F and U+3000.
\<close>

definition asciiSpaces :: "char list" where
  "asciiSpaces = [CHR 0x09, CHR 0x0A, CHR 0x0B, CHR 0x0C, CHR 0x0D, CHR '' '']"

definition wideSpaces :: "string list" where
  "wideSpaces =
     [[CHR 0xC2, CHR 0x85], [CHR 0xC2, CHR 0xA0], [CHR 0xE1, CHR 0x9A, CHR 0x80],
      [CHR 0xE2, CHR 0x80, CHR 0x80], [CHR 0xE2, CHR 0x80, CHR 0x81], [CHR 0xE2, CHR 0x80, CHR 0x82],
      [CHR 0xE2, CHR 0x80, CHR 0x83], [CHR 0xE2, CHR 0x80, CHR 0x84], [CHR 0xE2, CHR 0x80, CHR 0x85],
      [CHR 0xE2, CHR 0x80, CHR 0x86], [CHR 0xE2, CHR 0x80, CHR 0x87], [CHR 0xE2, CHR 0x80, CHR 0x88],
      [CHR 0xE2, CHR 0x80, CHR 0x89], [CHR 0xE2, CHR 0x80, CHR 0x8A], [CHR 0xE2, CHR 0x80, CHR 0xA8],
      [CHR 0xE2, CHR 0x80, CHR 0xA9], [CHR 0xE2, CHR 0x80, CHR 0xAF], [CHR 0xE2, CHR 0x81, CHR 0x9F],
      [CHR 0xE3, CHR 0x80, CHR 0x80]]"

text \<open>Length in bytes of the space at the front of a string, 0 if there is none.\<close>

fun spaceLen :: "string list \<Rightarrow> string \<Rightarrow> nat" where
  "spaceLen ws [] = 0"
| "spaceLen ws (c # s) =
     (if c \<in> set asciiSpaces then 1
      else case filter (hasPrefix (c # s)) ws of [] \<Rightarrow> 0 | w # _ \<Rightarrow> length w)"

function stripSpaces :: "string list \<Rightarrow> string \<Rightarrow> string" where
  "stripSpaces ws s = (if spaceLen ws s = 0 then s else stripSpaces ws (drop (spaceLen ws s) s))"
  by pat_completeness auto
termination
proof (relation "measure (\<lambda>(ws, s). length s)", simp)
  fix ws s
  assume "spaceLen ws s \<noteq> 0"
  then show "((ws, drop (spaceLen ws s) s), ws, s) \<in> measure (\<lambda>(ws, s). length s)"
    by (cases s) auto
qed

declare stripSpaces.simps [simp del]

text \<open>\<open>strings.TrimSpace\<close>: the trailing side is the leading side of the reversed string.\<close>

definition trimSpace :: "string \<Rightarrow> string" where
  "trimSpace s = rev (stripSpaces (map rev wideSpaces) (rev (stripSpaces wideSpaces s)))"

text \<open>Splitting a string at its first space: the text before it and the rest.\<close>

function fieldEnd :: "string \<Rightarrow> string \<times> string" where
  "fieldEnd s =
     (case s of [] \<Rightarrow> ([], [])
      | c # t \<Rightarrow> if spaceLen wideSpaces s \<noteq> 0 then ([], s)
                 else (case fieldEnd t of (a, b) \<Rightarrow> (c # a, b)))"
  by pat_completeness auto
termination by (relation "measure length") auto

declare fieldEnd.simps [simp del]

lemma stripSpaces_length: "length (stripSpaces ws s) \<le> length s"
proof (induction ws s rule: stripSpaces.induct)
  case (1 ws s)
  then show ?case by (subst stripSpaces.simps) (auto intro: le_trans)
qed

lemma fieldEnd_length: "length (snd (fieldEnd s)) \<le> length s"
proof (induction s)
  case Nil
  then show ?case by (simp add: fieldEnd.simps)
next
  case (Cons c s)
  then show ?case by (subst fieldEnd.simps) (auto split: prod.splits)
qed

lemma stripSpaces_nospace: "spaceLen ws (stripSpaces ws s) = 0"
proof (induction ws s rule: stripSpaces.induct)
  case (1 ws s)
  then show ?case by (subst stripSpaces.simps) (auto simp: stripSpaces.simps)
qed

lemma fieldEnd_shrinks: "spaceLen wideSpaces (c # s) = 0 \<Longrightarrow> length (snd (fieldEnd (c # s))) < length (c # s)"
  using fieldEnd_length [of s] by (subst fieldEnd.simps) (auto split: prod.splits)

text \<open>\<open>strings.Fields\<close>.\<close>

function goFields :: "string \<Rightarrow> string list" where
  "goFields s =
     (case stripSpaces wideSpaces s of [] \<Rightarrow> []
      | c # t \<Rightarrow> (case fieldEnd (c # t) of (a, b) \<Rightarrow> a # goFields b))"
  by pat_completeness auto
termination
proof (relation "measure length", goal_cases)
  case 1
  show ?case by simp
next
  case (2 s c t a b)
  then have st: "stripSpaces wideSpaces s = c # t" and p: "fieldEnd (c # t) = (a, b)"
    by auto
  have "spaceLen wideSpaces (c # t) = 0" using stripSpaces_nospace [of wideSpaces s] st by simp
  then have "length b < length (c # t)"
    using fieldEnd_shrinks [of c t] p by (metis snd_conv)
  moreover have "length (c # t) \<le> length s" using stripSpaces_length [of wideSpaces s] st by simp
  ultimately show ?case by simp
qed

declare goFields.simps [simp del]

section \<open>Splitting and joining\<close>

text \<open>\<open>strings.Split\<close> on a one-byte separator: always at least one piece.\<close>

fun splitOn :: "char \<Rightarrow> string \<Rightarrow> string list" where
  "splitOn c [] = [[]]"
| "splitOn c (d # s) =
     (if d = c then [] # splitOn c s
      else case splitOn c s of p # ps \<Rightarrow> (d # p) # ps | [] \<Rightarrow> [[d]])"

text \<open>\<open>strings.Join\<close>.\<close>

fun joinStr :: "string \<Rightarrow> string list \<Rightarrow> string" where
  "joinStr sep [] = []"
| "joinStr sep [x] = x"
| "joinStr sep (x # y # xs) = x @ sep @ joinStr sep (y # xs)"

section \<open>Decimal numbers\<close>

definition digitChar :: "nat \<Rightarrow> char" where
  "digitChar d = char_of (48 + d)"

definition isDigit :: "char \<Rightarrow> bool" where
  "isDigit c \<longleftrightarrow> 48 \<le> (of_char c :: nat) \<and> (of_char c :: nat) \<le> 57"

definition digitVal :: "char \<Rightarrow> int" where
  "digitVal c = int (of_char c) - 48"

text \<open>The verb \<open>%d\<close> of \<open>fmt.Sprintf\<close>, \<open>strconv.Itoa\<close> and \<open>strconv.FormatInt(n, 10)\<close>.\<close>

fun itoaNat :: "nat \<Rightarrow> string" where
  "itoaNat n = (if n < 10 then [digitChar n] else itoaNat (n div 10) @ [digitChar (n mod 10)])"

declare itoaNat.simps [simp del]

definition itoa :: "int \<Rightarrow> string" where
  "itoa n = (if n < 0 then CHR ''-'' # itoaNat (nat (- n)) else itoaNat (nat n))"

fun atoi :: "int \<Rightarrow> string \<Rightarrow> int option" where
  "atoi acc [] = Some acc"
| "atoi acc (c # s) = (if isDigit c then atoi (10 * acc + digitVal c) s else None)"

text \<open>
  \<open>strconv.ParseInt(s, 10, bits)\<close>: an optional sign, at least one digit, digits only, and a value
  in the range of a signed integer of \<open>bits\<close> bits; \<open>None\<close> is a syntax or a range error.
\<close>

definition parseInt :: "nat \<Rightarrow> string \<Rightarrow> int option" where
  "parseInt bits s =
     (case s of [] \<Rightarrow> None
      | c # t \<Rightarrow>
         (let neg = (c = CHR ''-''); body = (if c = CHR ''-'' \<or> c = CHR ''+'' then t else s) in
          if body = [] then None
          else case atoi 0 body of None \<Rightarrow> None
           | Some n \<Rightarrow>
               if neg then (if n > 2 ^ (bits - 1) then None else Some (- n))
               else (if n \<ge> 2 ^ (bits - 1) then None else Some n)))"

lemma of_char_less [simp]: "(of_char c :: nat) < 256"
  by (metis nat_of_char_less_256)

lemma digitChar_props:
  "d < 10 \<Longrightarrow> isDigit (digitChar d)"
  "d < 10 \<Longrightarrow> digitVal (digitChar d) = int d"
  by (simp_all add: digitChar_def isDigit_def digitVal_def of_char_of)

lemma digitVal_nonneg: "isDigit c \<Longrightarrow> 0 \<le> digitVal c"
  by (simp add: isDigit_def digitVal_def)

lemma itoaNat_nonempty [simp]: "itoaNat n \<noteq> []"
  by (subst itoaNat.simps) simp

lemma itoaNat_digits: "c \<in> set (itoaNat n) \<Longrightarrow> isDigit c"
proof (induction n rule: itoaNat.induct)
  case (1 n)
  then show ?case
    by (subst (asm) (2) itoaNat.simps) (auto simp: digitChar_props split: if_splits)
qed

lemma atoi_append:
  "atoi acc (s @ t) = (case atoi acc s of None \<Rightarrow> None | Some n \<Rightarrow> atoi n t)"
  by (induction acc s rule: atoi.induct) auto

lemma atoi_itoaNat: "atoi 0 (itoaNat n) = Some (int n)"
proof (induction n rule: itoaNat.induct)
  case (1 n)
  show ?case
    using "1" by (subst itoaNat.simps) (auto simp: atoi_append digitChar_props zdiv_int zmod_int)
qed

lemma atoi_nonneg: "atoi acc s = Some n \<Longrightarrow> 0 \<le> acc \<Longrightarrow> 0 \<le> n"
  by (induction acc s rule: atoi.induct) (auto simp: digitVal_nonneg split: if_splits)

lemma itoaNat_inj: "itoaNat m = itoaNat n \<Longrightarrow> m = n"
  by (metis atoi_itoaNat of_nat_eq_iff option.inject)

lemma isDigit_not:
  "\<not> isDigit (CHR ''-'')" "\<not> isDigit (CHR ''+'')" "\<not> isDigit (CHR '','')" "\<not> isDigit (CHR '' '')"
  by (simp_all add: isDigit_def)

lemma parseInt_itoa:
  assumes "- (2 ^ (bits - 1)) \<le> n" "n < 2 ^ (bits - 1)"
  shows "parseInt bits (itoa n) = Some n"
proof (cases "n < 0")
  case True
  then show ?thesis using assms by (simp add: itoa_def parseInt_def atoi_itoaNat)
next
  case False
  obtain c t where ct: "itoaNat (nat n) = c # t"
    using itoaNat_nonempty by (metis neq_Nil_conv)
  have "isDigit c" using itoaNat_digits [of c "nat n"] ct by simp
  then have "c \<noteq> CHR ''-''" "c \<noteq> CHR ''+''" using isDigit_not by auto
  then show ?thesis
    using False assms ct atoi_itoaNat [of "nat n"] by (simp add: itoa_def parseInt_def)
qed

lemma parseInt_range:
  "parseInt bits s = Some n \<Longrightarrow> - (2 ^ (bits - 1)) \<le> n \<and> n < 2 ^ (bits - 1)"
proof -
  assume p: "parseInt bits s = Some n"
  have pos: "(0 :: int) < 2 ^ (bits - 1)" by simp
  from p obtain t m where "atoi 0 t = Some m"
    "n = - m \<and> m \<le> 2 ^ (bits - 1) \<or> n = m \<and> m < 2 ^ (bits - 1)"
    by (auto simp: parseInt_def Let_def not_le not_less simp del: atoi.simps
        split: list.splits option.splits if_splits)
  with atoi_nonneg [of 0 t m] pos show ?thesis by linarith
qed

end
