(* ===== verification/TacTypes.thy ===== *)
theory TacTypes
  imports GoStrings
begin

text \<open>
  The three-address code of \<open>internal/tac/types.go\<close>: opcodes and their spellings, operands,
  instructions, functions and modules, and the per-instruction verifier \<open>VerifyInstruction\<close>.
  A Go \<open>int\<close> enumeration also has values outside its declared constants; the constructors
  \<open>InstructionUnknown\<close> and \<open>OpcodeUnknown\<close> stand for them, so that the \<open>default\<close> branches of
  the code are branches of the model.
\<close>

section \<open>Instruction kinds and opcodes\<close>

datatype instructionKind =
    InstructionLabel | InstructionOp | InstructionJmp | InstructionBr | InstructionRet
  | InstructionUnknown int

datatype opcode =
    OpcodeInvalid | OpcodeConstI32 | OpcodeConstI8 | OpcodeCopy
  | OpcodeAdd | OpcodeSub | OpcodeMul | OpcodeDivS | OpcodeModS
  | OpcodeAnd | OpcodeOr | OpcodeXor | OpcodeShl | OpcodeShrS
  | OpcodeEq | OpcodeNe | OpcodeLtS | OpcodeLeS | OpcodeGtS | OpcodeGeS
  | OpcodeNeg | OpcodeNot | OpcodeLogicNot | OpcodeCall
  | OpcodeAlloca | OpcodeLoad | OpcodeStore | OpcodeLoadIndirect | OpcodeStoreIndirect
  | OpcodeUnknown int

fun opcodeNames :: "opcode \<Rightarrow> string option" where
  "opcodeNames OpcodeConstI32 = Some ''const.i32''"
| "opcodeNames OpcodeConstI8 = Some ''const.i8''"
| "opcodeNames OpcodeCopy = Some ''copy''"
| "opcodeNames OpcodeAdd = Some ''add''"
| "opcodeNames OpcodeSub = Some ''sub''"
| "opcodeNames OpcodeMul = Some ''mul''"
| "opcodeNames OpcodeDivS = Some ''div_s''"
| "opcodeNames OpcodeModS = Some ''mod_s''"
| "opcodeNames OpcodeAnd = Some ''and''"
| "opcodeNames OpcodeOr = Some ''or''"
| "opcodeNames OpcodeXor = Some ''xor''"
| "opcodeNames OpcodeShl = Some ''shl''"
| "opcodeNames OpcodeShrS = Some ''shr_s''"
| "opcodeNames OpcodeEq = Some ''eq''"
| "opcodeNames OpcodeNe = Some ''ne''"
| "opcodeNames OpcodeLtS = Some ''lt_s''"
| "opcodeNames OpcodeLeS = Some ''le_s''"
| "opcodeNames OpcodeGtS = Some ''gt_s''"
| "opcodeNames OpcodeGeS = Some ''ge_s''"
| "opcodeNames OpcodeNeg = Some ''neg''"
| "opcodeNames OpcodeNot = Some ''not''"
| "opcodeNames OpcodeLogicNot = Some ''logic_not''"
| "opcodeNames OpcodeCall = Some ''call''"
| "opcodeNames OpcodeAlloca = Some ''alloca''"
| "opcodeNames OpcodeLoad = Some ''load''"
| "opcodeNames OpcodeStore = Some ''store''"
| "opcodeNames OpcodeLoadIndirect = Some ''load.ind''"
| "opcodeNames OpcodeStoreIndirect = Some ''store.ind''"
| "opcodeNames OpcodeInvalid = None"
| "opcodeNames (OpcodeUnknown n) = None"

text \<open>The keys of the Go map \<open>opcodeNames\<close>, over which \<open>init\<close> builds the inverse map.\<close>

definition namedOpcodes :: "opcode list" where
  "namedOpcodes =
     [OpcodeConstI32, OpcodeConstI8, OpcodeCopy, OpcodeAdd, OpcodeSub, OpcodeMul, OpcodeDivS,
      OpcodeModS, OpcodeAnd, OpcodeOr, OpcodeXor, OpcodeShl, OpcodeShrS, OpcodeEq, OpcodeNe,
      OpcodeLtS, OpcodeLeS, OpcodeGtS, OpcodeGeS, OpcodeNeg, OpcodeNot, OpcodeLogicNot,
      OpcodeCall, OpcodeAlloca, OpcodeLoad, OpcodeStore, OpcodeLoadIndirect, OpcodeStoreIndirect]"

definition coreOpcodeByName :: "string \<Rightarrow> opcode option" where
  "coreOpcodeByName name = find (\<lambda>op. opcodeNames op = Some name) namedOpcodes"

definition ParseOpcode :: "string \<Rightarrow> opcode \<times> bool \<times> bool" where
  "ParseOpcode name =
     (case coreOpcodeByName name of
        Some op \<Rightarrow> (op, True, False)
      | None \<Rightarrow>
          (OpcodeInvalid, False,
           name \<in> set [''gep'', ''zext'', ''sext'', ''trunc'', ''bitcast'', ''phi'']))"

definition opcodeString :: "opcode \<Rightarrow> string" where
  "opcodeString op = (case opcodeNames op of Some name \<Rightarrow> name | None \<Rightarrow> ''invalid'')"

lemma opcodeNames_dom: "opcodeNames op = Some name \<Longrightarrow> op \<in> set namedOpcodes"
  by (cases op) (simp_all add: namedOpcodes_def)

definition opcodeSpellings :: "string list" where
  "opcodeSpellings =
     [''const.i32'', ''const.i8'', ''copy'', ''add'', ''sub'', ''mul'', ''div_s'', ''mod_s'', ''and'',
      ''or'', ''xor'', ''shl'', ''shr_s'', ''eq'', ''ne'', ''lt_s'', ''le_s'', ''gt_s'', ''ge_s'', ''neg'',
      ''not'', ''logic_not'', ''call'', ''alloca'', ''load'', ''store'', ''load.ind'', ''store.ind'']"

lemma opcodeSpellings_distinct: "distinct opcodeSpellings"
  by (simp add: opcodeSpellings_def)

lemma opcodeNames_named: "map opcodeNames namedOpcodes = map Some opcodeSpellings"
  by (simp add: namedOpcodes_def opcodeSpellings_def)

lemma opcodeNames_inj: "inj_on opcodeNames (set namedOpcodes)"
proof -
  have "distinct (map opcodeNames namedOpcodes)"
    unfolding opcodeNames_named using opcodeSpellings_distinct by (simp add: distinct_map)
  then show ?thesis by (rule distinct_map [THEN iffD1, THEN conjunct2])
qed

lemma find_unique:
  assumes "x \<in> set xs" "P x" "\<And>y. y \<in> set xs \<Longrightarrow> P y \<Longrightarrow> y = x"
  shows "find P xs = Some x"
proof (cases "find P xs")
  case None
  with assms(1,2) show ?thesis by (auto simp: find_None_iff)
next
  case (Some y)
  then have "y \<in> set xs" "P y" by (auto simp: find_Some_iff)
  with assms(3) Some show ?thesis by blast
qed

lemma coreOpcodeByName_iff: "coreOpcodeByName name = Some op \<longleftrightarrow> opcodeNames op = Some name"
proof
  assume "coreOpcodeByName name = Some op"
  then show "opcodeNames op = Some name"
    by (auto simp: coreOpcodeByName_def find_Some_iff)
next
  assume *: "opcodeNames op = Some name"
  show "coreOpcodeByName name = Some op"
    unfolding coreOpcodeByName_def
  proof (rule find_unique)
    show "op \<in> set namedOpcodes" using * by (rule opcodeNames_dom)
    show "opcodeNames op = Some name" by (rule *)
  next
    fix y
    assume "y \<in> set namedOpcodes" "opcodeNames y = Some name"
    with * show "y = op" by (metis inj_onD opcodeNames_dom opcodeNames_inj)
  qed
qed

lemma ParseOpcode_opcodeString: "ParseOpcode (opcodeString op) = (op, True, False) \<longleftrightarrow> op \<in> set namedOpcodes"
proof (cases "opcodeNames op")
  case None
  then have "op \<notin> set namedOpcodes" by (auto simp: namedOpcodes_def)
  moreover have "coreOpcodeByName ''invalid'' = None" by code_simp
  ultimately show ?thesis using None by (auto simp: ParseOpcode_def opcodeString_def)
next
  case (Some name)
  then have "coreOpcodeByName name = Some op" by (simp add: coreOpcodeByName_iff)
  then show ?thesis using Some by (simp add: ParseOpcode_def opcodeString_def opcodeNames_dom)
qed

section \<open>Operands\<close>

datatype operandKind =
    OperandInvalid | OperandTemp | OperandParam | OperandImmediate | OperandLabel
  | OperandFunctionSymbol | OperandStackSlotPointer

record operand =
  opKind :: operandKind
  opText :: string

definition zeroOperand :: operand where
  "zeroOperand = \<lparr>opKind = OperandInvalid, opText = []\<rparr>"

definition Temp :: "string \<Rightarrow> operand" where
  "Temp name = \<lparr>opKind = OperandTemp, opText = name\<rparr>"

definition Param :: "string \<Rightarrow> operand" where
  "Param name = \<lparr>opKind = OperandParam, opText = name\<rparr>"

definition Immediate :: "string \<Rightarrow> operand" where
  "Immediate val = \<lparr>opKind = OperandImmediate, opText = val\<rparr>"

definition Label :: "string \<Rightarrow> operand" where
  "Label name = \<lparr>opKind = OperandLabel, opText = name\<rparr>"

definition FunctionSymbol :: "string \<Rightarrow> operand" where
  "FunctionSymbol name = \<lparr>opKind = OperandFunctionSymbol, opText = name\<rparr>"

definition StackSlotPointer :: "string \<Rightarrow> operand" where
  "StackSlotPointer name = \<lparr>opKind = OperandStackSlotPointer, opText = name\<rparr>"

named_theorems operand_defs \<open>the operand constructors\<close>

lemmas [operand_defs] = zeroOperand_def Temp_def Param_def Immediate_def Label_def
  FunctionSymbol_def StackSlotPointer_def

lemma operand_kinds [simp]:
  "opKind zeroOperand = OperandInvalid" "opKind (Temp n) = OperandTemp"
  "opKind (Param n) = OperandParam" "opKind (Immediate n) = OperandImmediate"
  "opKind (Label n) = OperandLabel" "opKind (FunctionSymbol n) = OperandFunctionSymbol"
  "opKind (StackSlotPointer n) = OperandStackSlotPointer"
  by (simp_all add: operand_defs)

lemma operand_texts [simp]:
  "opText zeroOperand = []" "opText (Temp n) = n" "opText (Param n) = n"
  "opText (Immediate n) = n" "opText (Label n) = n" "opText (FunctionSymbol n) = n"
  "opText (StackSlotPointer n) = n"
  by (simp_all add: operand_defs)

section \<open>Instructions, functions, modules\<close>

record instruction =
  instKind :: instructionKind
  instLabel :: string
  hasDestination :: bool
  destination :: operand
  instOpcode :: opcode
  operands :: "operand list"
  callCallee :: string
  callArgs :: "operand list"
  condition :: operand
  trueLabel :: operand
  falseLabel :: operand
  hasReturnValue :: bool
  returnValue :: operand

text \<open>The zero value \<open>Instruction{}\<close> with a given \<open>Kind\<close>; the code fills in the other fields.\<close>

definition newInst :: "instructionKind \<Rightarrow> instruction" where
  "newInst k =
     \<lparr>instKind = k, instLabel = [], hasDestination = False, destination = zeroOperand,
      instOpcode = OpcodeInvalid, operands = [], callCallee = [], callArgs = [],
      condition = zeroOperand, trueLabel = zeroOperand, falseLabel = zeroOperand,
      hasReturnValue = False, returnValue = zeroOperand\<rparr>"

record parameter =
  paramName :: string
  paramType :: string

record tacFunction =
  fnName :: string
  parameters :: "parameter list"
  returnType :: string
  instructions :: "instruction list"
  nextTempID :: nat

record tacModule =
  modFunctions :: "tacFunction list"

lemma newInst_sel [simp]:
  "instKind (newInst k) = k" "instLabel (newInst k) = []" "hasDestination (newInst k) = False"
  "destination (newInst k) = zeroOperand" "instOpcode (newInst k) = OpcodeInvalid"
  "operands (newInst k) = []" "callCallee (newInst k) = []" "callArgs (newInst k) = []"
  "condition (newInst k) = zeroOperand" "trueLabel (newInst k) = zeroOperand"
  "falseLabel (newInst k) = zeroOperand" "hasReturnValue (newInst k) = False"
  "returnValue (newInst k) = zeroOperand"
  by (simp_all add: newInst_def)

section \<open>VerifyInstruction\<close>

datatype verifyError =
    LabelRequired | JmpTargetNotLabel | BrConditionUnset | BrTargetsNotLabels
  | RetValueInvalid | OpcodeRequired
  | OperandCount opcode nat nat
  | OperandKindMismatch opcode nat operandKind operandKind
  | CopyOperand | BinaryOperands opcode | UnaryOperand opcode
  | LoadOperand | StoreOperands | LoadIndirectOperand | StoreIndirectOperands
  | CallCalleeRequired | CallCalleeNotSymbol | CallArgNotValue nat | CallUsesOperands
  | UnsupportedOpcode opcode | DestinationKind | UnsupportedInstructionKind instructionKind

definition valueKind :: "operandKind \<Rightarrow> bool" where
  "valueKind k \<longleftrightarrow>
     k = OperandTemp \<or> k = OperandParam \<or> k = OperandImmediate \<or> k = OperandStackSlotPointer"

definition isFunctionSymbol :: "string \<Rightarrow> bool" where
  "isFunctionSymbol name \<longleftrightarrow> length name > 1 \<and> hd name = CHR ''@''"

text \<open>The closure \<open>requireKinds\<close>: a count check, then the first operand of a wrong kind.\<close>

fun requireKindsFrom :: "opcode \<Rightarrow> nat \<Rightarrow> operandKind list \<Rightarrow> operand list \<Rightarrow> verifyError + unit" where
  "requireKindsFrom op i (want # kinds) (x # xs) =
     (if opKind x \<noteq> want then Inl (OperandKindMismatch op (i + 1) want (opKind x))
      else requireKindsFrom op (i + 1) kinds xs)"
| "requireKindsFrom op i _ _ = Inr ()"

definition requireKinds :: "instruction \<Rightarrow> operandKind list \<Rightarrow> verifyError + unit" where
  "requireKinds inst kinds =
     (if length (operands inst) \<noteq> length kinds
      then Inl (OperandCount (instOpcode inst) (length kinds) (length (operands inst)))
      else requireKindsFrom (instOpcode inst) 0 kinds (operands inst))"

fun callArgsOk :: "nat \<Rightarrow> operand list \<Rightarrow> verifyError + unit" where
  "callArgsOk i [] = Inr ()"
| "callArgsOk i (a # as) =
     (if \<not> valueKind (opKind a) then Inl (CallArgNotValue (i + 1)) else callArgsOk (i + 1) as)"

text \<open>The check of the destination that ends \<open>verifyOpcodeOperands\<close>.\<close>

definition destinationOk :: "instruction \<Rightarrow> verifyError + unit" where
  "destinationOk inst =
     guardE (\<not> (hasDestination inst \<and> opKind (destination inst) \<noteq> OperandTemp
               \<and> opKind (destination inst) \<noteq> OperandStackSlotPointer)) DestinationKind"

definition oneValue :: "operand list \<Rightarrow> bool" where
  "oneValue ops \<longleftrightarrow> length ops = 1 \<and> valueKind (opKind (ops ! 0))"

definition twoValues :: "operand list \<Rightarrow> bool" where
  "twoValues ops \<longleftrightarrow> length ops = 2 \<and> valueKind (opKind (ops ! 0)) \<and> valueKind (opKind (ops ! 1))"

definition binaryOpcodes :: "opcode list" where
  "binaryOpcodes =
     [OpcodeAdd, OpcodeSub, OpcodeMul, OpcodeDivS, OpcodeModS, OpcodeAnd, OpcodeOr, OpcodeXor,
      OpcodeShl, OpcodeShrS, OpcodeEq, OpcodeNe, OpcodeLtS, OpcodeLeS, OpcodeGtS, OpcodeGeS]"

definition unaryOpcodes :: "opcode list" where
  "unaryOpcodes = [OpcodeNeg, OpcodeNot, OpcodeLogicNot]"

definition verifyOpcodeOperands :: "instruction \<Rightarrow> verifyError + unit" where
  "verifyOpcodeOperands inst =
     (let op = instOpcode inst; ops = operands inst in
      if op = OpcodeConstI32 \<or> op = OpcodeConstI8 then requireKinds inst [OperandImmediate]
      else if op = OpcodeAlloca then requireKinds inst [OperandImmediate]
      else bindE
        (if op = OpcodeCopy then guardE (oneValue ops) CopyOperand
         else if op \<in> set binaryOpcodes then guardE (twoValues ops) (BinaryOperands op)
         else if op \<in> set unaryOpcodes then guardE (oneValue ops) (UnaryOperand op)
         else if op = OpcodeLoad then
           guardE (length ops = 1 \<and> opKind (ops ! 0) = OperandStackSlotPointer) LoadOperand
         else if op = OpcodeStore then
           guardE (length ops = 2 \<and> opKind (ops ! 0) = OperandStackSlotPointer
                   \<and> valueKind (opKind (ops ! 1))) StoreOperands
         else if op = OpcodeLoadIndirect then guardE (oneValue ops) LoadIndirectOperand
         else if op = OpcodeStoreIndirect then guardE (twoValues ops) StoreIndirectOperands
         else if op = OpcodeCall then
           bindE (guardE (callCallee inst \<noteq> []) CallCalleeRequired) (\<lambda>_.
           bindE (guardE (isFunctionSymbol (callCallee inst)) CallCalleeNotSymbol) (\<lambda>_.
           bindE (callArgsOk 0 (callArgs inst)) (\<lambda>_.
             guardE (ops = []) CallUsesOperands)))
         else Inl (UnsupportedOpcode op))
        (\<lambda>_. destinationOk inst))"

definition VerifyInstruction :: "instruction \<Rightarrow> verifyError + unit" where
  "VerifyInstruction inst =
     (case instKind inst of
        InstructionLabel \<Rightarrow> guardE (instLabel inst \<noteq> []) LabelRequired
      | InstructionJmp \<Rightarrow> guardE (opKind (trueLabel inst) = OperandLabel) JmpTargetNotLabel
      | InstructionBr \<Rightarrow>
          bindE (guardE (opKind (condition inst) \<noteq> OperandInvalid) BrConditionUnset) (\<lambda>_.
            guardE (opKind (trueLabel inst) = OperandLabel \<and> opKind (falseLabel inst) = OperandLabel)
              BrTargetsNotLabels)
      | InstructionRet \<Rightarrow>
          guardE (\<not> (hasReturnValue inst \<and> opKind (returnValue inst) = OperandInvalid)) RetValueInvalid
      | InstructionOp \<Rightarrow>
          bindE (guardE (instOpcode inst \<noteq> OpcodeInvalid) OpcodeRequired) (\<lambda>_.
            verifyOpcodeOperands inst)
      | InstructionUnknown n \<Rightarrow> Inl (UnsupportedInstructionKind (instKind inst)))"

lemma callArgsOk_iff: "callArgsOk i as = Inr () \<longleftrightarrow> (\<forall>a \<in> set as. valueKind (opKind a))"
  by (induction as arbitrary: i) auto

lemma requireKindsFrom_iff:
  "length xs = length kinds \<Longrightarrow>
     requireKindsFrom op i kinds xs = Inr () \<longleftrightarrow> map opKind xs = kinds"
  by (induction op i kinds xs rule: requireKindsFrom.induct) auto

lemma requireKinds_iff: "requireKinds inst kinds = Inr () \<longleftrightarrow> map opKind (operands inst) = kinds"
  by (auto simp: requireKinds_def requireKindsFrom_iff dest: arg_cong [where f = length])

lemma valueKind_simps [simp]:
  "valueKind OperandTemp" "valueKind OperandParam" "valueKind OperandImmediate"
  "valueKind OperandStackSlotPointer" "\<not> valueKind OperandInvalid" "\<not> valueKind OperandLabel"
  "\<not> valueKind OperandFunctionSymbol"
  by (simp_all add: valueKind_def)

lemma isFunctionSymbol_Cons: "isFunctionSymbol (CHR ''@'' # name) \<longleftrightarrow> name \<noteq> []"
  by (auto simp: isFunctionSymbol_def)

section \<open>Classes of instructions\<close>

text \<open>Labels, jump targets and terminators, as the validator, the CFG builder and the evaluator
  read them off an instruction.\<close>

definition isTerminatorKind :: "instructionKind \<Rightarrow> bool" where
  "isTerminatorKind k \<longleftrightarrow> k = InstructionJmp \<or> k = InstructionBr \<or> k = InstructionRet"

definition isTerminator :: "instruction \<Rightarrow> bool" where
  "isTerminator inst \<longleftrightarrow> isTerminatorKind (instKind inst)"

definition targetsOf :: "instruction \<Rightarrow> string list" where
  "targetsOf inst =
     (case instKind inst of
        InstructionJmp \<Rightarrow> [opText (trueLabel inst)]
      | InstructionBr \<Rightarrow> [opText (trueLabel inst), opText (falseLabel inst)]
      | _ \<Rightarrow> [])"

definition labelsOf :: "instruction list \<Rightarrow> string list" where
  "labelsOf insts = map instLabel (filter (\<lambda>i. instKind i = InstructionLabel) insts)"

lemma labelsOf_simps [simp]:
  "labelsOf [] = []"
  "labelsOf (i # is) = (if instKind i = InstructionLabel then instLabel i # labelsOf is else labelsOf is)"
  "labelsOf (xs @ ys) = labelsOf xs @ labelsOf ys"
  by (simp_all add: labelsOf_def)

lemma isTerminatorKind_simps [simp]:
  "isTerminatorKind InstructionJmp" "isTerminatorKind InstructionBr" "isTerminatorKind InstructionRet"
  "\<not> isTerminatorKind InstructionOp" "\<not> isTerminatorKind InstructionLabel"
  "\<not> isTerminatorKind (InstructionUnknown n)"
  by (simp_all add: isTerminatorKind_def)

end
