(* ===== verification/TacValidate.thy ===== *)
theory TacValidate
  imports TacTypes "HOL-Library.Multiset"
begin

text \<open>
  The function validator of \<open>internal/tac/validate.go\<close>: collection of label definitions, discovery
  of block starts, the exchange sort, block formation and linking, and the block index. Section
  \<open>Correctness\<close> shows that the whole procedure decides four readable conditions.
\<close>

section \<open>Blocks and the block index\<close>

type_synonym blockID = int

record irBlock =
  irId :: blockID
  irStart :: nat
  irLabel :: string
  irTerminator :: instructionKind
  irSuccessors :: "blockID list"

record irBlockIndex =
  idxBlocks :: "irBlock list"
  labelToBlock :: "string \<rightharpoonup> blockID"

definition newIRBlockIndex :: "irBlock list \<Rightarrow> irBlockIndex" where
  "newIRBlockIndex blocks =
     \<lparr>idxBlocks = blocks,
      labelToBlock = foldl (\<lambda>m b. if irLabel b = [] then m else m(irLabel b \<mapsto> irId b)) Map.empty blocks\<rparr>"

definition irBlockByLabel :: "irBlockIndex \<Rightarrow> string \<Rightarrow> blockID option" where
  "irBlockByLabel idx label = labelToBlock idx label"

definition irEnsureLabel :: "irBlockIndex \<Rightarrow> blockID \<Rightarrow> string \<times> irBlockIndex" where
  "irEnsureLabel idx bid =
     (if bid < 0 \<or> bid \<ge> int (length (idxBlocks idx)) then ([], idx)
      else if irLabel (idxBlocks idx ! nat bid) \<noteq> [] then (irLabel (idxBlocks idx ! nat bid), idx)
      else let label = ''.B'' @ itoa bid in
        (label,
         idx\<lparr>idxBlocks := (idxBlocks idx)[nat bid := (idxBlocks idx ! nat bid)\<lparr>irLabel := label\<rparr>],
             labelToBlock := (labelToBlock idx)(label \<mapsto> bid)\<rparr>))"

section \<open>Validation\<close>

datatype irError =
    InvalidInstruction string nat verifyError
  | LabelRedefined string string
  | UndefinedJump string string
  | UndefinedBranch string string
  | BlockBoundaries string
  | TerminatorNotLast string nat
  | MissingBlockMapping string string
  | NoEntryBlock string
  | EntryNotFirst string
  | SuccessorOutOfRange string int
  | NoFallthrough string string

text \<open>A read of a Go map with an \<open>int\<close> element type: the zero value when the key is absent.\<close>

definition mapGet0 :: "('k \<rightharpoonup> 'n::zero) \<Rightarrow> 'k \<Rightarrow> 'n" where
  "mapGet0 m k = (case m k of Some v \<Rightarrow> v | None \<Rightarrow> 0)"

text \<open>The first loop of \<open>ValidateFunctionIR\<close>: verify each instruction, record each label.\<close>

fun collectLabelDefs ::
  "string \<Rightarrow> nat \<Rightarrow> instruction list \<Rightarrow> (string \<rightharpoonup> nat) \<Rightarrow> irError + (string \<rightharpoonup> nat)" where
  "collectLabelDefs name i [] defs = Inr defs"
| "collectLabelDefs name i (inst # rest) defs =
     bindE (mapErr (InvalidInstruction name i) (VerifyInstruction inst)) (\<lambda>_.
       if instKind inst \<noteq> InstructionLabel then collectLabelDefs name (i + 1) rest defs
       else if defs (instLabel inst) \<noteq> None then Inl (LabelRedefined name (instLabel inst))
       else collectLabelDefs name (i + 1) rest (defs(instLabel inst \<mapsto> i)))"

text \<open>\<open>starts\<close> and \<open>seenStarts\<close>, and the guarded append that occurs six times in the code.\<close>

type_synonym startSet = "nat list \<times> nat set"

definition addStart :: "nat \<Rightarrow> startSet \<Rightarrow> startSet" where
  "addStart idx acc =
     (case acc of (starts, seen) \<Rightarrow>
        if idx \<in> seen then (starts, seen) else (starts @ [idx], insert idx seen))"

definition addNext :: "nat \<Rightarrow> nat \<Rightarrow> startSet \<Rightarrow> startSet" where
  "addNext n i acc = (if i + 1 < n then addStart (i + 1) acc else acc)"

fun collectStarts ::
  "string \<Rightarrow> nat \<Rightarrow> (string \<rightharpoonup> nat) \<Rightarrow> nat \<Rightarrow> instruction list \<Rightarrow> startSet \<Rightarrow> irError + startSet" where
  "collectStarts name n defs i [] acc = Inr acc"
| "collectStarts name n defs i (inst # rest) acc =
     (case instKind inst of
        InstructionJmp \<Rightarrow>
          (case defs (opText (trueLabel inst)) of
             None \<Rightarrow> Inl (UndefinedJump name (opText (trueLabel inst)))
           | Some idx \<Rightarrow>
               collectStarts name n defs (i + 1) rest (addNext n i (addStart idx acc)))
      | InstructionBr \<Rightarrow>
          (case defs (opText (trueLabel inst)) of
             None \<Rightarrow> Inl (UndefinedBranch name (opText (trueLabel inst)))
           | Some trueIdx \<Rightarrow>
             (case defs (opText (falseLabel inst)) of
                None \<Rightarrow> Inl (UndefinedBranch name (opText (falseLabel inst)))
              | Some falseIdx \<Rightarrow>
                  collectStarts name n defs (i + 1) rest
                    (addNext n i (addStart falseIdx (addStart trueIdx acc)))))
      | InstructionRet \<Rightarrow> collectStarts name n defs (i + 1) rest (addNext n i acc)
      | _ \<Rightarrow> collectStarts name n defs (i + 1) rest acc)"

text \<open>The exchange sort: \<open>sortInner\<close> is the loop over \<open>j\<close>, \<open>sortOuter\<close> the loop over \<open>i\<close>.\<close>

function sortInner :: "nat \<Rightarrow> nat \<Rightarrow> nat list \<Rightarrow> nat list" where
  "sortInner i j xs =
     (if j < length xs
      then sortInner i (j + 1) (if xs ! j < xs ! i then xs[i := xs ! j, j := xs ! i] else xs)
      else xs)"
  by pat_completeness auto
termination by (relation "measure (\<lambda>(i, j, xs). length xs - j)") auto

lemma length_sortInner [simp]: "length (sortInner i j xs) = length xs"
proof (induction i j xs rule: sortInner.induct)
  case (1 i j xs)
  then show ?case by (subst sortInner.simps) (auto simp del: sortInner.simps)
qed

function sortOuter :: "nat \<Rightarrow> nat list \<Rightarrow> nat list" where
  "sortOuter i xs = (if i < length xs - 1 then sortOuter (i + 1) (sortInner i (i + 1) xs) else xs)"
  by pat_completeness auto
termination by (relation "measure (\<lambda>(i, xs). length xs - i)") (auto simp del: sortInner.simps)

declare sortInner.simps [simp del] sortOuter.simps [simp del]

text \<open>Block formation: each start with the next one (or the end of the function) as its end.\<close>

fun makeBlocks :: "string \<Rightarrow> instruction list \<Rightarrow> nat \<Rightarrow> nat list \<Rightarrow> irError + irBlock list" where
  "makeBlocks name all idx [] = Inr []"
| "makeBlocks name all idx (start # rest) =
     (let end' = (case rest of [] \<Rightarrow> length all | next # _ \<Rightarrow> next);
          insts = drop start (take end' all)
      in if end' \<le> start then Inl (BlockBoundaries name)
         else if \<exists>inst \<in> set (butlast insts). isTerminator inst
           then Inl (TerminatorNotLast name start)
         else bindE (makeBlocks name all (idx + 1) rest) (\<lambda>blocks.
           Inr (\<lparr>irId = int idx, irStart = start,
                 irLabel = (if instKind (hd insts) = InstructionLabel then instLabel (hd insts) else []),
                 irTerminator = instKind (last insts), irSuccessors = []\<rparr> # blocks)))"

definition startToID :: "irBlock list \<Rightarrow> nat \<rightharpoonup> blockID" where
  "startToID blocks = foldl (\<lambda>m b. m(irStart b \<mapsto> irId b)) Map.empty blocks"

definition blockSuccessors ::
  "(string \<rightharpoonup> nat) \<Rightarrow> (nat \<rightharpoonup> blockID) \<Rightarrow> instruction \<Rightarrow> blockID list" where
  "blockSuccessors defs ids inst =
     (case instKind inst of
        InstructionJmp \<Rightarrow> [mapGet0 ids (mapGet0 defs (opText (trueLabel inst)))]
      | InstructionBr \<Rightarrow>
          (let trueTarget = mapGet0 ids (mapGet0 defs (opText (trueLabel inst)));
               falseTarget = mapGet0 ids (mapGet0 defs (opText (falseLabel inst)))
           in if trueTarget = falseTarget then [trueTarget] else [trueTarget, falseTarget])
      | _ \<Rightarrow> [])"

fun linkBlocks ::
  "string \<Rightarrow> instruction list \<Rightarrow> (string \<rightharpoonup> nat) \<Rightarrow> (nat \<rightharpoonup> blockID) \<Rightarrow> irBlockIndex \<Rightarrow> irBlock list
    \<Rightarrow> irError + irBlock list" where
  "linkBlocks name all defs ids lookup [] = Inr []"
| "linkBlocks name all defs ids lookup (b # rest) =
     (let end' = (case rest of [] \<Rightarrow> length all | next # _ \<Rightarrow> irStart next);
          b' = b\<lparr>irSuccessors := blockSuccessors defs ids (all ! (end' - 1))\<rparr>
      in if irLabel b \<noteq> [] \<and> irBlockByLabel lookup (irLabel b) = None
         then Inl (MissingBlockMapping name (irLabel b))
         else bindE (linkBlocks name all defs ids lookup rest) (\<lambda>bs. Inr (b' # bs)))"

definition collectIRBlocks :: "tacFunction \<Rightarrow> (string \<rightharpoonup> nat) \<Rightarrow> irError + irBlock list" where
  "collectIRBlocks fn defs =
     (let name = fnName fn; all = instructions fn in
      bindE (collectStarts name (length all) defs 0 all ([0], {0})) (\<lambda>acc.
      bindE (makeBlocks name all 0 (sortOuter 0 (fst acc))) (\<lambda>blocks.
        linkBlocks name all defs (startToID blocks) (newIRBlockIndex blocks) blocks)))"

definition displayBlockName :: "irBlock \<Rightarrow> nat \<Rightarrow> string" where
  "displayBlockName b idx = (if irLabel b \<noteq> [] then irLabel b else CHR ''#'' # itoa (int idx))"

text \<open>The last loop of \<open>ValidateFunctionIR\<close>, at block \<open>i\<close> of \<open>n\<close>.\<close>

fun checkBlocks :: "string \<Rightarrow> nat \<Rightarrow> nat \<Rightarrow> irBlock list \<Rightarrow> irError + unit" where
  "checkBlocks name n i [] = Inr ()"
| "checkBlocks name n i (b # rest) =
     bindE (forE (\<lambda>succ. guardE (\<not> (succ < 0 \<or> succ \<ge> int n)) (SuccessorOutOfRange name succ))
              (irSuccessors b)) (\<lambda>_.
     bindE (guardE (\<not> ((irTerminator b = InstructionOp \<or> irTerminator b = InstructionLabel)
                       \<and> i + 1 \<ge> n)) (NoFallthrough name (displayBlockName b i))) (\<lambda>_.
       checkBlocks name n (i + 1) rest))"

definition ValidateFunctionIR :: "tacFunction \<Rightarrow> irError + unit" where
  "ValidateFunctionIR fn =
     (if instructions fn = [] then Inr ()
      else
        bindE (collectLabelDefs (fnName fn) 0 (instructions fn) Map.empty) (\<lambda>defs.
        bindE (collectIRBlocks fn defs) (\<lambda>blocks.
          case blocks of
            [] \<Rightarrow> Inl (NoEntryBlock (fnName fn))
          | b # _ \<Rightarrow>
              if irStart b \<noteq> 0 then Inl (EntryNotFirst (fnName fn))
              else checkBlocks (fnName fn) (length blocks) 0 blocks)))"

section \<open>Correctness\<close>

subsection \<open>Label collection\<close>

text \<open>The map from labels to positions that the validator, the CFG builder and the evaluator build.\<close>

fun labelMapFrom :: "nat \<Rightarrow> instruction list \<Rightarrow> (string \<rightharpoonup> nat) \<Rightarrow> (string \<rightharpoonup> nat)" where
  "labelMapFrom i [] d = d"
| "labelMapFrom i (x # xs) d =
     labelMapFrom (i + 1) xs (if instKind x = InstructionLabel then d(instLabel x \<mapsto> i) else d)"

abbreviation labelMap :: "instruction list \<Rightarrow> (string \<rightharpoonup> nat)" where
  "labelMap insts \<equiv> labelMapFrom 0 insts Map.empty"

lemma labelMapFrom_dom: "dom (labelMapFrom i xs d) = set (labelsOf xs) \<union> dom d"
  by (induction i xs d rule: labelMapFrom.induct) auto

lemma labelMapFrom_notin: "l \<notin> set (labelsOf xs) \<Longrightarrow> labelMapFrom i xs d l = d l"
  by (induction i xs d rule: labelMapFrom.induct) (auto split: if_splits)

lemma labelMapFrom_Some:
  "l \<in> set (labelsOf xs) \<Longrightarrow> labelMapFrom i xs d l = Some k \<Longrightarrow>
     i \<le> k \<and> k < i + length xs \<and> instKind (xs ! (k - i)) = InstructionLabel \<and> instLabel (xs ! (k - i)) = l"
proof (induction i xs d rule: labelMapFrom.induct)
  case (1 i d)
  then show ?case by simp
next
  case (2 i x xs d)
  show ?case
  proof (cases "l \<in> set (labelsOf xs)")
    case True
    with 2 have *: "i + 1 \<le> k \<and> k < i + 1 + length xs
        \<and> instKind (xs ! (k - (i + 1))) = InstructionLabel \<and> instLabel (xs ! (k - (i + 1))) = l"
      by simp
    then have "(x # xs) ! (k - i) = xs ! (k - (i + 1))"
      by (simp add: nth_Cons' Suc_diff_Suc)
    with * show ?thesis by simp
  next
    case False
    with 2 show ?thesis by (auto simp: labelMapFrom_notin split: if_splits)
  qed
qed

lemma labelMap_Some:
  "labelMap xs l = Some k \<Longrightarrow> k < length xs \<and> instKind (xs ! k) = InstructionLabel \<and> instLabel (xs ! k) = l"
  using labelMapFrom_Some [of l xs 0 Map.empty k] labelMapFrom_notin [of l xs 0 Map.empty]
  by (cases "l \<in> set (labelsOf xs)") auto

lemma labelMap_dom [simp]: "dom (labelMap xs) = set (labelsOf xs)"
  by (simp add: labelMapFrom_dom)

lemma labelMap_None_iff: "labelMap xs l = None \<longleftrightarrow> l \<notin> set (labelsOf xs)"
  by (metis domIff labelMap_dom)

lemma labelMapFrom_nth:
  "distinct (labelsOf xs) \<Longrightarrow> j < length xs \<Longrightarrow> instKind (xs ! j) = InstructionLabel \<Longrightarrow>
     labelMapFrom i xs d (instLabel (xs ! j)) = Some (i + j)"
proof (induction i xs d arbitrary: j rule: labelMapFrom.induct)
  case (1 i d)
  then show ?case by simp
next
  case (2 i x xs d)
  show ?case
  proof (cases j)
    case 0
    with 2 show ?thesis by (simp add: labelMapFrom_notin)
  next
    case (Suc k)
    with 2 have "distinct (labelsOf xs)" "k < length xs" by (auto split: if_splits)
    with 2 Suc show ?thesis by simp
  qed
qed

lemma collectLabelDefs_eq_Inr:
  "collectLabelDefs name i xs d = Inr m \<longleftrightarrow>
     (\<forall>x \<in> set xs. VerifyInstruction x = Inr ()) \<and> distinct (labelsOf xs)
     \<and> set (labelsOf xs) \<inter> dom d = {} \<and> m = labelMapFrom i xs d"
proof (induction name i xs d rule: collectLabelDefs.induct)
  case (1 name i defs)
  then show ?case by auto
next
  case (2 name i inst rest defs)
  show ?case
  proof (cases "VerifyInstruction inst")
    case (Inl e)
    then show ?thesis by simp
  next
    case (Inr u)
    then have v: "mapErr (InvalidInstruction name i) (VerifyInstruction inst) = Inr ()" by simp
    consider (other) "instKind inst \<noteq> InstructionLabel"
      | (dup) "instKind inst = InstructionLabel" "defs (instLabel inst) \<noteq> None"
      | (fresh) "instKind inst = InstructionLabel" "defs (instLabel inst) = None" by blast
    then show ?thesis
    proof cases
      case other
      with "2.IH"(1) [OF v] v Inr show ?thesis by simp
    next
      case dup
      with v show ?thesis by auto
    next
      case fresh
      define d where "d = defs(instLabel inst \<mapsto> i)"
      have step: "collectLabelDefs name i (inst # rest) defs = collectLabelDefs name (i + 1) rest d"
        using fresh v by (simp add: d_def)
      have IH: "collectLabelDefs name (i + 1) rest d = Inr m \<longleftrightarrow>
          (\<forall>x \<in> set rest. VerifyInstruction x = Inr ()) \<and> distinct (labelsOf rest)
          \<and> set (labelsOf rest) \<inter> dom d = {} \<and> m = labelMapFrom (i + 1) rest d"
        using "2.IH"(2) [OF v] fresh unfolding d_def by blast
      have "dom d = insert (instLabel inst) (dom defs)" by (simp add: d_def)
      then have disj: "set (labelsOf rest) \<inter> dom d = {} \<and> distinct (labelsOf rest)
          \<longleftrightarrow> distinct (labelsOf (inst # rest)) \<and> set (labelsOf (inst # rest)) \<inter> dom defs = {}"
        using fresh by auto
      have lm: "labelMapFrom i (inst # rest) defs = labelMapFrom (i + 1) rest d"
        using fresh by (simp add: d_def)
      have "(\<forall>x \<in> set (inst # rest). VerifyInstruction x = Inr ()) \<longleftrightarrow> (\<forall>x \<in> set rest. VerifyInstruction x = Inr ())"
        using Inr by simp
      then show ?thesis unfolding step IH lm using disj by blast
    qed
  qed
qed

subsection \<open>Block starts\<close>

definition startOk :: "startSet \<Rightarrow> bool" where
  "startOk acc \<longleftrightarrow> distinct (fst acc) \<and> set (fst acc) = snd acc"

definition blockStarts :: "(string \<rightharpoonup> nat) \<Rightarrow> nat \<Rightarrow> nat \<Rightarrow> instruction list \<Rightarrow> nat set" where
  "blockStarts defs n i xs =
     {k. \<exists>x \<in> set xs. \<exists>t \<in> set (targetsOf x). defs t = Some k}
     \<union> {Suc (i + j) |j. j < length xs \<and> isTerminator (xs ! j) \<and> Suc (i + j) < n}"

lemma startOk_addStart: "startOk acc \<Longrightarrow> startOk (addStart k acc)"
  by (auto simp: startOk_def addStart_def split: prod.splits)

lemma snd_addStart [simp]: "snd (addStart k acc) = insert k (snd acc)"
  by (auto simp: addStart_def split: prod.splits)

lemma startOk_addNext: "startOk acc \<Longrightarrow> startOk (addNext n i acc)"
  by (simp add: addNext_def startOk_addStart)

lemma snd_addNext: "snd (addNext n i acc) = {k. k = Suc i \<and> k < n} \<union> snd acc"
  by (auto simp: addNext_def)

lemma blockStarts_Nil: "blockStarts defs n i [] = {}"
  by (simp add: blockStarts_def)

lemma blockStarts_Cons:
  "blockStarts defs n i (x # xs) =
     {k. \<exists>t \<in> set (targetsOf x). defs t = Some k} \<union> {k. isTerminator x \<and> k = Suc i \<and> k < n}
     \<union> blockStarts defs n (Suc i) xs"
proof -
  have "{Suc (i + j) |j. j < Suc (length xs) \<and> isTerminator ((x # xs) ! j) \<and> Suc (i + j) < n}
    = {k. isTerminator x \<and> k = Suc i \<and> k < n}
      \<union> {Suc (Suc i + j) |j. j < length xs \<and> isTerminator (xs ! j) \<and> Suc (Suc i + j) < n}"
    (is "?L = ?R")
  proof
    show "?L \<subseteq> ?R"
    proof
      fix k
      assume "k \<in> ?L"
      then obtain j where j: "k = Suc (i + j)" "j < Suc (length xs)" "isTerminator ((x # xs) ! j)" "k < n"
        by auto
      then show "k \<in> ?R" by (cases j) auto
    qed
  next
    show "?R \<subseteq> ?L" by (force intro: exI [where x = 0] exI [where x = "Suc _"])
  qed
  then show ?thesis by (auto simp: blockStarts_def)
qed

lemma collectStarts_ok:
  assumes "startOk acc"
  shows "(\<forall>x \<in> set xs. set (targetsOf x) \<subseteq> dom defs) \<Longrightarrow>
      \<exists>acc'. collectStarts name n defs i xs acc = Inr acc' \<and> startOk acc'
        \<and> (\<forall>k. k \<in> snd acc' \<longleftrightarrow> k \<in> snd acc \<or> k \<in> blockStarts defs n i xs)"
  using assms
proof (induction name n defs i xs acc rule: collectStarts.induct)
  case (1 name n defs i acc)
  then show ?case by (simp add: blockStarts_Nil)
next
  case (2 name n defs i x xs acc)
  note IH = "2.IH" and ok = "2.prems"
  show ?case
  proof (cases "instKind x")
    case InstructionJmp
    with ok obtain k where k: "defs (opText (trueLabel x)) = Some k" by (auto simp: targetsOf_def)
    have "startOk (addNext n i (addStart k acc))" using ok by (simp add: startOk_addStart startOk_addNext)
    with IH(3) [OF InstructionJmp k] ok show ?thesis
      by (auto simp: InstructionJmp k blockStarts_Cons targetsOf_def isTerminator_def snd_addNext)
  next
    case InstructionBr
    with ok obtain k k' where k: "defs (opText (trueLabel x)) = Some k"
      and k': "defs (opText (falseLabel x)) = Some k'" by (auto simp: targetsOf_def)
    have "startOk (addNext n i (addStart k' (addStart k acc)))"
      using ok by (simp add: startOk_addStart startOk_addNext)
    with IH(4) [OF InstructionBr k k'] ok show ?thesis
      by (auto simp: InstructionBr k k' blockStarts_Cons targetsOf_def isTerminator_def snd_addNext)
  next
    case InstructionRet
    have "startOk (addNext n i acc)" using ok by (simp add: startOk_addNext)
    with IH(5) [OF InstructionRet] ok show ?thesis
      by (auto simp: InstructionRet blockStarts_Cons targetsOf_def isTerminator_def snd_addNext)
  next
    case InstructionLabel
    with IH(1) ok show ?thesis by (auto simp: blockStarts_Cons targetsOf_def isTerminator_def)
  next
    case InstructionOp
    with IH(2) ok show ?thesis by (auto simp: blockStarts_Cons targetsOf_def isTerminator_def)
  next
    case (InstructionUnknown m)
    with IH(6) ok show ?thesis by (auto simp: blockStarts_Cons targetsOf_def isTerminator_def)
  qed
qed

lemma collectStarts_targets:
  "collectStarts name n defs i xs acc = Inr acc' \<Longrightarrow> \<forall>x \<in> set xs. set (targetsOf x) \<subseteq> dom defs"
proof (induction name n defs i xs acc rule: collectStarts.induct)
  case (1 name n defs i acc)
  then show ?case by simp
next
  case (2 name n defs i x xs acc)
  have "set (targetsOf x) \<subseteq> dom defs"
    using "2.prems" by (auto simp: targetsOf_def split: instructionKind.splits option.splits)
  moreover have "\<forall>y \<in> set xs. set (targetsOf y) \<subseteq> dom defs"
    using "2.prems" "2.IH" by (simp split: instructionKind.splits option.splits)
  ultimately show ?case by simp
qed

subsection \<open>The exchange sort\<close>

definition swapIf :: "nat \<Rightarrow> nat \<Rightarrow> nat list \<Rightarrow> nat list" where
  "swapIf i j xs = (if xs ! j < xs ! i then xs[i := xs ! j, j := xs ! i] else xs)"

lemma swapIf_props:
  assumes "i < j" "j < length xs"
  shows "length (swapIf i j xs) = length xs"
    and "mset (swapIf i j xs) = mset xs"
    and "k < length xs \<Longrightarrow> k \<noteq> i \<Longrightarrow> k \<noteq> j \<Longrightarrow> swapIf i j xs ! k = xs ! k"
    and "swapIf i j xs ! i = min (xs ! i) (xs ! j)"
    and "swapIf i j xs ! j = max (xs ! i) (xs ! j)"
  using assms by (auto simp: swapIf_def mset_swap min_def max_def nth_list_update)

lemma sortInner_step: "j < length xs \<Longrightarrow> sortInner i j xs = sortInner i (j + 1) (swapIf i j xs)"
  by (subst sortInner.simps) (simp add: swapIf_def)

lemma sortInner_props:
  assumes "i < j" "j \<le> length xs" "\<forall>k. i < k \<and> k < j \<longrightarrow> xs ! i \<le> xs ! k"
  shows "mset (sortInner i j xs) = mset xs
    \<and> (\<forall>k < i. sortInner i j xs ! k = xs ! k)
    \<and> (\<forall>k. i < k \<and> k < length xs \<longrightarrow> sortInner i j xs ! i \<le> sortInner i j xs ! k)"
  using assms
proof (induction "length xs - j" arbitrary: j xs)
  case 0
  then show ?case by (auto simp: sortInner.simps [of i j xs])
next
  case (Suc m)
  then have j: "j < length xs" by simp
  let ?ys = "swapIf i j xs"
  note sw = swapIf_props [OF Suc.prems(1) j]
  have "?ys ! i \<le> ?ys ! k" if k: "i < k" "k < j + 1" for k
  proof (cases "k = j")
    case True
    then show ?thesis by (simp add: sw)
  next
    case False
    with k j have "?ys ! k = xs ! k" by (intro sw(3)) auto
    then show ?thesis using Suc.prems(3) k False by (simp add: sw min.coboundedI1)
  qed
  then have "mset (sortInner i (j + 1) ?ys) = mset ?ys
    \<and> (\<forall>k < i. sortInner i (j + 1) ?ys ! k = ?ys ! k)
    \<and> (\<forall>k. i < k \<and> k < length ?ys \<longrightarrow> sortInner i (j + 1) ?ys ! i \<le> sortInner i (j + 1) ?ys ! k)"
    using Suc.hyps(2) Suc.prems(1) j sw(1) by (intro Suc.hyps(1)) auto
  moreover have "\<forall>k < i. ?ys ! k = xs ! k" using Suc.prems(1) j by (auto intro!: sw(3))
  ultimately show ?case by (simp add: sortInner_step [OF j] sw(1,2))
qed

lemma length_sortOuter [simp]: "length (sortOuter i xs) = length xs"
proof (induction i xs rule: sortOuter.induct)
  case (1 i xs)
  then show ?case by (subst sortOuter.simps) auto
qed

lemma set_drop_determined:
  assumes "mset ys = mset xs" "take i ys = take i xs"
  shows "set (drop i ys) = set (drop i xs)"
proof -
  have "mset (take i ys) + mset (drop i ys) = mset (take i xs) + mset (drop i xs)"
    using assms(1) by (metis append_take_drop_id mset_append)
  then have "mset (drop i ys) = mset (drop i xs)" using assms(2) by simp
  then show ?thesis by (metis set_mset_mset)
qed

lemma sortOuter_props:
  assumes "\<forall>a b. a < i \<and> a < b \<and> b < length xs \<longrightarrow> xs ! a \<le> xs ! b"
  shows "mset (sortOuter i xs) = mset xs \<and> sorted (sortOuter i xs)"
  using assms
proof (induction i xs rule: sortOuter.induct)
  case (1 i xs)
  show ?case
  proof (cases "i < length xs - 1")
    case False
    have "xs ! a \<le> xs ! b" if "a \<le> b" "b < length xs" for a b
      using that False "1.prems" by (cases "a = b") auto
    then have "sorted xs" by (simp add: sorted_iff_nth_mono)
    with False show ?thesis by (simp add: sortOuter.simps [of i xs])
  next
    case True
    define ys where "ys = sortInner i (i + 1) xs"
    have in1: "mset ys = mset xs" and in2: "\<forall>k < i. ys ! k = xs ! k"
      and in3: "\<forall>k. i < k \<and> k < length xs \<longrightarrow> ys ! i \<le> ys ! k"
      using sortInner_props [of i "i + 1" xs] True by (auto simp: ys_def)
    have len: "length ys = length xs" by (simp add: ys_def)
    have tk: "take i ys = take i xs" using in2 len True by (intro nth_equalityI) auto
    have sub: "set (drop i ys) = set (drop i xs)" using in1 tk by (rule set_drop_determined)
    have "ys ! a \<le> ys ! b" if ab: "a < i + 1" "a < b" "b < length ys" for a b
    proof (cases "a = i")
      case True
      then show ?thesis using in3 ab len by auto
    next
      case False
      then have a: "a < i" using ab by simp
      show ?thesis
      proof (cases "b < i")
        case True
        then show ?thesis using a ab in2 len "1.prems" by auto
      next
        case False
        then have "ys ! b \<in> set (drop i ys)" using ab(3) by (auto simp: in_set_conv_nth intro!: exI [where x = "b - i"])
        then obtain c where c: "c < length xs - i" "ys ! b = xs ! (i + c)"
          unfolding sub by (auto simp: in_set_conv_nth)
        then have "xs ! a \<le> xs ! (i + c)" using "1.prems" a by auto
        then show ?thesis using c a in2 by simp
      qed
    qed
    then have "mset (sortOuter (i + 1) ys) = mset ys \<and> sorted (sortOuter (i + 1) ys)"
      using "1.IH" [OF True] by (simp add: ys_def)
    with True in1 show ?thesis by (simp add: sortOuter.simps [of i xs] ys_def)
  qed
qed

lemma sortOuter_sort: "sortOuter 0 xs = sort xs"
  using sortOuter_props [of 0 xs] properties_for_sort [of "sortOuter 0 xs" xs] by simp

subsection \<open>Block formation\<close>

text \<open>\<open>closedStarts\<close>: strictly increasing positions inside the function, such that every position
  after a terminator is one of them.\<close>

definition closedStarts :: "instruction list \<Rightarrow> nat list \<Rightarrow> bool" where
  "closedStarts all ss \<longleftrightarrow>
     sorted_wrt (<) ss \<and> (\<forall>s \<in> set ss. s < length all)
     \<and> (\<forall>p. ss \<noteq> [] \<and> hd ss \<le> p \<and> Suc p < length all \<and> isTerminator (all ! p) \<longrightarrow> Suc p \<in> set ss)"

lemma closedStarts_Cons: "closedStarts all (s # ss) \<Longrightarrow> closedStarts all ss"
proof -
  assume c: "closedStarts all (s # ss)"
  have "Suc p \<in> set ss" if "ss \<noteq> []" "hd ss \<le> p" "Suc p < length all" "isTerminator (all ! p)" for p
  proof -
    have "s < hd ss" using c that(1) by (auto simp: closedStarts_def)
    then have "s \<le> p" "Suc p \<noteq> s" using that(2) by simp_all
    moreover have "Suc p \<in> set (s # ss)" using c that \<open>s \<le> p\<close> by (auto simp: closedStarts_def)
    ultimately show ?thesis by simp
  qed
  with c show ?thesis by (auto simp: closedStarts_def)
qed

lemma set_butlast_segment:
  assumes "x \<in> set (butlast (drop s (take e all)))" "e \<le> length all"
  obtains p where "s \<le> p" "Suc p < e" "x = all ! p"
proof -
  from assms(1) obtain k where k: "k < length (butlast (drop s (take e all)))"
    "x = butlast (drop s (take e all)) ! k" by (auto simp: in_set_conv_nth)
  then have "Suc k < e - s" "x = all ! (s + k)" using assms(2) by (auto simp: nth_butlast)
  then show ?thesis using that [of "s + k"] by simp
qed

lemma last_segment:
  assumes "s < e" "e \<le> length all"
  shows "last (drop s (take e all)) = all ! (e - 1)"
  using assms by (simp add: last_conv_nth)

definition blockEnds :: "instruction list \<Rightarrow> nat list \<Rightarrow> nat list" where
  "blockEnds all ss = (if ss = [] then [] else tl ss @ [length all])"

lemma makeBlocks_ok:
  "closedStarts all ss \<Longrightarrow>
     \<exists>bs. makeBlocks name all i ss = Inr bs \<and> map irStart bs = ss
       \<and> map irId bs = map int [i..<i + length ss] \<and> (\<forall>b \<in> set bs. irSuccessors b = [])
       \<and> map irTerminator bs = map (\<lambda>e. instKind (all ! (e - 1))) (blockEnds all ss)"
proof (induction name all i ss rule: makeBlocks.induct)
  case (1 name all idx)
  then show ?case by (simp add: blockEnds_def)
next
  case (2 name all idx start rest)
  define e where "e = (case rest of [] \<Rightarrow> length all | next # _ \<Rightarrow> next)"
  have e: "start < e" "e \<le> length all"
    using "2.prems" by (auto simp: e_def closedStarts_def split: list.splits)
  have gap: "s \<notin> set (start # rest)" if "start < s" "s < e" for s
    using that "2.prems" by (auto simp: e_def closedStarts_def split: list.splits)
  have noterm: "\<not> (\<exists>x \<in> set (butlast (drop start (take e all))). isTerminator x)"
  proof
    assume "\<exists>x \<in> set (butlast (drop start (take e all))). isTerminator x"
    then obtain p where p: "start \<le> p" "Suc p < e" "isTerminator (all ! p)"
      using e(2) by (auto elim: set_butlast_segment)
    then have "Suc p \<in> set (start # rest)" using "2.prems" e(2) by (auto simp: closedStarts_def)
    then show False using gap [of "Suc p"] p by simp
  qed
  have c: "closedStarts all rest" using "2.prems" by (rule closedStarts_Cons)
  have "\<exists>bs. makeBlocks name all (idx + 1) rest = Inr bs \<and> map irStart bs = rest
     \<and> map irId bs = map int [idx + 1..<idx + 1 + length rest] \<and> (\<forall>b \<in> set bs. irSuccessors b = [])
     \<and> map irTerminator bs = map (\<lambda>e. instKind (all ! (e - 1))) (blockEnds all rest)"
    using "2.IH" [OF e_def refl _ _ c] e noterm by simp
  then obtain bs where bs: "makeBlocks name all (idx + 1) rest = Inr bs" "map irStart bs = rest"
    "map irId bs = map int [idx + 1..<idx + 1 + length rest]" "\<forall>b \<in> set bs. irSuccessors b = []"
    "map irTerminator bs = map (\<lambda>e. instKind (all ! (e - 1))) (blockEnds all rest)" by blast
  have "blockEnds all (start # rest) = e # blockEnds all rest"
    by (cases rest) (simp_all add: blockEnds_def e_def)
  moreover have "[idx..<idx + length (start # rest)] = idx # [idx + 1..<idx + 1 + length rest]"
    by (subst upt_conv_Cons) simp_all
  ultimately show ?case
    using bs e noterm last_segment [OF e]
    by (simp add: e_def [symmetric] Let_def del: last_drop upt_Suc)
qed

lemma startToID_ran:
  assumes "startToID bs k = Some v"
  shows "v \<in> irId ` set bs"
  using assms unfolding startToID_def
  by (induction bs rule: rev_induct) (auto split: if_splits)

lemma foldl_map_dom:
  "b \<in> set bs \<Longrightarrow> irLabel b \<noteq> [] \<Longrightarrow>
     foldl (\<lambda>m b. if irLabel b = [] then m else m(irLabel b \<mapsto> irId b)) m bs (irLabel b) \<noteq> None"
  by (induction bs rule: rev_induct) auto

lemma newIRBlockIndex_label: "b \<in> set bs \<Longrightarrow> irLabel b \<noteq> [] \<Longrightarrow> irBlockByLabel (newIRBlockIndex bs) (irLabel b) \<noteq> None"
  unfolding irBlockByLabel_def newIRBlockIndex_def by (simp add: foldl_map_dom)

lemma blockSuccessors_range:
  "s \<in> set (blockSuccessors defs ids inst) \<Longrightarrow> s = 0 \<or> s \<in> ran ids"
  by (auto simp: blockSuccessors_def mapGet0_def ran_def Let_def
      split: instructionKind.splits option.splits if_splits)

lemma linkBlocks_ok:
  "(\<forall>b \<in> set bs. irLabel b \<noteq> [] \<longrightarrow> irBlockByLabel lookup (irLabel b) \<noteq> None) \<Longrightarrow>
     \<exists>bs'. linkBlocks name all defs ids lookup bs = Inr bs' \<and> map irStart bs' = map irStart bs
       \<and> map irTerminator bs' = map irTerminator bs \<and> map irId bs' = map irId bs
       \<and> (\<forall>b \<in> set bs'. \<forall>s \<in> set (irSuccessors b). s = 0 \<or> s \<in> ran ids)"
proof (induction bs)
  case Nil
  then show ?case by simp
next
  case (Cons b bs)
  then obtain bs' where "linkBlocks name all defs ids lookup bs = Inr bs'" "map irStart bs' = map irStart bs"
    "map irTerminator bs' = map irTerminator bs" "map irId bs' = map irId bs"
    "\<forall>b \<in> set bs'. \<forall>s \<in> set (irSuccessors b). s = 0 \<or> s \<in> ran ids" by auto
  with Cons.prems show ?case by (auto simp: Let_def dest: blockSuccessors_range)
qed

lemma checkBlocks_eq_Inr:
  "checkBlocks name n i bs = Inr u \<longleftrightarrow>
     (\<forall>b \<in> set bs. \<forall>s \<in> set (irSuccessors b). 0 \<le> s \<and> s < int n)
     \<and> (\<forall>j < length bs. n \<le> Suc (i + j) \<longrightarrow>
           irTerminator (bs ! j) \<noteq> InstructionOp \<and> irTerminator (bs ! j) \<noteq> InstructionLabel)"
proof (induction name n i bs rule: checkBlocks.induct)
  case (1 name n i)
  then show ?case by simp
next
  case (2 name n i b bs)
  have "(\<forall>j < length (b # bs). n \<le> Suc (i + j) \<longrightarrow>
           irTerminator ((b # bs) ! j) \<noteq> InstructionOp \<and> irTerminator ((b # bs) ! j) \<noteq> InstructionLabel)
    \<longleftrightarrow> (n \<le> Suc i \<longrightarrow> irTerminator b \<noteq> InstructionOp \<and> irTerminator b \<noteq> InstructionLabel)
      \<and> (\<forall>j < length bs. n \<le> Suc (Suc i + j) \<longrightarrow>
           irTerminator (bs ! j) \<noteq> InstructionOp \<and> irTerminator (bs ! j) \<noteq> InstructionLabel)"
    by (simp add: All_less_Suc2)
  with "2.IH" show ?case by (auto simp: bindE_eq_Inr forE_eq_Inr not_le not_less)
qed


subsection \<open>The validator decides well-formedness\<close>

definition wfInstructions :: "instruction list \<Rightarrow> bool" where
  "wfInstructions insts \<longleftrightarrow>
     (\<forall>x \<in> set insts. VerifyInstruction x = Inr ())
     \<and> distinct (labelsOf insts)
     \<and> (\<forall>x \<in> set insts. set (targetsOf x) \<subseteq> set (labelsOf insts))
     \<and> (insts \<noteq> [] \<longrightarrow> isTerminator (last insts))"

lemma terminator_kind:
  "VerifyInstruction x = Inr () \<Longrightarrow>
     instKind x \<noteq> InstructionOp \<and> instKind x \<noteq> InstructionLabel \<longleftrightarrow> isTerminator x"
  by (cases "instKind x") (auto simp: VerifyInstruction_def isTerminator_def)

lemma blockStarts_less:
  assumes "\<And>l k. defs l = Some k \<Longrightarrow> k < n"
  shows "k \<in> blockStarts defs n i xs \<Longrightarrow> k < n"
  using assms by (auto simp: blockStarts_def)

lemma collectIRBlocks_ok:
  assumes ne: "instructions fn \<noteq> []"
    and tg: "\<forall>x \<in> set (instructions fn). set (targetsOf x) \<subseteq> set (labelsOf (instructions fn))"
  obtains b bs where "collectIRBlocks fn (labelMap (instructions fn)) = Inr (b # bs)"
    and "irStart b = 0"
    and "\<forall>c \<in> set (b # bs). \<forall>s \<in> set (irSuccessors c). 0 \<le> s \<and> s < int (length (b # bs))"
    and "irTerminator (last (b # bs)) = instKind (last (instructions fn))"
proof -
  define all where "all = instructions fn"
  define defs where "defs = labelMap all"
  have tg': "\<forall>x \<in> set all. set (targetsOf x) \<subseteq> dom defs" using tg by (simp add: all_def defs_def)
  have "startOk ([0], {0})" by (simp add: startOk_def)
  from collectStarts_ok [OF this tg'] obtain acc where
    acc: "collectStarts (fnName fn) (length all) defs 0 all ([0], {0}) = Inr acc" "startOk acc"
      "\<And>k. k \<in> snd acc \<longleftrightarrow> k = 0 \<or> k \<in> blockStarts defs (length all) 0 all" by auto metis
  define ss where "ss = sortOuter 0 (fst acc)"
  have ss: "ss = sort (fst acc)" by (simp add: ss_def sortOuter_sort)
  have set_ss: "k \<in> set ss \<longleftrightarrow> k = 0 \<or> k \<in> blockStarts defs (length all) 0 all" for k
    using acc(2,3) by (simp add: ss startOk_def)
  have "sorted_wrt (<) ss" using acc(2) by (simp add: ss startOk_def strict_sorted_iff)
  moreover have "\<forall>s \<in> set ss. s < length all"
  proof
    fix s
    assume "s \<in> set ss"
    then consider "s = 0" | "s \<in> blockStarts defs (length all) 0 all" by (auto simp: set_ss)
    then show "s < length all"
    proof cases
      case 1
      then show ?thesis using ne by (simp add: all_def)
    next
      case 2
      then show ?thesis by (rule blockStarts_less [rotated]) (simp add: defs_def labelMap_Some)
    qed
  qed
  moreover have "Suc p \<in> set ss" if "Suc p < length all" "isTerminator (all ! p)" for p
    using that by (auto simp: set_ss blockStarts_def)
  ultimately have closed: "closedStarts all ss" by (simp add: closedStarts_def)
  have "0 \<in> set ss" by (simp add: set_ss)
  then have ss_ne: "ss \<noteq> []" by auto
  have hd0: "hd ss = 0"
    using \<open>0 \<in> set ss\<close> ss_ne \<open>sorted_wrt (<) ss\<close> by (cases ss) auto
  from makeBlocks_ok [OF closed, of "fnName fn" 0] obtain bs0 where
    bs0: "makeBlocks (fnName fn) all 0 ss = Inr bs0" "map irStart bs0 = ss"
      "map irId bs0 = map int [0..<0 + length ss]"
      "map irTerminator bs0 = map (\<lambda>e. instKind (all ! (e - 1))) (blockEnds all ss)" by blast
  from linkBlocks_ok [of bs0 "newIRBlockIndex bs0"] newIRBlockIndex_label obtain bs1 where
    bs1: "linkBlocks (fnName fn) all defs (startToID bs0) (newIRBlockIndex bs0) bs0 = Inr bs1"
      "map irStart bs1 = map irStart bs0" "map irTerminator bs1 = map irTerminator bs0"
      "\<forall>b \<in> set bs1. \<forall>s \<in> set (irSuccessors b). s = 0 \<or> s \<in> ran (startToID bs0)" by blast
  have len: "length bs1 = length ss" using bs1(2) bs0(2) by (metis length_map)
  obtain b bs where bbs: "bs1 = b # bs" using len ss_ne by (cases bs1) auto
  have "collectIRBlocks fn defs = Inr (b # bs)"
    using acc(1) bs0(1) bs1(1) bbs by (simp add: collectIRBlocks_def Let_def all_def ss_def)
  moreover have "irStart b = 0" using bs1(2) bs0(2) bbs hd0 by auto
  moreover have "\<forall>c \<in> set bs1. \<forall>s \<in> set (irSuccessors c). 0 \<le> s \<and> s < int (length bs1)"
  proof (intro ballI)
    fix c s
    assume that: "c \<in> set bs1" "s \<in> set (irSuccessors c)"
    have "s = 0 \<or> s \<in> irId ` set bs0" using bs1(4) that startToID_ran by (fastforce simp: ran_def)
    moreover have "irId ` set bs0 = int ` {0..<length ss}" using bs0(3) by (metis add_0 image_set set_upt)
    ultimately show "0 \<le> s \<and> s < int (length bs1)" using len ss_ne by auto
  qed
  moreover have "irTerminator (last bs1) = instKind (last all)"
  proof -
    have "last (map irTerminator bs1) = instKind (all ! (last (blockEnds all ss) - 1))"
      using bs1(3) bs0(4) ss_ne by (simp add: last_map blockEnds_def)
    moreover have "last (map irTerminator bs1) = irTerminator (last bs1)"
      using bbs by (intro last_map) simp
    moreover have "all ! (last (blockEnds all ss) - 1) = last all"
      using ss_ne ne by (simp add: blockEnds_def last_conv_nth all_def)
    ultimately show ?thesis by simp
  qed
  ultimately show thesis unfolding bbs defs_def all_def by (rule that)
qed

lemma validate_iff: "ValidateFunctionIR fn = Inr () \<longleftrightarrow> wfInstructions (instructions fn)"
proof (cases "instructions fn = []")
  case True
  then show ?thesis by (simp add: ValidateFunctionIR_def wfInstructions_def)
next
  case ne: False
  let ?all = "instructions fn"
  show ?thesis
  proof (cases "(\<forall>x \<in> set ?all. VerifyInstruction x = Inr ()) \<and> distinct (labelsOf ?all)
      \<and> (\<forall>x \<in> set ?all. set (targetsOf x) \<subseteq> set (labelsOf ?all))")
    case True
    then have defs: "collectLabelDefs (fnName fn) 0 ?all Map.empty = Inr (labelMap ?all)"
      by (simp add: collectLabelDefs_eq_Inr)
    from True ne obtain b bs where b: "collectIRBlocks fn (labelMap ?all) = Inr (b # bs)" "irStart b = 0"
      "\<forall>c \<in> set (b # bs). \<forall>s \<in> set (irSuccessors c). 0 \<le> s \<and> s < int (length (b # bs))"
      "irTerminator (last (b # bs)) = instKind (last ?all)" using collectIRBlocks_ok [of fn] by metis
    have "ValidateFunctionIR fn = checkBlocks (fnName fn) (length (b # bs)) 0 (b # bs)"
      using ne b(1,2) by (simp add: ValidateFunctionIR_def defs)
    then have "ValidateFunctionIR fn = Inr () \<longleftrightarrow>
        (\<forall>j < length (b # bs). length (b # bs) \<le> Suc j \<longrightarrow>
           irTerminator ((b # bs) ! j) \<noteq> InstructionOp \<and> irTerminator ((b # bs) ! j) \<noteq> InstructionLabel)"
      using b(3) by (simp add: checkBlocks_eq_Inr del: length_Cons checkBlocks.simps)
    also have "\<dots> \<longleftrightarrow> irTerminator (last (b # bs)) \<noteq> InstructionOp \<and> irTerminator (last (b # bs)) \<noteq> InstructionLabel"
    proof -
      have "j < length (b # bs) \<and> length (b # bs) \<le> Suc j \<longleftrightarrow> j = length bs" for j by auto
      then show ?thesis by (metis last_conv_nth length_Cons diff_Suc_1 list.distinct(1))
    qed
    also have "\<dots> \<longleftrightarrow> isTerminator (last ?all)"
      unfolding b(4) using True ne by (intro terminator_kind) simp
    finally show ?thesis using True ne by (simp add: wfInstructions_def)
  next
    case False
    have "ValidateFunctionIR fn \<noteq> Inr ()"
    proof
      assume "ValidateFunctionIR fn = Inr ()"
      then obtain defs blocks where *: "collectLabelDefs (fnName fn) 0 ?all Map.empty = Inr defs"
        "collectIRBlocks fn defs = Inr blocks"
        using ne by (auto simp: ValidateFunctionIR_def bindE_eq_Inr)
      from *(1) have d: "\<forall>x \<in> set ?all. VerifyInstruction x = Inr ()" "distinct (labelsOf ?all)"
        "defs = labelMap ?all" by (auto simp: collectLabelDefs_eq_Inr)
      from *(2) obtain acc where "collectStarts (fnName fn) (length ?all) defs 0 ?all ([0], {0}) = Inr acc"
        by (auto simp: collectIRBlocks_def Let_def bindE_eq_Inr)
      from collectStarts_targets [OF this] d False show False by simp
    qed
    then show ?thesis using False by (auto simp: wfInstructions_def)
  qed
qed

section \<open>The label index contract\<close>

text \<open>
  \<open>BlockByLabel\<close> and \<open>EnsureLabel\<close> are an interface with two providers, the validator's
  \<open>irBlockIndex\<close> and the CFG's \<open>Graph\<close>. The locale states what \<open>EnsureLabel\<close> does in its three
  branches; the lemmas inside are what a client relies on.
\<close>

definition blockName :: "blockID \<Rightarrow> string" where
  "blockName bid = ''.B'' @ itoa bid"

lemma itoa_inj: "itoa m = itoa n \<Longrightarrow> 0 \<le> m \<Longrightarrow> 0 \<le> n \<Longrightarrow> m = n"
  by (auto simp: itoa_def dest: itoaNat_inj)

lemma blockName_inj: "blockName m = blockName n \<Longrightarrow> 0 \<le> m \<Longrightarrow> 0 \<le> n \<Longrightarrow> m = n"
  by (simp add: blockName_def itoa_inj)

lemma blockName_nonempty [simp]: "blockName m \<noteq> []"
  by (simp add: blockName_def)

locale label_index =
  fixes size_of :: "'g \<Rightarrow> nat"
    and label_at :: "'g \<Rightarrow> nat \<Rightarrow> string"
    and by_label :: "'g \<Rightarrow> string \<Rightarrow> blockID option"
    and ensure :: "'g \<Rightarrow> blockID \<Rightarrow> string \<times> 'g"
  assumes ensure_out_of_range: "bid < 0 \<or> int (size_of g) \<le> bid \<Longrightarrow> ensure g bid = ([], g)"
    and ensure_labelled:
      "k < size_of g \<Longrightarrow> label_at g k \<noteq> [] \<Longrightarrow> ensure g (int k) = (label_at g k, g)"
    and ensure_unlabelled:
      "k < size_of g \<Longrightarrow> label_at g k = [] \<Longrightarrow>
         fst (ensure g (int k)) = blockName (int k)
         \<and> size_of (snd (ensure g (int k))) = size_of g
         \<and> (\<forall>j < size_of g. label_at (snd (ensure g (int k))) j = (if j = k then blockName (int k) else label_at g j))
         \<and> (\<forall>l. by_label (snd (ensure g (int k))) l = (if l = blockName (int k) then Some (int k) else by_label g l))"
begin

text \<open>Every labelled block is found under its label, and a generated name \<open>.Bj\<close> belongs to block \<open>j\<close>.\<close>

definition indexed :: "'g \<Rightarrow> bool" where
  "indexed g \<longleftrightarrow>
     (\<forall>k < size_of g. label_at g k \<noteq> [] \<longrightarrow> by_label g (label_at g k) = Some (int k)
        \<and> (\<forall>j \<ge> 0. label_at g k = blockName j \<longrightarrow> j = int k))"

lemma ensure_found:
  assumes "indexed g" "k < size_of g"
  shows "by_label (snd (ensure g (int k))) (fst (ensure g (int k))) = Some (int k)"
  using assms ensure_labelled [of k g] ensure_unlabelled [of k g]
  by (cases "label_at g k = []") (auto simp: indexed_def)

lemma ensure_indexed:
  assumes "indexed g"
  shows "indexed (snd (ensure g bid))"
proof (cases "0 \<le> bid \<and> bid < int (size_of g) \<and> label_at g (nat bid) = []")
  case True
  then obtain k where k: "bid = int k" "k < size_of g" "label_at g k = []"
    by (metis nat_0_le nat_less_iff)
  note new = ensure_unlabelled [OF k(2,3)]
  have other: "label_at g j \<noteq> blockName (int k)" if "j < size_of g" "j \<noteq> k" for j
    using assms that by (metis blockName_nonempty indexed_def of_nat_0_le_iff of_nat_eq_iff)
  define h where "h = snd (ensure g (int k))"
  have at: "label_at h j = (if j = k then blockName (int k) else label_at g j)" if "j < size_of g" for j
    using new that by (simp add: h_def)
  have by': "by_label h l = (if l = blockName (int k) then Some (int k) else by_label g l)" for l
    using new by (simp add: h_def)
  have "by_label h (label_at h j) = Some (int j) \<and> (\<forall>i \<ge> 0. label_at h j = blockName i \<longrightarrow> i = int j)"
    if j: "j < size_of g" "label_at h j \<noteq> []" for j
  proof (cases "j = k")
    case True
    then show ?thesis using j(1) by (auto simp: at by' dest: blockName_inj)
  next
    case False
    then have "label_at h j = label_at g j" "label_at g j \<noteq> blockName (int k)"
      using j at other by auto
    with assms j show ?thesis by (simp add: by' indexed_def)
  qed
  moreover have "size_of h = size_of g" using new by (simp add: h_def)
  ultimately have "indexed h" by (simp add: indexed_def)
  then show ?thesis by (simp add: h_def k(1))
next
  case False
  then have "snd (ensure g bid) = g"
    using ensure_out_of_range [of bid g] ensure_labelled [of "nat bid" g]
    by (cases "bid < 0 \<or> int (size_of g) \<le> bid") auto
  with assms show ?thesis by simp
qed

lemma ensure_idempotent:
  assumes "0 \<le> bid" "bid < int (size_of g)"
  shows "ensure (snd (ensure g bid)) bid = (fst (ensure g bid), snd (ensure g bid))"
proof -
  obtain k where k: "bid = int k" "k < size_of g" using assms by (metis nat_0_le nat_less_iff)
  show ?thesis
  proof (cases "label_at g k = []")
    case True
    note new = ensure_unlabelled [OF k(2) True]
    then have "label_at (snd (ensure g (int k))) k = blockName (int k)" using k(2) by simp
    with new k(2) show ?thesis unfolding k(1) by (subst ensure_labelled) auto
  next
    case False
    with k show ?thesis by (simp add: ensure_labelled)
  qed
qed

end

interpretation ir_index: label_index
  "\<lambda>idx. length (idxBlocks idx)" "\<lambda>idx k. irLabel (idxBlocks idx ! k)" irBlockByLabel irEnsureLabel
  by unfold_locales (auto simp: irEnsureLabel_def irBlockByLabel_def blockName_def Let_def nth_list_update)

end
