(* ===== verification/TacBuilder.thy ===== *)
theory TacBuilder
  imports TacValidate
begin

text \<open>
  The instruction builder of \<open>internal/tac/builder.go\<close>: each method on \<open>*Function\<close> is a function
  from the old to the new value of the record. A method that also returns a value is a pair.
\<close>

definition tempName :: "nat \<Rightarrow> string" where
  "tempName n = ''%t'' @ itoa (int n)"

definition slotName :: "nat \<Rightarrow> string" where
  "slotName n = ''%s'' @ itoa (int n)"

definition NewTemp :: "tacFunction \<Rightarrow> operand \<times> tacFunction" where
  "NewTemp f = (Temp (tempName (nextTempID f)), f\<lparr>nextTempID := nextTempID f + 1\<rparr>)"

definition NewStackSlot :: "tacFunction \<Rightarrow> operand \<times> tacFunction" where
  "NewStackSlot f = (StackSlotPointer (slotName (nextTempID f)), f\<lparr>nextTempID := nextTempID f + 1\<rparr>)"

definition emit :: "instruction \<Rightarrow> tacFunction \<Rightarrow> tacFunction" where
  "emit inst f = f\<lparr>instructions := instructions f @ [inst]\<rparr>"

definition opInst :: "operand \<Rightarrow> opcode \<Rightarrow> operand list \<Rightarrow> instruction" where
  "opInst dst op ops =
     (newInst InstructionOp)\<lparr>hasDestination := True, destination := dst, instOpcode := op, operands := ops\<rparr>"

definition AddInstruction :: "opcode \<Rightarrow> operand list \<Rightarrow> tacFunction \<Rightarrow> operand \<times> tacFunction" where
  "AddInstruction op ops f =
     (case NewTemp f of (dst0, f0) \<Rightarrow>
      (case (if op = OpcodeAlloca then NewStackSlot f0 else (dst0, f0)) of (dst, f1) \<Rightarrow>
        (dst, emit (opInst dst op ops) f1)))"

definition voidInst :: "opcode \<Rightarrow> operand list \<Rightarrow> instruction" where
  "voidInst op ops = (newInst InstructionOp)\<lparr>instOpcode := op, operands := ops\<rparr>"

definition AddVoidInstruction :: "opcode \<Rightarrow> operand list \<Rightarrow> tacFunction \<Rightarrow> tacFunction" where
  "AddVoidInstruction op ops f = emit (voidInst op ops) f"

definition callInst :: "operand \<Rightarrow> operand \<Rightarrow> operand list \<Rightarrow> instruction" where
  "callInst dst callee args =
     (newInst InstructionOp)\<lparr>hasDestination := True, destination := dst, instOpcode := OpcodeCall,
        callCallee := opText callee, callArgs := args\<rparr>"

definition AddCall :: "operand \<Rightarrow> operand list \<Rightarrow> tacFunction \<Rightarrow> operand \<times> tacFunction" where
  "AddCall callee args f =
     (case NewTemp f of (dst, f0) \<Rightarrow> (dst, emit (callInst dst callee args) f0))"

definition callVoidInst :: "operand \<Rightarrow> operand list \<Rightarrow> instruction" where
  "callVoidInst callee args =
     (newInst InstructionOp)\<lparr>instOpcode := OpcodeCall, callCallee := opText callee, callArgs := args\<rparr>"

definition AddCallVoid :: "operand \<Rightarrow> operand list \<Rightarrow> tacFunction \<Rightarrow> tacFunction" where
  "AddCallVoid callee args f = emit (callVoidInst callee args) f"

definition labelInst :: "string \<Rightarrow> instruction" where
  "labelInst label = (newInst InstructionLabel)\<lparr>instLabel := label\<rparr>"

definition AddLabel :: "string \<Rightarrow> tacFunction \<Rightarrow> tacFunction" where
  "AddLabel label f = emit (labelInst label) f"

definition jmpInst :: "string \<Rightarrow> instruction" where
  "jmpInst label = (newInst InstructionJmp)\<lparr>trueLabel := Label label\<rparr>"

definition AddJmp :: "string \<Rightarrow> tacFunction \<Rightarrow> tacFunction" where
  "AddJmp label f = emit (jmpInst label) f"

definition brInst :: "operand \<Rightarrow> string \<Rightarrow> string \<Rightarrow> instruction" where
  "brInst cond t e =
     (newInst InstructionBr)\<lparr>condition := cond, trueLabel := Label t, falseLabel := Label e\<rparr>"

definition AddBr :: "operand \<Rightarrow> string \<Rightarrow> string \<Rightarrow> tacFunction \<Rightarrow> tacFunction" where
  "AddBr cond t e f = emit (brInst cond t e) f"

definition retInst :: "operand \<Rightarrow> instruction" where
  "retInst val =
     (if opKind val \<noteq> OperandInvalid
      then (newInst InstructionRet)\<lparr>hasReturnValue := True, returnValue := val\<rparr>
      else newInst InstructionRet)"

definition AddRet :: "operand \<Rightarrow> tacFunction \<Rightarrow> tacFunction" where
  "AddRet val f = emit (retInst val) f"

text \<open>\<open>SetBlock\<close> mutates the function and returns the validator's verdict on it.\<close>

definition SetBlock :: "string \<Rightarrow> tacFunction \<Rightarrow> (irError + unit) \<times> tacFunction" where
  "SetBlock label f = (let f' = AddLabel label f in (ValidateFunctionIR f', f'))"

definition AddBlock :: "string \<Rightarrow> tacFunction \<Rightarrow> (irError + unit) \<times> tacFunction" where
  "AddBlock label f = SetBlock label f"

definition AddFunction :: "tacFunction \<Rightarrow> tacModule \<Rightarrow> irError + tacModule" where
  "AddFunction fn m =
     bindE (ValidateFunctionIR fn) (\<lambda>_. Inr (m\<lparr>modFunctions := modFunctions m @ [fn]\<rparr>))"

lemmas builder_defs = NewTemp_def NewStackSlot_def AddInstruction_def AddVoidInstruction_def
  AddCall_def AddCallVoid_def AddLabel_def AddJmp_def AddBr_def AddRet_def emit_def

lemmas inst_defs = opInst_def voidInst_def callInst_def callVoidInst_def labelInst_def jmpInst_def
  brInst_def retInst_def

section \<open>Names\<close>

lemma tempName_inj [simp]: "tempName m = tempName n \<longleftrightarrow> m = n"
  by (auto simp: tempName_def dest: itoa_inj)

lemma slotName_inj [simp]: "slotName m = slotName n \<longleftrightarrow> m = n"
  by (auto simp: slotName_def dest: itoa_inj)

lemma tempName_slotName [simp]: "tempName m \<noteq> slotName n" "slotName m \<noteq> tempName n"
  by (simp_all add: tempName_def slotName_def)

section \<open>Single definition\<close>

text \<open>
  The texts of the destinations of a function. The builder's invariant: they are pairwise different
  and all of them were made from numbers below the counter.
\<close>

definition destTexts :: "instruction list \<Rightarrow> string list" where
  "destTexts insts = map (\<lambda>i. opText (destination i)) (filter hasDestination insts)"

definition namedBelow :: "nat \<Rightarrow> string \<Rightarrow> bool" where
  "namedBelow n t \<longleftrightarrow> (\<exists>k < n. t = tempName k \<or> t = slotName k)"

definition singleDef :: "tacFunction \<Rightarrow> bool" where
  "singleDef f \<longleftrightarrow>
     distinct (destTexts (instructions f))
     \<and> (\<forall>t \<in> set (destTexts (instructions f)). namedBelow (nextTempID f) t)"

lemma destTexts_simps [simp]:
  "destTexts [] = []"
  "destTexts (xs @ ys) = destTexts xs @ destTexts ys"
  "destTexts [i] = (if hasDestination i then [opText (destination i)] else [])"
  by (simp_all add: destTexts_def)

lemma namedBelow_mono: "namedBelow m t \<Longrightarrow> m \<le> n \<Longrightarrow> namedBelow n t"
  by (auto simp: namedBelow_def intro: less_le_trans)

lemma namedBelow_fresh: "namedBelow m t \<Longrightarrow> m \<le> n \<Longrightarrow> t \<noteq> tempName n \<and> t \<noteq> slotName n"
  by (auto simp: namedBelow_def)

lemma namedBelow_tempName [simp]: "namedBelow n (tempName k) \<longleftrightarrow> k < n"
  by (auto simp: namedBelow_def)

lemma namedBelow_slotName [simp]: "namedBelow n (slotName k) \<longleftrightarrow> k < n"
  by (auto simp: namedBelow_def)

lemma hasDestination_insts [simp]:
  "hasDestination (opInst d op ops)" "hasDestination (callInst d c as)"
  "\<not> hasDestination (voidInst op ops)" "\<not> hasDestination (callVoidInst c as)"
  "\<not> hasDestination (labelInst l)" "\<not> hasDestination (jmpInst l)"
  "\<not> hasDestination (brInst c t e)" "\<not> hasDestination (retInst v)"
  "destination (opInst d op ops) = d" "destination (callInst d c as) = d"
  by (simp_all add: inst_defs)

lemma singleDef_emit_noDest:
  "\<not> hasDestination i \<Longrightarrow> singleDef (emit i f) \<longleftrightarrow> singleDef f"
  by (simp add: singleDef_def emit_def)

lemma singleDef_AddInstruction: "singleDef f \<Longrightarrow> singleDef (snd (AddInstruction op ops f))"
  by (auto simp: builder_defs singleDef_def dest: namedBelow_fresh intro: namedBelow_mono)

lemma singleDef_AddCall: "singleDef f \<Longrightarrow> singleDef (snd (AddCall c as f))"
  by (auto simp: builder_defs singleDef_def dest: namedBelow_fresh intro: namedBelow_mono)

lemma singleDef_others:
  "singleDef (AddVoidInstruction op ops f) \<longleftrightarrow> singleDef f"
  "singleDef (AddCallVoid c as f) \<longleftrightarrow> singleDef f"
  "singleDef (AddLabel l f) \<longleftrightarrow> singleDef f"
  "singleDef (AddJmp l f) \<longleftrightarrow> singleDef f"
  "singleDef (AddBr cnd t e f) \<longleftrightarrow> singleDef f"
  "singleDef (AddRet v f) \<longleftrightarrow> singleDef f"
  by (simp_all add: AddVoidInstruction_def AddCallVoid_def AddLabel_def AddJmp_def AddBr_def
      AddRet_def singleDef_emit_noDest)

section \<open>Modules\<close>

definition validModule :: "tacModule \<Rightarrow> bool" where
  "validModule m \<longleftrightarrow> (\<forall>f \<in> set (modFunctions m). ValidateFunctionIR f = Inr ())"

lemma AddFunction_eq_Inr:
  "AddFunction fn m = Inr m' \<longleftrightarrow>
     ValidateFunctionIR fn = Inr () \<and> m' = m\<lparr>modFunctions := modFunctions m @ [fn]\<rparr>"
  by (auto simp: AddFunction_def bindE_eq_Inr)

lemma AddFunction_valid: "validModule m \<Longrightarrow> AddFunction fn m = Inr m' \<Longrightarrow> validModule m'"
  by (auto simp: validModule_def AddFunction_eq_Inr)

end
