(* ===== verification/TacEval.thy ===== *)
theory TacEval
  imports TacBuilder "HOL-Library.Signed_Division"
begin

unbundle bit_operations_syntax

text \<open>
  The evaluator of \<open>internal/tac/evaluator.go\<close>. An \<open>int32\<close> is a \<open>32 word\<close>, so \<open>+\<close>, \<open>-\<close> and \<open>*\<close>
  wrap as Go's do. A frame is private to one call; the evaluator state carries the step counter
  through nested calls. Every \<open>error\<close> return of the code is a constructor of \<open>evalError\<close>.
\<close>

section \<open>Values, frames, state\<close>

type_synonym i32 = "32 word"

datatype runtimeValue = ValueI32 i32 | ValuePtr nat

record memoryCell =
  cellValue :: runtimeValue
  initialized :: bool

record evalFrame =
  frFn :: tacFunction
  frValues :: "string \<rightharpoonup> runtimeValue"
  frMemory :: "nat \<rightharpoonup> memoryCell"
  frNextAddr :: nat
  frLabels :: "string \<rightharpoonup> nat"

record evalState =
  evFuncs :: "string \<rightharpoonup> tacFunction"
  evSteps :: nat
  evStepLimit :: nat
  evMaxCallDepth :: nat

record evalOptions =
  optStepLimit :: int
  optMaxCallDepth :: int

definition defaultStepLimit :: int where
  "defaultStepLimit = 100000"

definition defaultMaxCallDepth :: int where
  "defaultMaxCallDepth = 128"

datatype evalError =
    EInvalidIR irError
  | EMaxDepth string
  | EMissingFunction string
  | EArgCount string nat nat
  | EStepLimit string
  | EInvalidJump string string
  | EInvalidBranch string string
  | ENoDestination opcode string
  | EUnsupportedKind instructionKind string
  | EEndedWithoutRet string
  | EOperandCount opcode nat nat
  | EConstOperandCount
  | EInvalidConstI32 string
  | EInvalidConstI8 string
  | EUninitialized nat
  | ECalleeRequired
  | EDivisionByZero
  | EModuloByZero
  | EUnsupportedOpcode opcode
  | EUnknownValue string
  | EExpectedI32
  | EExpectedPtr
  | EReturnedNonI32 string

definition boolI32 :: "bool \<Rightarrow> runtimeValue" where
  "boolI32 v = (if v then ValueI32 1 else ValueI32 0)"

section \<open>Operand resolution\<close>

definition resolveValue :: "evalFrame \<Rightarrow> string \<Rightarrow> evalError + runtimeValue" where
  "resolveValue f token0 =
     (let token = trimSpace token0 in
      case frValues f token of Some v \<Rightarrow> Inr v
      | None \<Rightarrow> (case parseInt 32 token of Some n \<Rightarrow> Inr (ValueI32 (word_of_int n))
                 | None \<Rightarrow> Inl (EUnknownValue token)))"

definition resolveI32 :: "evalFrame \<Rightarrow> string \<Rightarrow> evalError + i32" where
  "resolveI32 f token =
     bindE (resolveValue f token) (\<lambda>v.
       case v of ValueI32 w \<Rightarrow> Inr w | ValuePtr p \<Rightarrow> Inl EExpectedI32)"

definition resolvePtr :: "evalFrame \<Rightarrow> string \<Rightarrow> evalError + nat" where
  "resolvePtr f token =
     bindE (resolveValue f token) (\<lambda>v.
       case v of ValuePtr p \<Rightarrow> Inr p | ValueI32 w \<Rightarrow> Inl EExpectedPtr)"

section \<open>Operations\<close>

text \<open>Go's \<open>/\<close> and \<open>%\<close> on \<open>int32\<close> truncate towards zero; a shift count is read as \<open>uint32\<close> and a
  count of 32 or more shifts everything out (keeping the sign for \<open>>>\<close>).\<close>

definition goQuo :: "i32 \<Rightarrow> i32 \<Rightarrow> i32" where
  "goQuo a b = word_of_int (sint a sdiv sint b)"

definition goRem :: "i32 \<Rightarrow> i32 \<Rightarrow> i32" where
  "goRem a b = word_of_int (sint a smod sint b)"

definition goShl :: "i32 \<Rightarrow> i32 \<Rightarrow> i32" where
  "goShl a b = push_bit (unat b) a"

definition goShr :: "i32 \<Rightarrow> i32 \<Rightarrow> i32" where
  "goShr a b = word_of_int (drop_bit (unat b) (sint a))"

definition evalUnary :: "opcode \<Rightarrow> i32 \<Rightarrow> runtimeValue" where
  "evalUnary op a =
     (if op = OpcodeNeg then ValueI32 (- a)
      else if op = OpcodeNot then ValueI32 (NOT a)
      else boolI32 (a = 0))"

definition evalBinary :: "opcode \<Rightarrow> i32 \<Rightarrow> i32 \<Rightarrow> evalError + runtimeValue" where
  "evalBinary op a b =
     (case op of
        OpcodeAdd \<Rightarrow> Inr (ValueI32 (a + b))
      | OpcodeSub \<Rightarrow> Inr (ValueI32 (a - b))
      | OpcodeMul \<Rightarrow> Inr (ValueI32 (a * b))
      | OpcodeDivS \<Rightarrow> (if b = 0 then Inl EDivisionByZero else Inr (ValueI32 (goQuo a b)))
      | OpcodeModS \<Rightarrow> (if b = 0 then Inl EModuloByZero else Inr (ValueI32 (goRem a b)))
      | OpcodeAnd \<Rightarrow> Inr (ValueI32 (a AND b))
      | OpcodeOr \<Rightarrow> Inr (ValueI32 (a OR b))
      | OpcodeXor \<Rightarrow> Inr (ValueI32 (a XOR b))
      | OpcodeShl \<Rightarrow> Inr (ValueI32 (goShl a b))
      | OpcodeShrS \<Rightarrow> Inr (ValueI32 (goShr a b))
      | OpcodeEq \<Rightarrow> Inr (boolI32 (a = b))
      | OpcodeNe \<Rightarrow> Inr (boolI32 (a \<noteq> b))
      | OpcodeLtS \<Rightarrow> Inr (boolI32 (sint a < sint b))
      | OpcodeLeS \<Rightarrow> Inr (boolI32 (sint a \<le> sint b))
      | OpcodeGtS \<Rightarrow> Inr (boolI32 (sint a > sint b))
      | _ \<Rightarrow> Inr (boolI32 (sint a \<ge> sint b)))"

definition needCount :: "instruction \<Rightarrow> nat \<Rightarrow> evalError + unit" where
  "needCount inst n =
     guardE (length (operands inst) = n) (EOperandCount (instOpcode inst) n (length (operands inst)))"

definition loadCell :: "evalFrame \<Rightarrow> nat \<Rightarrow> evalError + runtimeValue" where
  "loadCell f ptr =
     (case frMemory f ptr of None \<Rightarrow> Inl (EUninitialized ptr)
      | Some cell \<Rightarrow> if initialized cell then Inr (cellValue cell) else Inl (EUninitialized ptr))"

definition storeCell :: "evalFrame \<Rightarrow> nat \<Rightarrow> runtimeValue \<Rightarrow> evalFrame" where
  "storeCell f ptr v = f\<lparr>frMemory := (frMemory f)(ptr \<mapsto> \<lparr>cellValue = v, initialized = True\<rparr>)\<rparr>"

definition allocCell :: "evalFrame \<Rightarrow> nat \<times> evalFrame" where
  "allocCell f =
     (frNextAddr f,
      f\<lparr>frNextAddr := frNextAddr f + 1,
        frMemory := (frMemory f)(frNextAddr f \<mapsto> \<lparr>cellValue = ValueI32 0, initialized = False\<rparr>)\<rparr>)"

text \<open>Every case of \<open>evalOp\<close> but \<open>call\<close>; \<open>None\<close> is \<open>hasResult = false\<close>.\<close>

definition evalSimpleOp :: "evalFrame \<Rightarrow> instruction \<Rightarrow> evalError + runtimeValue option \<times> evalFrame" where
  "evalSimpleOp f inst =
     (let op = instOpcode inst; txt = (\<lambda>i. opText (operands inst ! i)) in
      if op = OpcodeConstI32 then
        bindE (guardE (length (operands inst) = 1) EConstOperandCount) (\<lambda>_.
          case parseInt 32 (trimSpace (txt 0)) of None \<Rightarrow> Inl (EInvalidConstI32 (txt 0))
          | Some n \<Rightarrow> Inr (Some (ValueI32 (word_of_int n)), f))
      else if op = OpcodeConstI8 then
        bindE (needCount inst 1) (\<lambda>_.
          case parseInt 8 (trimSpace (txt 0)) of None \<Rightarrow> Inl (EInvalidConstI8 (txt 0))
          | Some n \<Rightarrow> Inr (Some (ValueI32 (word_of_int n)), f))
      else if op = OpcodeCopy then
        bindE (needCount inst 1) (\<lambda>_. bindE (resolveValue f (txt 0)) (\<lambda>v. Inr (Some v, f)))
      else if op = OpcodeAlloca then
        bindE (needCount inst 1) (\<lambda>_.
          case allocCell f of (addr, f') \<Rightarrow> Inr (Some (ValuePtr addr), f'))
      else if op = OpcodeLoad \<or> op = OpcodeLoadIndirect then
        bindE (needCount inst 1) (\<lambda>_. bindE (resolvePtr f (txt 0)) (\<lambda>ptr.
          bindE (loadCell f ptr) (\<lambda>v. Inr (Some v, f))))
      else if op = OpcodeStore \<or> op = OpcodeStoreIndirect then
        bindE (needCount inst 2) (\<lambda>_. bindE (resolvePtr f (txt 0)) (\<lambda>ptr.
          bindE (resolveValue f (txt 1)) (\<lambda>v. Inr (None, storeCell f ptr v))))
      else if op \<in> set unaryOpcodes then
        bindE (needCount inst 1) (\<lambda>_. bindE (resolveI32 f (txt 0)) (\<lambda>a.
          Inr (Some (evalUnary op a), f)))
      else if op \<in> set binaryOpcodes then
        bindE (needCount inst 2) (\<lambda>_. bindE (resolveI32 f (txt 0)) (\<lambda>a.
          bindE (resolveI32 f (txt 1)) (\<lambda>b.
            bindE (evalBinary op a b) (\<lambda>v. Inr (Some v, f)))))
      else Inl (EUnsupportedOpcode op))"

definition newFrame :: "tacFunction \<Rightarrow> runtimeValue list \<Rightarrow> evalFrame" where
  "newFrame fn args =
     \<lparr>frFn = fn,
      frValues = foldl (\<lambda>m (p, v). m(paramName p \<mapsto> v)) Map.empty (zip (parameters fn) args),
      frMemory = Map.empty, frNextAddr = 0,
      frLabels = labelMap (instructions fn)\<rparr>"

section \<open>Calls and the instruction loop\<close>

text \<open>
  \<open>evalCall\<close>, its loop over \<open>pc\<close>, and \<open>evalOp\<close>, which calls \<open>evalCall\<close> for \<open>OpcodeCall\<close>. The
  state returned is the one after the call; an error abandons it. Termination: each round of the
  loop consumes a step, and a nested call never gives steps back, which the termination proof shows
  first, by induction along the recursion.
\<close>

definition keepsBudget :: "evalState \<Rightarrow> evalState \<Rightarrow> bool" where
  "keepsBudget s s' \<longleftrightarrow> evStepLimit s' = evStepLimit s \<and> evSteps s \<le> evSteps s'
     \<and> evFuncs s' = evFuncs s \<and> evMaxCallDepth s' = evMaxCallDepth s"

lemma keepsBudget_refl [simp]: "keepsBudget s s"
  by (simp add: keepsBudget_def)

lemma keepsBudget_trans [trans]: "keepsBudget s t \<Longrightarrow> keepsBudget t u \<Longrightarrow> keepsBudget s u"
  by (auto simp: keepsBudget_def)

lemma keepsBudget_step: "keepsBudget (s\<lparr>evSteps := evSteps s + 1\<rparr>) t \<Longrightarrow> keepsBudget s t"
  by (auto simp: keepsBudget_def)

function evalCall ::
    "evalState \<Rightarrow> string \<Rightarrow> runtimeValue list \<Rightarrow> nat \<Rightarrow> evalError + runtimeValue \<times> evalState"
  and evalLoop :: "evalState \<Rightarrow> evalFrame \<Rightarrow> string \<Rightarrow> nat \<Rightarrow> nat \<Rightarrow> evalError + runtimeValue \<times> evalState"
  and evalOp :: "evalState \<Rightarrow> evalFrame \<Rightarrow> instruction \<Rightarrow> nat
    \<Rightarrow> evalError + runtimeValue option \<times> evalFrame \<times> evalState" where
  "evalCall s functionName args depth =
     (if depth \<ge> evMaxCallDepth s then Inl (EMaxDepth functionName)
      else case evFuncs s functionName of
        None \<Rightarrow> Inl (EMissingFunction functionName)
      | Some fn \<Rightarrow>
          if length args \<noteq> length (parameters fn)
          then Inl (EArgCount functionName (length (parameters fn)) (length args))
          else evalLoop s (newFrame fn args) functionName 0 depth)"
| "evalLoop s0 frame functionName pc depth =
     (if \<not> pc < length (instructions (frFn frame)) then Inl (EEndedWithoutRet functionName)
      else if evSteps s0 + 1 > evStepLimit s0 then Inl (EStepLimit functionName)
      else
        let s = s0\<lparr>evSteps := evSteps s0 + 1\<rparr>; inst = instructions (frFn frame) ! pc in
        case instKind inst of
          InstructionLabel \<Rightarrow> evalLoop s frame functionName (pc + 1) depth
        | InstructionJmp \<Rightarrow>
            (case frLabels frame (opText (trueLabel inst)) of
               None \<Rightarrow> Inl (EInvalidJump (opText (trueLabel inst)) functionName)
             | Some next' \<Rightarrow> evalLoop s frame functionName next' depth)
        | InstructionBr \<Rightarrow>
            bindE (resolveI32 frame (opText (condition inst))) (\<lambda>cond.
              let target = (if cond \<noteq> 0 then opText (trueLabel inst) else opText (falseLabel inst)) in
              case frLabels frame target of
                None \<Rightarrow> Inl (EInvalidBranch target functionName)
              | Some next' \<Rightarrow> evalLoop s frame functionName next' depth)
        | InstructionRet \<Rightarrow>
            (if \<not> hasReturnValue inst then Inr (ValueI32 0, s)
             else bindE (resolveValue frame (opText (returnValue inst))) (\<lambda>v. Inr (v, s)))
        | InstructionOp \<Rightarrow>
            bindE (evalOp s frame inst depth) (\<lambda>(res, frame', s').
              case res of
                None \<Rightarrow> evalLoop s' frame' functionName (pc + 1) depth
              | Some v \<Rightarrow>
                  if \<not> hasDestination inst then Inl (ENoDestination (instOpcode inst) functionName)
                  else evalLoop s'
                    (frame'\<lparr>frValues := (frValues frame')(opText (destination inst) \<mapsto> v)\<rparr>)
                    functionName (pc + 1) depth)
        | InstructionUnknown k \<Rightarrow> Inl (EUnsupportedKind (instKind inst) functionName))"
| "evalOp s frame inst depth =
     (if instOpcode inst = OpcodeCall then
        (if callCallee inst = [] then Inl ECalleeRequired
         else bindE (mapE (\<lambda>a. resolveValue frame (opText a)) (callArgs inst)) (\<lambda>argv.
           bindE (evalCall s (callCallee inst) argv (depth + 1)) (\<lambda>(ret, s').
             if \<not> hasDestination inst then Inr (None, frame, s')
             else Inr (Some ret, frame, s'))))
      else bindE (evalSimpleOp frame inst) (\<lambda>(res, frame'). Inr (res, frame', s)))"
  by pat_completeness auto
termination
proof -
  have keeps:
    "evalCall_evalLoop_evalOp_dom (Inl (s, name, args, depth)) \<Longrightarrow>
       \<forall>v s'. evalCall s name args depth = Inr (v, s') \<longrightarrow> keepsBudget s s'"
    "evalCall_evalLoop_evalOp_dom (Inr (Inl (s0, frame, name', pc, depth'))) \<Longrightarrow>
       \<forall>v s'. evalLoop s0 frame name' pc depth' = Inr (v, s') \<longrightarrow> keepsBudget s0 s'"
    "evalCall_evalLoop_evalOp_dom (Inr (Inr (s1, frame1, inst, depth1))) \<Longrightarrow>
       \<forall>r fr s'. evalOp s1 frame1 inst depth1 = Inr (r, fr, s') \<longrightarrow> keepsBudget s1 s'"
    for s name args depth s0 frame name' pc depth' s1 frame1 inst depth1
  proof (induction s name args depth and s0 frame name' pc depth' and s1 frame1 inst depth1
      rule: evalCall_evalLoop_evalOp.pinduct)
    case (1 s functionName args depth)
    then show ?case by (auto simp: evalCall.psimps split: option.splits)
  next
    case (2 s0 frame functionName pc depth)
    show ?case
    proof (intro allI impI)
      fix v s'
      assume r: "evalLoop s0 frame functionName pc depth = Inr (v, s')"
      define s where "s = s0\<lparr>evSteps := evSteps s0 + 1\<rparr>"
      define inst where "inst = instructions (frFn frame) ! pc"
      have g1: "\<not> \<not> pc < length (instructions (frFn frame))"
        using r by (auto simp: evalLoop.psimps [OF 2(1)] simp del: not_not)
      have g2: "\<not> evSteps s0 + 1 > evStepLimit s0"
        using r g1 by (auto simp: evalLoop.psimps [OF 2(1)] simp del: not_not)
      note IH = 2(2-) [OF g1 g2 s_def inst_def]
      note step = r [unfolded evalLoop.psimps [OF 2(1)], unfolded if_not_P [OF g1] if_not_P [OF g2] Let_def,
        folded s_def inst_def]
      have "keepsBudget s s'"
      proof (cases "instKind inst")
        case InstructionLabel
        then show ?thesis using step IH(1) by simp
      next
        case InstructionOp
        with step obtain res frame' s2 where op: "evalOp s frame inst depth = Inr (res, frame', s2)"
          and rest: "(case res of None \<Rightarrow> evalLoop s2 frame' functionName (pc + 1) depth
              | Some v \<Rightarrow> if \<not> hasDestination inst then Inl (ENoDestination (instOpcode inst) functionName)
                  else evalLoop s2 (frame'\<lparr>frValues := (frValues frame')(opText (destination inst) \<mapsto> v)\<rparr>)
                    functionName (pc + 1) depth) = Inr (v, s')"
          by (auto simp: bindE_eq_Inr)
        have "keepsBudget s s2" using IH(2) [OF InstructionOp] op by blast
        moreover have "keepsBudget s2 s'"
          using rest IH(3) [OF InstructionOp op refl refl] IH(4) [OF InstructionOp op refl refl]
          by (cases res) (auto split: if_splits)
        ultimately show ?thesis by (rule keepsBudget_trans)
      next
        case InstructionJmp
        then show ?thesis using step IH(5) by (auto split: option.splits)
      next
        case InstructionBr
        then show ?thesis using step IH(6) [OF InstructionBr _ refl] by (auto simp: bindE_eq_Inr split: option.splits)
      next
        case InstructionRet
        then show ?thesis using step by (auto simp: bindE_eq_Inr split: if_splits)
      next
        case (InstructionUnknown k)
        then show ?thesis using step by simp
      qed
      then show "keepsBudget s0 s'" unfolding s_def by (rule keepsBudget_step)
    qed
  next
    case (3 s frame inst depth)
    then show ?case by (auto simp: evalOp.psimps bindE_eq_Inr split: if_splits)
  qed
  show ?thesis
  proof (relation "measure (\<lambda>x. case x of
      Inl (s, n, a, d) \<Rightarrow> 3 * (evStepLimit s - evSteps s) + 1
    | Inr (Inl (s, f, n, p, d)) \<Rightarrow> 3 * (evStepLimit s - evSteps s)
    | Inr (Inr (s, f, i, d)) \<Rightarrow> 3 * (evStepLimit s - evSteps s) + 2)", goal_cases)
  qed (auto dest!: keeps simp: keepsBudget_def)
qed

declare evalCall.simps [simp del] evalLoop.simps [simp del] evalOp.simps [simp del]

text \<open>\<open>EvaluateFunction\<close>: validate every function of the module in order, then call.\<close>

fun registerFuncs :: "tacFunction list \<Rightarrow> (string \<rightharpoonup> tacFunction) \<Rightarrow> evalError + (string \<rightharpoonup> tacFunction)" where
  "registerFuncs [] m = Inr m"
| "registerFuncs (fn # fns) m =
     bindE (mapErr EInvalidIR (ValidateFunctionIR fn)) (\<lambda>_. registerFuncs fns (m(fnName fn \<mapsto> fn)))"

definition positiveOr :: "int \<Rightarrow> int \<Rightarrow> nat" where
  "positiveOr n dflt = nat (if n \<le> 0 then dflt else n)"

definition EvaluateFunction :: "tacModule \<Rightarrow> string \<Rightarrow> i32 list \<Rightarrow> evalOptions \<Rightarrow> evalError + i32" where
  "EvaluateFunction m functionName args opts =
     bindE (registerFuncs (modFunctions m) Map.empty) (\<lambda>funcs.
       let st = \<lparr>evFuncs = funcs, evSteps = 0,
                 evStepLimit = positiveOr (optStepLimit opts) defaultStepLimit,
                 evMaxCallDepth = positiveOr (optMaxCallDepth opts) defaultMaxCallDepth\<rparr> in
       bindE (evalCall st functionName (map ValueI32 args) 0) (\<lambda>(ret, st').
         case ret of ValueI32 w \<Rightarrow> Inr w | ValuePtr p \<Rightarrow> Inl (EReturnedNonI32 functionName)))"

end
