(* ===== verification/TacEvalProps.thy ===== *)
theory TacEvalProps
  imports TacEval
begin

text \<open>
  What the evaluator guarantees: one unfolding rule per instruction kind, the step and call-depth
  budgets, safety of validated modules (no structural fault can occur), and the arithmetic of the
  opcodes against the integers.
\<close>

section \<open>One rule per instruction kind\<close>

definition tick :: "evalState \<Rightarrow> evalState" where
  "tick s = s\<lparr>evSteps := evSteps s + 1\<rparr>"

definition instAt :: "evalFrame \<Rightarrow> nat \<Rightarrow> instruction" where
  "instAt frame pc = instructions (frFn frame) ! pc"

definition running :: "evalState \<Rightarrow> evalFrame \<Rightarrow> nat \<Rightarrow> bool" where
  "running s frame pc \<longleftrightarrow> pc < length (instructions (frFn frame)) \<and> evSteps s < evStepLimit s"

definition setDest :: "instruction \<Rightarrow> runtimeValue \<Rightarrow> evalFrame \<Rightarrow> evalFrame" where
  "setDest inst v frame = frame\<lparr>frValues := (frValues frame)(opText (destination inst) \<mapsto> v)\<rparr>"

definition branchTarget :: "instruction \<Rightarrow> i32 \<Rightarrow> string" where
  "branchTarget inst c = (if c \<noteq> 0 then opText (trueLabel inst) else opText (falseLabel inst))"

lemma evalLoop_running:
  assumes "running s frame pc"
  shows "evalLoop s frame n pc d =
    (case instKind (instAt frame pc) of
       InstructionLabel \<Rightarrow> evalLoop (tick s) frame n (pc + 1) d
     | InstructionJmp \<Rightarrow>
         (case frLabels frame (opText (trueLabel (instAt frame pc))) of
            None \<Rightarrow> Inl (EInvalidJump (opText (trueLabel (instAt frame pc))) n)
          | Some k \<Rightarrow> evalLoop (tick s) frame n k d)
     | InstructionBr \<Rightarrow>
         bindE (resolveI32 frame (opText (condition (instAt frame pc)))) (\<lambda>c.
           case frLabels frame (branchTarget (instAt frame pc) c) of
             None \<Rightarrow> Inl (EInvalidBranch (branchTarget (instAt frame pc) c) n)
           | Some k \<Rightarrow> evalLoop (tick s) frame n k d)
     | InstructionRet \<Rightarrow>
         (if \<not> hasReturnValue (instAt frame pc) then Inr (ValueI32 0, tick s)
          else bindE (resolveValue frame (opText (returnValue (instAt frame pc)))) (\<lambda>v. Inr (v, tick s)))
     | InstructionOp \<Rightarrow>
         bindE (evalOp (tick s) frame (instAt frame pc) d) (\<lambda>(res, frame', s').
           case res of
             None \<Rightarrow> evalLoop s' frame' n (pc + 1) d
           | Some v \<Rightarrow>
               if \<not> hasDestination (instAt frame pc) then Inl (ENoDestination (instOpcode (instAt frame pc)) n)
               else evalLoop s' (setDest (instAt frame pc) v frame') n (pc + 1) d)
     | InstructionUnknown k \<Rightarrow> Inl (EUnsupportedKind (instKind (instAt frame pc)) n))"
proof -
  have g: "pc < length (instructions (frFn frame))" "\<not> evStepLimit s < evSteps s + 1"
    using assms by (auto simp: running_def)
  show ?thesis
    by (subst evalLoop.simps)
       (simp only: g not_True_eq_False if_False Let_def tick_def instAt_def branchTarget_def setDest_def)
qed

lemma evalLoop_ended:
  "\<not> pc < length (instructions (frFn frame)) \<Longrightarrow> evalLoop s frame n pc d = Inl (EEndedWithoutRet n)"
  by (simp add: evalLoop.simps)

lemma evalLoop_limit:
  "pc < length (instructions (frFn frame)) \<Longrightarrow> evStepLimit s \<le> evSteps s \<Longrightarrow>
     evalLoop s frame n pc d = Inl (EStepLimit n)"
  by (simp add: evalLoop.simps)

lemma evalLoop_label:
  "running s frame pc \<Longrightarrow> instKind (instAt frame pc) = InstructionLabel \<Longrightarrow>
     evalLoop s frame n pc d = evalLoop (tick s) frame n (pc + 1) d"
  by (simp add: evalLoop_running)

lemma evalLoop_jmp:
  "running s frame pc \<Longrightarrow> instKind (instAt frame pc) = InstructionJmp \<Longrightarrow>
     evalLoop s frame n pc d =
       (case frLabels frame (opText (trueLabel (instAt frame pc))) of
          None \<Rightarrow> Inl (EInvalidJump (opText (trueLabel (instAt frame pc))) n)
        | Some k \<Rightarrow> evalLoop (tick s) frame n k d)"
  by (simp add: evalLoop_running)

lemma evalLoop_br:
  "running s frame pc \<Longrightarrow> instKind (instAt frame pc) = InstructionBr \<Longrightarrow>
     evalLoop s frame n pc d =
       bindE (resolveI32 frame (opText (condition (instAt frame pc)))) (\<lambda>c.
         case frLabels frame (branchTarget (instAt frame pc) c) of
           None \<Rightarrow> Inl (EInvalidBranch (branchTarget (instAt frame pc) c) n)
         | Some k \<Rightarrow> evalLoop (tick s) frame n k d)"
  by (simp add: evalLoop_running)

lemma evalLoop_ret:
  "running s frame pc \<Longrightarrow> instKind (instAt frame pc) = InstructionRet \<Longrightarrow>
     evalLoop s frame n pc d =
       (if hasReturnValue (instAt frame pc)
        then bindE (resolveValue frame (opText (returnValue (instAt frame pc)))) (\<lambda>v. Inr (v, tick s))
        else Inr (ValueI32 0, tick s))"
  by (simp add: evalLoop_running)

lemma evalLoop_op:
  "running s frame pc \<Longrightarrow> instKind (instAt frame pc) = InstructionOp \<Longrightarrow>
     evalLoop s frame n pc d =
       bindE (evalOp (tick s) frame (instAt frame pc) d) (\<lambda>(res, frame', s').
         case res of
           None \<Rightarrow> evalLoop s' frame' n (pc + 1) d
         | Some v \<Rightarrow>
             if \<not> hasDestination (instAt frame pc) then Inl (ENoDestination (instOpcode (instAt frame pc)) n)
             else evalLoop s' (setDest (instAt frame pc) v frame') n (pc + 1) d)"
  by (simp add: evalLoop_running)

lemma evalLoop_unknown:
  "running s frame pc \<Longrightarrow> instKind (instAt frame pc) = InstructionUnknown k \<Longrightarrow>
     evalLoop s frame n pc d = Inl (EUnsupportedKind (InstructionUnknown k) n)"
  by (simp add: evalLoop_running)

lemmas evalLoop_steps = evalLoop_label evalLoop_jmp evalLoop_br evalLoop_ret evalLoop_op evalLoop_unknown

lemma running_cases:
  obtains (ended) "\<not> pc < length (instructions (frFn frame))"
    | (limit) "pc < length (instructions (frFn frame))" "evStepLimit s \<le> evSteps s"
    | (running) "running s frame pc"
  by (meson not_less running_def)

lemma evalSimpleOp_frame:
  "evalSimpleOp f inst = Inr (r, f') \<Longrightarrow> frFn f' = frFn f \<and> frLabels f' = frLabels f \<and> frValues f' = frValues f"
  by (auto simp: evalSimpleOp_def Let_def bindE_eq_Inr allocCell_def storeCell_def
      split: if_splits option.splits)

lemma evalOp_frame:
  "evalOp s f inst d = Inr (r, f', s') \<Longrightarrow> frFn f' = frFn f \<and> frLabels f' = frLabels f \<and> frValues f' = frValues f"
  by (auto simp: evalOp.simps bindE_eq_Inr split: if_splits dest: evalSimpleOp_frame)

lemma setDest_sel [simp]:
  "frFn (setDest i v f) = frFn f" "frLabels (setDest i v f) = frLabels f"
  "frMemory (setDest i v f) = frMemory f" "frNextAddr (setDest i v f) = frNextAddr f"
  by (simp_all add: setDest_def)

section \<open>Induction over an evaluation\<close>

text \<open>
  The induction rule of the three mutual functions, with the guards and bindings of the loop body
  already taken apart: one case per way in which a call, the loop or an operation proceeds.
\<close>

lemma eval_induct [case_names call ended limit label jmp br ret op unknown op_call op_simple]:
  assumes call: "\<And>s n args d.
      (\<And>fn. evFuncs s n = Some fn \<Longrightarrow> d < evMaxCallDepth s \<Longrightarrow> length args = length (parameters fn) \<Longrightarrow>
         L s (newFrame fn args) n 0 d) \<Longrightarrow> C s n args d"
    and ended: "\<And>s f n pc d. \<not> pc < length (instructions (frFn f)) \<Longrightarrow> L s f n pc d"
    and limit: "\<And>s f n pc d. pc < length (instructions (frFn f)) \<Longrightarrow> evStepLimit s \<le> evSteps s \<Longrightarrow> L s f n pc d"
    and label: "\<And>s f n pc d. running s f pc \<Longrightarrow> instKind (instAt f pc) = InstructionLabel \<Longrightarrow>
      L (tick s) f n (pc + 1) d \<Longrightarrow> L s f n pc d"
    and jmp: "\<And>s f n pc d. running s f pc \<Longrightarrow> instKind (instAt f pc) = InstructionJmp \<Longrightarrow>
      (\<And>k. frLabels f (opText (trueLabel (instAt f pc))) = Some k \<Longrightarrow> L (tick s) f n k d) \<Longrightarrow> L s f n pc d"
    and br: "\<And>s f n pc d. running s f pc \<Longrightarrow> instKind (instAt f pc) = InstructionBr \<Longrightarrow>
      (\<And>c k. resolveI32 f (opText (condition (instAt f pc))) = Inr c \<Longrightarrow>
          frLabels f (branchTarget (instAt f pc) c) = Some k \<Longrightarrow> L (tick s) f n k d) \<Longrightarrow> L s f n pc d"
    and ret: "\<And>s f n pc d. running s f pc \<Longrightarrow> instKind (instAt f pc) = InstructionRet \<Longrightarrow> L s f n pc d"
    and op: "\<And>s f n pc d. running s f pc \<Longrightarrow> instKind (instAt f pc) = InstructionOp \<Longrightarrow>
      Q (tick s) f (instAt f pc) d \<Longrightarrow>
      (\<And>f' s'. evalOp (tick s) f (instAt f pc) d = Inr (None, f', s') \<Longrightarrow> L s' f' n (pc + 1) d) \<Longrightarrow>
      (\<And>v f' s'. evalOp (tick s) f (instAt f pc) d = Inr (Some v, f', s') \<Longrightarrow>
          hasDestination (instAt f pc) \<Longrightarrow> L s' (setDest (instAt f pc) v f') n (pc + 1) d) \<Longrightarrow> L s f n pc d"
    and unknown: "\<And>s f n pc d k. running s f pc \<Longrightarrow> instKind (instAt f pc) = InstructionUnknown k \<Longrightarrow> L s f n pc d"
    and op_call: "\<And>s f i d. instOpcode i = OpcodeCall \<Longrightarrow>
      (\<And>argv. mapE (\<lambda>a. resolveValue f (opText a)) (callArgs i) = Inr argv \<Longrightarrow> callCallee i \<noteq> [] \<Longrightarrow>
          C s (callCallee i) argv (d + 1)) \<Longrightarrow> Q s f i d"
    and op_simple: "\<And>s f i d. instOpcode i \<noteq> OpcodeCall \<Longrightarrow> Q s f i d"
  shows "C s n args d" and "L s' f n' pc d'" and "Q s'' f' i d''"
proof (induction s n args d and s' f n' pc d' and s'' f' i d'' rule: evalCall_evalLoop_evalOp.induct)
  case (1 s n args d)
  then show ?case by - (rule call, auto)
next
  case (2 s f n pc d)
  show ?case
  proof (cases rule: running_cases [where pc = pc and frame = f and s = s])
    case ended
    then show ?thesis by (rule assms(2))
  next
    case limit
    then show ?thesis by (rule assms(3))
  next
    case running
    then have g: "\<not> \<not> pc < length (instructions (frFn f))" "\<not> evStepLimit s < evSteps s + 1"
      by (auto simp: running_def)
    note IH = 2 [OF g tick_def instAt_def]
    show ?thesis
    proof (cases "instKind (instAt f pc)")
      case InstructionLabel
      then show ?thesis using running IH(1) by - (rule label)
    next
      case InstructionOp
      show ?thesis
      proof (rule op [OF running InstructionOp])
        show "Q (tick s) f (instAt f pc) d" by (rule IH(2) [OF InstructionOp])
        show "L s' f' n (pc + 1) d" if "evalOp (tick s) f (instAt f pc) d = Inr (None, f', s')" for f' s'
          using IH(3) [OF InstructionOp that refl refl refl] .
        show "L s' (setDest (instAt f pc) v f') n (pc + 1) d"
          if "evalOp (tick s) f (instAt f pc) d = Inr (Some v, f', s')" "hasDestination (instAt f pc)" for v f' s'
          using IH(4) [OF InstructionOp that(1) refl refl refl] that(2) by (simp add: setDest_def)
      qed
    next
      case InstructionJmp
      then show ?thesis using running IH(5) by - (rule jmp)
    next
      case InstructionBr
      show ?thesis by (rule br [OF running InstructionBr]) (rule IH(6) [OF InstructionBr _ branchTarget_def])
    next
      case InstructionRet
      then show ?thesis using running by - (rule ret)
    next
      case (InstructionUnknown k)
      then show ?thesis using running by - (rule unknown)
    qed
  qed
next
  case (3 s f i d)
  show ?case
  proof (cases "instOpcode i = OpcodeCall")
    case True
    then show ?thesis by (rule op_call) (use 3 True in auto)
  next
    case False
    then show ?thesis by (rule op_simple)
  qed
qed

section \<open>Budgets\<close>

lemma tick_sel [simp]:
  "evFuncs (tick s) = evFuncs s" "evSteps (tick s) = evSteps s + 1"
  "evStepLimit (tick s) = evStepLimit s" "evMaxCallDepth (tick s) = evMaxCallDepth s"
  by (simp_all add: tick_def)

definition spends :: "evalState \<Rightarrow> evalState \<Rightarrow> bool" where
  "spends s s' \<longleftrightarrow> keepsBudget s s' \<and> evSteps s < evSteps s' \<and> evSteps s' \<le> evStepLimit s"

lemma spends_tick: "spends (tick s) s' \<Longrightarrow> spends s s'"
  by (auto simp: spends_def keepsBudget_def)

lemma running_spends: "running s f pc \<Longrightarrow> spends s (tick s)"
  by (auto simp: spends_def keepsBudget_def running_def)

lemma eval_spends:
  "evalCall s n args d = Inr (v, s') \<Longrightarrow> spends s s'"
  "evalLoop s f n pc d = Inr (v, s') \<Longrightarrow> spends s s'"
  "evalOp s f i d = Inr (r, f', s') \<Longrightarrow> keepsBudget s s' \<and> (evSteps s' = evSteps s \<or> evSteps s' \<le> evStepLimit s)"
proof -
  have "\<forall>v s'. evalCall s n args d = Inr (v, s') \<longrightarrow> spends s s'"
    and "\<forall>v s'. evalLoop s1 f1 n1 pc1 d1 = Inr (v, s') \<longrightarrow> spends s1 s'"
    and "\<forall>r f' s'. evalOp s2 f2 i2 d2 = Inr (r, f', s')
      \<longrightarrow> keepsBudget s2 s' \<and> (evSteps s' = evSteps s2 \<or> evSteps s' \<le> evStepLimit s2)"
    for s n args d s1 f1 n1 pc1 d1 s2 f2 i2 d2
  proof (induction s n args d and s1 f1 n1 pc1 d1 and s2 f2 i2 d2 rule: eval_induct)
    case (call s n args d)
    then show ?case by (auto simp: evalCall.simps split: option.splits if_splits)
  next
    case (op s f n pc d)
    show ?case
    proof (intro allI impI)
      fix v s'
      assume "evalLoop s f n pc d = Inr (v, s')"
      then obtain res f1 s1 where
        o: "evalOp (tick s) f (instAt f pc) d = Inr (res, f1, s1)" and
        rest: "(case res of None \<Rightarrow> evalLoop s1 f1 n (pc + 1) d
           | Some w \<Rightarrow> if \<not> hasDestination (instAt f pc) then Inl (ENoDestination (instOpcode (instAt f pc)) n)
               else evalLoop s1 (setDest (instAt f pc) w f1) n (pc + 1) d) = Inr (v, s')"
        using op(1,2) by (auto simp: evalLoop_op bindE_eq_Inr)
      have "spends s1 s'"
        using rest op(4) [of f1 s1] op(5) [of _ f1 s1] o by (cases res) (auto split: if_splits)
      moreover have "keepsBudget (tick s) s1" using op(3) o by blast
      ultimately show "spends s s'" by (auto simp: spends_def keepsBudget_def)
    qed
  next
    case (op_call s f i d)
    then show ?case
      by (fastforce simp: evalOp.simps bindE_eq_Inr spends_def split: if_splits)
  next
    case (ended s f n pc d)
    then show ?case by (simp add: evalLoop_ended)
  next
    case (limit s f n pc d)
    then show ?case by (simp add: evalLoop_limit)
  next
    case (label s f n pc d)
    then show ?case by (auto simp: evalLoop_label intro: spends_tick)
  next
    case (jmp s f n pc d)
    then show ?case by (auto simp: evalLoop_jmp intro: spends_tick split: option.splits)
  next
    case (br s f n pc d)
    then show ?case by (auto simp: evalLoop_br bindE_eq_Inr intro: spends_tick split: option.splits)
  next
    case (ret s f n pc d)
    then show ?case by (auto simp: evalLoop_ret bindE_eq_Inr running_spends split: if_splits)
  next
    case (unknown s f n pc d k)
    then show ?case by (simp add: evalLoop_unknown)
  next
    case (op_simple s f i d)
    then show ?case by (auto simp: evalOp.simps bindE_eq_Inr)
  qed
  then show "evalCall s n args d = Inr (v, s') \<Longrightarrow> spends s s'"
    and "evalLoop s f n pc d = Inr (v, s') \<Longrightarrow> spends s s'"
    and "evalOp s f i d = Inr (r, f', s')
      \<Longrightarrow> keepsBudget s s' \<and> (evSteps s' = evSteps s \<or> evSteps s' \<le> evStepLimit s)"
    by blast+
qed

text \<open>A larger budget: the same state with higher limits.\<close>

definition raise :: "nat \<Rightarrow> nat \<Rightarrow> evalState \<Rightarrow> evalState" where
  "raise l m s = s\<lparr>evStepLimit := evStepLimit s + l, evMaxCallDepth := evMaxCallDepth s + m\<rparr>"

lemma raise_sel [simp]:
  "evFuncs (raise l m s) = evFuncs s" "evSteps (raise l m s) = evSteps s"
  "evStepLimit (raise l m s) = evStepLimit s + l" "evMaxCallDepth (raise l m s) = evMaxCallDepth s + m"
  by (simp_all add: raise_def)

lemma tick_raise [simp]: "tick (raise l m s) = raise l m (tick s)"
  by (simp add: tick_def raise_def)

lemma running_raise: "running s f pc \<Longrightarrow> running (raise l m s) f pc"
  by (simp add: running_def)

lemma eval_raise:
  "evalCall s n args d = Inr (v, s') \<Longrightarrow> evalCall (raise l m s) n args d = Inr (v, raise l m s')"
  "evalLoop s f n pc d = Inr (v, s') \<Longrightarrow> evalLoop (raise l m s) f n pc d = Inr (v, raise l m s')"
  "evalOp s f i d = Inr (r, f', s') \<Longrightarrow> evalOp (raise l m s) f i d = Inr (r, f', raise l m s')"
proof -
  have "\<forall>v s'. evalCall s n args d = Inr (v, s') \<longrightarrow> evalCall (raise l m s) n args d = Inr (v, raise l m s')"
    and "\<forall>v s'. evalLoop s1 f1 n1 pc1 d1 = Inr (v, s') \<longrightarrow> evalLoop (raise l m s1) f1 n1 pc1 d1 = Inr (v, raise l m s')"
    and "\<forall>r f' s'. evalOp s2 f2 i2 d2 = Inr (r, f', s') \<longrightarrow> evalOp (raise l m s2) f2 i2 d2 = Inr (r, f', raise l m s')"
    for s n args d s1 f1 n1 pc1 d1 s2 f2 i2 d2
  proof (induction s n args d and s1 f1 n1 pc1 d1 and s2 f2 i2 d2 rule: eval_induct)
    case (call s n args d)
    then show ?case by (auto simp: evalCall.simps split: option.splits if_splits)
  next
    case (op s f n pc d)
    show ?case
    proof (intro allI impI)
      fix v s'
      assume "evalLoop s f n pc d = Inr (v, s')"
      then obtain res f1 s1 where
        o: "evalOp (tick s) f (instAt f pc) d = Inr (res, f1, s1)" and
        rest: "(case res of None \<Rightarrow> evalLoop s1 f1 n (pc + 1) d
           | Some w \<Rightarrow> if \<not> hasDestination (instAt f pc) then Inl (ENoDestination (instOpcode (instAt f pc)) n)
               else evalLoop s1 (setDest (instAt f pc) w f1) n (pc + 1) d) = Inr (v, s')"
        using op(1,2) by (auto simp: evalLoop_op bindE_eq_Inr)
      have "evalOp (raise l m (tick s)) f (instAt f pc) d = Inr (res, f1, raise l m s1)"
        using op(3) o by blast
      moreover have "(case res of None \<Rightarrow> evalLoop (raise l m s1) f1 n (pc + 1) d
           | Some w \<Rightarrow> if \<not> hasDestination (instAt f pc) then Inl (ENoDestination (instOpcode (instAt f pc)) n)
               else evalLoop (raise l m s1) (setDest (instAt f pc) w f1) n (pc + 1) d) = Inr (v, raise l m s')"
        using rest op(4) [of f1 s1] op(5) [of _ f1 s1] o by (cases res) (auto split: if_splits)
      ultimately show "evalLoop (raise l m s) f n pc d = Inr (v, raise l m s')"
        using running_raise [OF op(1)] op(2) by (simp add: evalLoop_op)
    qed
  next
    case (op_call s f i d)
    then show ?case by (auto simp: evalOp.simps bindE_eq_Inr split: if_splits)
  qed (auto simp: evalLoop_ended evalLoop_limit evalLoop_steps bindE_eq_Inr running_raise
        evalOp.simps split: option.splits if_splits)
  then show "evalCall s n args d = Inr (v, s') \<Longrightarrow> evalCall (raise l m s) n args d = Inr (v, raise l m s')"
    and "evalLoop s f n pc d = Inr (v, s') \<Longrightarrow> evalLoop (raise l m s) f n pc d = Inr (v, raise l m s')"
    and "evalOp s f i d = Inr (r, f', s') \<Longrightarrow> evalOp (raise l m s) f i d = Inr (r, f', raise l m s')"
    by blast+
qed

section \<open>Validated functions have no structural faults\<close>

text \<open>The faults that only malformed IR can cause; the others (division by zero, an uninitialised
  cell, an unknown name, an exhausted budget) depend on the values computed.\<close>

fun structuralFault :: "evalError \<Rightarrow> bool" where
  "structuralFault (EInvalidJump l n) = True"
| "structuralFault (EInvalidBranch l n) = True"
| "structuralFault (EUnsupportedKind k n) = True"
| "structuralFault (EOperandCount op want got) = True"
| "structuralFault EConstOperandCount = True"
| "structuralFault ECalleeRequired = True"
| "structuralFault (EUnsupportedOpcode op) = True"
| "structuralFault _ = False"

text \<open>A fault a run over the function table \<open>funcs\<close> may report.\<close>

definition benignFault :: "(string \<rightharpoonup> tacFunction) \<Rightarrow> evalError \<Rightarrow> bool" where
  "benignFault funcs e \<longleftrightarrow> \<not> structuralFault e
     \<and> (\<forall>n. e = EEndedWithoutRet n \<longrightarrow> (\<exists>fn. funcs n = Some fn \<and> instructions fn = []))"

definition wfFuncs :: "(string \<rightharpoonup> tacFunction) \<Rightarrow> bool" where
  "wfFuncs funcs \<longleftrightarrow> (\<forall>fn \<in> ran funcs. wfInstructions (instructions fn))"

text \<open>A frame that runs the body of the function called \<open>n\<close>, at a program point of it.\<close>

definition wfPoint :: "(string \<rightharpoonup> tacFunction) \<Rightarrow> string \<Rightarrow> evalFrame \<Rightarrow> nat \<Rightarrow> bool" where
  "wfPoint funcs n f pc \<longleftrightarrow> (\<exists>fn. funcs n = Some fn \<and> frFn f = fn)
     \<and> frLabels f = labelMap (instructions (frFn f))
     \<and> (instructions (frFn f) \<noteq> [] \<longrightarrow> pc < length (instructions (frFn f)))"

lemma newFrame_sel [simp]:
  "frFn (newFrame fn args) = fn" "frLabels (newFrame fn args) = labelMap (instructions fn)"
  "frMemory (newFrame fn args) = Map.empty" "frNextAddr (newFrame fn args) = 0"
  by (simp_all add: newFrame_def)

lemma wfPoint_newFrame: "funcs n = Some fn \<Longrightarrow> wfPoint funcs n (newFrame fn args) 0"
  by (simp add: wfPoint_def)

lemma wfPoint_frame:
  "frFn f' = frFn f \<Longrightarrow> frLabels f' = frLabels f \<Longrightarrow> wfPoint funcs n f' pc = wfPoint funcs n f pc"
  by (simp add: wfPoint_def)

lemma wfPoint_wf: "wfFuncs funcs \<Longrightarrow> wfPoint funcs n f pc \<Longrightarrow> wfInstructions (instructions (frFn f))"
  by (auto simp: wfFuncs_def wfPoint_def ran_def)

lemma wfPoint_verified:
  assumes "wfFuncs funcs" "wfPoint funcs n f pc" "running s f pc"
  shows "VerifyInstruction (instAt f pc) = Inr ()" "set (targetsOf (instAt f pc)) \<subseteq> dom (frLabels f)"
  using wfPoint_wf [OF assms(1,2)] assms(2,3)
  by (auto simp: wfInstructions_def instAt_def running_def wfPoint_def)

lemma wfPoint_next:
  assumes "wfFuncs funcs" "wfPoint funcs n f pc" "running s f pc" "\<not> isTerminator (instAt f pc)"
  shows "wfPoint funcs n f (pc + 1)"
proof -
  have "isTerminator (last (instructions (frFn f)))"
    using wfPoint_wf [OF assms(1,2)] assms(3) by (auto simp: wfInstructions_def running_def)
  then have "pc + 1 \<noteq> length (instructions (frFn f))"
    using assms(4) by (metis instAt_def add_diff_cancel_right' last_conv_nth list.size(3) add_is_0 one_neq_zero)
  then show ?thesis using assms(2,3) by (auto simp: wfPoint_def running_def)
qed

lemma wfPoint_jump:
  assumes "wfPoint funcs n f pc" "frLabels f l = Some k"
  shows "wfPoint funcs n f k"
proof -
  have "k < length (instructions (frFn f))"
    using assms by (auto simp: wfPoint_def dest: labelMap_Some)
  then show ?thesis using assms(1) by (auto simp: wfPoint_def)
qed

lemma resolve_errors:
  "resolveValue f t = Inl e \<Longrightarrow> benignFault funcs e"
  "resolveI32 f t = Inl e \<Longrightarrow> benignFault funcs e"
  "resolvePtr f t = Inl e \<Longrightarrow> benignFault funcs e"
  by (auto simp: resolveI32_def resolvePtr_def resolveValue_def Let_def bindE_eq_Inl benignFault_def
      split: option.splits runtimeValue.splits)

lemma resolve_list_errors: "mapE (\<lambda>a. resolveValue f (t a)) as = Inl e \<Longrightarrow> benignFault funcs e"
  by (induction as) (auto simp: bindE_eq_Inl dest: resolve_errors)

lemma evalBinary_errors: "evalBinary op a b = Inl e \<Longrightarrow> benignFault funcs e"
  by (auto simp: evalBinary_def benignFault_def split: opcode.splits if_splits)

lemma loadCell_errors: "loadCell f p = Inl e \<Longrightarrow> benignFault funcs e"
  by (auto simp: loadCell_def benignFault_def split: option.splits if_splits)

lemma verified_operands:
  assumes "VerifyInstruction i = Inr ()" "instKind i = InstructionOp"
  shows "instOpcode i \<in> {OpcodeConstI32, OpcodeConstI8, OpcodeAlloca, OpcodeCopy, OpcodeLoad, OpcodeLoadIndirect}
             \<union> set unaryOpcodes \<Longrightarrow> length (operands i) = 1"
    and "instOpcode i \<in> {OpcodeStore, OpcodeStoreIndirect} \<union> set binaryOpcodes \<Longrightarrow> length (operands i) = 2"
    and "instOpcode i = OpcodeCall \<Longrightarrow> callCallee i \<noteq> []"
    and "instOpcode i \<in> {OpcodeConstI32, OpcodeConstI8, OpcodeAlloca, OpcodeCopy, OpcodeLoad, OpcodeLoadIndirect,
             OpcodeStore, OpcodeStoreIndirect, OpcodeCall} \<union> set unaryOpcodes \<union> set binaryOpcodes"
  using assms
  by (auto simp: VerifyInstruction_def verifyOpcodeOperands_def Let_def bindE_eq_Inr requireKinds_iff
      oneValue_def twoValues_def map_eq_Cons_conv unaryOpcodes_def binaryOpcodes_def split: if_splits)

lemma needCount_verified: "length (operands i) = n \<Longrightarrow> needCount i n = Inr ()"
  by (simp add: needCount_def)

lemma evalSimpleOp_errors:
  assumes v: "VerifyInstruction i = Inr ()" "instKind i = InstructionOp"
    and "instOpcode i \<noteq> OpcodeCall" and e: "evalSimpleOp f i = Inl e"
  shows "benignFault funcs e"
proof -
  note V = verified_operands [OF v]
  consider (const) "instOpcode i \<in> {OpcodeConstI32, OpcodeConstI8}"
    | (one) "instOpcode i \<in> {OpcodeAlloca, OpcodeCopy, OpcodeLoad, OpcodeLoadIndirect} \<union> set unaryOpcodes"
    | (two) "instOpcode i \<in> {OpcodeStore, OpcodeStoreIndirect} \<union> set binaryOpcodes"
    using V(4) assms(3) by blast
  then show ?thesis
  proof cases
    case const
    then have "length (operands i) = 1" using V(1) by auto
    then show ?thesis using const e
      by (auto simp: evalSimpleOp_def needCount_verified benignFault_def split: option.splits if_splits)
  next
    case one
    then have n: "needCount i 1 = Inr ()" using V(1) by (intro needCount_verified) auto
    show ?thesis using one e
      unfolding evalSimpleOp_def Let_def n
      by (auto simp: unaryOpcodes_def binaryOpcodes_def bindE_eq_Inl split: if_splits prod.splits
          dest: resolve_errors loadCell_errors)
  next
    case two
    then have n: "needCount i 2 = Inr ()" using V(2) by (intro needCount_verified) auto
    show ?thesis using two e
      unfolding evalSimpleOp_def Let_def n
      by (auto simp: unaryOpcodes_def binaryOpcodes_def bindE_eq_Inl split: if_splits prod.splits
          dest: resolve_errors evalBinary_errors)
  qed
qed

lemma eval_faults:
  assumes "wfFuncs funcs"
  shows "evFuncs s = funcs \<Longrightarrow> evalCall s n args d = Inl e \<Longrightarrow> benignFault funcs e"
    and "evFuncs s = funcs \<Longrightarrow> wfPoint funcs n f pc \<Longrightarrow> evalLoop s f n pc d = Inl e \<Longrightarrow> benignFault funcs e"
proof -
  have "evFuncs s = funcs \<longrightarrow> (\<forall>e. evalCall s n args d = Inl e \<longrightarrow> benignFault funcs e)"
    and "evFuncs s1 = funcs \<longrightarrow> wfPoint funcs n1 f1 pc1 \<longrightarrow>
      (\<forall>e. evalLoop s1 f1 n1 pc1 d1 = Inl e \<longrightarrow> benignFault funcs e)"
    and "evFuncs s2 = funcs \<longrightarrow> VerifyInstruction i2 = Inr () \<longrightarrow> instKind i2 = InstructionOp \<longrightarrow>
      (\<forall>e. evalOp s2 f2 i2 d2 = Inl e \<longrightarrow> benignFault funcs e)"
    for s n args d s1 f1 n1 pc1 d1 s2 f2 i2 d2
  proof (induction s n args d and s1 f1 n1 pc1 d1 and s2 f2 i2 d2 rule: eval_induct)
    case (call s n args d)
    then show ?case
      by (auto simp: evalCall.simps wfPoint_newFrame benignFault_def split: option.splits if_splits)
  next
    case (ended s f n pc d)
    then show ?case by (auto simp: evalLoop_ended benignFault_def wfPoint_def)
  next
    case (limit s f n pc d)
    then show ?case by (simp add: evalLoop_limit benignFault_def)
  next
    case (label s f n pc d)
    then show ?case
      using wfPoint_next [OF assms _ label(1)] by (simp add: evalLoop_label isTerminator_def)
  next
    case (jmp s f n pc d)
    show ?case
    proof (intro impI allI)
      fix e assume *: "evFuncs s = funcs" "wfPoint funcs n f pc" "evalLoop s f n pc d = Inl e"
      obtain k where k: "frLabels f (opText (trueLabel (instAt f pc))) = Some k"
        using wfPoint_verified(2) [OF assms *(2) jmp(1)] jmp(2) by (auto simp: targetsOf_def)
      then show "benignFault funcs e"
        using * jmp wfPoint_jump [OF *(2) k] by (simp add: evalLoop_jmp)
    qed
  next
    case (br s f n pc d)
    show ?case
    proof (intro impI allI)
      fix e assume *: "evFuncs s = funcs" "wfPoint funcs n f pc" "evalLoop s f n pc d = Inl e"
      show "benignFault funcs e"
      proof (cases "resolveI32 f (opText (condition (instAt f pc)))")
        case (Inl e')
        then show ?thesis using * br(1,2) by (simp add: evalLoop_br resolve_errors)
      next
        case (Inr c)
        obtain k where k: "frLabels f (branchTarget (instAt f pc) c) = Some k"
          using wfPoint_verified(2) [OF assms *(2) br(1)] br(2)
          by (cases "c = 0") (auto simp: targetsOf_def branchTarget_def)
        then show ?thesis
          using * br Inr wfPoint_jump [OF *(2) k] by (simp add: evalLoop_br)
      qed
    qed
  next
    case (ret s f n pc d)
    then show ?case by (auto simp: evalLoop_ret bindE_eq_Inl resolve_errors split: if_splits)
  next
    case (unknown s f n pc d k)
    then show ?case
      using wfPoint_verified(1) [OF assms _ unknown(1)] by (auto simp: VerifyInstruction_def)
  next
    case (op s f n pc d)
    show ?case
    proof (intro impI allI)
      fix e assume *: "evFuncs s = funcs" "wfPoint funcs n f pc" "evalLoop s f n pc d = Inl e"
      note ver = wfPoint_verified(1) [OF assms *(2) op(1)]
      show "benignFault funcs e"
      proof (cases "evalOp (tick s) f (instAt f pc) d")
        case (Inl e')
        then show ?thesis using * op ver by (simp add: evalLoop_op)
      next
        case (Inr r)
        obtain res f1 s1 where r: "r = (res, f1, s1)" by (cases r)
        note o = Inr [unfolded r]
        have fr: "frFn f1 = frFn f" "frLabels f1 = frLabels f"
          using evalOp_frame [OF o] by auto
        have fs: "evFuncs s1 = funcs"
          using eval_spends(3) [OF o] *(1) by (simp add: keepsBudget_def)
        have nxt: "wfPoint funcs n f (pc + 1)"
          using wfPoint_next [OF assms *(2) op(1)] op(2) by (simp add: isTerminator_def)
        have "wfPoint funcs n f1 (pc + 1)" "\<And>v. wfPoint funcs n (setDest (instAt f pc) v f1) (pc + 1)"
          using nxt by (subst wfPoint_frame [of _ f], simp_all add: fr)+
        then show ?thesis
          using *(3) op(1,2) op(4) [of f1 s1] op(5) [of _ f1 s1] o fs
          by (cases res) (auto simp: evalLoop_op benignFault_def split: if_splits)
      qed
    qed
  next
    case (op_call s f i d)
    show ?case
    proof (intro impI allI)
      fix e assume *: "evFuncs s = funcs" "VerifyInstruction i = Inr ()" "instKind i = InstructionOp"
        "evalOp s f i d = Inl e"
      have "callCallee i \<noteq> []" using verified_operands(3) [OF *(2,3) op_call(1)] .
      then show "benignFault funcs e"
        using * op_call by (auto simp: evalOp.simps bindE_eq_Inl resolve_list_errors split: if_splits)
    qed
  next
    case (op_simple s f i d)
    then show ?case by (auto simp: evalOp.simps bindE_eq_Inl evalSimpleOp_errors)
  qed
  then show "evFuncs s = funcs \<Longrightarrow> evalCall s n args d = Inl e \<Longrightarrow> benignFault funcs e"
    and "evFuncs s = funcs \<Longrightarrow> wfPoint funcs n f pc \<Longrightarrow> evalLoop s f n pc d = Inl e \<Longrightarrow> benignFault funcs e"
    by blast+
qed

text \<open>What \<open>EvaluateFunction\<close> registers: the last function of each name, all of them validated.\<close>

lemma registerFuncs_ok:
  assumes "registerFuncs fns m = Inr funcs" "wfFuncs m"
  shows "wfFuncs funcs" and "ran funcs \<subseteq> ran m \<union> set fns"
    and "funcs n = Some fn \<Longrightarrow> m n = Some fn \<or> fn \<in> set fns \<and> fnName fn = n"
proof -
  have "wfFuncs funcs \<and> (\<forall>n fn. funcs n = Some fn \<longrightarrow> m n = Some fn \<or> fn \<in> set fns \<and> fnName fn = n)"
    using assms
  proof (induction fns arbitrary: m)
    case Nil
    then show ?case by simp
  next
    case (Cons g fns)
    then have wf: "wfInstructions (instructions g)" and r: "registerFuncs fns (m(fnName g \<mapsto> g)) = Inr funcs"
      by (auto simp: bindE_eq_Inr validate_iff)
    have "wfFuncs (m(fnName g \<mapsto> g))"
      using Cons.prems(2) wf by (auto simp: wfFuncs_def ran_def)
    from Cons.IH [OF r this] show ?case by (auto split: if_splits)
  qed
  then show "wfFuncs funcs" "ran funcs \<subseteq> ran m \<union> set fns"
    "funcs n = Some fn \<Longrightarrow> m n = Some fn \<or> fn \<in> set fns \<and> fnName fn = n"
    by (auto simp: ran_def)
qed

lemma registerFuncs_error:
  "registerFuncs fns m = Inl e \<Longrightarrow> \<exists>fn ie. fn \<in> set fns \<and> e = EInvalidIR ie \<and> ValidateFunctionIR fn = Inl ie"
proof (induction fns arbitrary: m)
  case Nil
  then show ?case by simp
next
  case (Cons g fns)
  show ?case
  proof (cases "ValidateFunctionIR g")
    case (Inl e')
    then show ?thesis using Cons.prems by auto
  next
    case (Inr u)
    then have "registerFuncs fns (m(fnName g \<mapsto> g)) = Inl e" using Cons.prems by simp
    from Cons.IH [OF this] show ?thesis by auto
  qed
qed

lemma wfFuncs_empty [simp]: "wfFuncs Map.empty"
  by (simp add: wfFuncs_def)

lemma evaluate_faults:
  assumes "EvaluateFunction m n args opts = Inl e"
  shows "\<not> structuralFault e
     \<and> (\<forall>g. e = EEndedWithoutRet g \<longrightarrow> (\<exists>fn \<in> set (modFunctions m). fnName fn = g \<and> instructions fn = []))"
proof (cases "registerFuncs (modFunctions m) Map.empty")
  case (Inl e')
  then show ?thesis using assms registerFuncs_error [OF Inl] by (auto simp: EvaluateFunction_def)
next
  case (Inr funcs)
  note reg = registerFuncs_ok [OF Inr wfFuncs_empty]
  define st where "st = \<lparr>evFuncs = funcs, evSteps = 0,
    evStepLimit = positiveOr (optStepLimit opts) defaultStepLimit,
    evMaxCallDepth = positiveOr (optMaxCallDepth opts) defaultMaxCallDepth\<rparr>"
  have ev: "EvaluateFunction m n args opts = bindE (evalCall st n (map ValueI32 args) 0) (\<lambda>(ret, st').
      case ret of ValueI32 w \<Rightarrow> Inr w | ValuePtr p \<Rightarrow> Inl (EReturnedNonI32 n))"
    using Inr by (simp add: EvaluateFunction_def st_def)
  have "benignFault funcs e"
  proof (cases "evalCall st n (map ValueI32 args) 0")
    case (Inl e')
    then show ?thesis using assms ev eval_faults(1) [OF reg(1), of st] by (simp add: st_def)
  next
    case (Inr r)
    then show ?thesis using assms ev by (cases r) (auto simp: benignFault_def split: runtimeValue.splits)
  qed
  then show ?thesis using reg(3) by (fastforce simp: benignFault_def)
qed

lemma positiveOr_mono: "0 < a \<Longrightarrow> a \<le> b \<Longrightarrow> positiveOr a x \<le> positiveOr b x"
  by (simp add: positiveOr_def)

text \<open>Raising either budget never changes a result.\<close>

lemma evaluate_budget_mono:
  assumes "EvaluateFunction m n args opts = Inr w"
    and "0 < optStepLimit opts" "optStepLimit opts \<le> optStepLimit opts'"
    and "0 < optMaxCallDepth opts" "optMaxCallDepth opts \<le> optMaxCallDepth opts'"
  shows "EvaluateFunction m n args opts' = Inr w"
proof -
  obtain funcs st' where f: "registerFuncs (modFunctions m) Map.empty = Inr funcs"
    and c: "evalCall \<lparr>evFuncs = funcs, evSteps = 0, evStepLimit = positiveOr (optStepLimit opts) defaultStepLimit,
        evMaxCallDepth = positiveOr (optMaxCallDepth opts) defaultMaxCallDepth\<rparr> n (map ValueI32 args) 0
      = Inr (ValueI32 w, st')"
  proof -
    from assms(1) obtain funcs ret st' where *: "registerFuncs (modFunctions m) Map.empty = Inr funcs"
      "evalCall \<lparr>evFuncs = funcs, evSteps = 0, evStepLimit = positiveOr (optStepLimit opts) defaultStepLimit,
        evMaxCallDepth = positiveOr (optMaxCallDepth opts) defaultMaxCallDepth\<rparr> n (map ValueI32 args) 0 = Inr (ret, st')"
      "(case ret of ValueI32 w \<Rightarrow> Inr w | ValuePtr p \<Rightarrow> Inl (EReturnedNonI32 n)) = Inr w"
      unfolding EvaluateFunction_def Let_def bindE_eq_Inr by auto
    then show thesis using that by (cases ret) auto
  qed
  define l where "l = positiveOr (optStepLimit opts') defaultStepLimit - positiveOr (optStepLimit opts) defaultStepLimit"
  define k where "k = positiveOr (optMaxCallDepth opts') defaultMaxCallDepth
    - positiveOr (optMaxCallDepth opts) defaultMaxCallDepth"
  have "positiveOr (optStepLimit opts') defaultStepLimit = positiveOr (optStepLimit opts) defaultStepLimit + l"
    "positiveOr (optMaxCallDepth opts') defaultMaxCallDepth = positiveOr (optMaxCallDepth opts) defaultMaxCallDepth + k"
    using positiveOr_mono [OF assms(2,3)] positiveOr_mono [OF assms(4,5)] by (auto simp: l_def k_def)
  then show ?thesis
    using f eval_raise(1) [OF c, of l k] by (simp add: EvaluateFunction_def raise_def)
qed

section \<open>Arithmetic\<close>

lemma sint_i32_range: "- (2 ^ 31) \<le> sint (w :: i32)" "sint (w :: i32) < 2 ^ 31"
  using sint_greater_eq [of w] sint_less [of w] by simp_all

lemma sint_word_of_int_i32: "- (2 ^ 31) \<le> k \<Longrightarrow> k < 2 ^ 31 \<Longrightarrow> sint (word_of_int k :: i32) = k"
  by (simp add: signed_take_bit_int_eq_self sint_sbintrunc')

lemma goQuo_exact:
  assumes "\<not> (sint a = - (2 ^ 31) \<and> sint b = -1)"
  shows "sint (goQuo a b) = sint a sdiv sint b"
proof -
  have "sint a sdiv sint b \<noteq> 2 ^ 31"
  proof
    assume *: "sint a sdiv sint b = 2 ^ 31"
    then have "sint a = - (2 ^ 31)" using sdiv_int_range [of "sint a" "sint b"] sint_i32_range [of a] by auto
    with * have "sint a sdiv sint b = - sint a" "sint a \<noteq> 0" by simp_all
    then have "sint b = -1" by simp
    with \<open>sint a = - (2 ^ 31)\<close> assms show False by simp
  qed
  then show ?thesis
    unfolding goQuo_def using sdiv_int_range [of "sint a" "sint b"] sint_i32_range [of a]
    by (intro sint_word_of_int_i32) auto
qed

lemma goQuo_wraps: "sint a = - (2 ^ 31) \<Longrightarrow> sint b = -1 \<Longrightarrow> goQuo a b = a"
  by (rule signed_word_eqI) (simp add: goQuo_def)

lemma sint_eq_0 [simp]: "sint (b :: i32) = 0 \<longleftrightarrow> b = 0"
  using signed_word_eqI [of b 0] by auto

lemma goRem_exact:
  assumes "b \<noteq> 0"
  shows "sint (goRem a b) = sint a smod sint b"
proof -
  have "sint b \<noteq> 0" using assms by simp
  then show ?thesis
    unfolding goRem_def using smod_int_range [of "sint b" "sint a"] sint_i32_range [of b]
    by (intro sint_word_of_int_i32) auto
qed

lemma goQuo_goRem: "goQuo a b * b + goRem a b = a"
proof -
  have "goQuo a b * b + goRem a b = word_of_int ((sint a sdiv sint b) * sint b + sint a smod sint b)"
    by (simp add: goQuo_def goRem_def)
  also have "\<dots> = a" by (simp add: sdiv_mult_smod_eq)
  finally show ?thesis .
qed

lemma goRem_sign: "b \<noteq> 0 \<Longrightarrow> \<bar>sint (goRem a b)\<bar> < \<bar>sint b\<bar>"
  using smod_int_range [of "sint b" "sint a"] by (simp add: goRem_exact abs_less_iff)

lemma goShl_mult: "goShl a b = a * 2 ^ unat b"
  by (simp add: goShl_def push_bit_eq_mult)

lemma goShl_large: "32 \<le> unat b \<Longrightarrow> goShl a b = 0"
  by (simp add: goShl_def push_bit_word_beyond)

lemma goShr_div: "sint (goShr a b) = sint a div 2 ^ unat b"
proof -
  have "- (2 ^ 31) \<le> sint a div 2 ^ unat b \<and> sint a div 2 ^ unat b < 2 ^ 31"
  proof (cases "0 \<le> sint a")
    case True
    then show ?thesis
      using zdiv_mono2 [of "sint a" 1 "2 ^ unat b"] sint_i32_range [of a]
      by (auto intro: order_trans [of _ 0] simp: pos_imp_zdiv_nonneg_iff)
  next
    case False
    then show ?thesis
      using zdiv_mono2_neg [of "sint a" 1 "2 ^ unat b"] sint_i32_range [of a]
        div_neg_pos_less0 [of "sint a" "2 ^ unat b"] by auto
  qed
  then show ?thesis
    unfolding goShr_def drop_bit_eq_div by (intro sint_word_of_int_i32) auto
qed

lemma goShr_large:
  assumes "32 \<le> unat b"
  shows "sint (goShr a b) = (if sint a < 0 then -1 else 0)"
proof -
  have "(2::int) ^ 32 \<le> 2 ^ unat b" using assms by (intro power_increasing) auto
  then have "- (2 ^ unat b) \<le> sint a" "sint a < 2 ^ unat b" using sint_i32_range [of a] by auto
  then show ?thesis
    unfolding goShr_div by (auto simp: div_pos_pos_trivial intro: int_div_pos_eq [where r = "sint a + 2 ^ unat b"])
qed

end
