(* ===== verification/Cfg.thy ===== *)
theory Cfg
  imports TacValidate
begin

text \<open>
  The control-flow graph of \<open>internal/tac/cfg/cfg.go\<close> and the backend's view of it,
  \<open>internal/backend/function_view.go\<close>. A slice of blocks is a list, a block id its index;
  the map \<open>leaders\<close> is a set, read in the order of \<open>sort.Ints\<close>.
\<close>

section \<open>Data\<close>

record basicBlock =
  bbID :: blockID
  bbLabel :: string
  bbStart :: nat
  bbInstructions :: "instruction list"
  bbPredecessors :: "blockID list"
  bbSuccessors :: "blockID list"

record graph =
  graphFunction :: tacFunction
  graphBlocks :: "basicBlock list"
  graphLabels :: "string \<rightharpoonup> blockID"

definition BlockByLabel :: "graph \<Rightarrow> string \<Rightarrow> blockID option" where
  "BlockByLabel g label = graphLabels g label"

definition EnsureLabel :: "graph \<Rightarrow> blockID \<Rightarrow> string \<times> graph" where
  "EnsureLabel g bid =
     (if bid < 0 \<or> bid \<ge> int (length (graphBlocks g)) then ([], g)
      else if bbLabel (graphBlocks g ! nat bid) \<noteq> [] then (bbLabel (graphBlocks g ! nat bid), g)
      else let label = ''.B'' @ itoa bid in
        (label,
         g\<lparr>graphBlocks := (graphBlocks g)[nat bid := (graphBlocks g ! nat bid)\<lparr>bbLabel := label\<rparr>],
           graphLabels := (graphLabels g)(label \<mapsto> bid)\<rparr>))"

interpretation graph_index: label_index
  "\<lambda>g. length (graphBlocks g)" "\<lambda>g k. bbLabel (graphBlocks g ! k)" BlockByLabel EnsureLabel
  by unfold_locales (auto simp: EnsureLabel_def BlockByLabel_def blockName_def Let_def nth_list_update)

datatype cfgError =
    CfgInvalidIR irError
  | CfgLabelRedefined string string
  | CfgUndefinedJump string string
  | CfgUndefinedBranch string string
  | CfgEmptyBlock string nat
  | CfgTerminatorNotLast string nat

section \<open>Build\<close>

fun cfgLabelDefs ::
  "string \<Rightarrow> nat \<Rightarrow> instruction list \<Rightarrow> (string \<rightharpoonup> nat) \<Rightarrow> cfgError + (string \<rightharpoonup> nat)" where
  "cfgLabelDefs name i [] defs = Inr defs"
| "cfgLabelDefs name i (inst # rest) defs =
     (if instKind inst \<noteq> InstructionLabel then cfgLabelDefs name (i + 1) rest defs
      else if defs (instLabel inst) \<noteq> None then Inl (CfgLabelRedefined name (instLabel inst))
      else cfgLabelDefs name (i + 1) rest (defs(instLabel inst \<mapsto> i)))"

definition addLeaderAfter :: "nat \<Rightarrow> nat \<Rightarrow> nat set \<Rightarrow> nat set" where
  "addLeaderAfter n i leaders = (if i + 1 < n then insert (i + 1) leaders else leaders)"

fun collectLeaders ::
  "string \<Rightarrow> nat \<Rightarrow> (string \<rightharpoonup> nat) \<Rightarrow> nat \<Rightarrow> instruction list \<Rightarrow> nat set \<Rightarrow> cfgError + nat set" where
  "collectLeaders name n defs i [] leaders = Inr leaders"
| "collectLeaders name n defs i (inst # rest) leaders =
     (case instKind inst of
        InstructionJmp \<Rightarrow>
          (case defs (opText (trueLabel inst)) of
             None \<Rightarrow> Inl (CfgUndefinedJump name (opText (trueLabel inst)))
           | Some target \<Rightarrow>
               collectLeaders name n defs (i + 1) rest (addLeaderAfter n i (insert target leaders)))
      | InstructionBr \<Rightarrow>
          (case defs (opText (trueLabel inst)) of
             None \<Rightarrow> Inl (CfgUndefinedBranch name (opText (trueLabel inst)))
           | Some trueTarget \<Rightarrow>
               (case defs (opText (falseLabel inst)) of
                  None \<Rightarrow> Inl (CfgUndefinedBranch name (opText (falseLabel inst)))
                | Some falseTarget \<Rightarrow>
                    collectLeaders name n defs (i + 1) rest
                      (addLeaderAfter n i (insert falseTarget (insert trueTarget leaders)))))
      | _ \<Rightarrow> collectLeaders name n defs (i + 1) rest leaders)"

fun cutBlocks :: "string \<Rightarrow> instruction list \<Rightarrow> nat \<Rightarrow> nat list \<Rightarrow> cfgError + basicBlock list" where
  "cutBlocks name all i [] = Inr []"
| "cutBlocks name all i (start # rest) =
     (let end' = (case rest of [] \<Rightarrow> length all | next # _ \<Rightarrow> next);
          insts = take (end' - start) (drop start all)
      in if insts = [] then Inl (CfgEmptyBlock name start)
         else bindE (cutBlocks name all (i + 1) rest) (\<lambda>blocks.
           Inr (\<lparr>bbID = int i,
                 bbLabel = (if instKind (hd insts) = InstructionLabel then instLabel (hd insts) else []),
                 bbStart = start, bbInstructions = insts, bbPredecessors = [], bbSuccessors = []\<rparr> # blocks)))"

definition labelsToBlocks :: "basicBlock list \<Rightarrow> string \<rightharpoonup> blockID" where
  "labelsToBlocks blocks =
     foldl (\<lambda>m b. if instKind (hd (bbInstructions b)) = InstructionLabel then m(bbLabel b \<mapsto> bbID b) else m)
       Map.empty blocks"

definition startToBlock :: "basicBlock list \<Rightarrow> nat \<rightharpoonup> blockID" where
  "startToBlock blocks = foldl (\<lambda>m b. m(bbStart b \<mapsto> bbID b)) Map.empty blocks"

definition bbSuccessorIDs ::
  "(string \<rightharpoonup> nat) \<Rightarrow> (nat \<rightharpoonup> blockID) \<Rightarrow> nat \<Rightarrow> nat \<Rightarrow> instruction \<Rightarrow> blockID list" where
  "bbSuccessorIDs defs ids n i lastInst =
     (case instKind lastInst of
        InstructionJmp \<Rightarrow> [mapGet0 ids (mapGet0 defs (opText (trueLabel lastInst)))]
      | InstructionBr \<Rightarrow>
          (let trueID = mapGet0 ids (mapGet0 defs (opText (trueLabel lastInst)));
               falseID = mapGet0 ids (mapGet0 defs (opText (falseLabel lastInst)))
           in trueID # (if falseID \<noteq> trueID then [falseID] else []))
      | InstructionRet \<Rightarrow> []
      | _ \<Rightarrow> (if i + 1 < n then [int (i + 1)] else []))"

fun linkSuccessors ::
  "string \<Rightarrow> (string \<rightharpoonup> nat) \<Rightarrow> (nat \<rightharpoonup> blockID) \<Rightarrow> nat \<Rightarrow> nat \<Rightarrow> basicBlock list
    \<Rightarrow> cfgError + basicBlock list" where
  "linkSuccessors name defs ids n i [] = Inr []"
| "linkSuccessors name defs ids n i (b # rest) =
     (let b' = b\<lparr>bbSuccessors := bbSuccessors b @ bbSuccessorIDs defs ids n i (last (bbInstructions b))\<rparr> in
      if list_ex isTerminator (butlast (bbInstructions b))
      then Inl (CfgTerminatorNotLast name (bbStart b))
      else bindE (linkSuccessors name defs ids n (i + 1) rest) (\<lambda>bs. Inr (b' # bs)))"

definition addPredecessor :: "nat \<Rightarrow> basicBlock list \<Rightarrow> blockID \<Rightarrow> basicBlock list" where
  "addPredecessor i blocks succ =
     blocks[nat succ := (blocks ! nat succ)\<lparr>bbPredecessors := bbPredecessors (blocks ! nat succ) @ [int i]\<rparr>]"

definition linkPredecessors :: "basicBlock list \<Rightarrow> basicBlock list" where
  "linkPredecessors blocks =
     foldl (\<lambda>bs i. foldl (addPredecessor i) bs (bbSuccessors (bs ! i))) blocks [0..<length blocks]"

definition Build :: "tacFunction \<Rightarrow> cfgError + graph" where
  "Build fn =
     bindE (mapErr CfgInvalidIR (ValidateFunctionIR fn)) (\<lambda>_.
       if instructions fn = []
       then Inr \<lparr>graphFunction = fn, graphBlocks = [], graphLabels = Map.empty\<rparr>
       else
         let name = fnName fn; all = instructions fn in
         bindE (cfgLabelDefs name 0 all Map.empty) (\<lambda>labelDefs.
         bindE (collectLeaders name (length all) labelDefs 0 all {0}) (\<lambda>leaders.
         bindE (cutBlocks name all 0 (sorted_list_of_set leaders)) (\<lambda>blocks.
         bindE (linkSuccessors name labelDefs (startToBlock blocks) (length blocks) 0 blocks) (\<lambda>linked.
           Inr \<lparr>graphFunction = fn, graphBlocks = linkPredecessors linked,
                graphLabels = labelsToBlocks blocks\<rparr>)))))"

record functionView =
  viewName :: string
  viewBlocks :: "basicBlock list"

definition BuildFunctionView :: "tacFunction \<Rightarrow> cfgError + functionView" where
  "BuildFunctionView fn =
     bindE (mapErr CfgInvalidIR (ValidateFunctionIR fn)) (\<lambda>_.
     bindE (Build fn) (\<lambda>graph.
       Inr \<lparr>viewName = fnName fn, viewBlocks = graphBlocks graph\<rparr>))"

section \<open>Correctness\<close>

subsection \<open>Labels and leaders of a validated function\<close>

lemma cfgLabelDefs_ok:
  "distinct (labelsOf xs) \<Longrightarrow> set (labelsOf xs) \<inter> dom d = {} \<Longrightarrow>
     cfgLabelDefs name i xs d = Inr (labelMapFrom i xs d)"
proof (induction name i xs d rule: cfgLabelDefs.induct)
  case (1 name i defs)
  then show ?case by simp
next
  case (2 name i inst rest defs)
  show ?case
  proof (cases "instKind inst = InstructionLabel")
    case True
    define d where "d = defs(instLabel inst \<mapsto> i)"
    have "defs (instLabel inst) = None" "set (labelsOf rest) \<inter> dom d = {}" "distinct (labelsOf rest)"
      using True "2.prems" by (auto simp: domIff d_def)
    then show ?thesis using "2.IH"(2) True by (simp add: d_def [symmetric])
  next
    case False
    then show ?thesis using 2 by simp
  qed
qed

definition isJump :: "instruction \<Rightarrow> bool" where
  "isJump inst \<longleftrightarrow> instKind inst = InstructionJmp \<or> instKind inst = InstructionBr"

definition leadersFrom :: "(string \<rightharpoonup> nat) \<Rightarrow> nat \<Rightarrow> nat \<Rightarrow> instruction list \<Rightarrow> nat set" where
  "leadersFrom defs n i xs =
     {k. \<exists>x \<in> set xs. \<exists>t \<in> set (targetsOf x). defs t = Some k}
     \<union> {Suc (i + j) |j. j < length xs \<and> isJump (xs ! j) \<and> Suc (i + j) < n}"

definition leadersOf :: "instruction list \<Rightarrow> nat set" where
  "leadersOf all = {0} \<union> leadersFrom (labelMap all) (length all) 0 all"

lemma leadersFrom_Nil [simp]: "leadersFrom defs n i [] = {}"
  by (simp add: leadersFrom_def)

lemma leadersFrom_Cons:
  "leadersFrom defs n i (x # xs) =
     {k. \<exists>t \<in> set (targetsOf x). defs t = Some k} \<union> {k. isJump x \<and> k = Suc i \<and> k < n}
     \<union> leadersFrom defs n (Suc i) xs"
proof -
  have "{Suc (i + j) |j. j < Suc (length xs) \<and> isJump ((x # xs) ! j) \<and> Suc (i + j) < n}
    = {k. isJump x \<and> k = Suc i \<and> k < n}
      \<union> {Suc (Suc i + j) |j. j < length xs \<and> isJump (xs ! j) \<and> Suc (Suc i + j) < n}"
    (is "?L = ?R")
  proof
    show "?L \<subseteq> ?R"
    proof
      fix k
      assume "k \<in> ?L"
      then obtain j where j: "k = Suc (i + j)" "j < Suc (length xs)" "isJump ((x # xs) ! j)" "k < n"
        by auto
      then show "k \<in> ?R" by (cases j) auto
    qed
  next
    show "?R \<subseteq> ?L" by (force intro: exI [where x = 0] exI [where x = "Suc _"])
  qed
  then show ?thesis by (auto simp: leadersFrom_def)
qed

lemma addLeaderAfter_eq: "addLeaderAfter n i L = {k. k = Suc i \<and> k < n} \<union> L"
  by (auto simp: addLeaderAfter_def)

lemma collectLeaders_ok:
  "\<forall>x \<in> set xs. set (targetsOf x) \<subseteq> dom defs \<Longrightarrow>
     collectLeaders name n defs i xs L = Inr (L \<union> leadersFrom defs n i xs)"
proof (induction name n defs i xs L rule: collectLeaders.induct)
  case (1 name n defs i L)
  then show ?case by simp
next
  case (2 name n defs i x xs L)
  show ?case
  proof (cases "instKind x")
    case InstructionJmp
    with "2.prems" obtain k where k: "defs (opText (trueLabel x)) = Some k" by (auto simp: targetsOf_def)
    then have "collectLeaders name n defs i (x # xs) L
        = collectLeaders name n defs (i + 1) xs (addLeaderAfter n i (insert k L))"
      by (simp add: InstructionJmp)
    also have "\<dots> = Inr (addLeaderAfter n i (insert k L) \<union> leadersFrom defs n (i + 1) xs)"
      using "2.IH" InstructionJmp k "2.prems" by simp
    finally show ?thesis
      using InstructionJmp k by (auto simp: leadersFrom_Cons targetsOf_def isJump_def addLeaderAfter_eq)
  next
    case InstructionBr
    with "2.prems" obtain k k' where k: "defs (opText (trueLabel x)) = Some k"
      and k': "defs (opText (falseLabel x)) = Some k'" by (auto simp: targetsOf_def)
    then have "collectLeaders name n defs i (x # xs) L
        = collectLeaders name n defs (i + 1) xs (addLeaderAfter n i (insert k' (insert k L)))"
      by (simp add: InstructionBr)
    also have "\<dots> = Inr (addLeaderAfter n i (insert k' (insert k L)) \<union> leadersFrom defs n (i + 1) xs)"
      using "2.IH" InstructionBr k k' "2.prems" by simp
    finally show ?thesis
      using InstructionBr k k' by (auto simp: leadersFrom_Cons targetsOf_def isJump_def addLeaderAfter_eq)
  qed (use 2 in \<open>simp_all add: leadersFrom_Cons targetsOf_def isJump_def\<close>)
qed

lemma leadersOf_less:
  assumes "all \<noteq> []" "k \<in> leadersOf all"
  shows "k < length all"
  using assms by (auto simp: leadersOf_def leadersFrom_def dest: labelMap_Some)

lemma finite_leadersOf: "finite (leadersOf all)"
proof (cases "all = []")
  case True
  then show ?thesis by (simp add: leadersOf_def)
next
  case False
  have "leadersOf all \<subseteq> {..<length all}"
    using leadersOf_less [OF False] by blast
  then show ?thesis by (rule finite_subset) simp
qed

subsection \<open>Cutting\<close>

text \<open>Where the block that starts at index \<open>k\<close> of the starts \<open>ss\<close> ends.\<close>

definition cutEnd :: "instruction list \<Rightarrow> nat list \<Rightarrow> nat \<Rightarrow> nat" where
  "cutEnd all ss k = (ss @ [length all]) ! Suc k"

definition segment :: "instruction list \<Rightarrow> nat list \<Rightarrow> nat \<Rightarrow> instruction list" where
  "segment all ss k = take (cutEnd all ss k - ss ! k) (drop (ss ! k) all)"

definition cutAt :: "instruction list \<Rightarrow> nat list \<Rightarrow> nat \<Rightarrow> nat \<Rightarrow> basicBlock" where
  "cutAt all ss i k =
     \<lparr>bbID = int (i + k),
      bbLabel = (if instKind (hd (segment all ss k)) = InstructionLabel then instLabel (hd (segment all ss k)) else []),
      bbStart = ss ! k, bbInstructions = segment all ss k, bbPredecessors = [], bbSuccessors = []\<rparr>"

definition increasing :: "instruction list \<Rightarrow> nat list \<Rightarrow> bool" where
  "increasing all ss \<longleftrightarrow> sorted_wrt (<) ss \<and> (\<forall>s \<in> set ss. s < length all)"

lemma increasing_cutEnd:
  assumes "increasing all ss" "k < length ss"
  shows "ss ! k < cutEnd all ss k" "cutEnd all ss k \<le> length all"
proof -
  have "ss ! k < cutEnd all ss k \<and> cutEnd all ss k \<le> length all"
  proof (cases "Suc k < length ss")
    case True
    then have "ss ! k < ss ! Suc k" "ss ! Suc k < length all"
      using assms by (auto simp: increasing_def sorted_wrt_iff_nth_less)
    then show ?thesis using True by (simp add: cutEnd_def nth_append)
  next
    case False
    then have "cutEnd all ss k = length all" using assms(2) by (simp add: cutEnd_def nth_append)
    then show ?thesis using assms by (simp add: increasing_def)
  qed
  then show "ss ! k < cutEnd all ss k" "cutEnd all ss k \<le> length all" by simp_all
qed

lemma cutEnd_Cons [simp]: "cutEnd all (s # ss) (Suc k) = cutEnd all ss k"
  by (simp add: cutEnd_def)

lemma segment_Cons: "segment all (s # ss) (Suc k) = segment all ss k"
  by (simp add: segment_def)

lemma cutAt_Cons: "cutAt all (s # ss) i (Suc k) = cutAt all ss (Suc i) k"
  by (simp add: cutAt_def segment_Cons)

lemma cutBlocks_ok:
  "increasing all ss \<Longrightarrow> cutBlocks name all i ss = Inr (map (cutAt all ss i) [0..<length ss])"
proof (induction name all i ss rule: cutBlocks.induct)
  case (1 name all i)
  then show ?case by simp
next
  case (2 name all i s ss)
  define e where "e = (case ss of [] \<Rightarrow> length all | next # _ \<Rightarrow> next)"
  have e: "cutEnd all (s # ss) 0 = e" by (cases ss) (simp_all add: cutEnd_def e_def)
  have lt: "s < e" "e \<le> length all"
    using increasing_cutEnd [OF "2.prems", of 0] e by auto
  have seg: "segment all (s # ss) 0 = take (e - s) (drop s all)" by (simp add: segment_def e)
  have ne: "take (e - s) (drop s all) \<noteq> []" using lt by simp
  have inc: "increasing all ss" using "2.prems" by (simp add: increasing_def)
  have "cutBlocks name all (i + 1) ss = Inr (map (cutAt all ss (i + 1)) [0..<length ss])"
    using "2.IH" [OF e_def refl ne inc] .
  then have "cutBlocks name all i (s # ss) = Inr (cutAt all (s # ss) i 0 # map (cutAt all ss (i + 1)) [0..<length ss])"
    using ne by (simp add: e_def [symmetric] Let_def cutAt_def seg)
  also have "map (cutAt all ss (i + 1)) [0..<length ss] = map (\<lambda>k. cutAt all (s # ss) i (Suc k)) [0..<length ss]"
    by (simp add: cutAt_Cons)
  also have "cutAt all (s # ss) i 0 # map (\<lambda>k. cutAt all (s # ss) i (Suc k)) [0..<length ss]
      = map (cutAt all (s # ss) i) [0..<length (s # ss)]"
    by (simp only: length_Cons upt_conv_Cons zero_less_Suc list.map map_Suc_upt [symmetric] map_map comp_def)
  finally show ?case .
qed

lemma concat_segments:
  "increasing all ss \<Longrightarrow> ss \<noteq> [] \<Longrightarrow> concat (map (segment all ss) [0..<length ss]) = drop (hd ss) all"
proof (induction ss)
  case Nil
  then show ?case by simp
next
  case (Cons s ss)
  have "concat (map (segment all (s # ss)) [0..<length (s # ss)])
      = segment all (s # ss) 0 @ concat (map (segment all ss) [0..<length ss])"
    by (simp only: length_Cons upt_conv_Cons zero_less_Suc list.map map_Suc_upt [symmetric] map_map comp_def
        concat.simps segment_Cons)
  also have "\<dots> = drop s all"
  proof (cases ss)
    case Nil
    then show ?thesis using Cons.prems by (simp add: segment_def cutEnd_def)
  next
    case (Cons s' ss')
    have inc: "increasing all ss" using Cons.prems by (simp add: increasing_def)
    have "s < s'" using Cons.prems Cons by (auto simp: increasing_def)
    then have "take (s' - s) (drop s all) @ drop s' all = drop s all"
      by (metis append_take_drop_id drop_drop le_add_diff_inverse2 less_imp_le)
    moreover have "segment all (s # ss) 0 = take (s' - s) (drop s all)" by (simp add: Cons segment_def cutEnd_def)
    ultimately show ?thesis using Cons.IH [OF inc] by (simp add: Cons del: upt_Suc)
  qed
  finally show ?case by simp
qed


subsection \<open>Linking\<close>

lemma linkSuccessors_eq_Inr:
  "linkSuccessors name defs ids n i bs = Inr bs' \<longleftrightarrow>
     (\<forall>b \<in> set bs. \<forall>x \<in> set (butlast (bbInstructions b)). \<not> isTerminator x)
     \<and> bs' = map (\<lambda>k. (bs ! k)\<lparr>bbSuccessors := bbSuccessors (bs ! k)
                       @ bbSuccessorIDs defs ids n (i + k) (last (bbInstructions (bs ! k)))\<rparr>) [0..<length bs]"
proof (induction name defs ids n i bs arbitrary: bs' rule: linkSuccessors.induct)
  case (1 name defs ids n i)
  then show ?case by auto
next
  case (2 name defs ids n i b bs)
  let ?f = "\<lambda>i bs k. (bs ! k)\<lparr>bbSuccessors := bbSuccessors (bs ! k)
                       @ bbSuccessorIDs defs ids n (i + k) (last (bbInstructions (bs ! k)))\<rparr>"
  have split: "map (?f i (b # bs)) [0..<length (b # bs)] = ?f i (b # bs) 0 # map (?f (i + 1) bs) [0..<length bs]"
    by (simp only: length_Cons upt_conv_Cons zero_less_Suc list.map map_Suc_upt [symmetric] map_map comp_def
        nth_Cons_0 nth_Cons_Suc add_Suc_right add_0_right) simp
  show ?case
  proof (cases "list_ex isTerminator (butlast (bbInstructions b))")
    case True
    then show ?thesis by (auto simp: Let_def list_ex_iff)
  next
    case False
    then show ?thesis
      unfolding split using "2.IH" [OF refl False]
      by (auto simp: Let_def bindE_eq_Inr list_ex_iff)
  qed
qed

lemma length_addPredecessor [simp]: "length (addPredecessor i bs s) = length bs"
  by (simp add: addPredecessor_def)

lemma length_foldl_addPredecessor [simp]: "length (foldl (addPredecessor i) bs ss) = length bs"
  by (induction ss arbitrary: bs) simp_all

lemma foldl_addPredecessor_nth:
  "j < length bs \<Longrightarrow> \<forall>s \<in> set ss. 0 \<le> s \<and> s < int (length bs) \<Longrightarrow>
     foldl (addPredecessor i) bs ss ! j
       = (bs ! j)\<lparr>bbPredecessors := bbPredecessors (bs ! j) @ map (\<lambda>_. int i) (filter (\<lambda>s. s = int j) ss)\<rparr>"
proof (induction ss arbitrary: bs)
  case Nil
  then show ?case by simp
next
  case (Cons s ss)
  then have "nat s < length bs" by auto
  then show ?case using Cons by (auto simp: addPredecessor_def nth_list_update)
qed

lemma linkPredecessors_nth:
  assumes "\<forall>b \<in> set bs. \<forall>s \<in> set (bbSuccessors b). 0 \<le> s \<and> s < int (length bs)" and j: "j < length bs"
  shows "length (linkPredecessors bs) = length bs"
    and "linkPredecessors bs ! j = (bs ! j)\<lparr>bbPredecessors := bbPredecessors (bs ! j)
      @ concat (map (\<lambda>i. map (\<lambda>_. int i) (filter (\<lambda>s. s = int j) (bbSuccessors (bs ! i)))) [0..<length bs])\<rparr>"
proof -
  have "\<forall>j < length bs. length (foldl (\<lambda>bs i. foldl (addPredecessor i) bs (bbSuccessors (bs ! i))) bs [0..<n]) = length bs
     \<and> foldl (\<lambda>bs i. foldl (addPredecessor i) bs (bbSuccessors (bs ! i))) bs [0..<n] ! j
      = (bs ! j)\<lparr>bbPredecessors := bbPredecessors (bs ! j)
      @ concat (map (\<lambda>i. map (\<lambda>_. int i) (filter (\<lambda>s. s = int j) (bbSuccessors (bs ! i)))) [0..<n])\<rparr>"
    if "n \<le> length bs" for n
    using that
  proof (induction n)
    case 0
    then show ?case by simp
  next
    case (Suc n)
    then have n: "n < length bs" by simp
    define cs where "cs = foldl (\<lambda>bs i. foldl (addPredecessor i) bs (bbSuccessors (bs ! i))) bs [0..<n]"
    have IH: "length cs = length bs"
      "\<And>j. j < length bs \<Longrightarrow> cs ! j = (bs ! j)\<lparr>bbPredecessors := bbPredecessors (bs ! j)
      @ concat (map (\<lambda>i. map (\<lambda>_. int i) (filter (\<lambda>s. s = int j) (bbSuccessors (bs ! i)))) [0..<n])\<rparr>"
      using Suc n unfolding cs_def by auto
    have "bbSuccessors (cs ! n) = bbSuccessors (bs ! n)" using IH(2) [OF n] by simp
    moreover have "\<forall>s \<in> set (bbSuccessors (bs ! n)). 0 \<le> s \<and> s < int (length cs)"
      using assms(1) nth_mem [OF n] IH(1) by auto
    ultimately show ?case
      using IH by (auto simp: cs_def [symmetric] foldl_addPredecessor_nth)
  qed
  from this [of "length bs"] j show "length (linkPredecessors bs) = length bs"
    and "linkPredecessors bs ! j = (bs ! j)\<lparr>bbPredecessors := bbPredecessors (bs ! j)
      @ concat (map (\<lambda>i. map (\<lambda>_. int i) (filter (\<lambda>s. s = int j) (bbSuccessors (bs ! i)))) [0..<length bs])\<rparr>"
    by (simp_all add: linkPredecessors_def)
qed


subsection \<open>The graph of a function\<close>

definition startsOf :: "instruction list \<Rightarrow> nat list" where
  "startsOf all = sorted_list_of_set (leadersOf all)"

definition cutsOf :: "instruction list \<Rightarrow> basicBlock list" where
  "cutsOf all = map (cutAt all (startsOf all) 0) [0..<length (startsOf all)]"

definition linkedBlock :: "instruction list \<Rightarrow> nat \<Rightarrow> basicBlock" where
  "linkedBlock all k = (cutAt all (startsOf all) 0 k)\<lparr>bbSuccessors :=
     bbSuccessorIDs (labelMap all) (startToBlock (cutsOf all)) (length (startsOf all)) k
       (last (segment all (startsOf all) k))\<rparr>"

lemma set_startsOf: "set (startsOf all) = leadersOf all"
  unfolding startsOf_def using finite_leadersOf by (rule set_sorted_list_of_set)

lemma startsOf_sorted: "sorted_wrt (<) (startsOf all)" "distinct (startsOf all)"
  by (simp_all add: startsOf_def strict_sorted_iff)

lemma startsOf_increasing: "all \<noteq> [] \<Longrightarrow> increasing all (startsOf all)"
  using leadersOf_less [of all] startsOf_sorted by (simp add: increasing_def set_startsOf)

lemma startsOf_nonempty: "startsOf all \<noteq> []"
proof
  assume "startsOf all = []"
  then have "leadersOf all = {}" using set_startsOf [of all] by simp
  then show False by (simp add: leadersOf_def)
qed

lemma hd_startsOf: "hd (startsOf all) = 0"
proof -
  have "0 \<in> set (startsOf all)" unfolding set_startsOf by (simp add: leadersOf_def)
  then show ?thesis
    using startsOf_nonempty [of all] startsOf_sorted [of all] by (cases "startsOf all") auto
qed

lemma length_cutsOf [simp]: "length (cutsOf all) = length (startsOf all)"
  by (simp add: cutsOf_def)

lemma cutsOf_nth: "k < length (startsOf all) \<Longrightarrow> cutsOf all ! k = cutAt all (startsOf all) 0 k"
  by (simp add: cutsOf_def)

definition straight :: "instruction list \<Rightarrow> bool" where
  "straight all \<longleftrightarrow>
     (\<forall>k < length (startsOf all). \<forall>x \<in> set (butlast (segment all (startsOf all) k)). \<not> isTerminator x)"

lemma Build_eq_Inr:
  assumes ne: "instructions fn \<noteq> []"
  shows "Build fn = Inr g \<longleftrightarrow> wfInstructions (instructions fn) \<and> straight (instructions fn)
    \<and> g = \<lparr>graphFunction = fn,
           graphBlocks = linkPredecessors (map (linkedBlock (instructions fn)) [0..<length (startsOf (instructions fn))]),
           graphLabels = labelsToBlocks (cutsOf (instructions fn))\<rparr>"
proof (cases "wfInstructions (instructions fn)")
  case False
  then have "ValidateFunctionIR fn \<noteq> Inr ()" by (simp add: validate_iff)
  then show ?thesis using False by (cases "ValidateFunctionIR fn") (auto simp: Build_def)
next
  case True
  define all where "all = instructions fn"
  have v: "ValidateFunctionIR fn = Inr ()" using True by (simp add: validate_iff)
  have defs: "cfgLabelDefs (fnName fn) 0 all Map.empty = Inr (labelMap all)"
    using True by (intro cfgLabelDefs_ok) (auto simp: wfInstructions_def all_def)
  have leaders: "collectLeaders (fnName fn) (length all) (labelMap all) 0 all {0} = Inr (leadersOf all)"
    using True by (subst collectLeaders_ok) (auto simp: wfInstructions_def all_def leadersOf_def)
  have cuts: "cutBlocks (fnName fn) all 0 (startsOf all) = Inr (cutsOf all)"
    unfolding cutsOf_def using ne by (intro cutBlocks_ok startsOf_increasing) (simp add: all_def)
  have linked: "linkSuccessors (fnName fn) (labelMap all) (startToBlock (cutsOf all)) (length (cutsOf all)) 0 (cutsOf all)
      = Inr bs' \<longleftrightarrow> straight all \<and> bs' = map (linkedBlock all) [0..<length (startsOf all)]" for bs'
  proof -
    have "map (\<lambda>k. (cutsOf all ! k)\<lparr>bbSuccessors := bbSuccessors (cutsOf all ! k)
        @ bbSuccessorIDs (labelMap all) (startToBlock (cutsOf all)) (length (cutsOf all)) (0 + k)
            (last (bbInstructions (cutsOf all ! k)))\<rparr>) [0..<length (cutsOf all)]
      = map (linkedBlock all) [0..<length (startsOf all)]"
      by (intro map_cong) (simp_all add: linkedBlock_def cutsOf_nth cutAt_def)
    moreover have "(\<forall>b \<in> set (cutsOf all). \<forall>x \<in> set (butlast (bbInstructions b)). \<not> isTerminator x)
        \<longleftrightarrow> straight all"
      by (auto simp: straight_def cutsOf_def cutAt_def)
    ultimately show ?thesis by (simp only: linkSuccessors_eq_Inr)
  qed
  have "Build fn = Inr g \<longleftrightarrow> straight all
    \<and> g = \<lparr>graphFunction = fn, graphBlocks = linkPredecessors (map (linkedBlock all) [0..<length (startsOf all)]),
           graphLabels = labelsToBlocks (cutsOf all)\<rparr>"
    using ne by (auto simp add: Build_def v Let_def all_def [symmetric] defs leaders startsOf_def [symmetric] cuts
        bindE_eq_Inr linked simp del: length_cutsOf)
  then show ?thesis using True by (simp add: all_def)
qed

lemma startToBlock_cuts:
  assumes "distinct ss" "k < length ss"
  shows "startToBlock (map (cutAt all ss 0) [0..<length ss]) (ss ! k) = Some (int k)"
proof -
  have "foldl (\<lambda>m b. m(bbStart b \<mapsto> bbID b)) Map.empty (map (cutAt all ss 0) [0..<n]) (ss ! k) = Some (int k)"
    if "k < n" "n \<le> length ss" for n
    using that
  proof (induction n)
    case 0
    then show ?case by simp
  next
    case (Suc n)
    then show ?case
      using assms by (cases "k = n") (auto simp: cutAt_def nth_eq_iff_index_eq)
  qed
  from this [of "length ss"] assms(2) show ?thesis by (simp add: startToBlock_def)
qed

lemma target_block:
  assumes "all \<noteq> []" "x \<in> set all" "t \<in> set (targetsOf x)" "labelMap all t = Some p"
  obtains k where "k < length (startsOf all)" "startsOf all ! k = p"
    "mapGet0 (startToBlock (cutsOf all)) (mapGet0 (labelMap all) t) = int k"
proof -
  have "p \<in> leadersOf all" using assms(2-4) by (auto simp: leadersOf_def leadersFrom_def)
  then obtain k where k: "k < length (startsOf all)" "startsOf all ! k = p"
    unfolding set_startsOf [symmetric] in_set_conv_nth by blast
  show thesis
    using startToBlock_cuts [OF startsOf_sorted(2) k(1), of all] k
    by (intro that [OF k]) (simp add: mapGet0_def assms(4) cutsOf_def)
qed

text \<open>
  A control transfer inside a function, by position: to the next instruction unless the current one
  is a terminator, or to the definition of a label the terminator names.
\<close>

inductive flow :: "instruction list \<Rightarrow> nat \<Rightarrow> nat \<Rightarrow> bool" for all :: "instruction list" where
  flow_next: "Suc p < length all \<Longrightarrow> \<not> isTerminator (all ! p) \<Longrightarrow> flow all p (Suc p)"
| flow_target: "p < length all \<Longrightarrow> t \<in> set (targetsOf (all ! p)) \<Longrightarrow> labelMap all t = Some q \<Longrightarrow> flow all p q"

inductive_cases flowE: "flow all p q"
inductive_simps flow_iff: "flow all p q"

lemma targetsOf_terminator: "t \<in> set (targetsOf x) \<Longrightarrow> isTerminator x"
  by (auto simp: targetsOf_def isTerminator_def split: instructionKind.splits)

lemma segment_nth:
  assumes "increasing all ss" "k < length ss" "j < length (segment all ss k)"
  shows "segment all ss k ! j = all ! (ss ! k + j)"
  using assms increasing_cutEnd [OF assms(1,2)] by (simp add: segment_def)

lemma length_segment:
  assumes "increasing all ss" "k < length ss"
  shows "length (segment all ss k) = cutEnd all ss k - ss ! k"
  using increasing_cutEnd [OF assms] by (simp add: segment_def)

lemma segment_nonempty: "increasing all ss \<Longrightarrow> k < length ss \<Longrightarrow> segment all ss k \<noteq> []"
  using increasing_cutEnd [of all ss k] length_segment [of all ss k] by (metis diff_is_0_eq list.size(3) not_less)

lemma last_segment_cut:
  assumes "increasing all ss" "k < length ss"
  shows "last (segment all ss k) = all ! (cutEnd all ss k - 1)"
  using assms increasing_cutEnd [OF assms] segment_nonempty [OF assms]
  by (simp add: last_conv_nth segment_nth length_segment)

text \<open>The successor list computed for block \<open>k\<close> holds exactly the blocks that start where control
  may go from the last instruction of the block.\<close>

lemma successors_flow:
  assumes wf: "wfInstructions all" and ne: "all \<noteq> []" and k: "k < length (startsOf all)"
  defines "ids \<equiv> bbSuccessorIDs (labelMap all) (startToBlock (cutsOf all)) (length (startsOf all)) k
      (last (segment all (startsOf all) k))"
  shows "distinct ids"
    and "s \<in> set ids \<Longrightarrow> \<exists>j < length (startsOf all). s = int j \<and> flow all (cutEnd all (startsOf all) k - 1) (startsOf all ! j)"
    and "flow all (cutEnd all (startsOf all) k - 1) q \<Longrightarrow> \<exists>j < length (startsOf all). int j \<in> set ids \<and> q = startsOf all ! j"
proof -
  define ss where "ss = startsOf all"
  note inc = startsOf_increasing [OF ne, folded ss_def]
  note k' = k [folded ss_def]
  define p where "p = cutEnd all ss k - 1"
  define x where "x = last (segment all ss k)"
  have x: "x = all ! p" "p < length all" "x \<in> set all"
    using last_segment_cut [OF inc k'] increasing_cutEnd [OF inc k'] by (auto simp: x_def p_def)
  have ids: "ids = bbSuccessorIDs (labelMap all) (startToBlock (cutsOf all)) (length ss) k x"
    by (simp add: ids_def ss_def x_def)
  show "distinct ids" by (simp add: ids bbSuccessorIDs_def Let_def split: instructionKind.splits)
  have target: "\<exists>q j. labelMap all t = Some q \<and> j < length ss \<and> ss ! j = q
      \<and> mapGet0 (startToBlock (cutsOf all)) (mapGet0 (labelMap all) t) = int j"
    if "t \<in> set (targetsOf x)" for t
  proof -
    have "t \<in> dom (labelMap all)" using wf x(3) that by (auto simp: wfInstructions_def)
    then obtain q where q: "labelMap all t = Some q" by (auto simp del: labelMap_dom)
    from target_block [OF ne x(3) that this] q show ?thesis unfolding ss_def by metis
  qed
  have nxt: "flow all p q \<longleftrightarrow> Suc k < length ss \<and> q = ss ! Suc k" if "\<not> isTerminator x" for q
  proof -
    have fl: "flow all p q \<longleftrightarrow> q = Suc p \<and> Suc p < length all"
      using that x(1) targetsOf_terminator by (auto simp: flow_iff)
    show ?thesis
    proof (cases "Suc k < length ss")
      case True
      then have "Suc p = ss ! Suc k" "ss ! Suc k < length all"
        using increasing_cutEnd [OF inc k'] inc by (auto simp: p_def cutEnd_def nth_append increasing_def)
      then show ?thesis using True fl by auto
    next
      case False
      then have "Suc p = length all" using k' ne by (simp add: p_def cutEnd_def nth_append)
      then show ?thesis using False fl by simp
    qed
  qed
  have main: "(s \<in> set ids \<longrightarrow> (\<exists>j < length ss. s = int j \<and> flow all p (ss ! j)))
      \<and> (flow all p q \<longrightarrow> (\<exists>j < length ss. int j \<in> set ids \<and> q = ss ! j))" for s q
  proof (cases "isTerminator x")
    case False
    then have "set ids = (if Suc k < length ss then {int (Suc k)} else {})"
      unfolding ids bbSuccessorIDs_def by (cases "instKind x") (auto simp: isTerminator_def)
    then show ?thesis using nxt [OF False] by auto
  next
    case True
    have ids_set: "set ids = (\<lambda>t. mapGet0 (startToBlock (cutsOf all)) (mapGet0 (labelMap all) t)) ` set (targetsOf x)"
      using True unfolding ids bbSuccessorIDs_def
      by (cases "instKind x") (auto simp: isTerminator_def targetsOf_def Let_def)
    have fl: "flow all p q \<longleftrightarrow> (\<exists>t \<in> set (targetsOf x). labelMap all t = Some q)" for q
      using True x by (auto simp: flow_iff)
    show ?thesis
    proof (intro conjI impI)
      assume "s \<in> set ids"
      then obtain t where t: "t \<in> set (targetsOf x)"
        "s = mapGet0 (startToBlock (cutsOf all)) (mapGet0 (labelMap all) t)" by (auto simp: ids_set)
      from target [OF t(1)] t show "\<exists>j < length ss. s = int j \<and> flow all p (ss ! j)"
        unfolding fl by auto
    next
      assume "flow all p q"
      then obtain t where t: "t \<in> set (targetsOf x)" "labelMap all t = Some q" by (auto simp: fl)
      from target [OF t(1)] t show "\<exists>j < length ss. int j \<in> set ids \<and> q = ss ! j"
        unfolding ids_set by (metis image_eqI option.inject)
    qed
  qed
  show "s \<in> set ids \<Longrightarrow> \<exists>j < length (startsOf all). s = int j \<and> flow all (cutEnd all (startsOf all) k - 1) (startsOf all ! j)"
    and "flow all (cutEnd all (startsOf all) k - 1) q \<Longrightarrow> \<exists>j < length (startsOf all). int j \<in> set ids \<and> q = startsOf all ! j"
    using main by (simp_all add: ss_def p_def)
qed

text \<open>What a graph promises its clients. Transfers between blocks are read off the positions of the
  function: block \<open>i\<close> covers \<open>bbStart\<close> up to \<open>blockEnd\<close>.\<close>

definition blockEnd :: "basicBlock \<Rightarrow> nat" where
  "blockEnd b = bbStart b + length (bbInstructions b)"

definition partitions :: "instruction list \<Rightarrow> basicBlock list \<Rightarrow> bool" where
  "partitions insts bs \<longleftrightarrow>
     concat (map bbInstructions bs) = insts
     \<and> (\<forall>i < length bs. bbID (bs ! i) = int i \<and> bbInstructions (bs ! i) \<noteq> []
          \<and> bbStart (bs ! i) = (if i = 0 then 0 else blockEnd (bs ! (i - 1)))
          \<and> (\<forall>x \<in> set (butlast (bbInstructions (bs ! i))). \<not> isTerminator x))"

definition edgesAgree :: "instruction list \<Rightarrow> basicBlock list \<Rightarrow> bool" where
  "edgesAgree insts bs \<longleftrightarrow>
     (\<forall>i < length bs. distinct (bbSuccessors (bs ! i))
        \<and> (\<forall>s \<in> set (bbSuccessors (bs ! i)). 0 \<le> s \<and> s < int (length bs))
        \<and> (\<forall>q. flow insts (blockEnd (bs ! i) - 1) q \<longleftrightarrow>
             (\<exists>s \<in> set (bbSuccessors (bs ! i)). q = bbStart (bs ! nat s))))"

definition predecessorsAgree :: "basicBlock list \<Rightarrow> bool" where
  "predecessorsAgree bs \<longleftrightarrow>
     (\<forall>j < length bs. bbPredecessors (bs ! j)
        = map int (filter (\<lambda>i. int j \<in> set (bbSuccessors (bs ! i))) [0..<length bs]))"

lemma filter_single: "distinct ss \<Longrightarrow> map f (filter (\<lambda>s. s = x) ss) = (if x \<in> set ss then [f x] else [])"
  by (induction ss) auto

lemma concat_map_if: "concat (map (\<lambda>i. if P i then [f i] else []) xs) = map f (filter P xs)"
  by (induction xs) auto

lemma linkedBlock_sel [simp]:
  "bbID (linkedBlock all k) = int k" "bbStart (linkedBlock all k) = startsOf all ! k"
  "bbInstructions (linkedBlock all k) = segment all (startsOf all) k"
  "bbPredecessors (linkedBlock all k) = []"
  "bbSuccessors (linkedBlock all k) = bbSuccessorIDs (labelMap all) (startToBlock (cutsOf all))
     (length (startsOf all)) k (last (segment all (startsOf all) k))"
  by (simp_all add: linkedBlock_def cutAt_def)

lemma Build_blocks:
  assumes b: "Build fn = Inr g" and ne: "instructions fn \<noteq> []"
  defines "all \<equiv> instructions fn"
  shows "wfInstructions all" "straight all" "length (graphBlocks g) = length (startsOf all)"
    and "k < length (startsOf all) \<Longrightarrow> graphBlocks g ! k = (linkedBlock all k)\<lparr>bbPredecessors :=
           map int (filter (\<lambda>i. int k \<in> set (bbSuccessors (linkedBlock all i))) [0..<length (startsOf all)])\<rparr>"
proof -
  define bs where "bs = map (linkedBlock all) [0..<length (startsOf all)]"
  have g: "wfInstructions all" "straight all" "graphBlocks g = linkPredecessors bs"
    using b unfolding Build_eq_Inr [OF ne] all_def bs_def by auto
  have ne': "all \<noteq> []" using ne by (simp add: all_def)
  have bs_nth: "bs ! i = linkedBlock all i" if "i < length (startsOf all)" for i using that by (simp add: bs_def)
  have range: "\<forall>b \<in> set bs. \<forall>s \<in> set (bbSuccessors b). 0 \<le> s \<and> s < int (length bs)"
    using successors_flow(2) [OF g(1) ne'] by (fastforce simp: bs_def)
  have len: "length bs = length (startsOf all)" by (simp add: bs_def)
  show "wfInstructions all" "straight all" using g by simp_all
  show "length (graphBlocks g) = length (startsOf all)"
    unfolding g(3) using linkPredecessors_nth(1) [OF range, of 0] startsOf_nonempty by (simp add: len)
  assume k: "k < length (startsOf all)"
  have "concat (map (\<lambda>i. map (\<lambda>_. int i) (filter (\<lambda>s. s = int k) (bbSuccessors (bs ! i)))) [0..<length bs])
    = concat (map (\<lambda>i. if int k \<in> set (bbSuccessors (linkedBlock all i)) then [int i] else []) [0..<length (startsOf all)])"
    using successors_flow(1) [OF g(1) ne'] by (intro arg_cong [where f = concat] map_cong) (auto simp: len bs_nth filter_single)
  also have "\<dots> = map int (filter (\<lambda>i. int k \<in> set (bbSuccessors (linkedBlock all i))) [0..<length (startsOf all)])"
    by (rule concat_map_if)
  finally show "graphBlocks g ! k = (linkedBlock all k)\<lparr>bbPredecessors :=
           map int (filter (\<lambda>i. int k \<in> set (bbSuccessors (linkedBlock all i))) [0..<length (startsOf all)])\<rparr>"
    unfolding g(3) using linkPredecessors_nth(2) [OF range, of k] k by (simp add: len bs_nth)
qed

lemma Build_partitions:
  assumes "Build fn = Inr g"
  shows "partitions (instructions fn) (graphBlocks g)"
proof (cases "instructions fn = []")
  case True
  then show ?thesis using assms by (auto simp: Build_def bindE_eq_Inr partitions_def)
next
  case ne: False
  define all where "all = instructions fn"
  note B = Build_blocks [OF assms ne, folded all_def]
  note inc = startsOf_increasing [OF ne, folded all_def]
  have "map bbInstructions (graphBlocks g) = map (segment all (startsOf all)) [0..<length (startsOf all)]"
    by (rule nth_equalityI) (simp_all add: B(3,4))
  then have "concat (map bbInstructions (graphBlocks g)) = all"
    using concat_segments [OF inc startsOf_nonempty] by (simp add: hd_startsOf)
  moreover have "bbStart (graphBlocks g ! i) = (if i = 0 then 0 else blockEnd (graphBlocks g ! (i - 1)))"
    if "i < length (startsOf all)" for i
  proof (cases i)
    case 0
    then show ?thesis using that hd_startsOf [of all] startsOf_nonempty [of all] by (simp add: B hd_conv_nth)
  next
    case (Suc j)
    then have "j < length (startsOf all)" using that by simp
    then show ?thesis
      using that Suc increasing_cutEnd [OF inc \<open>j < _\<close>] length_segment [OF inc \<open>j < _\<close>]
      by (simp add: B(4) blockEnd_def cutEnd_def nth_append)
  qed
  moreover have "\<forall>x \<in> set (butlast (bbInstructions (graphBlocks g ! i))). \<not> isTerminator x"
    if "i < length (startsOf all)" for i
    using that B(2) by (simp add: B(4) straight_def)
  ultimately show ?thesis
    unfolding partitions_def all_def [symmetric]
    using segment_nonempty [OF inc] by (simp add: B(3,4))
qed

lemma Build_edges:
  assumes "Build fn = Inr g"
  shows "edgesAgree (instructions fn) (graphBlocks g)" "predecessorsAgree (graphBlocks g)"
proof -
  have "edgesAgree (instructions fn) (graphBlocks g) \<and> predecessorsAgree (graphBlocks g)"
  proof (cases "instructions fn = []")
    case True
    then show ?thesis using assms by (auto simp: Build_def bindE_eq_Inr edgesAgree_def predecessorsAgree_def)
  next
    case ne: False
    define all where "all = instructions fn"
    have ne': "all \<noteq> []" using ne by (simp add: all_def)
    note B = Build_blocks [OF assms ne, folded all_def]
    note inc = startsOf_increasing [OF ne']
    have "edgesAgree all (graphBlocks g)"
      unfolding edgesAgree_def B(3)
    proof (intro allI impI)
      fix i assume i: "i < length (startsOf all)"
      define b where "b = graphBlocks g ! i"
      have e: "blockEnd b - 1 = cutEnd all (startsOf all) i - 1"
        using i increasing_cutEnd [OF inc i] length_segment [OF inc i] by (simp add: b_def B(4) blockEnd_def)
      have ids: "bbSuccessors b = bbSuccessors (linkedBlock all i)" by (simp add: b_def B(4) i)
      note S = successors_flow [OF B(1) ne' i, folded linkedBlock_sel(5), folded ids, folded e]
      have "\<forall>s \<in> set (bbSuccessors b). 0 \<le> s \<and> s < int (length (startsOf all))"
        using S(2) by fastforce
      moreover have "flow all (blockEnd b - 1) q \<longleftrightarrow> (\<exists>s \<in> set (bbSuccessors b). q = bbStart (graphBlocks g ! nat s))" for q
      proof
        assume "flow all (blockEnd b - 1) q"
        from S(3) [OF this] obtain j where "j < length (startsOf all)" "int j \<in> set (bbSuccessors b)"
          "q = startsOf all ! j" by blast
        then show "\<exists>s \<in> set (bbSuccessors b). q = bbStart (graphBlocks g ! nat s)"
          by (intro bexI [of _ "int j"]) (simp_all add: B(4))
      next
        assume "\<exists>s \<in> set (bbSuccessors b). q = bbStart (graphBlocks g ! nat s)"
        then obtain s where s: "s \<in> set (bbSuccessors b)" "q = bbStart (graphBlocks g ! nat s)" by blast
        from S(2) [OF s(1)] s(2) show "flow all (blockEnd b - 1) q" by (auto simp: B(4))
      qed
      ultimately show "distinct (bbSuccessors (graphBlocks g ! i))
        \<and> (\<forall>s \<in> set (bbSuccessors (graphBlocks g ! i)). 0 \<le> s \<and> s < int (length (startsOf all)))
        \<and> (\<forall>q. flow all (blockEnd (graphBlocks g ! i) - 1) q \<longleftrightarrow>
             (\<exists>s \<in> set (bbSuccessors (graphBlocks g ! i)). q = bbStart (graphBlocks g ! nat s)))"
        using S(1) by (simp add: b_def [symmetric])
    qed
    moreover have "predecessorsAgree (graphBlocks g)"
      unfolding predecessorsAgree_def B(3) by (auto simp: B(4) intro!: filter_cong)
    ultimately show ?thesis by (simp add: all_def)
  qed
  then show "edgesAgree (instructions fn) (graphBlocks g)" "predecessorsAgree (graphBlocks g)" by simp_all
qed

subsection \<open>Which functions have a graph\<close>

text \<open>\<open>Build\<close> starts no block after a \<open>ret\<close>, so code after a \<open>ret\<close> must begin at a jump target.\<close>

definition retsClosed :: "instruction list \<Rightarrow> bool" where
  "retsClosed all \<longleftrightarrow>
     (\<forall>p < length all. instKind (all ! p) = InstructionRet \<and> Suc p < length all \<longrightarrow>
        (\<exists>x \<in> set all. \<exists>t \<in> set (targetsOf x). labelMap all t = Some (Suc p)))"

lemma block_of_position:
  assumes "all \<noteq> []" "p < length all"
  obtains k where "k < length (startsOf all)" "startsOf all ! k \<le> p" "p < cutEnd all (startsOf all) k"
proof -
  define K where "K = {k. k < length (startsOf all) \<and> startsOf all ! k \<le> p}"
  have "0 \<in> K" using hd_startsOf [of all] startsOf_nonempty [of all] by (simp add: K_def hd_conv_nth)
  moreover have fin: "finite K" by (simp add: K_def)
  ultimately have k: "Max K \<in> K" "\<And>j. j \<in> K \<Longrightarrow> j \<le> Max K"
    using Max_in [OF fin] Max_ge [OF fin] by blast+
  have "p < cutEnd all (startsOf all) (Max K)"
  proof (cases "Suc (Max K) < length (startsOf all)")
    case True
    then have "\<not> startsOf all ! Suc (Max K) \<le> p" using k(2) [of "Suc (Max K)"] by (metis (mono_tags, lifting) K_def Suc_n_not_le_n mem_Collect_eq)
    then show ?thesis using True by (simp add: cutEnd_def nth_append)
  next
    case False
    then show ?thesis using k(1) assms(2) by (auto simp: K_def cutEnd_def nth_append)
  qed
  then show thesis using k(1) by (intro that [of "Max K"]) (auto simp: K_def)
qed

lemma cut_gap:
  assumes "all \<noteq> []" "k < length (startsOf all)" "startsOf all ! k < q" "q < cutEnd all (startsOf all) k"
  shows "q \<notin> leadersOf all"
proof
  assume "q \<in> leadersOf all"
  then obtain j where j: "j < length (startsOf all)" "startsOf all ! j = q"
    unfolding set_startsOf [symmetric] in_set_conv_nth by blast
  have less: "startsOf all ! a < startsOf all ! b \<longleftrightarrow> a < b" if "a < length (startsOf all)" "b < length (startsOf all)" for a b
    using that startsOf_sorted [of all]
    by (metis linorder_cases less_asym sorted_wrt_nth_less less_irrefl)
  have "k < j" using assms(2,3) j less by auto
  then have "Suc k < length (startsOf all)" using j by simp
  moreover have "startsOf all ! Suc k \<le> startsOf all ! j"
    using \<open>k < j\<close> j calculation less [of "Suc k" j] by (cases "Suc k = j") auto
  ultimately show False using assms(4) j by (simp add: cutEnd_def nth_append)
qed

lemma in_butlast_segment:
  assumes "increasing all ss" "k < length ss"
  shows "x \<in> set (butlast (segment all ss k)) \<longleftrightarrow> (\<exists>p. ss ! k \<le> p \<and> Suc p < cutEnd all ss k \<and> x = all ! p)"
proof
  assume "x \<in> set (butlast (segment all ss k))"
  then obtain j where j: "j < length (butlast (segment all ss k))" "x = butlast (segment all ss k) ! j"
    by (auto simp: in_set_conv_nth)
  then have j': "Suc j < length (segment all ss k)" by simp
  then have "x = all ! (ss ! k + j)" using j assms by (simp add: nth_butlast segment_nth)
  then show "\<exists>p. ss ! k \<le> p \<and> Suc p < cutEnd all ss k \<and> x = all ! p"
    using j' by (intro exI [of _ "ss ! k + j"]) (simp add: length_segment [OF assms])
next
  assume "\<exists>p. ss ! k \<le> p \<and> Suc p < cutEnd all ss k \<and> x = all ! p"
  then obtain p where p: "ss ! k \<le> p" "Suc p < cutEnd all ss k" "x = all ! p" by blast
  have l: "p - ss ! k < length (butlast (segment all ss k))" using p by (simp add: length_segment [OF assms])
  then have "butlast (segment all ss k) ! (p - ss ! k) = x"
    using p assms by (simp add: nth_butlast segment_nth)
  then show "x \<in> set (butlast (segment all ss k))" using l nth_mem by blast
qed

lemma straight_iff:
  assumes ne: "all \<noteq> []"
  shows "straight all \<longleftrightarrow> (\<forall>p. Suc p < length all \<and> isTerminator (all ! p) \<longrightarrow> Suc p \<in> leadersOf all)"
proof -
  note inc = startsOf_increasing [OF ne]
  have "straight all \<longleftrightarrow> (\<forall>k < length (startsOf all). \<forall>p. startsOf all ! k \<le> p \<and> Suc p < cutEnd all (startsOf all) k
      \<longrightarrow> \<not> isTerminator (all ! p))" (is "_ \<longleftrightarrow> ?R")
    unfolding straight_def using in_butlast_segment [OF inc] by metis
  also have "?R \<longleftrightarrow> (\<forall>p. Suc p < length all \<and> isTerminator (all ! p) \<longrightarrow> Suc p \<in> leadersOf all)"
  proof (intro iffI allI impI; elim conjE)
    fix p
    assume R: ?R and p: "Suc p < length all" "isTerminator (all ! p)"
    obtain k where k: "k < length (startsOf all)" "startsOf all ! k \<le> p" "p < cutEnd all (startsOf all) k"
      using block_of_position [OF ne, of p] p by auto
    with R p have "cutEnd all (startsOf all) k = Suc p" by (metis Suc_lessI)
    then have "Suc k < length (startsOf all)" "startsOf all ! Suc k = Suc p"
      using p k(1) by (auto simp: cutEnd_def nth_append split: if_splits)
    then show "Suc p \<in> leadersOf all" unfolding set_startsOf [symmetric] by (metis nth_mem)
  next
    fix k p
    assume L: "\<forall>p. Suc p < length all \<and> isTerminator (all ! p) \<longrightarrow> Suc p \<in> leadersOf all"
      and k: "k < length (startsOf all)" and p: "startsOf all ! k \<le> p" "Suc p < cutEnd all (startsOf all) k"
    then have "Suc p \<notin> leadersOf all" "Suc p < length all"
      using cut_gap [OF ne k, of "Suc p"] increasing_cutEnd(2) [OF inc k] by simp_all
    with L show "\<not> isTerminator (all ! p)" by blast
  qed
  finally show ?thesis .
qed

lemma straight_rets: "all \<noteq> [] \<Longrightarrow> straight all \<longleftrightarrow> retsClosed all"
proof -
  assume ne: "all \<noteq> []"
  have "(Suc p < length all \<and> isTerminator (all ! p) \<longrightarrow> Suc p \<in> leadersOf all) \<longleftrightarrow>
      (p < length all \<longrightarrow> instKind (all ! p) = InstructionRet \<and> Suc p < length all \<longrightarrow>
        (\<exists>x \<in> set all. \<exists>t \<in> set (targetsOf x). labelMap all t = Some (Suc p)))" for p
    by (cases "instKind (all ! p)") (auto simp: isTerminator_def leadersOf_def leadersFrom_def isJump_def)
  then show ?thesis unfolding straight_iff [OF ne] retsClosed_def by blast
qed

lemma Build_ok_iff:
  "isOk (Build fn) \<longleftrightarrow> wfInstructions (instructions fn) \<and> retsClosed (instructions fn)"
proof (cases "instructions fn = []")
  case True
  then show ?thesis by (simp add: Build_def ValidateFunctionIR_def wfInstructions_def retsClosed_def)
next
  case False
  then show ?thesis unfolding isOk_iff Build_eq_Inr [OF False] straight_rets [OF False] by auto
qed

subsection \<open>Labels of blocks\<close>

lemma labelsToBlocks_Some:
  "labelsToBlocks bs l = Some v \<Longrightarrow>
     \<exists>b \<in> set bs. instKind (hd (bbInstructions b)) = InstructionLabel \<and> bbLabel b = l \<and> bbID b = v"
  unfolding labelsToBlocks_def by (induction bs rule: rev_induct) (auto split: if_splits)

lemma labelsToBlocks_label:
  "b \<in> set bs \<Longrightarrow> instKind (hd (bbInstructions b)) = InstructionLabel \<Longrightarrow> labelsToBlocks bs (bbLabel b) \<noteq> None"
  unfolding labelsToBlocks_def by (induction bs rule: rev_induct) auto

lemma bb_start_preds: "bbStart (b\<lparr>bbPredecessors := ps\<rparr>) = bbStart b"
  by simp

lemma Build_labels:
  assumes b: "Build fn = Inr g" and i: "0 \<le> bid"
  shows "BlockByLabel g l = Some bid \<longleftrightarrow> bid < int (length (graphBlocks g))
    \<and> labelMap (instructions fn) l = Some (bbStart (graphBlocks g ! nat bid))"
proof (cases "instructions fn = []")
  case True
  then show ?thesis using b i by (auto simp: Build_def bindE_eq_Inr BlockByLabel_def)
next
  case ne: False
  define all where "all = instructions fn"
  note B = Build_blocks [OF b ne, folded all_def]
  note inc = startsOf_increasing [OF ne, folded all_def]
  have g: "graphLabels g = labelsToBlocks (cutsOf all)"
    using b unfolding Build_eq_Inr [OF ne] all_def by auto
  have hd: "hd (segment all (startsOf all) k) = all ! (startsOf all ! k)" if "k < length (startsOf all)" for k
    using segment_nth [OF inc that, of 0] segment_nonempty [OF inc that] by (simp add: hd_conv_nth)
  have less: "startsOf all ! k < length all" if "k < length (startsOf all)" for k
    using inc that by (simp add: increasing_def)
  have dist: "distinct (labelsOf all)" using B(1) by (simp add: wfInstructions_def)
  have heads: "instKind (all ! (startsOf all ! k)) = InstructionLabel \<and> instLabel (all ! (startsOf all ! k)) = l
      \<longleftrightarrow> labelMap all l = Some (startsOf all ! k)" if "k < length (startsOf all)" for k
    using labelMap_Some [of all l] labelMapFrom_nth [OF dist less [OF that], of 0 Map.empty] by auto
  have cut: "c \<in> set (cutsOf all) \<and> instKind (hd (bbInstructions c)) = InstructionLabel \<and> bbLabel c = l \<and> bbID c = v
      \<longleftrightarrow> (\<exists>k < length (startsOf all). c = cutAt all (startsOf all) 0 k \<and> v = int k \<and> labelMap all l = Some (startsOf all ! k))"
    for c v
  proof -
    have "c \<in> set (cutsOf all) \<longleftrightarrow> (\<exists>k < length (startsOf all). c = cutAt all (startsOf all) 0 k)"
      by (auto simp: cutsOf_def)
    moreover have "instKind (hd (bbInstructions (cutAt all (startsOf all) 0 k))) = InstructionLabel
        \<and> bbLabel (cutAt all (startsOf all) 0 k) = l \<and> bbID (cutAt all (startsOf all) 0 k) = v
      \<longleftrightarrow> v = int k \<and> labelMap all l = Some (startsOf all ! k)" if "k < length (startsOf all)" for k
      unfolding heads [OF that, symmetric] using hd [OF that] by (auto simp: cutAt_def)
    ultimately show ?thesis by metis
  qed
  have "BlockByLabel g l = Some bid \<longleftrightarrow>
      (\<exists>k < length (startsOf all). bid = int k \<and> labelMap all l = Some (startsOf all ! k))"
  proof
    assume "BlockByLabel g l = Some bid"
    then show "\<exists>k < length (startsOf all). bid = int k \<and> labelMap all l = Some (startsOf all ! k)"
      using labelsToBlocks_Some [of "cutsOf all" l bid] cut [of _ bid] by (auto simp: BlockByLabel_def g)
  next
    assume "\<exists>k < length (startsOf all). bid = int k \<and> labelMap all l = Some (startsOf all ! k)"
    then obtain k where k: "k < length (startsOf all)" "bid = int k" "labelMap all l = Some (startsOf all ! k)" by blast
    then have "labelsToBlocks (cutsOf all) l \<noteq> None"
      using cut [of "cutAt all (startsOf all) 0 k" "int k"] labelsToBlocks_label by metis
    then obtain v where v: "labelsToBlocks (cutsOf all) l = Some v" by blast
    from labelsToBlocks_Some [OF v] cut [of _ v] obtain j where
      j: "j < length (startsOf all)" "v = int j" "labelMap all l = Some (startsOf all ! j)" by metis
    then have "j = k" using k startsOf_sorted(2) [of all] by (simp add: nth_eq_iff_index_eq)
    then show "BlockByLabel g l = Some bid" using v j k by (simp add: BlockByLabel_def g)
  qed
  also have "\<dots> \<longleftrightarrow> bid < int (length (graphBlocks g)) \<and> labelMap all l = Some (bbStart (graphBlocks g ! nat bid))"
  proof -
    have "nat bid < length (startsOf all) \<longleftrightarrow> bid < int (length (startsOf all))" using i by (simp add: nat_less_iff)
    then show ?thesis using i B(3) B(4) [of "nat bid"] by (metis linkedBlock_sel(2) bb_start_preds nat_0_le nat_int)
  qed
  finally show ?thesis by (simp only: all_def)
qed

lemma BuildFunctionView_eq_Inr:
  "BuildFunctionView fn = Inr v \<longleftrightarrow>
     (\<exists>g. Build fn = Inr g \<and> v = \<lparr>viewName = fnName fn, viewBlocks = graphBlocks g\<rparr>)"
proof -
  have "ValidateFunctionIR fn = Inr ()" if "Build fn = Inr g" for g
    using that by (auto simp: Build_def bindE_eq_Inr)
  then show ?thesis by (auto simp: BuildFunctionView_def bindE_eq_Inr)
qed

lemma BuildFunctionView_ok_iff: "isOk (BuildFunctionView fn) \<longleftrightarrow> isOk (Build fn)"
  by (auto simp: isOk_iff BuildFunctionView_eq_Inr)

end
