(* ===== verification/Tokens.thy ===== *)
theory Tokens
  imports Prelude
begin

text \<open>
  Tokens of the C front end, \<open>internal/lexer/token.go\<close>. \<open>TokenType\<close> is an integer type in the code,
  with constants numbered by \<open>iota\<close>; so it is here, and \<open>token_types\<close> unfolds the numbers.
\<close>

named_theorems token_types \<open>the numbers of the token types\<close>

type_synonym tokenType = int

definition tokenNil :: tokenType where [token_types]: "tokenNil = 0"
definition TokenAuto :: tokenType where [token_types]: "TokenAuto = 1"
definition TokenEnum :: tokenType where [token_types]: "TokenEnum = 2"
definition TokenRestrict :: tokenType where [token_types]: "TokenRestrict = 3"
definition TokenUnsigned :: tokenType where [token_types]: "TokenUnsigned = 4"
definition TokenBreak :: tokenType where [token_types]: "TokenBreak = 5"
definition TokenExtern :: tokenType where [token_types]: "TokenExtern = 6"
definition TokenReturn :: tokenType where [token_types]: "TokenReturn = 7"
definition TokenVoid :: tokenType where [token_types]: "TokenVoid = 8"
definition TokenCase :: tokenType where [token_types]: "TokenCase = 9"
definition TokenFloat :: tokenType where [token_types]: "TokenFloat = 10"
definition TokenShort :: tokenType where [token_types]: "TokenShort = 11"
definition TokenVolatile :: tokenType where [token_types]: "TokenVolatile = 12"
definition TokenChar :: tokenType where [token_types]: "TokenChar = 13"
definition TokenFor :: tokenType where [token_types]: "TokenFor = 14"
definition TokenSigned :: tokenType where [token_types]: "TokenSigned = 15"
definition TokenWhile :: tokenType where [token_types]: "TokenWhile = 16"
definition TokenConst :: tokenType where [token_types]: "TokenConst = 17"
definition TokenGoto :: tokenType where [token_types]: "TokenGoto = 18"
definition TokenSizeof :: tokenType where [token_types]: "TokenSizeof = 19"
definition Token_Bool :: tokenType where [token_types]: "Token_Bool = 20"
definition TokenContinue :: tokenType where [token_types]: "TokenContinue = 21"
definition TokenIf :: tokenType where [token_types]: "TokenIf = 22"
definition TokenStatic :: tokenType where [token_types]: "TokenStatic = 23"
definition Token_Complex :: tokenType where [token_types]: "Token_Complex = 24"
definition TokenDefault :: tokenType where [token_types]: "TokenDefault = 25"
definition TokenInline :: tokenType where [token_types]: "TokenInline = 26"
definition TokenStruct :: tokenType where [token_types]: "TokenStruct = 27"
definition Token_Imaginary :: tokenType where [token_types]: "Token_Imaginary = 28"
definition TokenDo :: tokenType where [token_types]: "TokenDo = 29"
definition TokenInt :: tokenType where [token_types]: "TokenInt = 30"
definition TokenSwitch :: tokenType where [token_types]: "TokenSwitch = 31"
definition TokenDouble :: tokenType where [token_types]: "TokenDouble = 32"
definition TokenLong :: tokenType where [token_types]: "TokenLong = 33"
definition TokenTypedef :: tokenType where [token_types]: "TokenTypedef = 34"
definition TokenElse :: tokenType where [token_types]: "TokenElse = 35"
definition TokenRegister :: tokenType where [token_types]: "TokenRegister = 36"
definition TokenUnion :: tokenType where [token_types]: "TokenUnion = 37"
definition TokenIdentifier :: tokenType where [token_types]: "TokenIdentifier = 38"
definition TokenIntegerConstant :: tokenType where [token_types]: "TokenIntegerConstant = 39"
definition TokenFloatingConstant :: tokenType where [token_types]: "TokenFloatingConstant = 40"
definition TokenCharacterConstant :: tokenType where [token_types]: "TokenCharacterConstant = 41"
definition TokenStringLiteral :: tokenType where [token_types]: "TokenStringLiteral = 42"
definition TokenLBracket :: tokenType where [token_types]: "TokenLBracket = 43"
definition TokenRBracket :: tokenType where [token_types]: "TokenRBracket = 44"
definition TokenLParen :: tokenType where [token_types]: "TokenLParen = 45"
definition TokenRParen :: tokenType where [token_types]: "TokenRParen = 46"
definition TokenLBrace :: tokenType where [token_types]: "TokenLBrace = 47"
definition TokenRBrace :: tokenType where [token_types]: "TokenRBrace = 48"
definition TokenDot :: tokenType where [token_types]: "TokenDot = 49"
definition TokenEllipsis :: tokenType where [token_types]: "TokenEllipsis = 50"
definition TokenArrow :: tokenType where [token_types]: "TokenArrow = 51"
definition TokenPlusPlus :: tokenType where [token_types]: "TokenPlusPlus = 52"
definition TokenMinusMinus :: tokenType where [token_types]: "TokenMinusMinus = 53"
definition TokenAmp :: tokenType where [token_types]: "TokenAmp = 54"
definition TokenStar :: tokenType where [token_types]: "TokenStar = 55"
definition TokenPlus :: tokenType where [token_types]: "TokenPlus = 56"
definition TokenMinus :: tokenType where [token_types]: "TokenMinus = 57"
definition TokenTilde :: tokenType where [token_types]: "TokenTilde = 58"
definition TokenBang :: tokenType where [token_types]: "TokenBang = 59"
definition TokenSlash :: tokenType where [token_types]: "TokenSlash = 60"
definition TokenPercent :: tokenType where [token_types]: "TokenPercent = 61"
definition TokenShiftLeft :: tokenType where [token_types]: "TokenShiftLeft = 62"
definition TokenShiftRight :: tokenType where [token_types]: "TokenShiftRight = 63"
definition TokenLt :: tokenType where [token_types]: "TokenLt = 64"
definition TokenGt :: tokenType where [token_types]: "TokenGt = 65"
definition TokenLe :: tokenType where [token_types]: "TokenLe = 66"
definition TokenGe :: tokenType where [token_types]: "TokenGe = 67"
definition TokenEq :: tokenType where [token_types]: "TokenEq = 68"
definition TokenNe :: tokenType where [token_types]: "TokenNe = 69"
definition TokenCaret :: tokenType where [token_types]: "TokenCaret = 70"
definition TokenPipe :: tokenType where [token_types]: "TokenPipe = 71"
definition TokenAndAnd :: tokenType where [token_types]: "TokenAndAnd = 72"
definition TokenOrOr :: tokenType where [token_types]: "TokenOrOr = 73"
definition TokenQuestion :: tokenType where [token_types]: "TokenQuestion = 74"
definition TokenColon :: tokenType where [token_types]: "TokenColon = 75"
definition TokenSemicolon :: tokenType where [token_types]: "TokenSemicolon = 76"
definition TokenAssign :: tokenType where [token_types]: "TokenAssign = 77"
definition TokenStarAssign :: tokenType where [token_types]: "TokenStarAssign = 78"
definition TokenSlashAssign :: tokenType where [token_types]: "TokenSlashAssign = 79"
definition TokenPercentAssign :: tokenType where [token_types]: "TokenPercentAssign = 80"
definition TokenPlusAssign :: tokenType where [token_types]: "TokenPlusAssign = 81"
definition TokenMinusAssign :: tokenType where [token_types]: "TokenMinusAssign = 82"
definition TokenShiftLeftAssign :: tokenType where [token_types]: "TokenShiftLeftAssign = 83"
definition TokenShiftRightAssign :: tokenType where [token_types]: "TokenShiftRightAssign = 84"
definition TokenAmpAssign :: tokenType where [token_types]: "TokenAmpAssign = 85"
definition TokenCaretAssign :: tokenType where [token_types]: "TokenCaretAssign = 86"
definition TokenPipeAssign :: tokenType where [token_types]: "TokenPipeAssign = 87"
definition TokenComma :: tokenType where [token_types]: "TokenComma = 88"
definition tokenPreprocStart :: tokenType where [token_types]: "tokenPreprocStart = 89"
definition tokenPreProcGlue :: tokenType where [token_types]: "tokenPreProcGlue = 90"
definition tokenCommentSingle :: tokenType where [token_types]: "tokenCommentSingle = 91"
definition tokenCommentMulti :: tokenType where [token_types]: "tokenCommentMulti = 92"
definition tokenDots :: tokenType where [token_types]: "tokenDots = 93"
definition tokenWhitespace :: tokenType where [token_types]: "tokenWhitespace = 94"
definition TokenEOF :: tokenType where [token_types]: "TokenEOF = 95"
definition TokenError :: tokenType where [token_types]: "TokenError = 96"

record token =
  tokType :: tokenType
  tokRaw :: string
  tokLine :: int
  tokColumn :: int

text \<open>The zero value \<open>Token{}\<close>.\<close>

definition zeroToken :: token where
  "zeroToken = \<lparr>tokType = tokenNil, tokRaw = [], tokLine = 0, tokColumn = 0\<rparr>"

definition IsValid :: "token \<Rightarrow> bool" where
  "IsValid t \<longleftrightarrow> tokType t \<noteq> tokenNil"

end
