(* ===== verification/Scanner.thy ===== *)
theory Scanner
  imports Tokens
begin

text \<open>
  The buffered scanner of \<open>internal/lexer/scanner.go\<close>. An \<open>io.Reader\<close> is the list of results its
  \<open>Read\<close> will give, each some bytes and perhaps an error; after the list every \<open>Read\<close> gives \<open>io.EOF\<close>.
  A method that may fail returns the error or the value together with the changed scanner, because
  the scanner keeps what it did before an error. The record is extensible: the preprocessor's state
  extends it, so that its methods run on the same state.
\<close>

section \<open>Errors and effects\<close>

datatype ioError = IoEOF | IoError string

text \<open>The last two stand for the panics of the scanner.\<close>

datatype lexErr =
    ReadError ioError
  | ErrNotImplementedInV0
  | HexWithoutValue int int
  | NewlineInString int int
  | NewlineInCharacter int int
  | InvalidPunctuation char char
  | DotsExpected int int string
  | DirectiveNotOnLineStart int int
  | EmptyDirective int int
  | ExpectedDirectiveName int int
  | UnsupportedDirective int int string
  | ExpectedDefinitionName int int
  | PanicFillNotEmpty
  | PanicPopEmpty

type_synonym ('s, 'a) step = "(lexErr + 'a) \<times> 's"

definition bindS :: "('s, 'a) step \<Rightarrow> ('a \<Rightarrow> 's \<Rightarrow> ('s, 'b) step) \<Rightarrow> ('s, 'b) step" where
  "bindS r f = (case r of (Inl e, s) \<Rightarrow> (Inl e, s) | (Inr x, s) \<Rightarrow> f x s)"

text \<open>\<open>if err != nil && err != io.EOF { return err }\<close>, after which the result is read as \<open>d\<close> on \<open>io.EOF\<close>.\<close>

definition orEOF :: "'a \<Rightarrow> ('s, 'a) step \<Rightarrow> ('s, 'a) step" where
  "orEOF d r = (case r of (Inl e, s) \<Rightarrow> if e = ReadError IoEOF then (Inr d, s) else (Inl e, s) | (Inr x, s) \<Rightarrow> (Inr x, s))"

lemma bindS_cong [fundef_cong]:
  "r = r' \<Longrightarrow> (\<And>x s. r' = (Inr x, s) \<Longrightarrow> f x s = g x s) \<Longrightarrow> bindS r f = bindS r' g"
  by (auto simp: bindS_def split: prod.splits sum.splits)

lemma bindS_simps [simp]:
  "bindS (Inl e, s) f = (Inl e, s)" "bindS (Inr x, s) f = f x s"
  by (simp_all add: bindS_def)

lemma orEOF_simps [simp]:
  "orEOF d (Inr x, s) = (Inr x, s)" "orEOF d (Inl (ReadError IoEOF), s) = (Inr d, s)"
  "e \<noteq> ReadError IoEOF \<Longrightarrow> orEOF d (Inl e, s) = (Inl e, s)"
  by (simp_all add: orEOF_def)

lemma bindS_eq_Inr:
  "bindS r f = (Inr y, s') \<longleftrightarrow> (\<exists>x s. r = (Inr x, s) \<and> f x s = (Inr y, s'))"
  by (auto simp: bindS_def split: prod.splits sum.splits)

lemma orEOF_eq_Inr:
  "orEOF d r = (Inr y, s') \<longleftrightarrow> r = (Inr y, s') \<or> (r = (Inl (ReadError IoEOF), s') \<and> y = d)"
  by (auto simp: orEOF_def split: prod.splits sum.splits)

section \<open>Byte classes\<close>

type_synonym byteClass = "char \<Rightarrow> bool"

definition byteClassRange :: "char \<Rightarrow> char \<Rightarrow> byteClass" where
  "byteClassRange start stop = (\<lambda>b. (of_char start :: nat) \<le> of_char b \<and> (of_char b :: nat) \<le> of_char stop)"

definition byteClassChars :: "string \<Rightarrow> byteClass" where
  "byteClassChars chars = (\<lambda>b. b \<in> set chars)"

definition byteClassCombine :: "byteClass list \<Rightarrow> byteClass" where
  "byteClassCombine bClases = (\<lambda>b. \<exists>cls \<in> set bClases. cls b)"

definition negateClass :: "byteClass \<Rightarrow> byteClass" where
  "negateClass cls = (\<lambda>b. \<not> cls b)"

section \<open>The reader\<close>

type_synonym reader = "(string \<times> ioError option) list"

text \<open>\<open>Read(p)\<close> with \<open>len(p) = n\<close>. A result longer than the buffer comes in pieces.\<close>

fun Read :: "nat \<Rightarrow> reader \<Rightarrow> string \<times> ioError option \<times> reader" where
  "Read n [] = ([], Some IoEOF, [])"
| "Read n ((d, e) # rs) =
     (if length d \<le> n then (d, e, rs)
      else if n = 0 then ([], None, rs)
      else (take n d, None, (drop n d, e) # rs))"

section \<open>The scanner\<close>

text \<open>\<open>scBuff\<close> is the valid part \<open>s.buff[:s.max]\<close> of the buffer and \<open>scCap\<close> is \<open>len(s.buff)\<close>; the bytes past \<open>s.max\<close> are
  never looked at.\<close>

record scanner =
  scReader :: reader
  scBuff :: string
  scCap :: nat
  scPos :: nat
  scErr :: "ioError option"
  scLine :: int
  scColumn :: int

abbreviation newline :: char where "newline \<equiv> CHR 0x0A"

definition defaultScannerBufferSize :: nat where
  "defaultScannerBufferSize = 4096"

definition newScanner :: "reader \<Rightarrow> int \<Rightarrow> scanner" where
  "newScanner r buffSize =
     (let n = (if buffSize \<le> 0 then defaultScannerBufferSize else nat buffSize) in
      \<lparr>scReader = r, scBuff = replicate n (CHR 0x00), scCap = n, scPos = n, scErr = None, scLine = 1, scColumn = 1\<rparr>)"

definition remaining :: "'z scanner_scheme \<Rightarrow> nat" where
  "remaining s = length (scBuff s) - scPos s"

definition fillBuffer :: "'z scanner_scheme \<Rightarrow> ('z scanner_scheme, unit) step" where
  "fillBuffer s =
     (case scErr s of
        Some e \<Rightarrow> (Inl (ReadError e), s\<lparr>scErr := None\<rparr>)
      | None \<Rightarrow>
          if remaining s > 0 then (Inl PanicFillNotEmpty, s)
          else
            (case Read (scCap s) (scReader s) of (d, e, r) \<Rightarrow>
              let s1 = s\<lparr>scReader := r\<rparr> in
              case e of
                Some err \<Rightarrow>
                  if d = [] then (Inl (ReadError err), s1)
                  else (Inr (), s1\<lparr>scErr := Some err, scBuff := d, scPos := 0\<rparr>)
              | None \<Rightarrow> (Inr (), s1\<lparr>scBuff := d, scPos := 0\<rparr>)))"

definition popOneFromBuffer :: "'z scanner_scheme \<Rightarrow> ('z scanner_scheme, char) step" where
  "popOneFromBuffer s =
     (if remaining s = 0 then (Inl PanicPopEmpty, s)
      else
        let b = scBuff s ! scPos s;
            s1 = (if b = newline then s\<lparr>scLine := scLine s + 1, scColumn := 1\<rparr>
                  else s\<lparr>scColumn := scColumn s + 1\<rparr>)
        in (Inr b, s1\<lparr>scPos := scPos s + 1\<rparr>))"

text \<open>The unread part of the buffer, \<open>s.buff[s.pos:s.max]\<close>.\<close>

definition pending :: "'z scanner_scheme \<Rightarrow> string" where
  "pending s = drop (scPos s) (scBuff s)"

text \<open>What is left to read, counting every result of the reader.\<close>

fun readerSize :: "reader \<Rightarrow> nat" where
  "readerSize [] = 0"
| "readerSize ((d, e) # rs) = length d + 2 + readerSize rs"

definition scannerSize :: "'z scanner_scheme \<Rightarrow> nat" where
  "scannerSize s = remaining s + readerSize (scReader s) + (if scErr s = None then 0 else 1)"

lemma Read_size:
  "Read n rs = (d, e, rs') \<Longrightarrow> rs = [] \<or> n > 0 \<and> d \<noteq> [] \<and> e = None \<and> readerSize rs' + length d = readerSize rs
     \<or> readerSize rs' + length d + 2 \<le> readerSize rs"
  by (cases rs) (auto split: if_splits)

lemma Read_Nil_EOF: "Read n rs = (d, e, rs') \<Longrightarrow> rs = [] \<Longrightarrow> d = [] \<and> e = Some IoEOF \<and> rs' = []"
  by simp

lemma fillBuffer_size:
  assumes "fillBuffer s = (r, s')"
  shows "scannerSize s' \<le> scannerSize s"
    and "r = Inr () \<Longrightarrow> remaining s' = 0 \<Longrightarrow> scannerSize s' < scannerSize s"
proof -
  obtain d e rs where R: "Read (scCap s) (scReader s) = (d, e, rs)" by (metis surj_pair)
  have z: "scannerSize s' \<le> scannerSize s \<and> (r = Inr () \<longrightarrow> remaining s' = 0 \<longrightarrow> scannerSize s' < scannerSize s)"
    using assms Read_size [OF R] Read_Nil_EOF [OF R]
    by (auto simp: fillBuffer_def R scannerSize_def remaining_def Let_def split: option.splits if_splits)
  then show "scannerSize s' \<le> scannerSize s"
    and "r = Inr () \<Longrightarrow> remaining s' = 0 \<Longrightarrow> scannerSize s' < scannerSize s" by auto
qed

definition emptyBuffer :: "'z scanner_scheme \<Rightarrow> nat" where
  "emptyBuffer s = (if remaining s = 0 then 1 else 0)"

lemma fillBuffer_measures:
  "fillBuffer s = (Inr x, s') \<Longrightarrow> remaining s = 0 \<Longrightarrow>
     scannerSize s' < scannerSize s \<or> scannerSize s' = scannerSize s \<and> emptyBuffer s' < emptyBuffer s"
  using fillBuffer_size [of s "Inr x" s'] by (cases "remaining s' = 0") (auto simp: emptyBuffer_def)

function readOne :: "'z scanner_scheme \<Rightarrow> ('z scanner_scheme, char) step" where
  "readOne s =
     (if remaining s > 0 then popOneFromBuffer s else bindS (fillBuffer s) (\<lambda>_ s1. readOne s1))"
  by auto
termination
  by (relation "measures [scannerSize, emptyBuffer]") (auto dest: fillBuffer_measures)

function peekOne :: "'z scanner_scheme \<Rightarrow> ('z scanner_scheme, char) step" where
  "peekOne s =
     (if remaining s > 0 then (Inr (scBuff s ! scPos s), s) else bindS (fillBuffer s) (\<lambda>_ s1. peekOne s1))"
  by auto
termination
  by (relation "measures [scannerSize, emptyBuffer]") (auto dest: fillBuffer_measures)

declare readOne.simps [simp del] peekOne.simps [simp del]

lemma dropWhile_Cons_length: "dropWhile P xs = y # ys \<Longrightarrow> length ys < length xs"
  by (metis Suc_le_eq length_Cons length_dropWhile_le)

text \<open>\<open>advanceLineColumn\<close>: past the first newline if there is one, then again on the rest.\<close>

function advanceLineColumn :: "string \<Rightarrow> 'z scanner_scheme \<Rightarrow> 'z scanner_scheme" where
  "advanceLineColumn data s =
     (case dropWhile (\<lambda>b. b \<noteq> newline) data of
        _ # rest \<Rightarrow> advanceLineColumn rest (s\<lparr>scLine := scLine s + 1, scColumn := 1\<rparr>)
      | [] \<Rightarrow> s\<lparr>scColumn := scColumn s + int (length data)\<rparr>)"
  by auto
termination
  by (relation "measure (\<lambda>(data, s). length data)") (auto dest: dropWhile_Cons_length)

declare advanceLineColumn.simps [simp del]

definition readBytesInClass :: "byteClass \<Rightarrow> 'z scanner_scheme \<Rightarrow> ('z scanner_scheme, string \<times> bool) step" where
  "readBytesInClass cls s =
     bindS (if remaining s = 0 then fillBuffer s else (Inr (), s)) (\<lambda>_ s1.
       let data = takeWhile cls (pending s1); end' = scPos s1 + length data in
       if data = [] then (Inr ([], False), s1)
       else (Inr (data, end' = length (scBuff s1)), advanceLineColumn data (s1\<lparr>scPos := end'\<rparr>)))"


section \<open>Sizes\<close>

text \<open>Every operation leaves at most as much to read, and less if it consumes a byte.\<close>

lemma scannerSize_update [simp]:
  "scannerSize (s\<lparr>scLine := l\<rparr>) = scannerSize s" "scannerSize (s\<lparr>scColumn := c\<rparr>) = scannerSize s"
  by (simp_all add: scannerSize_def remaining_def)

lemma advanceLineColumn_sel [simp]:
  "scReader (advanceLineColumn data s) = scReader s" "scBuff (advanceLineColumn data s) = scBuff s"
  "scPos (advanceLineColumn data s) = scPos s" "scCap (advanceLineColumn data s) = scCap s"
  "scErr (advanceLineColumn data s) = scErr s" "scanner.more (advanceLineColumn data s) = scanner.more s"
  by (induction data s rule: advanceLineColumn.induct; subst advanceLineColumn.simps; simp split: list.split)+

lemma popOneFromBuffer_size: "popOneFromBuffer s = (Inr b, s') \<Longrightarrow> scannerSize s' < scannerSize s"
  by (auto simp: popOneFromBuffer_def Let_def scannerSize_def remaining_def split: if_splits)

lemma popOneFromBuffer_size_le: "popOneFromBuffer s = (r, s') \<Longrightarrow> scannerSize s' \<le> scannerSize s"
  by (auto simp: popOneFromBuffer_def Let_def scannerSize_def remaining_def split: if_splits)

lemma readOne_size_le: "readOne s = (r, s') \<Longrightarrow> scannerSize s' \<le> scannerSize s"
proof (induction s arbitrary: r s' rule: readOne.induct)
  case (1 s)
  show ?case
  proof (cases "remaining s > 0")
    case False
    obtain r1 s1 where f: "fillBuffer s = (r1, s1)" by fastforce
    show ?thesis
    proof (cases r1)
      case (Inl e)
      then show ?thesis using 1(2) False f fillBuffer_size(1) [OF f] by (simp add: readOne.simps [of s])
    next
      case (Inr u)
      then have "readOne s1 = (r, s')" using 1(2) False f by (simp add: readOne.simps [of s])
      from 1(1) [OF False _ this] f Inr fillBuffer_size(1) [OF f] show ?thesis by fastforce
    qed
  qed (use 1(2) in \<open>simp add: readOne.simps [of s] popOneFromBuffer_size_le\<close>)
qed

lemma readOne_size: "readOne s = (Inr b, s') \<Longrightarrow> scannerSize s' < scannerSize s"
proof (induction s arbitrary: s' rule: readOne.induct)
  case (1 s)
  show ?case
  proof (cases "remaining s > 0")
    case False
    then obtain s1 where f: "fillBuffer s = (Inr (), s1)" and r: "readOne s1 = (Inr b, s')"
      using 1(2) by (auto simp: readOne.simps [of s] bindS_eq_Inr)
    from 1(1) [OF False f r] fillBuffer_size(1) [OF f] show ?thesis by simp
  qed (use 1(2) in \<open>simp add: readOne.simps [of s] popOneFromBuffer_size\<close>)
qed

lemma peekOne_size: "peekOne s = (r, s') \<Longrightarrow> scannerSize s' \<le> scannerSize s"
proof (induction s arbitrary: r s' rule: peekOne.induct)
  case (1 s)
  show ?case
  proof (cases "remaining s > 0")
    case False
    obtain r1 s1 where f: "fillBuffer s = (r1, s1)" by fastforce
    show ?thesis
    proof (cases r1)
      case (Inl e)
      then show ?thesis using 1(2) False f fillBuffer_size(1) [OF f] by (simp add: peekOne.simps [of s])
    next
      case (Inr u)
      then have "peekOne s1 = (r, s')" using 1(2) False f by (simp add: peekOne.simps [of s])
      from 1(1) [OF False _ this] f Inr fillBuffer_size(1) [OF f] show ?thesis by fastforce
    qed
  qed (use 1(2) in \<open>simp add: peekOne.simps [of s]\<close>)
qed

lemma length_pending: "length (pending s) = remaining s"
  by (simp add: pending_def remaining_def)

lemma pending_Nil [simp]: "pending s = [] \<longleftrightarrow> remaining s = 0"
  using length_pending [of s] by auto

lemma readBytesInClass_size:
  assumes "readBytesInClass cls s = (r, s')"
  shows "scannerSize s' \<le> scannerSize s"
    and "r = Inr (data, p) \<Longrightarrow> data \<noteq> [] \<Longrightarrow> scannerSize s' < scannerSize s"
    and "r = Inr (data, True) \<Longrightarrow> data \<noteq> []"
proof -
  obtain r1 s1 where f: "(if remaining s = 0 then fillBuffer s else (Inr (), s)) = (r1, s1)" by fastforce
  have le: "scannerSize s1 \<le> scannerSize s" using f fillBuffer_size(1) by (auto split: if_splits)
  let ?d = "takeWhile cls (pending s1)"
  have len: "length ?d \<le> remaining s1" using length_pending [of s1] length_takeWhile_le [of cls "pending s1"] by linarith
  have "scannerSize s' \<le> scannerSize s \<and> (r = Inr (data, p) \<longrightarrow> data \<noteq> [] \<longrightarrow> scannerSize s' < scannerSize s)
     \<and> (r = Inr (data, True) \<longrightarrow> data \<noteq> [])"
  proof (cases r1)
    case (Inl e)
    then show ?thesis using assms f le by (auto simp: readBytesInClass_def)
  next
    case (Inr u)
    have out: "(if ?d = [] then (Inr ([], False), s1)
        else (Inr (?d, scPos s1 + length ?d = length (scBuff s1)), advanceLineColumn ?d (s1\<lparr>scPos := scPos s1 + length ?d\<rparr>))) = (r, s')"
      using assms f Inr by (simp add: readBytesInClass_def Let_def)
    have "scannerSize (advanceLineColumn ?d (s1\<lparr>scPos := scPos s1 + length ?d\<rparr>)) < scannerSize s1" if "0 < length ?d"
      using len that by (simp add: scannerSize_def remaining_def del: length_greater_0_conv)
    then show ?thesis using out le by (cases "?d = []") (fastforce split: if_splits)+
  qed
  then show "scannerSize s' \<le> scannerSize s"
    and "r = Inr (data, p) \<Longrightarrow> data \<noteq> [] \<Longrightarrow> scannerSize s' < scannerSize s"
    and "r = Inr (data, True) \<Longrightarrow> data \<noteq> []" by auto
qed

end
