(* ===== verification/Tokenizer.thy ===== *)
theory Tokenizer
  imports Scanner
begin

text \<open>
  The tokenizer of \<open>internal/lexer/tokenizer*.go\<close>. The callback \<open>buildFn\<close> appends to the accumulator
  of the preprocessor; the state is the scanner with that accumulator. A function that calls itself
  while the buffer ends in the middle of a token is recursive here too, on what is left to read.
\<close>

record lexState = scanner +
  lsAcc :: string

definition build :: "string \<Rightarrow> 'z lexState_scheme \<Rightarrow> 'z lexState_scheme" where
  "build data s = s\<lparr>lsAcc := lsAcc s @ data\<rparr>"

text \<open>\<open>buff1Char[0] = s.popOneFromBuffer(); buildFn(buff1Char)\<close>\<close>

definition sendCurrent :: "'z lexState_scheme \<Rightarrow> ('z lexState_scheme, unit) step" where
  "sendCurrent s = bindS (popOneFromBuffer s) (\<lambda>b s1. (Inr (), build [b] s1))"

lemma build_size [simp]: "scannerSize (build data s) = scannerSize s"
  by (simp add: build_def scannerSize_def remaining_def)

lemma sendCurrent_size: "sendCurrent s = (Inr u, s') \<Longrightarrow> scannerSize s' < scannerSize s"
  by (auto simp: sendCurrent_def bindS_eq_Inr dest: popOneFromBuffer_size)

lemma readClass_partial:
  "readBytesInClass cls s = (Inr (data, True), s') \<Longrightarrow> scannerSize s' < scannerSize s"
  using readBytesInClass_size(2,3) by blast

lemma readClass_size:
  "readBytesInClass cls s = (Inr (data, p), s') \<Longrightarrow> scannerSize s' \<le> scannerSize s \<and> (p \<longrightarrow> scannerSize s' < scannerSize s)"
  using readBytesInClass_size(1) [of cls s] readClass_partial [of cls s data s'] by (cases p) auto

lemma readClass_partial_EOF:
  "orEOF ([], False) (readBytesInClass cls s) = (Inr (data, True), s') \<Longrightarrow> scannerSize s' < scannerSize s"
  by (auto simp: orEOF_eq_Inr dest: readClass_partial)

section \<open>Classes\<close>

definition digitByteClass :: byteClass where
  "digitByteClass = byteClassRange (CHR ''0'') (CHR ''9'')"

definition octalDigitByteClass :: byteClass where
  "octalDigitByteClass = byteClassRange (CHR ''0'') (CHR ''7'')"

definition hexalDigitByteClass :: byteClass where
  "hexalDigitByteClass =
     byteClassCombine [digitByteClass, byteClassRange (CHR ''a'') (CHR ''f''), byteClassRange (CHR ''A'') (CHR ''F'')]"

definition alphaByteClass :: byteClass where
  "alphaByteClass =
     byteClassCombine [byteClassRange (CHR ''a'') (CHR ''z''), byteClassRange (CHR ''A'') (CHR ''Z''), byteClassChars ''_'']"

definition alphaDigitByteClass :: byteClass where
  "alphaDigitByteClass = byteClassCombine [alphaByteClass, digitByteClass]"

definition whiteByteClass :: byteClass where
  "whiteByteClass = byteClassChars [CHR '' '', newline, CHR 0x0D, CHR 0x09]"

abbreviation backslash :: char where "backslash \<equiv> CHR 0x5C"
abbreviation quote :: char where "quote \<equiv> CHR 0x27"
abbreviation dquote :: char where "dquote \<equiv> CHR 0x22"

definition bcSingleLineCommentEnd :: byteClass where
  "bcSingleLineCommentEnd = negateClass (byteClassChars [newline, backslash])"

definition stringLiteralBody :: byteClass where
  "stringLiteralBody = negateClass (byteClassChars [newline, backslash, dquote])"

definition charConstantBody :: byteClass where
  "charConstantBody = negateClass (byteClassChars [newline, backslash, quote])"

definition dotsByteClass :: byteClass where
  "dotsByteClass = byteClassChars ''.''"

section \<open>Identifiers, white space and dots\<close>

function lexIdentifier :: "'z lexState_scheme \<Rightarrow> ('z lexState_scheme, tokenType) step" where
  "lexIdentifier s =
     bindS (orEOF ([], False) (readBytesInClass alphaDigitByteClass s)) (\<lambda>r s1. case r of (data, isPartial) \<Rightarrow>
       if \<not> isPartial then (Inr TokenIdentifier, build data s1) else lexIdentifier (build data s1))"
  by auto
termination by (relation "measure scannerSize") (auto dest: readClass_partial_EOF)

definition lexWhiteSpace :: "'z lexState_scheme \<Rightarrow> ('z lexState_scheme, tokenType) step" where
  "lexWhiteSpace s = bindS (readBytesInClass whiteByteClass s) (\<lambda>_ s1. (Inr tokenWhitespace, s1))"

function lexDots :: "'z lexState_scheme \<Rightarrow> ('z lexState_scheme, tokenType) step" where
  "lexDots s =
     bindS (orEOF ([], False) (readBytesInClass dotsByteClass s)) (\<lambda>r s1. case r of (data, isPartial) \<Rightarrow>
       if \<not> isPartial then (Inr tokenDots, build data s1) else lexDots (build data s1))"
  by auto
termination by (relation "measure scannerSize") (auto dest: readClass_partial_EOF)

section \<open>Numbers\<close>

definition lexDecimalFloat :: "'z lexState_scheme \<Rightarrow> ('z lexState_scheme, tokenType) step" where
  "lexDecimalFloat s = (Inl ErrNotImplementedInV0, s)"

definition lexHexedecimalFloat :: "'z lexState_scheme \<Rightarrow> ('z lexState_scheme, tokenType) step" where
  "lexHexedecimalFloat s = (Inl ErrNotImplementedInV0, s)"

definition isU :: "char \<Rightarrow> bool" where
  "isU b \<longleftrightarrow> b = CHR ''u'' \<or> b = CHR ''U''"

definition isL :: "char \<Rightarrow> bool" where
  "isL b \<longleftrightarrow> b = CHR ''l'' \<or> b = CHR ''L''"

definition consumeLLUSuffix :: "'z lexState_scheme \<Rightarrow> ('z lexState_scheme, unit) step" where
  "consumeLLUSuffix s =
     bindS (peekOne s) (\<lambda>b s1.
       if \<not> isU b \<and> \<not> isL b then (Inr (), s1)
       else bindS (sendCurrent s1) (\<lambda>_ s2.
         if isU b then (Inr (), s2)
         else bindS (peekOne s2) (\<lambda>b s3.
           if \<not> isU b \<and> \<not> isL b then (Inr (), s3)
           else bindS (sendCurrent s3) (\<lambda>_ s4.
             if isU b then (Inr (), s4)
             else bindS (peekOne s4) (\<lambda>b s5.
               if \<not> isU b then (Inr (), s5) else sendCurrent s5)))))"

text \<open>The common end of the integer lexers.\<close>

definition finishInteger :: "'z lexState_scheme \<Rightarrow> ('z lexState_scheme, tokenType) step" where
  "finishInteger s = bindS (orEOF () (consumeLLUSuffix s)) (\<lambda>_ s1. (Inr TokenIntegerConstant, s1))"

function lexDecimalInteger :: "'z lexState_scheme \<Rightarrow> ('z lexState_scheme, tokenType) step" where
  "lexDecimalInteger s =
     bindS (orEOF ([], False) (readBytesInClass digitByteClass s)) (\<lambda>r s1. case r of (data, isPartial) \<Rightarrow>
       if isPartial then lexDecimalInteger (build data s1)
       else
         bindS (orEOF (CHR 0x00) (peekOne (build data s1))) (\<lambda>b s2.
           if b = CHR ''.'' \<or> b = CHR ''e'' \<or> b = CHR ''E'' then lexDecimalFloat s2 else finishInteger s2))"
  by auto
termination by (relation "measure scannerSize") (auto dest: readClass_partial_EOF)

function lexOctalConstant :: "'z lexState_scheme \<Rightarrow> ('z lexState_scheme, tokenType) step" where
  "lexOctalConstant s =
     bindS (orEOF ([], False) (readBytesInClass octalDigitByteClass s)) (\<lambda>r s1. case r of (data, isPartial) \<Rightarrow>
       if isPartial then lexOctalConstant (build data s1) else finishInteger (build data s1))"
  by auto
termination by (relation "measure scannerSize") (auto dest: readClass_partial_EOF)

function lexHexadecimalConstant :: "bool \<Rightarrow> 'z lexState_scheme \<Rightarrow> ('z lexState_scheme, tokenType) step" where
  "lexHexadecimalConstant firstCall s =
     bindS (orEOF ([], False) (readBytesInClass hexalDigitByteClass s)) (\<lambda>r s1. case r of (data, isPartial) \<Rightarrow>
       if firstCall \<and> data = [] then (Inl (HexWithoutValue (scLine s1) (scColumn s1)), s1)
       else if isPartial then lexHexadecimalConstant False (build data s1)
       else
         bindS (orEOF (CHR 0x00) (peekOne (build data s1))) (\<lambda>b s2.
           if b = CHR ''.'' \<or> b = CHR ''p'' \<or> b = CHR ''P'' then lexHexedecimalFloat s2 else finishInteger s2))"
  by auto
termination by (relation "measure (\<lambda>(b, s). scannerSize s)") (auto dest: readClass_partial_EOF)

definition lexOctalOrHexadecimalConstant :: "'z lexState_scheme \<Rightarrow> ('z lexState_scheme, tokenType) step" where
  "lexOctalOrHexadecimalConstant s =
     bindS (popOneFromBuffer s) (\<lambda>_ s1.
       case peekOne (build ''0'' s1) of
         (Inl e, s2) \<Rightarrow> if e = ReadError IoEOF then (Inr TokenIntegerConstant, s2) else (Inl e, s2)
       | (Inr b, s2) \<Rightarrow>
           if b = CHR ''x'' \<or> b = CHR ''X'' then bindS (sendCurrent s2) (\<lambda>_ s3. lexHexadecimalConstant True s3)
           else lexOctalConstant s2)"

declare lexIdentifier.simps [simp del] lexDots.simps [simp del] lexDecimalInteger.simps [simp del]
  lexOctalConstant.simps [simp del] lexHexadecimalConstant.simps [simp del]


section \<open>String literals and character constants\<close>

text \<open>The opening quote is already read. What follows a backslash is either a line continuation, a
  supported escape, or not implemented.\<close>

function lexStringLiteral :: "'z lexState_scheme \<Rightarrow> ('z lexState_scheme, tokenType) step" where
  "lexStringLiteral s =
     bindS (readBytesInClass stringLiteralBody s) (\<lambda>r s1. case r of (data, isPartial) \<Rightarrow>
       if isPartial then lexStringLiteral (build data s1)
       else
         bindS (peekOne (build data s1)) (\<lambda>b s2.
           if b = dquote then bindS (sendCurrent s2) (\<lambda>_ s3. (Inr TokenStringLiteral, s3))
           else if b = newline then (Inl (NewlineInString (scLine s2) (scColumn s2)), s2)
           else
             bindS (popOneFromBuffer s2) (\<lambda>_ s3.
             bindS (peekOne s3) (\<lambda>b s4.
               if b = newline then bindS (popOneFromBuffer s4) (\<lambda>_ s5. lexStringLiteral s5)
               else if b = dquote then bindS (sendCurrent s4) (\<lambda>_ s5. lexStringLiteral s5)
               else (Inl ErrNotImplementedInV0, s4)))))"
  by auto
termination
  by (relation "measure scannerSize")
    (auto dest!: readClass_size peekOne_size popOneFromBuffer_size sendCurrent_size)

function lexCharacterConstant :: "'z lexState_scheme \<Rightarrow> ('z lexState_scheme, tokenType) step" where
  "lexCharacterConstant s =
     bindS (readBytesInClass charConstantBody s) (\<lambda>r s1. case r of (data, isPartial) \<Rightarrow>
       if isPartial then lexCharacterConstant (build data s1)
       else
         bindS (peekOne (build data s1)) (\<lambda>b s2.
           if b = quote then bindS (sendCurrent s2) (\<lambda>_ s3. (Inr TokenCharacterConstant, s3))
           else if b = newline then (Inl (NewlineInCharacter (scLine s2) (scColumn s2)), s2)
           else
             bindS (popOneFromBuffer s2) (\<lambda>_ s3.
             bindS (peekOne s3) (\<lambda>b s4.
               if b = newline then bindS (popOneFromBuffer s4) (\<lambda>_ s5. lexCharacterConstant s5)
               else if b \<in> {quote, backslash, CHR ''n'', CHR ''t'', CHR ''r'', CHR ''0''} then
                 bindS (popOneFromBuffer s4) (\<lambda>esc s5. lexCharacterConstant (build [backslash, esc] s5))
               else (Inl ErrNotImplementedInV0, s4)))))"
  by auto
termination
  by (relation "measure scannerSize")
    (auto dest!: readClass_size peekOne_size popOneFromBuffer_size sendCurrent_size)

declare lexStringLiteral.simps [simp del] lexCharacterConstant.simps [simp del]

section \<open>Punctuation and comments\<close>

type_synonym lexTable = "(char \<times> tokenType) list"

text \<open>A table of the code is an array whose other entries are zero.\<close>

definition tableGet :: "lexTable \<Rightarrow> char \<Rightarrow> tokenType" where
  "tableGet t c = (case map_of t c of Some tt \<Rightarrow> tt | None \<Rightarrow> tokenNil)"

definition punctuationCharEqualLexTable :: lexTable where
  "punctuationCharEqualLexTable =
     [(CHR ''-'', TokenMinusAssign), (CHR ''+'', TokenPlusAssign), (CHR ''&'', TokenAmpAssign), (CHR ''*'', TokenStarAssign),
      (CHR ''!'', TokenNe), (CHR ''/'', TokenSlashAssign), (CHR ''%'', TokenPercentAssign), (CHR ''<'', TokenLe),
      (CHR ''>'', TokenGe), (CHR ''^'', TokenCaretAssign), (CHR ''|'', TokenPipeAssign), (CHR ''='', TokenEq)]"

definition punctuation2CharLexTable :: "(char \<times> lexTable) list" where
  "punctuation2CharLexTable =
     [(CHR ''#'', [(CHR ''#'', tokenPreProcGlue)]),
      (CHR ''-'', [(CHR ''>'', TokenArrow), (CHR ''-'', TokenMinusMinus)]),
      (CHR ''+'', [(CHR ''+'', TokenPlusPlus)]),
      (CHR ''&'', [(CHR ''&'', TokenAndAnd)]),
      (CHR ''/'', [(CHR ''/'', tokenCommentSingle), (CHR ''*'', tokenCommentMulti)]),
      (CHR ''%'', [(CHR ''>'', TokenRBrace), (CHR '':'', tokenPreprocStart)]),
      (CHR ''<'', [(CHR ''<'', TokenShiftLeft), (CHR '':'', TokenLBracket), (CHR ''%'', TokenLBrace)]),
      (CHR ''>'', [(CHR ''>'', TokenShiftRight)]),
      (CHR '':'', [(CHR ''>'', TokenRBracket)]),
      (CHR ''|'', [(CHR ''|'', TokenOrOr)])]"

definition tableGet2 :: "char \<Rightarrow> char \<Rightarrow> tokenType" where
  "tableGet2 first second =
     (case map_of punctuation2CharLexTable first of Some t \<Rightarrow> tableGet t second | None \<Rightarrow> tokenNil)"

definition punctuation1CharLexTable :: lexTable where
  "punctuation1CharLexTable =
     [(CHR ''#'', tokenPreprocStart), (CHR ''-'', TokenMinus), (CHR ''+'', TokenPlus), (CHR ''&'', TokenAmp),
      (CHR ''*'', TokenStar), (CHR ''!'', TokenBang), (CHR ''/'', TokenSlash), (CHR ''%'', TokenPercent),
      (CHR ''<'', TokenLt), (CHR ''>'', TokenGt), (CHR ''^'', TokenCaret), (CHR '':'', TokenColon),
      (CHR ''|'', TokenPipe), (CHR ''='', TokenAssign), (CHR ''['', TokenLBracket), (CHR '']'', TokenRBracket),
      (CHR ''('', TokenLParen), (CHR '')'', TokenRParen), (CHR ''{'', TokenLBrace), (CHR ''}'', TokenRBrace),
      (CHR ''~'', TokenTilde), (CHR ''?'', TokenQuestion), (CHR '';'', TokenSemicolon), (CHR '','', TokenComma),
      (CHR ''.'', TokenDot)]"

text \<open>\<open>sendTwo\<close>: pops the second character and builds both.\<close>

definition sendTwo :: "char \<Rightarrow> char \<Rightarrow> 'z lexState_scheme \<Rightarrow> ('z lexState_scheme, unit) step" where
  "sendTwo first second s = bindS (popOneFromBuffer s) (\<lambda>_ s1. (Inr (), build [first, second] s1))"

definition lexCommentMultiLine :: "'z lexState_scheme \<Rightarrow> ('z lexState_scheme, tokenType) step" where
  "lexCommentMultiLine s = (Inl ErrNotImplementedInV0, s)"

text \<open>The third character of \<open><<=\<close> and \<open>>>=\<close>.\<close>

definition lexShift :: "tokenType \<Rightarrow> 'z lexState_scheme \<Rightarrow> ('z lexState_scheme, tokenType) step" where
  "lexShift tt s =
     bindS (orEOF (CHR 0x00) (peekOne s)) (\<lambda>third s1.
       if third \<noteq> CHR ''='' then (Inr tt, s1)
       else bindS (sendCurrent s1) (\<lambda>_ s2.
         (Inr (if tt = TokenShiftLeft then TokenShiftLeftAssign else TokenShiftRightAssign), s2)))"

text \<open>The last part of \<open>lexPunctuation\<close>: a single character or nothing.\<close>

definition lexOneChar :: "char \<Rightarrow> char \<Rightarrow> 'z lexState_scheme \<Rightarrow> ('z lexState_scheme, tokenType) step" where
  "lexOneChar first second s =
     (let tt = tableGet punctuation1CharLexTable first in
      if tt \<noteq> tokenNil then (Inr tt, build [first] s) else (Inl (InvalidPunctuation first second), s))"

lemma orEOF_peek_size: "orEOF d (peekOne s) = (Inr b, s') \<Longrightarrow> scannerSize s' \<le> scannerSize s"
  by (auto simp: orEOF_eq_Inr dest: peekOne_size)

function lexCommentSingleLine :: "'z lexState_scheme \<Rightarrow> ('z lexState_scheme, tokenType) step"
  and lexPunctuation :: "'z lexState_scheme \<Rightarrow> ('z lexState_scheme, tokenType) step"
  and lex :: "'z lexState_scheme \<Rightarrow> ('z lexState_scheme, tokenType) step" where
  "lexCommentSingleLine s =
     bindS (readBytesInClass bcSingleLineCommentEnd s) (\<lambda>r s1. case r of (data, isPartial) \<Rightarrow>
       if isPartial then lexCommentSingleLine s1
       else
         bindS (readOne s1) (\<lambda>b s2.
           if b = backslash then lexCommentSingleLine s2 else lex s2))"
| "lexPunctuation s =
     bindS (popOneFromBuffer s) (\<lambda>first s1.
     bindS (orEOF (CHR 0x00) (peekOne s1)) (\<lambda>second s2.
       if second = CHR ''='' \<and> tableGet punctuationCharEqualLexTable first \<noteq> tokenNil then
         bindS (sendTwo first second s2) (\<lambda>_ s3. (Inr (tableGet punctuationCharEqualLexTable first), s3))
       else if tableGet2 first second = tokenNil then lexOneChar first second s2
       else if tableGet2 first second = tokenCommentSingle then
         bindS (popOneFromBuffer s2) (\<lambda>_ s3. lexCommentSingleLine s3)
       else if tableGet2 first second = tokenCommentMulti then
         bindS (popOneFromBuffer s2) (\<lambda>_ s3. lexCommentMultiLine s3)
       else if tableGet2 first second = TokenShiftLeft \<or> tableGet2 first second = TokenShiftRight then
         bindS (sendTwo first second s2) (\<lambda>_ s3. lexShift (tableGet2 first second) s3)
       else bindS (sendTwo first second s2) (\<lambda>_ s3. (Inr (tableGet2 first second), s3))))"
| "lex s =
     bindS (peekOne s) (\<lambda>b s1.
       if whiteByteClass b then lexWhiteSpace s1
       else if alphaByteClass b then lexIdentifier s1
       else if b = CHR ''0'' then lexOctalOrHexadecimalConstant s1
       else if digitByteClass b then lexDecimalInteger s1
       else if b = quote then bindS (sendCurrent s1) (\<lambda>_ s2. lexCharacterConstant s2)
       else if b = dquote then bindS (sendCurrent s1) (\<lambda>_ s2. lexStringLiteral s2)
       else if b = CHR ''.'' then lexDots s1
       else lexPunctuation s1)"
  by pat_completeness auto
termination
  by (relation "measures [case_sum scannerSize (case_sum scannerSize scannerSize), case_sum (\<lambda>_. 2) (case_sum (\<lambda>_. 0) (\<lambda>_. 1))]")
    (auto dest!: readClass_size peekOne_size popOneFromBuffer_size readOne_size sendCurrent_size orEOF_peek_size)

declare lexCommentSingleLine.simps [simp del] lexPunctuation.simps [simp del] lex.simps [simp del]


section \<open>What every lexer keeps\<close>

text \<open>
  \<open>scanning\<close>: a reflexive and transitive relation between the states before and after, closed under
  the operations on the buffer and under the callback. Whatever is such a relation relates the states
  before and after every lexer, successful or not.
\<close>

locale scanning =
  fixes step :: "'z lexState_scheme \<Rightarrow> 'z lexState_scheme \<Rightarrow> bool"
  assumes step_refl: "step s s"
    and step_trans: "step s t \<Longrightarrow> step t u \<Longrightarrow> step s u"
    and step_pop: "step s (snd (popOneFromBuffer s))"
    and step_fill: "step s (snd (fillBuffer s))"
    and step_class: "step s (snd (readBytesInClass cls s))"
    and step_build: "step s (build data s)"
begin

definition steps :: "'z lexState_scheme \<Rightarrow> ('z lexState_scheme, 'a) step \<Rightarrow> bool" where
  "steps s r \<longleftrightarrow> step s (snd r)"

lemma steps_bind: "steps s r \<Longrightarrow> (\<And>x s1. r = (Inr x, s1) \<Longrightarrow> steps s1 (f x s1)) \<Longrightarrow> steps s (bindS r f)"
  by (auto simp: steps_def bindS_def split: prod.splits sum.splits intro: step_trans)

lemma steps_orEOF: "steps s r \<Longrightarrow> steps s (orEOF d r)"
  by (auto simp: steps_def orEOF_def split: prod.splits sum.splits)

lemma steps_simple: "steps s (x, s)" "steps s (x, build data s)"
  by (simp_all add: steps_def step_refl step_build)

lemma steps_after_build: "steps (build data s) r \<Longrightarrow> steps s r"
  by (auto simp: steps_def intro: step_trans step_build)

lemma steps_if: "(b \<Longrightarrow> steps s r) \<Longrightarrow> (\<not> b \<Longrightarrow> steps s r') \<Longrightarrow> steps s (if b then r else r')"
  by simp

lemma steps_pair: "(\<And>x y. p = (x, y) \<Longrightarrow> steps s (f x y)) \<Longrightarrow> steps s (case p of (x, y) \<Rightarrow> f x y)"
  by (cases p) simp

lemma steps_buffer: "steps s (popOneFromBuffer s)" "steps s (readBytesInClass cls s)" "steps s (fillBuffer s)"
  by (simp_all add: steps_def step_pop step_class step_fill)

lemma steps_readOne: "steps s (readOne s)"
  by (induction s rule: readOne.induct) (subst readOne.simps, intro steps_if steps_buffer steps_bind, blast)

lemma steps_peekOne: "steps s (peekOne s)"
  by (induction s rule: peekOne.induct) (subst peekOne.simps, intro steps_if steps_buffer steps_bind steps_simple, blast)

lemmas steps_intros = steps_if steps_pair steps_bind steps_orEOF steps_simple steps_buffer steps_readOne steps_peekOne

lemma steps_send: "steps s (sendCurrent s)" "steps s (sendTwo a b s)"
  unfolding sendCurrent_def sendTwo_def by (intro steps_intros)+

lemma steps_small:
  "steps s (lexWhiteSpace s)" "steps s (lexOneChar a b s)" "steps s (lexDecimalFloat s)" "steps s (lexHexedecimalFloat s)"
  "steps s (lexCommentMultiLine s)" "steps s (lexShift tt s)" "steps s (consumeLLUSuffix s)" "steps s (finishInteger s)"
  unfolding lexWhiteSpace_def lexOneChar_def lexDecimalFloat_def lexHexedecimalFloat_def lexCommentMultiLine_def lexShift_def
    consumeLLUSuffix_def finishInteger_def Let_def
  by (intro steps_intros steps_send)+

lemmas steps_after = steps_after_build [OF steps_peekOne] steps_after_build [OF steps_small(8)]

lemma steps_identifier: "steps s (lexIdentifier s)"
  by (induction s rule: lexIdentifier.induct)
    (subst lexIdentifier.simps, intro steps_intros, (rule steps_after_build, blast)+)

lemma steps_dots: "steps s (lexDots s)"
  by (induction s rule: lexDots.induct)
    (subst lexDots.simps, intro steps_intros, (rule steps_after_build, blast)+)

lemma steps_decimal: "steps s (lexDecimalInteger s)"
  by (induction s rule: lexDecimalInteger.induct)
    (subst lexDecimalInteger.simps, intro steps_intros steps_small steps_after, (rule steps_after_build, blast)+)

lemma steps_octal: "steps s (lexOctalConstant s)"
  by (induction s rule: lexOctalConstant.induct)
    (subst lexOctalConstant.simps, intro steps_intros steps_small steps_after, (rule steps_after_build, blast)+)

lemma steps_hexadecimal: "steps s (lexHexadecimalConstant b s)"
  by (induction b s rule: lexHexadecimalConstant.induct)
    (subst lexHexadecimalConstant.simps, intro steps_intros steps_small steps_after, (rule steps_after_build, blast)+)

lemma steps_after_zero:
  "steps t (case peekOne t of
     (Inl e, s2) \<Rightarrow> if e = ReadError IoEOF then (Inr TokenIntegerConstant, s2) else (Inl e, s2)
   | (Inr b, s2) \<Rightarrow>
       if b = CHR ''x'' \<or> b = CHR ''X'' then bindS (sendCurrent s2) (\<lambda>_ s3. lexHexadecimalConstant True s3)
       else lexOctalConstant s2)"
proof -
  have x: "steps u (bindS (sendCurrent u) (\<lambda>_ s3. lexHexadecimalConstant True s3))" for u
    by (intro steps_bind steps_send steps_hexadecimal)
  show ?thesis
    using steps_peekOne [of t] x steps_octal
    by (auto simp: steps_def split: prod.splits sum.splits intro: step_trans)
qed

lemma steps_zero: "steps s (lexOctalOrHexadecimalConstant s)"
  unfolding lexOctalOrHexadecimalConstant_def
  by (intro steps_bind steps_buffer) (rule steps_after_build, rule steps_after_zero)

lemma steps_string: "steps s (lexStringLiteral s)"
proof (induction s rule: lexStringLiteral.induct)
  case (1 s)
  show ?case
    by (subst lexStringLiteral.simps, intro steps_intros steps_send steps_after)
      (((rule 1(2); (assumption | rule sym, assumption)) | (rule 1(3); (assumption | rule sym, assumption))
        | rule steps_after_build, (rule 1(1); (assumption | rule sym, assumption)))+)
qed

lemma steps_character: "steps s (lexCharacterConstant s)"
proof (induction s rule: lexCharacterConstant.induct)
  case (1 s)
  show ?case
    by (subst lexCharacterConstant.simps, intro steps_intros steps_send steps_after)
      (((rule 1(2) | rule steps_after_build, rule 1(3) | rule steps_after_build, rule 1(1)); (assumption | rule sym, assumption))+)
qed

lemma steps_lex: "steps s (lexCommentSingleLine s)" "steps s (lexPunctuation s)" "steps s (lex s)"
proof -
  have "steps s (lexCommentSingleLine s)" and "steps t (lexPunctuation t)" and "steps u (lex u)" for s t u
  proof (induction s and t and u rule: lexCommentSingleLine_lexPunctuation_lex.induct)
    case (1 s)
    show ?case
      by (subst lexCommentSingleLine.simps, intro steps_intros steps_readOne) ((rule 1; (assumption | rule sym, assumption))+)
  next
    case (2 s)
    show ?case
      by (subst lexPunctuation.simps, intro steps_intros steps_send steps_small) ((rule 2; (assumption | rule sym, assumption))+)
  next
    case (3 s)
    show ?case
      by (subst lex.simps, intro steps_intros steps_send steps_small steps_identifier steps_dots steps_decimal steps_zero
          steps_string steps_character) ((rule 3; (assumption | rule sym, assumption))+)
  qed
  then show "steps s (lexCommentSingleLine s)" "steps s (lexPunctuation s)" "steps s (lex s)" by auto
qed

end


text \<open>Sizes are one such relation; the fields outside the scanner and the accumulator are another.\<close>

interpretation sizes: scanning "\<lambda>s t :: 'z lexState_scheme. scannerSize t \<le> scannerSize s"
proof
  fix s :: "'z lexState_scheme" and cls data
  show "scannerSize (snd (popOneFromBuffer s)) \<le> scannerSize s"
    using popOneFromBuffer_size_le [of s] by (metis prod.collapse)
  show "scannerSize (snd (fillBuffer s)) \<le> scannerSize s" using fillBuffer_size(1) [of s] by (metis prod.collapse)
  show "scannerSize (snd (readBytesInClass cls s)) \<le> scannerSize s"
    using readBytesInClass_size(1) [of cls s] by (metis prod.collapse)
qed auto

lemma fillBuffer_more: "lexState.more (snd (fillBuffer s)) = lexState.more s"
  by (auto simp: fillBuffer_def Let_def split: option.splits prod.splits)

lemma advanceLineColumn_ext [simp]:
  "lsAcc (advanceLineColumn data s) = lsAcc s" "lexState.more (advanceLineColumn data s) = lexState.more s"
  by (induction data s rule: advanceLineColumn.induct; subst advanceLineColumn.simps; simp split: list.split)+

interpretation context_kept: scanning "\<lambda>s t :: 'z lexState_scheme. lexState.more t = lexState.more s"
proof
  fix s :: "'z lexState_scheme" and cls data
  show "lexState.more (snd (popOneFromBuffer s)) = lexState.more s"
    by (auto simp: popOneFromBuffer_def Let_def)
  show "lexState.more (snd (readBytesInClass cls s)) = lexState.more s"
    using fillBuffer_more [of s]
    by (auto simp: readBytesInClass_def bindS_def Let_def split: prod.splits sum.splits)
qed (auto simp: fillBuffer_more build_def)

section \<open>Progress\<close>

lemma peekOne_pending: "peekOne s = (Inr b, s') \<Longrightarrow> \<exists>xs. pending s' = b # xs"
proof (induction s arbitrary: s' rule: peekOne.induct)
  case (1 s)
  show ?case
  proof (cases "remaining s > 0")
    case True
    then show ?thesis using 1(2)
      by (auto simp: peekOne.simps [of s] pending_def remaining_def Cons_nth_drop_Suc [symmetric])
  next
    case False
    then show ?thesis using 1 by (auto simp: peekOne.simps [of s] bindS_eq_Inr)
  qed
qed

lemma readClass_consumes:
  "pending s = b # xs \<Longrightarrow> cls b \<Longrightarrow> scannerSize (snd (readBytesInClass cls s)) < scannerSize s"
  using readBytesInClass_size(2) [of cls s "fst (readBytesInClass cls s)" "snd (readBytesInClass cls s)"]
  by (auto simp: readBytesInClass_def Let_def remaining_def pending_def)


lemma popOneFromBuffer_consumes: "pending s = b # xs \<Longrightarrow> scannerSize (snd (popOneFromBuffer s)) < scannerSize s"
  by (cases "remaining s = 0")
    (auto simp: popOneFromBuffer_def Let_def scannerSize_def remaining_def pending_def split: if_splits)

lemma bindS_less:
  "scannerSize (snd r) < n \<Longrightarrow> (\<And>x t. scannerSize (snd (f x t)) \<le> scannerSize t) \<Longrightarrow> scannerSize (snd (bindS r f)) < n"
proof (cases r)
  case (Pair x t)
  assume "scannerSize (snd r) < n" and f: "\<And>x t. scannerSize (snd (f x t)) \<le> scannerSize t"
  then show ?thesis using Pair le_less_trans [OF f] by (cases x) auto
qed

lemma snd_orEOF [simp]: "snd (orEOF d r) = snd r"
  by (auto simp: orEOF_def split: prod.splits sum.splits)

lemmas scan_le = sizes.steps_bind sizes.steps_if sizes.steps_pair sizes.steps_orEOF sizes.steps_simple sizes.steps_peekOne
  sizes.steps_small sizes.steps_send sizes.steps_identifier sizes.steps_dots sizes.steps_decimal sizes.steps_octal
  sizes.steps_hexadecimal sizes.steps_string sizes.steps_character sizes.steps_lex
  sizes.steps_after_build [OF sizes.steps_identifier] sizes.steps_after_build [OF sizes.steps_dots]
  sizes.steps_after_build [OF sizes.steps_decimal] sizes.steps_after sizes.steps_buffer

lemma scan_leD: "sizes.steps s r \<Longrightarrow> scannerSize (snd r) \<le> scannerSize s"
  by (simp add: sizes.steps_def)

lemma lex_branch_consumes:
  assumes "pending s = b # xs"
  shows "whiteByteClass b \<Longrightarrow> scannerSize (snd (lexWhiteSpace s)) < scannerSize s"
    and "alphaDigitByteClass b \<Longrightarrow> scannerSize (snd (lexIdentifier s)) < scannerSize s"
    and "digitByteClass b \<Longrightarrow> scannerSize (snd (lexDecimalInteger s)) < scannerSize s"
    and "b = CHR ''.'' \<Longrightarrow> scannerSize (snd (lexDots s)) < scannerSize s"
    and "scannerSize (snd (lexOctalOrHexadecimalConstant s)) < scannerSize s"
    and "scannerSize (snd (bindS (sendCurrent s) (\<lambda>_ t. lexCharacterConstant t))) < scannerSize s"
    and "scannerSize (snd (bindS (sendCurrent s) (\<lambda>_ t. lexStringLiteral t))) < scannerSize s"
    and "scannerSize (snd (lexPunctuation s)) < scannerSize s"
proof -
  have send: "scannerSize (snd (sendCurrent s)) < scannerSize s"
    unfolding sendCurrent_def using popOneFromBuffer_consumes [OF assms] by (rule bindS_less) simp
  show "whiteByteClass b \<Longrightarrow> scannerSize (snd (lexWhiteSpace s)) < scannerSize s"
    unfolding lexWhiteSpace_def using readClass_consumes [OF assms] by (intro bindS_less) auto
  show "alphaDigitByteClass b \<Longrightarrow> scannerSize (snd (lexIdentifier s)) < scannerSize s"
    by (subst lexIdentifier.simps, rule bindS_less)
      (auto intro!: readClass_consumes [OF assms] scan_leD scan_le split: prod.split)
  show "digitByteClass b \<Longrightarrow> scannerSize (snd (lexDecimalInteger s)) < scannerSize s"
    by (subst lexDecimalInteger.simps, rule bindS_less)
      (auto intro!: readClass_consumes [OF assms] scan_leD intro: scan_le split: prod.split)
  show "b = CHR ''.'' \<Longrightarrow> scannerSize (snd (lexDots s)) < scannerSize s"
    by (subst lexDots.simps, rule bindS_less)
      (auto intro!: readClass_consumes [OF assms] scan_leD scan_le simp: dotsByteClass_def byteClassChars_def split: prod.split)
  show "scannerSize (snd (bindS (sendCurrent s) (\<lambda>_ t. lexCharacterConstant t))) < scannerSize s"
    "scannerSize (snd (bindS (sendCurrent s) (\<lambda>_ t. lexStringLiteral t))) < scannerSize s"
    using send by (auto intro!: bindS_less scan_leD scan_le)
  show "scannerSize (snd (lexPunctuation s)) < scannerSize s"
    by (subst lexPunctuation.simps, rule bindS_less [OF popOneFromBuffer_consumes [OF assms]])
      (intro scan_leD scan_le)
  show "scannerSize (snd (lexOctalOrHexadecimalConstant s)) < scannerSize s"
    unfolding lexOctalOrHexadecimalConstant_def
    by (intro bindS_less popOneFromBuffer_consumes [OF assms])
      (rule scan_leD, rule sizes.steps_after_build, rule sizes.steps_after_zero)
qed

lemma peekOne_error: "peekOne s = (Inl e, s') \<Longrightarrow> \<exists>x. e = ReadError x"
proof (induction s arbitrary: s' rule: peekOne.induct)
  case (1 s)
  have f: "fillBuffer s = (Inl e', t) \<Longrightarrow> remaining s = 0 \<Longrightarrow> \<exists>x. e' = ReadError x" for e' t
    by (auto simp: fillBuffer_def Let_def split: option.splits prod.splits if_splits)
  show ?case
    using 1 f by (cases "remaining s > 0"; cases "fillBuffer s"; cases "fst (fillBuffer s)")
      (auto simp: peekOne.simps [of s])
qed

lemma lex_consumes:
  assumes "lex s = (r, s')"
  shows "scannerSize s' < scannerSize s \<or> (\<exists>e. r = Inl (ReadError e))"
proof -
  obtain p s1 where p: "peekOne s = (p, s1)" by fastforce
  have le: "scannerSize s1 \<le> scannerSize s" using p by (rule peekOne_size)
  show ?thesis
  proof (cases p)
    case (Inl e)
    then show ?thesis using assms p peekOne_error by (subst (asm) lex.simps) auto
  next
    case (Inr b)
    then obtain xs where x: "pending s1 = b # xs" using p peekOne_pending by blast
    note c = lex_branch_consumes [OF x]
    have "scannerSize (snd (lex s)) < scannerSize s1"
      using p Inr c by (subst lex.simps) (auto simp: alphaDigitByteClass_def byteClassCombine_def)
    then show ?thesis using assms le by simp
  qed
qed

end
