(* ===== verification/Preprocessor.thy ===== *)
theory Preprocessor
  imports Tokenizer
begin

text \<open>
  The preprocessor of \<open>internal/lexer/preprocesor*.go\<close> and the lexer of \<open>lexer.go\<close>. The state is the
  scanner with the accumulator, extended by the fields of \<open>preprocesor\<close>.
\<close>

record preprocesor = lexState +
  ppReady :: "token list"
  ppMacros :: "string \<rightharpoonup> token list"
  ppLastSeenLine :: int
  ppLine :: int
  ppTokLine :: int
  ppTokColumn :: int

definition newPreprocesor :: "scanner \<Rightarrow> preprocesor" where
  "newPreprocesor s =
     scanner.extend s
       \<lparr>lsAcc = [], ppReady = [], ppMacros = Map.empty, ppLastSeenLine = scLine s - 1, ppLine = 0,
        ppTokLine = scLine s, ppTokColumn = scColumn s\<rparr>"

text \<open>\<open>p.errorf\<close>: the error carries the position of the token being formed.\<close>

definition errorAt :: "(int \<Rightarrow> int \<Rightarrow> lexErr) \<Rightarrow> preprocesor \<Rightarrow> (preprocesor, 'a) step" where
  "errorAt e p = (Inl (e (ppTokLine p) (ppTokColumn p)), p)"

definition ppLex :: "preprocesor \<Rightarrow> (preprocesor, tokenType) step" where
  "ppLex p = lex (p\<lparr>ppTokLine := scLine p, ppTokColumn := scColumn p, lsAcc := []\<rparr>)"

definition makeToken :: "tokenType \<Rightarrow> preprocesor \<Rightarrow> token \<times> preprocesor" where
  "makeToken tt p =
     (\<lparr>tokType = tt, tokRaw = lsAcc p, tokLine = ppTokLine p, tokColumn = ppTokColumn p\<rparr>,
      p\<lparr>ppLastSeenLine := scLine p\<rparr>)"

definition emitToken :: "tokenType \<Rightarrow> preprocesor \<Rightarrow> (preprocesor, token) step" where
  "emitToken tt p = (case makeToken tt p of (tok, p1) \<Rightarrow> (Inr tok, p1))"

definition popFromReady :: "preprocesor \<Rightarrow> (token \<times> preprocesor) option" where
  "popFromReady p = (case ppReady p of [] \<Rightarrow> None | tok # rest \<Rightarrow> Some (tok, p\<lparr>ppReady := rest\<rparr>))"

definition handleDots :: "preprocesor \<Rightarrow> (preprocesor, token) step" where
  "handleDots p =
     (if lsAcc p = ''.'' then emitToken TokenDot p
      else if lsAcc p = ''...'' then emitToken TokenEllipsis p
      else errorAt (\<lambda>l c. DotsExpected l c (lsAcc p)) p)"

definition keywordTable :: "(string \<times> tokenType) list" where
  "keywordTable =
     [(''auto'', TokenAuto), (''break'', TokenBreak), (''case'', TokenCase), (''char'', TokenChar), (''const'', TokenConst),
      (''continue'', TokenContinue), (''default'', TokenDefault), (''do'', TokenDo), (''double'', TokenDouble),
      (''else'', TokenElse), (''enum'', TokenEnum), (''extern'', TokenExtern), (''float'', TokenFloat), (''for'', TokenFor),
      (''goto'', TokenGoto), (''if'', TokenIf), (''inline'', TokenInline), (''int'', TokenInt), (''long'', TokenLong),
      (''register'', TokenRegister), (''restrict'', TokenRestrict), (''return'', TokenReturn), (''short'', TokenShort),
      (''signed'', TokenSigned), (''sizeof'', TokenSizeof), (''static'', TokenStatic), (''struct'', TokenStruct),
      (''switch'', TokenSwitch), (''typedef'', TokenTypedef), (''union'', TokenUnion), (''unsigned'', TokenUnsigned),
      (''void'', TokenVoid), (''volatile'', TokenVolatile), (''while'', TokenWhile), (''_Bool'', Token_Bool),
      (''_Complex'', Token_Complex), (''_Imaginary'', Token_Imaginary)]"

definition keywordType :: "string \<Rightarrow> tokenType" where
  "keywordType s = (case map_of keywordTable s of Some tt \<Rightarrow> tt | None \<Rightarrow> TokenIdentifier)"

definition setMacro :: "string \<Rightarrow> token list \<Rightarrow> preprocesor \<Rightarrow> preprocesor" where
  "setMacro name body p = p\<lparr>ppMacros := (ppMacros p)(name \<mapsto> body)\<rparr>"

section \<open>Progress\<close>

lemma scannerSize_preprocesor [simp]:
  fixes p :: preprocesor
  shows "scannerSize (p\<lparr>ppReady := r\<rparr>) = scannerSize p" "scannerSize (p\<lparr>ppMacros := m\<rparr>) = scannerSize p"
    "scannerSize (p\<lparr>ppLastSeenLine := l\<rparr>) = scannerSize p" "scannerSize (p\<lparr>ppLine := l\<rparr>) = scannerSize p"
    "scannerSize (p\<lparr>ppTokLine := l\<rparr>) = scannerSize p" "scannerSize (p\<lparr>ppTokColumn := l\<rparr>) = scannerSize p"
    "scannerSize (p\<lparr>lsAcc := a\<rparr>) = scannerSize p" "scannerSize (setMacro name body p) = scannerSize p"
  by (simp_all add: scannerSize_def remaining_def setMacro_def)

lemma ppLex_size: "ppLex p = (Inr tt, p') \<Longrightarrow> scannerSize p' < scannerSize p"
  unfolding ppLex_def by (drule lex_consumes) auto

text \<open>A step of \<open>next\<close> that gives a token reads on, or takes one of the ready tokens.\<close>

definition advances :: "preprocesor \<Rightarrow> preprocesor \<Rightarrow> bool" where
  "advances p p' \<longleftrightarrow>
     scannerSize p' < scannerSize p \<or> (scannerSize p' = scannerSize p \<and> length (ppReady p') < length (ppReady p))"

lemma advances_trans: "scannerSize p1 < scannerSize p \<Longrightarrow> advances p1 p' \<Longrightarrow> advances p p'"
  by (auto simp: advances_def)


section \<open>The next token\<close>

text \<open>\<open>nextPPToken\<close>, applied to the result of \<open>next\<close>: the token, and whether it is on the line of the directive.\<close>

definition nextPPToken :: "(preprocesor, token) step \<Rightarrow> (preprocesor, token \<times> bool) step" where
  "nextPPToken r = bindS r (\<lambda>tok p. (Inr (tok, tokLine tok = ppLine p), p))"

lemma nextPPToken_eq_Inr:
  "nextPPToken r = (Inr (tok, b), p) \<longleftrightarrow> r = (Inr tok, p) \<and> b = (tokLine tok = ppLine p)"
  by (auto simp: nextPPToken_def bindS_eq_Inr)

text \<open>
  \<open>ppNext\<close> is the method \<open>next\<close>; \<open>defineBody\<close> is the loop of \<open>handleDefineName\<close>.
\<close>

function ppNext :: "preprocesor \<Rightarrow> (preprocesor, token) step"
  and handleKeywordOrSubsitution :: "preprocesor \<Rightarrow> (preprocesor, token) step"
  and handleSubstitution :: "token list \<Rightarrow> preprocesor \<Rightarrow> (preprocesor, token) step"
  and handleDirective :: "preprocesor \<Rightarrow> (preprocesor, token) step"
  and handleDefineName :: "preprocesor \<Rightarrow> (preprocesor, token) step"
  and defineBody :: "string \<Rightarrow> token list \<Rightarrow> preprocesor \<Rightarrow> (preprocesor, token) step" where
  "ppNext p =
     (case popFromReady p of
        Some r \<Rightarrow> (Inr (fst r), snd r)
      | None \<Rightarrow>
          bindS (ppLex p) (\<lambda>tt p1.
            if tt = tokenWhitespace then ppNext p1
            else if tt = TokenIdentifier then handleKeywordOrSubsitution p1
            else if tt = tokenDots then handleDots p1
            else if tt = tokenPreprocStart then
              (if ppLastSeenLine p1 \<ge> ppTokLine p1 then errorAt DirectiveNotOnLineStart p1 else handleDirective p1)
            else emitToken tt p1))"
| "handleKeywordOrSubsitution p =
     (case ppMacros p (lsAcc p) of
        Some subTokens \<Rightarrow> handleSubstitution subTokens p
      | None \<Rightarrow> emitToken (keywordType (lsAcc p)) p)"
| "handleSubstitution subTokens p =
     (case subTokens of
        [] \<Rightarrow> ppNext p
      | tok # rest \<Rightarrow> (Inr tok, if rest = [] then p else p\<lparr>ppReady := rest\<rparr>))"
| "handleDirective p =
     bindS (nextPPToken (ppNext (p\<lparr>ppLine := scLine p\<rparr>))) (\<lambda>r p1.
       if \<not> snd r then errorAt EmptyDirective p1
       else if tokType (fst r) \<noteq> TokenIdentifier then errorAt ExpectedDirectiveName p1
       else if tokRaw (fst r) = ''define'' then handleDefineName p1
       else errorAt (\<lambda>l c. UnsupportedDirective l c (tokRaw (fst r))) p1)"
| "handleDefineName p =
     bindS (nextPPToken (ppNext p)) (\<lambda>r p1.
       if \<not> snd r \<or> tokType (fst r) \<noteq> TokenIdentifier then errorAt ExpectedDefinitionName p1
       else defineBody (tokRaw (fst r)) [] p1)"
| "defineBody macroName macroBody p =
     bindS (nextPPToken (ppNext p)) (\<lambda>r p1.
       if \<not> snd r then (Inr (fst r), setMacro macroName macroBody p1)
       else defineBody macroName (macroBody @ [fst r]) p1)"
  by pat_completeness auto
termination
proof -
  let ?dom = ppNext_handleKeywordOrSubsitution_handleSubstitution_handleDirective_handleDefineName_defineBody_dom
  have adv:
    "?dom (Inl (Inl p0)) \<Longrightarrow> \<forall>tok p'. ppNext p0 = (Inr tok, p') \<longrightarrow> advances p0 p'"
    "?dom (Inl (Inr (Inl p1))) \<Longrightarrow> \<forall>tok p'. handleKeywordOrSubsitution p1 = (Inr tok, p') \<longrightarrow> scannerSize p' \<le> scannerSize p1"
    "?dom (Inl (Inr (Inr (ts, p2)))) \<Longrightarrow> \<forall>tok p'. handleSubstitution ts p2 = (Inr tok, p') \<longrightarrow> scannerSize p' \<le> scannerSize p2"
    "?dom (Inr (Inl p3)) \<Longrightarrow> \<forall>tok p'. handleDirective p3 = (Inr tok, p') \<longrightarrow> scannerSize p' \<le> scannerSize p3"
    "?dom (Inr (Inr (Inl p4))) \<Longrightarrow> \<forall>tok p'. handleDefineName p4 = (Inr tok, p') \<longrightarrow> scannerSize p' \<le> scannerSize p4"
    "?dom (Inr (Inr (Inr (name, body, p5)))) \<Longrightarrow> \<forall>tok p'. defineBody name body p5 = (Inr tok, p') \<longrightarrow> scannerSize p' \<le> scannerSize p5"
    for p0 p1 ts p2 p3 p4 name body p5
  proof (induction p0 and p1 and ts p2 and p3 and p4 and name body p5 rule: ppNext_handleKeywordOrSubsitution_handleSubstitution_handleDirective_handleDefineName_defineBody.pinduct)
    case (1 p)
    show ?case
    proof (intro allI impI)
      fix tok p'
      assume r: "ppNext p = (Inr tok, p')"
      show "advances p p'"
      proof (cases "popFromReady p")
        case (Some t)
        then show ?thesis using r
          by (auto simp: ppNext.psimps [OF 1(1)] popFromReady_def advances_def split: list.splits)
      next
        case None
        then obtain tt p1 where l: "ppLex p = (Inr tt, p1)"
          and rest: "(if tt = tokenWhitespace then ppNext p1
            else if tt = TokenIdentifier then handleKeywordOrSubsitution p1
            else if tt = tokenDots then handleDots p1
            else if tt = tokenPreprocStart then
              (if ppLastSeenLine p1 \<ge> ppTokLine p1 then errorAt DirectiveNotOnLineStart p1 else handleDirective p1)
            else emitToken tt p1) = (Inr tok, p')"
          using r by (auto simp: ppNext.psimps [OF 1(1)] bindS_eq_Inr)
        have "scannerSize p' \<le> scannerSize p1"
          using rest 1(2-4) [OF None l]
          by (auto simp: advances_def handleDots_def emitToken_def makeToken_def errorAt_def split: if_splits)
        then show ?thesis using ppLex_size [OF l] by (simp add: advances_def)
      qed
    qed
  next
    case (2 p)
    then show ?case
      by (auto simp: handleKeywordOrSubsitution.psimps emitToken_def makeToken_def split: option.splits)
  next
    case (3 ts p)
    then show ?case
      by (cases ts) (auto simp: handleSubstitution.psimps advances_def split: if_splits)
  next
    case (4 p)
    show ?case
    proof (intro allI impI)
      fix tok p'
      assume "handleDirective p = (Inr tok, p')"
      then obtain t b p1 where n: "nextPPToken (ppNext (p\<lparr>ppLine := scLine p\<rparr>)) = (Inr (t, b), p1)"
        and c: "b" "tokType t = TokenIdentifier" "tokRaw t = ''define''" and d: "handleDefineName p1 = (Inr tok, p')"
        by (auto simp: handleDirective.psimps [OF 4(1)] bindS_eq_Inr errorAt_def split: if_splits)
      have "scannerSize p1 \<le> scannerSize p" using 4(2) n by (auto simp: nextPPToken_eq_Inr advances_def)
      moreover have "scannerSize p' \<le> scannerSize p1" using 4(3) [OF n] c d by simp
      ultimately show "scannerSize p' \<le> scannerSize p" by simp
    qed
  next
    case (5 p)
    show ?case
    proof (intro allI impI)
      fix tok p'
      assume "handleDefineName p = (Inr tok, p')"
      then obtain t b p1 where n: "nextPPToken (ppNext p) = (Inr (t, b), p1)"
        and c: "b" "tokType t = TokenIdentifier" and d: "defineBody (tokRaw t) [] p1 = (Inr tok, p')"
        by (auto simp: handleDefineName.psimps [OF 5(1)] bindS_eq_Inr errorAt_def split: if_splits)
      have "scannerSize p1 \<le> scannerSize p" using 5(2) n by (auto simp: nextPPToken_eq_Inr advances_def)
      moreover have "scannerSize p' \<le> scannerSize p1" using 5(3) [OF n] c d by simp
      ultimately show "scannerSize p' \<le> scannerSize p" by simp
    qed
  next
    case (6 name body p)
    show ?case
    proof (intro allI impI)
      fix tok p'
      assume r: "defineBody name body p = (Inr tok, p')"
      then obtain u p1 where n: "nextPPToken (ppNext p) = (Inr u, p1)"
        and d: "(if \<not> snd u then (Inr (fst u), setMacro name body p1) else defineBody name (body @ [fst u]) p1) = (Inr tok, p')"
        by (auto simp: defineBody.psimps [OF 6(1)] bindS_eq_Inr)
      have "scannerSize p1 \<le> scannerSize p" using 6(2) n by (cases u) (auto simp: nextPPToken_eq_Inr advances_def)
      moreover have "scannerSize p' \<le> scannerSize p1" using 6(3) [OF n] d by (auto split: if_splits)
      ultimately show "scannerSize p' \<le> scannerSize p" by simp
    qed
  qed
  show ?thesis
  proof (relation "measures
      [case_sum (case_sum scannerSize (case_sum scannerSize (\<lambda>(ts, p). scannerSize p)))
         (case_sum scannerSize (case_sum scannerSize (\<lambda>(n, b, p). scannerSize p))),
       case_sum (case_sum (\<lambda>p. length (ppReady p)) (case_sum (\<lambda>p. length (ppReady p)) (\<lambda>(ts, p). length (ppReady p))))
         (case_sum (\<lambda>p. length (ppReady p)) (case_sum (\<lambda>p. length (ppReady p)) (\<lambda>(n, b, p). length (ppReady p)))),
       case_sum (case_sum (\<lambda>_. 0) (case_sum (\<lambda>_. 2) (\<lambda>_. 1))) (\<lambda>_. 1)]", goal_cases)
  qed (auto dest!: ppLex_size adv(1) simp: nextPPToken_eq_Inr advances_def)
qed

declare ppNext.simps [simp del] handleKeywordOrSubsitution.simps [simp del] handleSubstitution.simps [simp del]
  handleDirective.simps [simp del] handleDefineName.simps [simp del] defineBody.simps [simp del]

end
