(* ===== verification/Ast.thy ===== *)
theory Ast
  imports Tokens
begin

text \<open>
  The syntax tree of \<open>internal/parser/ast.go\<close>. The interfaces \<open>Expression\<close> and \<open>Statement\<close> are
  datatypes with one constructor per implementing struct; a field the code compares with \<open>nil\<close> is
  an \<open>option\<close>.
\<close>

text \<open>\<open>TypeSpecifier\<close> is an integer type; \<open>TypeSpecifierUnknown\<close> stands for the values without a name.\<close>

datatype typeSpecifier =
    TypeSpecifierInt | TypeSpecifierChar | TypeSpecifierVoid | TypeSpecifierUnknown int

record typeName =
  tnToken :: token
  tnSpecifier :: typeSpecifier
  tnPointerDepth :: int

datatype expr =
    IdentifierExpression token string
  | IntegerLiteralExpression token string
  | CharacterLiteralExpression token string
  | UnaryExpression token tokenType expr
  | BinaryExpression token tokenType expr expr
  | AssignmentExpression token expr expr
  | CallExpression token expr "expr list"

record Declaration =
  declToken :: token
  declType :: typeName
  declName :: string
  declInitializer :: "expr option"

datatype stmt =
    BlockStatement token "stmt list"
  | DeclarationStatement token Declaration
  | ReturnStatement token "expr option"
  | ExpressionStatement token "expr option"
  | IfStatement token expr stmt "stmt option"
  | WhileStatement token expr stmt
  | ForStatement token "stmt option" "expr option" "expr option" stmt

record functionParameter =
  fpToken :: token
  fpType :: typeName
  fpName :: string

text \<open>The body of a definition is a \<open>BlockStatement\<close>, given by its token and its statements.\<close>

record functionDefinition =
  fdReturnType :: typeName
  fdName :: string
  fdParameters :: "functionParameter list"
  fdBodyToken :: token
  fdBodyStatements :: "stmt list"
  fdToken :: token

record functionPrototype =
  protoToken :: token
  protoReturnType :: typeName
  protoName :: string
  protoParameters :: "functionParameter list"

record translationUnit =
  tuFunctions :: "functionDefinition list"
  tuDeclarations :: "Declaration list"
  tuPrototypes :: "functionPrototype list"

end
