(* ===== verification/ParserState.thy ===== *)
theory ParserState
  imports Ast Scanner
begin

text \<open>
  The state of the parser and the access to its tokens, \<open>internal/parser/parser.go\<close> and \<open>error.go\<close>.
  A \<open>tokenSource\<close> is the list of the results its \<open>Next\<close> will give; after the list it gives \<open>io.EOF\<close>.
  \<open>Peek\<close> keeps a token for the next call and drops an error, as \<open>Lexer.Peek\<close> does, which also drops a
  token of type \<open>tokenNil\<close>.
\<close>

type_synonym tokenSource = "(lexErr + token) list"

fun sourcePeek :: "tokenSource \<Rightarrow> (lexErr + token) \<times> tokenSource" where
  "sourcePeek [] = (Inl (ReadError IoEOF), [])"
| "sourcePeek (Inl e # rs) = (Inl e, rs)"
| "sourcePeek (Inr t # rs) = (Inr t, if tokType t = tokenNil then rs else Inr t # rs)"

fun sourceNext :: "tokenSource \<Rightarrow> (lexErr + token) \<times> tokenSource" where
  "sourceNext [] = (Inl (ReadError IoEOF), [])"
| "sourceNext (r # rs) = (r, rs)"

section \<open>Diagnostics\<close>

text \<open>A message by its kind and arguments; a token named in a message loses the code's quotation marks.\<close>

datatype parseMsg =
    PUnsupported string
  | PExpectedType token
  | PExpectedClosingBrace
  | PUnexpectedEnd string
  | PExpected string token
  | PExpectedExpression token

record parseError =
  peLine :: int
  peColumn :: int
  peMessage :: parseMsg

definition parserError :: "token \<Rightarrow> parseMsg \<Rightarrow> parseError" where
  "parserError tok msg = \<lparr>peLine = tokLine tok, peColumn = tokColumn tok, peMessage = msg\<rparr>"

datatype fatalError = FatalLex lexErr | FatalToken string

record parseErrors =
  FatalLexer :: "fatalError option"
  Diagnostics :: "parseError list"

record parser =
  psTokens :: tokenSource
  psFatal :: "fatalError option"
  psDiagnostics :: "parseError list"
  psLast :: token

definition newParser :: "tokenSource \<Rightarrow> parser" where
  "newParser tokens = \<lparr>psTokens = tokens, psFatal = None, psDiagnostics = [], psLast = zeroToken\<rparr>"

text \<open>A result \<open>(x, ok)\<close> of a parsing method: \<open>None\<close> when \<open>ok\<close> is false.\<close>

type_synonym 'a parsed = "'a option \<times> parser"

definition bindP :: "'a parsed \<Rightarrow> ('a \<Rightarrow> parser \<Rightarrow> 'b parsed) \<Rightarrow> 'b parsed" where
  "bindP r f = (case r of (None, p) \<Rightarrow> (None, p) | (Some x, p) \<Rightarrow> f x p)"

lemma bindP_simps [simp]:
  "bindP (None, p) f = (None, p)" "bindP (Some x, p) f = f x p"
  by (simp_all add: bindP_def)

lemma bindP_cong [fundef_cong]:
  "r = r' \<Longrightarrow> (\<And>x p. r' = (Some x, p) \<Longrightarrow> f x p = g x p) \<Longrightarrow> bindP r f = bindP r' g"
  by (auto simp: bindP_def split: prod.splits option.splits)

lemma bindP_eq_Some:
  "bindP r f = (Some y, p') \<longleftrightarrow> (\<exists>x p. r = (Some x, p) \<and> f x p = (Some y, p'))"
  by (auto simp: bindP_def split: prod.splits option.splits)

section \<open>Tokens\<close>

definition eofToken :: token where
  "eofToken = zeroToken\<lparr>tokType := TokenEOF\<rparr>"

definition setFatal :: "fatalError \<Rightarrow> parser \<Rightarrow> parser" where
  "setFatal e p = (if psFatal p = None then p\<lparr>psFatal := Some e\<rparr> else p)"

definition normalizeToken :: "lexErr + token \<Rightarrow> parser \<Rightarrow> token \<times> parser" where
  "normalizeToken r p =
     (case r of
        Inl err \<Rightarrow> (eofToken, if err \<noteq> ReadError IoEOF then setFatal (FatalLex err) p else p)
      | Inr tok \<Rightarrow>
          if tokType tok = TokenError then (eofToken, setFatal (FatalToken (tokRaw tok)) p)
          else if tokType tok = 0 then (eofToken, p)
          else (tok, p))"

definition rememberLast :: "token \<Rightarrow> parser \<Rightarrow> parser" where
  "rememberLast tok p = (if tokType tok \<noteq> TokenEOF then p\<lparr>psLast := tok\<rparr> else p)"

definition peekTok :: "parser \<Rightarrow> token \<times> parser" where
  "peekTok p =
     (case sourcePeek (psTokens p) of (r, ts) \<Rightarrow>
      case normalizeToken r (p\<lparr>psTokens := ts\<rparr>) of (tok, p1) \<Rightarrow> (tok, rememberLast tok p1))"

definition nextTok :: "parser \<Rightarrow> token \<times> parser" where
  "nextTok p =
     (case sourceNext (psTokens p) of (r, ts) \<Rightarrow>
      case normalizeToken r (p\<lparr>psTokens := ts\<rparr>) of (tok, p1) \<Rightarrow> (tok, rememberLast tok p1))"

definition addDiagnostic :: "parseError \<Rightarrow> parser \<Rightarrow> parser" where
  "addDiagnostic e p = p\<lparr>psDiagnostics := psDiagnostics p @ [e]\<rparr>"

text \<open>\<open>p.addDiagnostic(e); return ..., false\<close>\<close>

definition failWith :: "token \<Rightarrow> parseMsg \<Rightarrow> parser \<Rightarrow> 'a parsed" where
  "failWith tok msg p = (None, addDiagnostic (parserError tok msg) p)"

definition errorToken :: "token \<Rightarrow> parser \<Rightarrow> token" where
  "errorToken tok p = (if tokType tok = TokenEOF \<and> IsValid (psLast p) then psLast p else tok)"

definition expect :: "tokenType \<Rightarrow> string \<Rightarrow> parser \<Rightarrow> token parsed" where
  "expect tt what p =
     (case nextTok p of (tok, p1) \<Rightarrow>
        if tokType tok \<noteq> tt then
          (if tokType tok = TokenEOF then failWith (errorToken tok p1) (PUnexpectedEnd what) p1
           else failWith tok (PExpected what tok) p1)
        else (Some tok, p1))"

definition expectIdent :: "string \<Rightarrow> parser \<Rightarrow> (token \<times> string) parsed" where
  "expectIdent what p = bindP (expect TokenIdentifier what p) (\<lambda>tok p1. (Some (tok, tokRaw tok), p1))"

definition expectInteger :: "string \<Rightarrow> parser \<Rightarrow> (token \<times> string) parsed" where
  "expectInteger what p = bindP (expect TokenIntegerConstant what p) (\<lambda>tok p1. (Some (tok, tokRaw tok), p1))"

definition accept :: "tokenType \<Rightarrow> parser \<Rightarrow> bool \<times> parser" where
  "accept tt p =
     (case peekTok p of (tok, p1) \<Rightarrow>
        if tokType tok \<noteq> tt then (False, p1) else (True, snd (nextTok p1)))"

definition isTypeSpecifierToken :: "tokenType \<Rightarrow> bool" where
  "isTypeSpecifierToken tt \<longleftrightarrow> tt = TokenInt \<or> tt = TokenChar \<or> tt = TokenVoid"

definition compoundAssigns :: "tokenType set" where
  "compoundAssigns =
     {TokenPlusAssign, TokenMinusAssign, TokenStarAssign, TokenSlashAssign, TokenPercentAssign, TokenShiftLeftAssign,
      TokenShiftRightAssign, TokenAmpAssign, TokenCaretAssign, TokenPipeAssign}"

text \<open>\<open>hasDisallowedExprTail\<close>, as a step that fails when the method returns true.\<close>

definition hasDisallowedExprTail :: "parser \<Rightarrow> unit parsed" where
  "hasDisallowedExprTail p =
     (case peekTok p of (tok, p1) \<Rightarrow>
        if tokType tok = TokenQuestion then failWith tok (PUnsupported ''ternary operator'') p1
        else if tokType tok = TokenComma then failWith tok (PUnsupported ''comma operator'') p1
        else if tokType tok \<in> compoundAssigns then failWith tok (PUnsupported ''compound assignment operators'') p1
        else (Some (), p1))"

section \<open>What is left to parse\<close>

abbreviation left :: "parser \<Rightarrow> nat" where
  "left p \<equiv> length (psTokens p)"

definition shorter :: "parser \<Rightarrow> parser \<Rightarrow> bool" where
  "shorter p p' \<longleftrightarrow> suffix (psTokens p') (psTokens p)"

lemma shorter_refl [simp]: "shorter p p"
  by (simp add: shorter_def)

lemma shorter_trans: "shorter p p' \<Longrightarrow> shorter p' p'' \<Longrightarrow> shorter p p''"
  by (auto simp: shorter_def intro: suffix_order.trans)

lemma shorter_left: "shorter p p' \<Longrightarrow> left p' \<le> left p"
  by (auto simp: shorter_def dest: suffix_length_le)

lemma psTokens_simps [simp]:
  "psTokens (setFatal e p) = psTokens p" "psTokens (rememberLast tok p) = psTokens p"
  "psTokens (addDiagnostic err p) = psTokens p" "psTokens (snd (normalizeToken r p)) = psTokens p"
  "psTokens (snd (failWith tok msg p)) = psTokens p"
  by (auto simp: setFatal_def rememberLast_def addDiagnostic_def normalizeToken_def failWith_def split: sum.splits)

lemma sourcePeek_suffix: "suffix (snd (sourcePeek ts)) ts"
  by (cases ts rule: sourcePeek.cases) (auto simp: suffix_def)

lemma sourceNext_suffix: "suffix (snd (sourceNext ts)) ts"
  by (cases ts) (auto simp: suffix_def)

lemma psTokens_peekTok [simp]: "psTokens (snd (peekTok p)) = snd (sourcePeek (psTokens p))"
  by (cases "sourcePeek (psTokens p)"; cases "normalizeToken (fst (sourcePeek (psTokens p))) (p\<lparr>psTokens := snd (sourcePeek (psTokens p))\<rparr>)")
    (auto simp: peekTok_def dest!: arg_cong [where f = "\<lambda>x. psTokens (snd x)"])

lemma psTokens_nextTok [simp]: "psTokens (snd (nextTok p)) = snd (sourceNext (psTokens p))"
  by (cases "sourceNext (psTokens p)"; cases "normalizeToken (fst (sourceNext (psTokens p))) (p\<lparr>psTokens := snd (sourceNext (psTokens p))\<rparr>)")
    (auto simp: nextTok_def dest!: arg_cong [where f = "\<lambda>x. psTokens (snd x)"])

lemma shorter_peek [simp]: "shorter p (snd (peekTok p))"
  by (simp add: shorter_def sourcePeek_suffix)

lemma shorter_next [simp]: "shorter p (snd (nextTok p))"
  by (simp add: shorter_def sourceNext_suffix)

lemma eofToken_type [simp]: "tokType eofToken = TokenEOF"
  by (simp add: eofToken_def zeroToken_def)

text \<open>A token other than the end is the next one of the source; \<open>peekTok\<close> keeps it and \<open>nextTok\<close> takes it.\<close>

lemma peekTok_token:
  "peekTok p = (tok, p1) \<Longrightarrow> tokType tok \<noteq> TokenEOF \<Longrightarrow> psTokens p1 = psTokens p \<and> (\<exists>rest. psTokens p = Inr tok # rest)"
  by (cases "psTokens p" rule: sourcePeek.cases)
    (auto simp: peekTok_def normalizeToken_def tokenNil_def split: if_splits)

lemma nextTok_token: "nextTok p = (tok, p1) \<Longrightarrow> tokType tok \<noteq> TokenEOF \<Longrightarrow> psTokens p = Inr tok # psTokens p1"
  by (cases "psTokens p")
    (auto simp: nextTok_def normalizeToken_def split: if_splits sum.splits)

end
