(* ===== verification/Lexer.thy ===== *)
theory Lexer
  imports Preprocessor ParserState
begin

text \<open>
  The lexer of \<open>internal/lexer/lexer.go\<close>: one token of look-ahead over the preprocessor. \<open>lexAll\<close> lists the
  results \<open>Next\<close> gives until the input is used up, and the lexer is shown to be the token source of
  that list.
\<close>

record lexer =
  lxP :: preprocesor
  lxNextTok :: token

definition NewLexer :: "reader \<Rightarrow> lexer" where
  "NewLexer fd = \<lparr>lxP = newPreprocesor (newScanner fd 0), lxNextTok = zeroToken\<rparr>"

definition Peek :: "lexer \<Rightarrow> (lexErr + token) \<times> lexer" where
  "Peek l =
     (if tokType (lxNextTok l) \<noteq> tokenNil then (Inr (lxNextTok l), l)
      else
        case ppNext (lxP l) of
          (Inl err, p) \<Rightarrow> (Inl err, l\<lparr>lxP := p\<rparr>)
        | (Inr tok, p) \<Rightarrow> (Inr tok, l\<lparr>lxP := p, lxNextTok := tok\<rparr>))"

definition Next :: "lexer \<Rightarrow> (lexErr + token) \<times> lexer" where
  "Next l =
     (if tokType (lxNextTok l) \<noteq> tokenNil then (Inr (lxNextTok l), l\<lparr>lxNextTok := zeroToken\<rparr>)
      else case ppNext (lxP l) of (r, p) \<Rightarrow> (r, l\<lparr>lxP := p\<rparr>))"

section \<open>Every result uses input up, or the input is used up\<close>

text \<open>\<open>exhausted\<close>: nothing in the buffer, no result of the reader left and no error kept.\<close>

definition exhausted :: "'z scanner_scheme \<Rightarrow> bool" where
  "exhausted s \<longleftrightarrow> remaining s = 0 \<and> scReader s = [] \<and> scErr s = None"

lemma fillBuffer_exhausts:
  "fillBuffer s = (Inl e, s') \<Longrightarrow> remaining s = 0 \<Longrightarrow>
     scannerSize s' < scannerSize s \<or> (e = ReadError IoEOF \<and> exhausted s')"
  by (cases "scReader s" rule: readerSize.cases)
    (auto simp: fillBuffer_def scannerSize_def remaining_def exhausted_def Let_def split: option.splits if_splits)

lemma peekOne_exhausts:
  "peekOne s = (Inl e, s') \<Longrightarrow> scannerSize s' < scannerSize s \<or> (e = ReadError IoEOF \<and> exhausted s')"
proof (induction s arbitrary: s' rule: peekOne.induct)
  case (1 s)
  obtain r s1 where f: "fillBuffer s = (r, s1)" by fastforce
  from 1(2) have z: "remaining s = 0" by (auto simp: peekOne.simps [of s] split: if_splits)
  show ?case
  proof (cases r)
    case (Inl e')
    then show ?thesis using 1(2) f z fillBuffer_exhausts [of s e' s1] by (simp add: peekOne.simps [of s])
  next
    case (Inr u)
    then have "peekOne s1 = (Inl e, s')" using 1(2) f z by (simp add: peekOne.simps [of s])
    then show ?thesis using 1(1) [of u s1] f Inr z fillBuffer_size(1) [OF f] by fastforce
  qed
qed

lemma peekOne_exhausted: "exhausted s \<Longrightarrow> peekOne s = (Inl (ReadError IoEOF), s)"
  by (simp add: peekOne.simps [of s] exhausted_def fillBuffer_def)

lemma lex_exhausts:
  assumes "lex s = (r, s')"
  shows "scannerSize s' < scannerSize s \<or> (r = Inl (ReadError IoEOF) \<and> exhausted s')"
proof -
  obtain p s1 where p: "peekOne s = (p, s1)" by fastforce
  show ?thesis
  proof (cases p)
    case (Inl e)
    then show ?thesis using assms p peekOne_exhausts by (subst (asm) lex.simps) auto
  next
    case (Inr b)
    then obtain xs where "pending s1 = b # xs" using p peekOne_pending by blast
    note c = lex_branch_consumes [OF this]
    have "scannerSize (snd (lex s)) < scannerSize s1"
      using p Inr c by (subst lex.simps) (auto simp: alphaDigitByteClass_def byteClassCombine_def)
    then show ?thesis using assms peekOne_size [OF p] by simp
  qed
qed

lemma lex_exhausted: "exhausted s \<Longrightarrow> lex s = (Inl (ReadError IoEOF), s)"
  by (simp add: lex.simps [of s] peekOne_exhausted)

lemma lexState_more_fields:
  fixes p q :: preprocesor
  assumes "lexState.more p = lexState.more q"
  shows "ppReady p = ppReady q" "ppMacros p = ppMacros q"
  using assms by (cases p; cases q; simp)+

lemma ppLex_ready: "ppReady (snd (ppLex p)) = ppReady p"
proof -
  let ?q = "p\<lparr>ppTokLine := scLine p, ppTokColumn := scColumn p, lsAcc := []\<rparr>"
  have "lexState.more (snd (lex ?q)) = lexState.more ?q"
    using context_kept.steps_lex(3) [of ?q] by (simp add: context_kept.steps_def)
  then show ?thesis using lexState_more_fields(1) [of "snd (lex ?q)" ?q] by (simp add: ppLex_def)
qed

lemma exhausted_context [simp]:
  fixes p :: preprocesor
  shows "exhausted (p\<lparr>ppTokLine := l\<rparr>) = exhausted p" "exhausted (p\<lparr>ppTokColumn := c\<rparr>) = exhausted p"
    "exhausted (p\<lparr>lsAcc := a\<rparr>) = exhausted p"
  by (simp_all add: exhausted_def remaining_def)

lemma ppLex_exhausts:
  assumes "ppLex p = (r, p')"
  shows "scannerSize p' < scannerSize p \<or> (r = Inl (ReadError IoEOF) \<and> exhausted p')"
  using assms lex_exhausts unfolding ppLex_def by fastforce

lemma ppLex_exhausted: "exhausted p \<Longrightarrow> fst (ppLex p) = Inl (ReadError IoEOF) \<and> exhausted (snd (ppLex p))"
  by (simp add: ppLex_def lex_exhausted)

text \<open>After the end every \<open>next\<close> gives \<open>io.EOF\<close> again.\<close>

definition finished :: "preprocesor \<Rightarrow> bool" where
  "finished p \<longleftrightarrow> exhausted p \<and> ppReady p = []"

lemma ppNext_finished:
  assumes "finished p"
  shows "fst (ppNext p) = Inl (ReadError IoEOF) \<and> finished (snd (ppNext p))"
proof -
  have "popFromReady p = None" using assms by (simp add: popFromReady_def finished_def)
  then have "ppNext p = (Inl (ReadError IoEOF), snd (ppLex p))"
    using ppLex_exhausted [of p] assms unfolding finished_def
    by (subst ppNext.simps, cases "ppLex p") (simp add: bindS_def)
  then show ?thesis using ppLex_exhausted [of p] ppLex_ready [of p] assms by (simp add: finished_def)
qed

text \<open>A result of \<open>next\<close> used something up, unless it is the \<open>io.EOF\<close> after which nothing is left.\<close>

definition settled :: "preprocesor \<Rightarrow> (preprocesor, token) step \<Rightarrow> bool" where
  "settled p r \<longleftrightarrow> advances p (snd r) \<or> (fst r = Inl (ReadError IoEOF) \<and> finished (snd r))"

lemma settled_size: "scannerSize (snd r) < scannerSize p \<Longrightarrow> settled p r"
  by (simp add: settled_def advances_def)

lemma ppLex_size_le: "scannerSize (snd (ppLex p)) \<le> scannerSize p"
  unfolding ppLex_def by (rule order_trans [OF scan_leD [OF sizes.steps_lex(3)]]) simp

lemma token_size [simp]:
  "scannerSize (snd (emitToken tt p)) = scannerSize p" "scannerSize (snd (errorAt e p)) = scannerSize p"
  "scannerSize (snd (handleDots p)) = scannerSize p"
  by (simp_all add: emitToken_def makeToken_def errorAt_def handleDots_def)

lemma bindS_size_le:
  "scannerSize (snd r) \<le> n \<Longrightarrow> (\<And>x t. r = (Inr x, t) \<Longrightarrow> scannerSize (snd (f x t)) \<le> scannerSize t) \<Longrightarrow>
     scannerSize (snd (bindS r f)) \<le> n"
proof (cases r)
  case (Pair x t)
  assume "scannerSize (snd r) \<le> n" and f: "\<And>x t. r = (Inr x, t) \<Longrightarrow> scannerSize (snd (f x t)) \<le> scannerSize t"
  then show ?thesis using Pair f [of "projr x" t] by (cases x) auto
qed

lemma nextPPToken_size [simp]: "scannerSize (snd (nextPPToken r)) = scannerSize (snd r)"
  by (auto simp: nextPPToken_def bindS_def split: prod.splits sum.splits)

lemma pp_size_le:
  "scannerSize (snd (ppNext p1)) \<le> scannerSize p1"
  "scannerSize (snd (handleKeywordOrSubsitution p2)) \<le> scannerSize p2"
  "scannerSize (snd (handleSubstitution ts p3)) \<le> scannerSize p3"
  "scannerSize (snd (handleDirective p4)) \<le> scannerSize p4"
  "scannerSize (snd (handleDefineName p5)) \<le> scannerSize p5"
  "scannerSize (snd (defineBody name body p6)) \<le> scannerSize p6"
proof (induction p1 and p2 and ts p3 and p4 and p5 and name body p6
    rule: ppNext_handleKeywordOrSubsitution_handleSubstitution_handleDirective_handleDefineName_defineBody.induct)
  case (1 p)
  show ?case
  proof (cases "popFromReady p")
    case (Some r)
    then show ?thesis by (subst ppNext.simps) (auto simp: popFromReady_def split: list.splits)
  next
    case None
    have "scannerSize (snd (bindS (ppLex p) (\<lambda>tt p1.
            if tt = tokenWhitespace then ppNext p1
            else if tt = TokenIdentifier then handleKeywordOrSubsitution p1
            else if tt = tokenDots then handleDots p1
            else if tt = tokenPreprocStart then
              (if ppLastSeenLine p1 \<ge> ppTokLine p1 then errorAt DirectiveNotOnLineStart p1 else handleDirective p1)
            else emitToken tt p1))) \<le> scannerSize p"
      by (rule bindS_size_le [OF ppLex_size_le]) (auto intro: 1 [OF None, simplified])
    then show ?thesis by (subst ppNext.simps) (simp add: None)
  qed
next
  case (2 p)
  then show ?case by (subst handleKeywordOrSubsitution.simps) (simp split: option.split)
next
  case (3 ts p)
  then show ?case by (subst handleSubstitution.simps) (simp split: list.split)
next
  case (4 p)
  show ?case
    by (subst handleDirective.simps, rule bindS_size_le) (use 4 in \<open>auto\<close>)
next
  case (5 p)
  show ?case
    by (subst handleDefineName.simps, rule bindS_size_le) (use 5 in \<open>auto\<close>)
next
  case (6 name body p)
  show ?case
    by (subst defineBody.simps, rule bindS_size_le) (use 6 in \<open>auto\<close>)
qed

lemma ppNext_settled: "settled p (ppNext p)"
proof (cases "popFromReady p")
  case (Some r)
  then show ?thesis
    by (subst ppNext.simps) (auto simp: popFromReady_def settled_def advances_def split: list.splits)
next
  case None
  obtain r p1 where l: "ppLex p = (r, p1)" by fastforce
  have ready: "ppReady p1 = []" using None ppLex_ready [of p] l by (simp add: popFromReady_def split: list.splits)
  show ?thesis
  proof (cases r)
    case (Inl e)
    then have "ppNext p = (Inl e, p1)" by (subst ppNext.simps) (simp add: None l)
    then show ?thesis using ppLex_exhausts [OF l] Inl ready by (auto simp: settled_def finished_def advances_def)
  next
    case (Inr tt)
    then have "scannerSize p1 < scannerSize p" using ppLex_exhausts [OF l] by simp
    moreover have "scannerSize (snd (ppNext p)) \<le> scannerSize p1"
      using Inr by (subst ppNext.simps) (simp add: None l pp_size_le)
    ultimately show ?thesis by (simp add: settled_size)
  qed
qed

section \<open>The list of results\<close>

function lexAll :: "preprocesor \<Rightarrow> tokenSource" where
  "lexAll p =
     (case ppNext p of (r, p1) \<Rightarrow>
        if r = Inl (ReadError IoEOF) \<and> finished p1 then [] else r # lexAll p1)"
  by auto
termination
proof (relation "measures [scannerSize, \<lambda>p. length (ppReady p)]", goal_cases)
  case (2 p r p1)
  then show ?case using ppNext_settled [of p] by (auto simp: settled_def advances_def simp flip: 2(1))
qed simp

declare lexAll.simps [simp del]

text \<open>The list together with the token the lexer has looked at.\<close>

definition outcomes :: "lexer \<Rightarrow> tokenSource" where
  "outcomes l =
     (if tokType (lxNextTok l) = tokenNil then lexAll (lxP l) else Inr (lxNextTok l) # lexAll (lxP l))"

lemma lexAll_finished: "finished p \<Longrightarrow> lexAll p = []"
  using ppNext_finished [of p] by (subst lexAll.simps) (auto split: prod.split)

lemma lexAll_step:
  "ppNext p = (r, p1) \<Longrightarrow> sourceNext (lexAll p) = (r, lexAll p1)"
  using lexAll_finished [of p1] by (subst (1) lexAll.simps) auto

text \<open>A sequence of calls, \<open>True\<close> for \<open>Peek\<close> and \<open>False\<close> for \<open>Next\<close>, and the results they give.\<close>

fun interact ::
  "('s \<Rightarrow> (lexErr + token) \<times> 's) \<Rightarrow> ('s \<Rightarrow> (lexErr + token) \<times> 's) \<Rightarrow> bool list \<Rightarrow> 's \<Rightarrow> (lexErr + token) list" where
  "interact peek take_token [] s = []"
| "interact peek take_token (b # bs) s =
     (case (if b then peek s else take_token s) of (r, s') \<Rightarrow> r # interact peek take_token bs s')"

text \<open>A \<open>tokenSource\<close> of the parser behaves like the list of its results.\<close>

locale token_source =
  fixes peek :: "'s \<Rightarrow> (lexErr + token) \<times> 's"
    and take_token :: "'s \<Rightarrow> (lexErr + token) \<times> 's"
    and results :: "'s \<Rightarrow> tokenSource"
  assumes peek_results: "peek s = (r, s') \<Longrightarrow> sourcePeek (results s) = (r, results s')"
    and take_results: "take_token s = (r, s') \<Longrightarrow> sourceNext (results s) = (r, results s')"
begin

lemma interaction: "interact peek take_token bs s = interact sourcePeek sourceNext bs (results s)"
proof (induction bs arbitrary: s)
  case (Cons b bs)
  then show ?case
    using peek_results [of s] take_results [of s] by (cases "peek s"; cases "take_token s") auto
qed simp

lemma dropped: "results (((snd \<circ> take_token) ^^ m) s) = drop m (results s)"
proof (induction m arbitrary: s)
  case (Suc m)
  have "sourceNext (results s) = (fst (take_token s), results (snd (take_token s)))" by (rule take_results) simp
  then have "results (snd (take_token s)) = tl (results s)" by (cases "results s") auto
  then show ?case using Suc.IH [of "snd (take_token s)"] by (simp add: funpow_Suc_right drop_Suc del: funpow.simps)
qed simp

lemma taken:
  "fst (take_token (((snd \<circ> take_token) ^^ m) s)) = (if m < length (results s) then results s ! m else Inl (ReadError IoEOF))"
proof -
  let ?s = "((snd \<circ> take_token) ^^ m) s"
  have "sourceNext (results ?s) = (fst (take_token ?s), results (snd (take_token ?s)))" by (rule take_results) simp
  then have "fst (take_token ?s) = fst (sourceNext (drop m (results s)))" by (simp add: dropped)
  then show ?thesis by (cases "drop m (results s)") (auto simp: hd_drop_conv_nth [symmetric])
qed

lemma peek_then_take:
  assumes "peek s = (Inr tok, s')" "tokType tok \<noteq> tokenNil"
  shows "fst (take_token s') = Inr tok"
proof -
  have "sourcePeek (results s) = (Inr tok, results s')" using peek_results [OF assms(1)] .
  then have "results s' = Inr tok # tl (results s)" using assms(2)
    by (cases "results s" rule: sourcePeek.cases) (simp_all split: if_splits)
  then show ?thesis using take_results [of s' "fst (take_token s')" "snd (take_token s')"] by auto
qed

lemma peek_twice:
  assumes "peek s = (Inr tok, s')" "tokType tok \<noteq> tokenNil"
  shows "fst (peek s') = Inr tok"
proof -
  have "sourcePeek (results s) = (Inr tok, results s')" using peek_results [OF assms(1)] .
  then have "results s' = Inr tok # tl (results s)" using assms(2)
    by (cases "results s" rule: sourcePeek.cases) (simp_all split: if_splits)
  then show ?thesis using assms(2) peek_results [of s' "fst (peek s')" "snd (peek s')"] by auto
qed

end

lemma tokType_zeroToken [simp]: "tokType zeroToken = tokenNil"
  by (simp add: zeroToken_def)

interpretation lexer_source: token_source Peek Next outcomes
proof
  fix l l' :: lexer and r
  obtain q p1 where n: "ppNext (lxP l) = (q, p1)" by fastforce
  note step = lexAll_step [OF n]
  show "sourcePeek (outcomes l) = (r, outcomes l')" if "Peek l = (r, l')"
    using that step n
    by (cases q; cases "lexAll (lxP l)" rule: sourcePeek.cases) (auto simp: Peek_def outcomes_def split: if_splits)
  show "sourceNext (outcomes l) = (r, outcomes l')" if "Next l = (r, l')"
    using that step n by (auto simp: Next_def outcomes_def split: if_splits)
qed

text \<open>The list is such a source itself, which is what the parser's model runs on.\<close>

interpretation list_source: token_source sourcePeek sourceNext "\<lambda>ts. ts"
  by unfold_locales auto

end
