(* ===== verification/LexerStream.thy ===== *)
theory LexerStream
  imports Lexer
begin

text \<open>
  What the lexer gives depends only on the bytes of its input, not on how the reader delivers them. The
  readers are those that never return nothing without an error and that end with \<open>io.EOF\<close>; two states
  are similar when they have the same bytes ahead, the same position and the same tokens in the making.
\<close>

section \<open>Steady readers\<close>

fun steady :: "reader \<Rightarrow> bool" where
  "steady [] \<longleftrightarrow> True"
| "steady ((d, e) # rs) \<longleftrightarrow> (case e of None \<Rightarrow> d \<noteq> [] \<and> steady rs | Some err \<Rightarrow> err = IoEOF \<and> rs = [])"

definition readerBytes :: "reader \<Rightarrow> string" where
  "readerBytes rs = concat (map fst rs)"

definition stream :: "'z scanner_scheme \<Rightarrow> string" where
  "stream s = pending s @ readerBytes (scReader s)"

text \<open>The error kept for later is \<open>io.EOF\<close>, and then the reader is at its end.\<close>

definition calm :: "'z scanner_scheme \<Rightarrow> bool" where
  "calm s \<longleftrightarrow> steady (scReader s) \<and> 0 < scCap s \<and> scPos s \<le> length (scBuff s) \<and>
     (scErr s \<noteq> None \<longrightarrow> scErr s = Some IoEOF \<and> scReader s = [])"

text \<open>From \<open>s\<close> to \<open>s'\<close> the bytes \<open>data\<close> were read and \<open>out\<close> was built.\<close>

fun forward :: "string \<Rightarrow> int \<times> int \<Rightarrow> int \<times> int" where
  "forward [] p = p"
| "forward (b # bs) (l, c) = forward bs (if b = newline then (l + 1, 1) else (l, c + 1))"

lemma forward_append: "forward (xs @ ys) p = forward ys (forward xs p)"
  by (induction xs p rule: forward.induct) auto

definition reads :: "string \<Rightarrow> string \<Rightarrow> 'z lexState_scheme \<Rightarrow> 'z lexState_scheme \<Rightarrow> bool" where
  "reads data out s s' \<longleftrightarrow> calm s' \<and> stream s = data @ stream s' \<and>
     (scLine s', scColumn s') = forward data (scLine s, scColumn s) \<and>
     lsAcc s' = lsAcc s @ out \<and> lexState.more s' = lexState.more s"

lemma reads_trans: "reads a x s t \<Longrightarrow> reads b y t u \<Longrightarrow> reads (a @ b) (x @ y) s u"
  by (auto simp: reads_def forward_append)

lemma reads_refl: "calm s \<Longrightarrow> reads [] [] s s"
  by (simp add: reads_def)

lemma reads_calm: "reads a x s t \<Longrightarrow> calm t"
  by (simp add: reads_def)

lemma reads_le: "reads a x s t \<Longrightarrow> length (stream t) \<le> length (stream s)"
  by (simp add: reads_def)

lemma stream_build [simp]: "stream (build out s) = stream s" "calm (build out s) = calm s"
  "remaining (build out s) = remaining s"
  by (simp_all add: build_def stream_def pending_def calm_def remaining_def)

lemma reads_build: "reads a x s t \<Longrightarrow> reads a (x @ out) s (build out t)"
  by (simp add: reads_def) (simp add: build_def)

section \<open>The buffer\<close>

lemma Read_steady:
  assumes "steady rs" "0 < n" "Read n rs = (d, e, rs')"
  shows "steady rs'" "readerBytes rs = d @ readerBytes rs'" "e = None \<Longrightarrow> d \<noteq> []" "e \<noteq> None \<Longrightarrow> e = Some IoEOF \<and> rs' = []"
  using assms by (cases rs; auto simp: readerBytes_def split: if_splits option.splits)+

lemma fillBuffer_calm:
  assumes "calm s" "remaining s = 0"
  obtains (eof) s' where "fillBuffer s = (Inl (ReadError IoEOF), s')" "reads [] [] s s'" "exhausted s'" "stream s = []"
    | (filled) s' where "fillBuffer s = (Inr (), s')" "reads [] [] s s'" "remaining s' > 0" "stream s \<noteq> []"
proof -
  obtain d e rs where R: "Read (scCap s) (scReader s) = (d, e, rs)" by (metis surj_pair)
  note r = Read_steady [OF _ _ R]
  have p: "pending s = []" using assms(2) by simp
  show thesis
  proof (cases "scErr s")
    case (Some err)
    then show thesis using assms p
      by (intro eof [of "s\<lparr>scErr := None\<rparr>"])
        (auto simp: fillBuffer_def reads_def calm_def stream_def pending_def readerBytes_def exhausted_def remaining_def)
  next
    case err: None
    show thesis
    proof (cases "d = []")
      case True
      then have e: "e = Some IoEOF" "rs = []" using r(3,4) assms(1) by (auto simp: calm_def)
      have "fillBuffer s = (Inl (ReadError IoEOF), s\<lparr>scReader := rs\<rparr>)"
        using R err e True assms(2) by (simp add: fillBuffer_def)
      then show thesis using True e r(1,2) assms p err
        by (intro eof [of "s\<lparr>scReader := rs\<rparr>"])
          (auto simp: reads_def calm_def stream_def pending_def exhausted_def remaining_def readerBytes_def)
    next
      case False
      have "fillBuffer s = (Inr (), s\<lparr>scReader := rs, scErr := e, scBuff := d, scPos := 0\<rparr>)"
        using R err False assms(2) by (cases e) (simp_all add: fillBuffer_def Let_def)
      then show thesis using False r assms p err
        by (intro filled [of "s\<lparr>scReader := rs, scErr := e, scBuff := d, scPos := 0\<rparr>"])
          (auto simp: reads_def calm_def stream_def pending_def remaining_def)
    qed
  qed
qed

lemma popOne_calm:
  assumes "calm s" "remaining s > 0"
  obtains b s' where "popOneFromBuffer s = (Inr b, s')" "reads [b] [] s s'" "stream s = b # stream s'"
proof -
  let ?b = "scBuff s ! scPos s"
  let ?s1 = "if ?b = newline then s\<lparr>scLine := scLine s + 1, scColumn := 1\<rparr> else s\<lparr>scColumn := scColumn s + 1\<rparr>"
  have p: "pending s = ?b # drop (Suc (scPos s)) (scBuff s)"
    using assms(2) by (simp add: pending_def remaining_def Cons_nth_drop_Suc)
  have r: "reads [?b] [] s (?s1\<lparr>scPos := scPos s + 1\<rparr>)"
    using p assms by (auto simp: reads_def stream_def pending_def calm_def remaining_def)
  have "popOneFromBuffer s = (Inr ?b, ?s1\<lparr>scPos := scPos s + 1\<rparr>)"
    using assms(2) by (simp add: popOneFromBuffer_def Let_def)
  then show thesis using r by (rule that) (use r in \<open>simp add: reads_def\<close>)
qed

lemma peekOne_calm:
  assumes "calm s"
  obtains (eof) s' where "peekOne s = (Inl (ReadError IoEOF), s')" "reads [] [] s s'" "exhausted s'" "stream s = []"
    | (some) b s' where "peekOne s = (Inr b, s')" "reads [] [] s s'" "remaining s' > 0" "stream s = b # tl (stream s)"
proof -
  have hd: "stream t = scBuff t ! scPos t # tl (stream t)" if "remaining t > 0" for t :: "'a lexState_scheme"
    using that by (simp add: stream_def pending_def remaining_def Cons_nth_drop_Suc [symmetric])
  show thesis
  proof (cases "remaining s > 0")
    case True
    then show thesis using some [of "scBuff s ! scPos s" s] hd [OF True] reads_refl [OF assms] by (simp add: peekOne.simps [of s])
  next
    case False
    then have z: "remaining s = 0" by simp
    show thesis
    proof (cases rule: fillBuffer_calm [OF assms z])
      case (1 s')
      then show thesis using eof z by (simp add: peekOne.simps [of s])
    next
      case (2 s')
      then show thesis using some [of "scBuff s' ! scPos s'" s'] hd [of s'] z
        by (simp add: peekOne.simps [of s] peekOne.simps [of s'] reads_def)
    qed
  qed
qed

lemma advance_forward: "advanceLineColumn data s = s\<lparr>scLine := fst (forward data (scLine s, scColumn s)), scColumn := snd (forward data (scLine s, scColumn s))\<rparr>"
proof (induction data s rule: advanceLineColumn.induct)
  case (1 data s)
  have f: "forward xs (l, c) = (l, c + int (length xs))" if "newline \<notin> set xs" for xs and l c :: int
    using that by (induction xs arbitrary: c) auto
  show ?case
  proof (cases "dropWhile (\<lambda>b. b \<noteq> newline) data")
    case Nil
    then have "newline \<notin> set data" by (auto simp: dropWhile_eq_Nil_conv)
    then show ?thesis by (subst advanceLineColumn.simps) (simp add: Nil f del: dropWhile_eq_Nil_conv)
  next
    case (Cons b rest)
    let ?w = "takeWhile (\<lambda>b. b \<noteq> newline) data"
    have b: "b = newline" using hd_dropWhile [of "\<lambda>b. b \<noteq> newline" data] Cons by simp
    have d: "data = ?w @ newline # rest" using takeWhile_dropWhile_id [of "\<lambda>b. b \<noteq> newline" data] Cons b by simp
    have "newline \<notin> set ?w" by (auto dest: set_takeWhileD)
    then have "forward data (scLine s, scColumn s) = forward rest (scLine s + 1, 1)"
      by (subst d) (simp add: forward_append f)
    then show ?thesis using 1 [OF Cons] by (subst advanceLineColumn.simps) (simp add: Cons)
  qed
qed

lemma class_calm:
  assumes "calm s"
  obtains (eof) s' where "readBytesInClass cls s = (Inl (ReadError IoEOF), s')" "reads [] [] s s'" "exhausted s'" "stream s = []"
    | (none) s' where "readBytesInClass cls s = (Inr ([], False), s')" "reads [] [] s s'" "remaining s' > 0"
        "takeWhile cls (stream s) = []" "stream s \<noteq> []"
    | (some) data p s' where "readBytesInClass cls s = (Inr (data, p), s')" "reads data [] s s'" "data \<noteq> []"
        "\<forall>b \<in> set data. cls b" "\<not> p \<Longrightarrow> remaining s' > 0 \<and> takeWhile cls (stream s') = []"
proof -
  let ?f = "if remaining s = 0 then fillBuffer s else (Inr (), s)"
  consider (eof') s1 where "?f = (Inl (ReadError IoEOF), s1)" "reads [] [] s s1" "exhausted s1" "stream s = []"
    | (more) s1 where "?f = (Inr (), s1)" "reads [] [] s s1" "remaining s1 > 0"
  proof (cases "remaining s = 0")
    case True
    show ?thesis by (cases rule: fillBuffer_calm [OF assms True]) (use True eof' more in auto)
  next
    case False
    then show ?thesis using more [of s] reads_refl [OF assms] by simp
  qed
  then show thesis
  proof cases
    case eof'
    then show thesis using eof by (simp add: readBytesInClass_def)
  next
    case more
    let ?d = "takeWhile cls (pending s1)"
    let ?s' = "advanceLineColumn ?d (s1\<lparr>scPos := scPos s1 + length ?d\<rparr>)"
    have split: "pending s1 = ?d @ drop (length ?d) (pending s1)"
      by (metis takeWhile_eq_take append_take_drop_id)
    have ne: "pending s1 \<noteq> []" using more(3) by simp
    have st: "stream s = stream s1" using more(2) by (simp add: reads_def)
    show thesis
    proof (cases "?d = []")
      case True
      obtain b xs where bx: "pending s1 = b # xs" using ne by (cases "pending s1") auto
      then have "\<not> cls b" using True by (cases "cls b") auto
      moreover have "stream s = b # xs @ readerBytes (scReader s1)" unfolding st by (simp add: stream_def bx)
      ultimately have "takeWhile cls (stream s) = []" "stream s \<noteq> []" by simp_all
      then show thesis using none [of s1] True more by (simp add: readBytesInClass_def)
    next
      case False
      have le: "length ?d \<le> length (pending s1)" by (rule length_takeWhile_le)
      have p: "pending ?s' = drop (length ?d) (pending s1)" by (simp add: pending_def add.commute)
      have c: "calm ?s'" using more(2) le by (auto simp: reads_def calm_def pending_def)
      have b: "readerBytes (scReader ?s') = readerBytes (scReader s1)" by simp
      have "stream s1 = ?d @ stream ?s'" unfolding stream_def p b using split by simp
      then have r: "reads ?d [] s ?s'"
        using more(2) c by (simp add: reads_def) (simp add: advance_forward)
      have rd: "readBytesInClass cls s = (Inr (?d, scPos s1 + length ?d = length (scBuff s1)), ?s')"
        using more False by (simp add: readBytesInClass_def Let_def)
      have cls: "\<forall>b \<in> set ?d. cls b" by (auto dest: set_takeWhileD)
      have "remaining ?s' > 0 \<and> takeWhile cls (stream ?s') = []" if "scPos s1 + length ?d \<noteq> length (scBuff s1)"
      proof -
        have "pending ?s' = dropWhile cls (pending s1)" unfolding p by (simp add: dropWhile_eq_drop)
        moreover have "remaining ?s' > 0"
          using that le more(3) by (auto simp: remaining_def pending_def)
        moreover from this obtain c cs where q: "pending ?s' = c # cs" by (cases "pending ?s'") auto
        ultimately have "\<not> cls c" by (metis dropWhile_eq_Cons_conv)
        then have "takeWhile cls (stream ?s') = []" unfolding stream_def q by simp
        with \<open>remaining ?s' > 0\<close> show ?thesis by blast
      qed
      with rd r False cls show thesis by (rule some)
    qed
  qed
qed

section \<open>Similar states\<close>

definition sim :: "'z lexState_scheme \<Rightarrow> 'z lexState_scheme \<Rightarrow> bool" where
  "sim s t \<longleftrightarrow> calm s \<and> calm t \<and> stream s = stream t \<and> scLine s = scLine t \<and> scColumn s = scColumn t \<and>
     lsAcc s = lsAcc t \<and> lexState.more s = lexState.more t"

text \<open>Both runs give the same result and similar states, and after the end nothing is left in either.\<close>

definition agree :: "('z lexState_scheme, 'a) step \<Rightarrow> ('z lexState_scheme, 'a) step \<Rightarrow> bool" where
  "agree r r' \<longleftrightarrow> fst r = fst r' \<and> sim (snd r) (snd r') \<and>
     (fst r = Inl (ReadError IoEOF) \<longrightarrow> exhausted (snd r) \<and> exhausted (snd r'))"

lemma sim_calm: "sim s t \<Longrightarrow> calm s" "sim s t \<Longrightarrow> calm t"
  by (simp_all add: sim_def)

lemma sim_reads: "sim s t \<Longrightarrow> reads a x s s' \<Longrightarrow> reads a x t t' \<Longrightarrow> sim s' t'"
  by (auto simp: sim_def reads_def) (metis Pair_inject)+

lemma sim_build: "sim s t \<Longrightarrow> sim (build out s) (build out t)"
  by (simp add: sim_def) (simp add: build_def)

lemma agree_return: "sim s t \<Longrightarrow> agree (Inr x, s) (Inr x, t)"
  by (simp add: agree_def)

lemma agree_error: "sim s t \<Longrightarrow> e \<noteq> ReadError IoEOF \<Longrightarrow> agree (Inl e, s) (Inl e, t)"
  by (simp add: agree_def)

lemma agree_positioned:
  "sim s t \<Longrightarrow> e (scLine s) (scColumn s) \<noteq> ReadError IoEOF \<Longrightarrow>
     agree (Inl (e (scLine s) (scColumn s)), s) (Inl (e (scLine t) (scColumn t)), t)"
  by (simp add: agree_def sim_def)

lemma agree_eof: "sim s t \<Longrightarrow> exhausted s \<Longrightarrow> exhausted t \<Longrightarrow> agree (Inl (ReadError IoEOF), s) (Inl (ReadError IoEOF), t)"
  by (simp add: agree_def)

lemma agree_if: "(b \<Longrightarrow> agree r r') \<Longrightarrow> (\<not> b \<Longrightarrow> agree u u') \<Longrightarrow> agree (if b then r else u) (if b then r' else u')"
  by simp

lemma agree_bind:
  "agree r r' \<Longrightarrow> (\<And>x s t. r = (Inr x, s) \<Longrightarrow> r' = (Inr x, t) \<Longrightarrow> sim s t \<Longrightarrow> agree (f x s) (g x t)) \<Longrightarrow>
     agree (bindS r f) (bindS r' g)"
  by (cases r; cases r'; cases "fst r"; cases "fst r'") (auto simp: agree_def)

lemma agree_orEOF: "agree r r' \<Longrightarrow> agree (orEOF d r) (orEOF d r')"
  by (cases r; cases r'; cases "fst r") (auto simp: agree_def orEOF_def)

text \<open>A byte can be taken when the buffers are not empty, as after a look at it.\<close>

definition buffered :: "'z lexState_scheme \<Rightarrow> 'z lexState_scheme \<Rightarrow> bool" where
  "buffered s t \<longleftrightarrow> remaining s > 0 \<and> remaining t > 0"

lemma buffered_build [simp]: "buffered (build a s) (build b t) = buffered s t"
  by (simp add: buffered_def)

lemma agree_pop:
  assumes "sim s t" "buffered s t"
    and "\<And>b s' t'. sim s' t' \<Longrightarrow> length (stream s') < length (stream s) \<Longrightarrow> agree (f b s') (g b t')"
  shows "agree (bindS (popOneFromBuffer s) f) (bindS (popOneFromBuffer t) g)"
proof -
  obtain b s' where s: "popOneFromBuffer s = (Inr b, s')" "reads [b] [] s s'" "stream s = b # stream s'"
    using popOne_calm [of s] assms by (auto simp: buffered_def sim_def)
  obtain c t' where t: "popOneFromBuffer t = (Inr c, t')" "reads [c] [] t t'" "stream t = c # stream t'"
    using popOne_calm [of t] assms by (auto simp: buffered_def sim_def)
  have "b = c" using s(3) t(3) assms(1) by (simp add: sim_def)
  then show ?thesis using s t assms(3) sim_reads [OF assms(1)] by simp
qed

lemma agree_send:
  assumes "sim s t" "buffered s t"
    and "\<And>s' t'. sim s' t' \<Longrightarrow> length (stream s') < length (stream s) \<Longrightarrow> agree (f () s') (g () t')"
  shows "agree (bindS (sendCurrent s) f) (bindS (sendCurrent t) g)"
proof -
  have "agree (bindS (popOneFromBuffer s) (\<lambda>b s1. f () (build [b] s1))) (bindS (popOneFromBuffer t) (\<lambda>b s1. g () (build [b] s1)))"
    by (rule agree_pop [OF assms(1,2)], rule assms(3)) (auto intro: sim_build)
  moreover have "bindS (sendCurrent u) h = bindS (popOneFromBuffer u) (\<lambda>b s1. h () (build [b] s1))" for u :: "'a lexState_scheme"
    and h :: "unit \<Rightarrow> 'a lexState_scheme \<Rightarrow> ('a lexState_scheme, 'b) step"
    by (auto simp: sendCurrent_def bindS_def split: prod.splits sum.splits)
  ultimately show ?thesis by simp
qed

lemma agree_send_end: "sim s t \<Longrightarrow> buffered s t \<Longrightarrow> agree (sendCurrent s) (sendCurrent t)"
  unfolding sendCurrent_def by (rule agree_pop) (auto intro: agree_return sim_build)

lemma agree_sendTwo:
  assumes "sim s t" "buffered s t"
    and "\<And>s' t'. sim s' t' \<Longrightarrow> agree (f () s') (g () t')"
  shows "agree (bindS (sendTwo a b s) f) (bindS (sendTwo a b t) g)"
proof -
  have "agree (sendTwo a b s) (sendTwo a b t)"
    unfolding sendTwo_def by (rule agree_pop [OF assms(1,2)]) (auto intro: agree_return sim_build)
  then show ?thesis by (rule agree_bind) (use assms(3) in auto)
qed

lemma peek_both:
  assumes "sim s t"
  obtains (eof) s' t' where "peekOne s = (Inl (ReadError IoEOF), s')" "peekOne t = (Inl (ReadError IoEOF), t')" "sim s' t'"
      "exhausted s'" "exhausted t'"
    | (some) b s' t' where "peekOne s = (Inr b, s')" "peekOne t = (Inr b, t')" "sim s' t'" "buffered s' t'"
      "stream s' = stream s" "stream s = b # tl (stream s)"
proof -
  have st: "stream t = stream s" using assms by (simp add: sim_def)
  show thesis
  proof (cases rule: peekOne_calm [OF sim_calm(1) [OF assms]])
    case (1 s')
    note l = 1
    show thesis
      by (cases rule: peekOne_calm [OF sim_calm(2) [OF assms]])
        (use l st sim_reads [OF assms l(2)] eof in auto)
  next
    case (2 b s')
    note l = 2
    show thesis
    proof (cases rule: peekOne_calm [OF sim_calm(2) [OF assms]])
      case (1 t')
      then show thesis using l(4) st by simp
    next
      case (2 c t')
      have "b = c" using l(4) 2(4) st by (metis list.inject)
      then show thesis using l 2 some [OF l(1) _ sim_reads [OF assms l(2) 2(2)] _ _ l(4)]
        by (simp add: buffered_def reads_def)
    qed
  qed
qed

lemma agree_peek:
  assumes "sim s t"
    and "\<And>b s' t'. sim s' t' \<Longrightarrow> buffered s' t' \<Longrightarrow> stream s' = stream s \<Longrightarrow> agree (f b s') (g b t')"
  shows "agree (bindS (peekOne s) f) (bindS (peekOne t) g)"
proof (cases rule: peek_both [OF assms(1)])
  case (1 s' t')
  then show ?thesis by (simp add: agree_eof)
next
  case (2 b s' t')
  from assms(2) [OF 2(3-5)] show ?thesis by (simp add: 2(1,2))
qed

text \<open>A look that reads the end of the input as a character no case of the code expects.\<close>

lemma agree_peekOr:
  assumes "sim s t"
    and "\<And>b s' t'. sim s' t' \<Longrightarrow> (b \<noteq> d \<Longrightarrow> buffered s' t') \<Longrightarrow> agree (f b s') (g b t')"
  shows "agree (bindS (orEOF d (peekOne s)) f) (bindS (orEOF d (peekOne t)) g)"
proof (cases rule: peek_both [OF assms(1)])
  case (1 s' t')
  then show ?thesis using assms(2) [of s' t' d] by simp
next
  case (2 b s' t')
  from assms(2) [OF 2(3,4)] show ?thesis by (simp add: 2(1,2))
qed

section \<open>Runs of a class\<close>

text \<open>
  A function that builds the bytes of a class, calling itself while the buffer ends within them, goes on with
  the first byte outside the class or at the end.
\<close>

lemma class_run:
  assumes rec: "\<And>s. f s = bindS (orEOF ([], False) (readBytesInClass cls s)) (\<lambda>r s1. case r of (data, isPartial) \<Rightarrow>
       if isPartial then f (build data s1) else g (build data s1))"
  shows "calm s \<Longrightarrow> \<exists>s'. f s = g s' \<and> reads (takeWhile cls (stream s)) (takeWhile cls (stream s)) s s'"
proof (induction "length (stream s)" arbitrary: s rule: less_induct)
  case less
  show ?case
  proof (cases rule: class_calm [OF less.prems, of cls])
    case (1 s')
    then show ?thesis using reads_build [of "[]" "[]" s s' "[]"] by (subst rec) auto
  next
    case (2 s')
    then show ?thesis using reads_build [of "[]" "[]" s s' "[]"] by (subst rec) auto
  next
    case (3 data p s')
    have r: "reads data data s (build data s')" using reads_build [OF 3(2), of data] by simp
    have st: "stream s = data @ stream s'" using 3(2) by (simp add: reads_def)
    have w: "takeWhile cls (stream s) = data @ takeWhile cls (stream s')" unfolding st using 3(4) by simp
    show ?thesis
    proof (cases p)
      case True
      have "length (stream (build data s')) < length (stream s)" using st 3(3) by simp
      from less.hyps [OF this reads_calm [OF r]] obtain t where
        "f (build data s') = g t" "reads (takeWhile cls (stream s')) (takeWhile cls (stream s')) (build data s') t" by auto
      then show ?thesis using reads_trans [OF r] 3(1) True w by (subst rec) auto
    next
      case False
      then show ?thesis using r 3(1,5) w by (subst rec) auto
    qed
  qed
qed

lemma agree_run:
  assumes "\<And>s. f s = bindS (orEOF ([], False) (readBytesInClass cls s)) (\<lambda>r s1. case r of (data, isPartial) \<Rightarrow>
       if isPartial then f (build data s1) else g (build data s1))"
    and "sim s t" "\<And>s' t'. sim s' t' \<Longrightarrow> agree (g s') (g t')"
  shows "agree (f s) (f t)"
proof -
  obtain s' where s: "f s = g s'" "reads (takeWhile cls (stream s)) (takeWhile cls (stream s)) s s'"
    using class_run [OF assms(1)] sim_calm(1) [OF assms(2)] by blast
  obtain t' where t: "f t = g t'" "reads (takeWhile cls (stream t)) (takeWhile cls (stream t)) t t'"
    using class_run [OF assms(1)] sim_calm(2) [OF assms(2)] by blast
  have "stream t = stream s" using assms(2) by (simp add: sim_def)
  then show ?thesis using s t assms(3) [OF sim_reads [OF assms(2)]] by simp
qed

text \<open>The same for a function that gives up at the end of the input, with what it does with the bytes.\<close>

lemma class_run_strict:
  assumes rec: "\<And>s. f s = bindS (readBytesInClass cls s) (\<lambda>r s1. case r of (data, isPartial) \<Rightarrow>
       if isPartial then f (act data s1) else g (act data s1))"
    and act: "\<And>data s. act data s = build (h data) s" and h: "h [] = []" "\<And>xs ys. h (xs @ ys) = h xs @ h ys"
  shows "calm s \<Longrightarrow> \<exists>s'. reads (takeWhile cls (stream s)) (h (takeWhile cls (stream s))) s s' \<and>
     (if stream s' = [] then f s = (Inl (ReadError IoEOF), s') \<and> exhausted s' else f s = g s' \<and> remaining s' > 0)"
proof (induction "length (stream s)" arbitrary: s rule: less_induct)
  case less
  show ?case
  proof (cases rule: class_calm [OF less.prems, of cls])
    case (1 s')
    moreover from 1 have "stream s' = []" by (simp add: reads_def)
    ultimately show ?thesis using h by (intro exI [of _ s'], subst rec) auto
  next
    case (2 s')
    then have "stream s' \<noteq> []" by (simp add: reads_def)
    then show ?thesis using 2 h reads_build [of "[]" "[]" s s' "h []"] by (intro exI [of _ "build (h []) s'"], subst rec) (auto simp: act)
  next
    case (3 data p s')
    have r: "reads data (h data) s (act data s')" using reads_build [OF 3(2), of "h data"] by (simp add: act)
    have st: "stream s = data @ stream s'" using 3(2) by (simp add: reads_def)
    have w: "takeWhile cls (stream s) = data @ takeWhile cls (stream s')" unfolding st using 3(4) by simp
    show ?thesis
    proof (cases p)
      case True
      have "length (stream (act data s')) < length (stream s)" using st 3(3) by (simp add: act)
      from less.hyps [OF this reads_calm [OF r]] obtain t where
        t: "reads (takeWhile cls (stream s')) (h (takeWhile cls (stream s'))) (act data s') t"
        "if stream t = [] then f (act data s') = (Inl (ReadError IoEOF), t) \<and> exhausted t else f (act data s') = g t \<and> remaining t > 0"
        by (auto simp: act)
      have "f s = f (act data s')" using 3(1) True by (subst rec) simp
      then show ?thesis using reads_trans [OF r t(1)] t(2) w h by (intro exI [of _ t]) (simp split: if_splits)
    next
      case False
      then have "remaining s' > 0" using 3(5) by blast
      then have "stream s' \<noteq> []" by (simp add: stream_def)
      have "f s = g (act data s')" using 3(1) False by (subst rec) simp
      then show ?thesis using r 3(5) w h False \<open>stream s' \<noteq> []\<close> by (intro exI [of _ "act data s'"]) (simp add: act)
    qed
  qed
qed

lemma strict_run_both:
  assumes "\<And>s. f s = bindS (readBytesInClass cls s) (\<lambda>r s1. case r of (data, isPartial) \<Rightarrow>
       if isPartial then f (act data s1) else g (act data s1))"
    and "\<And>data s. act data s = build (h data) s" and "h [] = []" "\<And>xs ys. h (xs @ ys) = h xs @ h ys"
    and "sim s t" "\<And>s' t'. sim s' t' \<Longrightarrow> buffered s' t' \<Longrightarrow> length (stream s') \<le> length (stream s) \<Longrightarrow> P (g s') (g t')"
    and "\<And>r r'. agree r r' \<Longrightarrow> P r r'"
  shows "P (f s) (f t)"
proof -
  obtain s' where s: "reads (takeWhile cls (stream s)) (h (takeWhile cls (stream s))) s s'"
     "if stream s' = [] then f s = (Inl (ReadError IoEOF), s') \<and> exhausted s' else f s = g s' \<and> remaining s' > 0"
    using class_run_strict [of f cls act g h, OF assms(1-4) sim_calm(1) [OF assms(5)]] by blast
  obtain t' where t: "reads (takeWhile cls (stream t)) (h (takeWhile cls (stream t))) t t'"
     "if stream t' = [] then f t = (Inl (ReadError IoEOF), t') \<and> exhausted t' else f t = g t' \<and> remaining t' > 0"
    using class_run_strict [of f cls act g h, OF assms(1-4) sim_calm(2) [OF assms(5)]] by blast
  have st: "stream t = stream s" using assms(5) by (simp add: sim_def)
  have sm: "sim s' t'" using sim_reads [OF assms(5) s(1)] t(1) st by simp
  show ?thesis
  proof (cases "stream s' = []")
    case True
    then show ?thesis using s(2) t(2) sm assms(7) [OF agree_eof [OF sm]] by (simp add: sim_def)
  next
    case False
    then have "buffered s' t'" using s(2) t(2) sm by (simp add: sim_def buffered_def)
    from assms(6) [OF sm this reads_le [OF s(1)]] have "P (g s') (g t')" .
    then show ?thesis using False s(2) t(2) sm by (simp add: sim_def)
  qed
qed

lemmas agree_run_strict = strict_run_both [where P = agree]

section \<open>The lexers\<close>

lemma agree_identifier: "sim s t \<Longrightarrow> agree (lexIdentifier s) (lexIdentifier t)"
  by (rule agree_run [where f = lexIdentifier and cls = alphaDigitByteClass and g = "\<lambda>s. (Inr TokenIdentifier, s)"])
    (subst (1) lexIdentifier.simps, auto intro!: arg_cong [where f = "bindS _"] agree_return simp: fun_eq_iff)

lemma agree_dots: "sim s t \<Longrightarrow> agree (lexDots s) (lexDots t)"
  by (rule agree_run [where f = lexDots and cls = dotsByteClass and g = "\<lambda>s. (Inr tokenDots, s)"])
    (subst (1) lexDots.simps, auto intro!: arg_cong [where f = "bindS _"] agree_return simp: fun_eq_iff)

lemma agree_suffix: "sim s t \<Longrightarrow> agree (consumeLLUSuffix s) (consumeLLUSuffix t)"
  unfolding consumeLLUSuffix_def
  by (assumption | rule agree_peek agree_if agree_return agree_send agree_send_end)+

lemma agree_finish: "sim s t \<Longrightarrow> agree (finishInteger s) (finishInteger t)"
  unfolding finishInteger_def by (intro agree_bind agree_orEOF agree_suffix agree_return)

lemma agree_float:
  "sim s t \<Longrightarrow> agree (lexDecimalFloat s) (lexDecimalFloat t)" "sim s t \<Longrightarrow> agree (lexHexedecimalFloat s) (lexHexedecimalFloat t)"
  "sim s t \<Longrightarrow> agree (lexCommentMultiLine s) (lexCommentMultiLine t)"
  by (simp_all add: lexDecimalFloat_def lexHexedecimalFloat_def lexCommentMultiLine_def agree_error)

lemma agree_decimal: "sim s t \<Longrightarrow> agree (lexDecimalInteger s) (lexDecimalInteger t)"
  by (rule agree_run [where f = lexDecimalInteger and cls = digitByteClass and g = "\<lambda>s. bindS (orEOF (CHR 0x00) (peekOne s)) (\<lambda>b s2.
           if b = CHR ''.'' \<or> b = CHR ''e'' \<or> b = CHR ''E'' then lexDecimalFloat s2 else finishInteger s2)"], rule lexDecimalInteger.simps)
    (auto intro!: agree_peekOr agree_if agree_float agree_finish)

lemma agree_octal: "sim s t \<Longrightarrow> agree (lexOctalConstant s) (lexOctalConstant t)"
  by (rule agree_run [where f = lexOctalConstant and cls = octalDigitByteClass and g = finishInteger], rule lexOctalConstant.simps)
    (auto intro!: agree_finish)

lemma agree_hexRest: "sim s t \<Longrightarrow> agree (lexHexadecimalConstant False s) (lexHexadecimalConstant False t)"
  by (rule agree_run [where f = "lexHexadecimalConstant False" and cls = hexalDigitByteClass and g = "\<lambda>s. bindS (orEOF (CHR 0x00) (peekOne s)) (\<lambda>b s2.
           if b = CHR ''.'' \<or> b = CHR ''p'' \<or> b = CHR ''P'' then lexHexedecimalFloat s2 else finishInteger s2)"],
      subst (1) lexHexadecimalConstant.simps, simp)
    (auto intro!: agree_peekOr agree_if agree_float agree_finish)

lemma hex_first:
  assumes "calm s"
  shows "if takeWhile hexalDigitByteClass (stream s) = []
    then \<exists>s'. lexHexadecimalConstant True s = (Inl (HexWithoutValue (scLine s) (scColumn s)), s') \<and> reads [] [] s s'
    else lexHexadecimalConstant True s = lexHexadecimalConstant False s"
proof (cases rule: class_calm [OF assms, of hexalDigitByteClass])
  case (1 s')
  then show ?thesis by (subst lexHexadecimalConstant.simps) (simp add: reads_def)
next
  case (2 s')
  then show ?thesis by (subst lexHexadecimalConstant.simps) (simp add: reads_def)
next
  case (3 data p s')
  have st: "stream s = data @ stream s'" using 3(2) by (simp add: reads_def)
  have "takeWhile hexalDigitByteClass (stream s) \<noteq> []" unfolding st using 3(3,4) by (cases data) auto
  moreover have "lexHexadecimalConstant True s = lexHexadecimalConstant False s"
    using 3(1,3) by (subst (1 2) lexHexadecimalConstant.simps) simp
  ultimately show ?thesis by simp
qed

lemma agree_hexadecimal:
  assumes "sim s t"
  shows "agree (lexHexadecimalConstant True s) (lexHexadecimalConstant True t)"
proof -
  have st: "stream t = stream s" "scLine t = scLine s" "scColumn t = scColumn s" using assms by (simp_all add: sim_def)
  show ?thesis
  proof (cases "takeWhile hexalDigitByteClass (stream s) = []")
    case True
    then obtain s' t' where "lexHexadecimalConstant True s = (Inl (HexWithoutValue (scLine s) (scColumn s)), s')" "reads [] [] s s'"
      "lexHexadecimalConstant True t = (Inl (HexWithoutValue (scLine s) (scColumn s)), t')" "reads [] [] t t'"
      using hex_first [OF sim_calm(1) [OF assms]] hex_first [OF sim_calm(2) [OF assms]] st by auto
    then show ?thesis using sim_reads [OF assms] by (simp add: agree_error)
  next
    case False
    then show ?thesis
      using hex_first [OF sim_calm(1) [OF assms]] hex_first [OF sim_calm(2) [OF assms]] st agree_hexRest [OF assms] by simp
  qed
qed

lemma agree_zero:
  assumes "sim s t" "buffered s t"
  shows "agree (lexOctalOrHexadecimalConstant s) (lexOctalOrHexadecimalConstant t)"
  unfolding lexOctalOrHexadecimalConstant_def
proof (rule agree_pop [OF assms])
  fix b s' t'
  assume "sim s' t'"
  then have st: "sim (build ''0'' s') (build ''0'' t')" by (rule sim_build)
  let ?f = "\<lambda>u. case peekOne u of
         (Inl e, s2) \<Rightarrow> if e = ReadError IoEOF then (Inr TokenIntegerConstant, s2) else (Inl e, s2)
       | (Inr b, s2) \<Rightarrow>
           if b = CHR ''x'' \<or> b = CHR ''X'' then bindS (sendCurrent s2) (\<lambda>_ s3. lexHexadecimalConstant True s3)
           else lexOctalConstant s2"
  show "agree (?f (build ''0'' s')) (?f (build ''0'' t'))"
  proof (cases rule: peek_both [OF st])
    case (1 s1 t1)
    then show ?thesis by (simp add: agree_return)
  next
    case (2 c s1 t1)
    have "agree (if c = CHR ''x'' \<or> c = CHR ''X'' then bindS (sendCurrent s1) (\<lambda>_ s3. lexHexadecimalConstant True s3)
           else lexOctalConstant s1)
        (if c = CHR ''x'' \<or> c = CHR ''X'' then bindS (sendCurrent t1) (\<lambda>_ s3. lexHexadecimalConstant True s3)
           else lexOctalConstant t1)"
      by (rule agree_if, rule agree_send [OF 2(3,4)], rule agree_hexadecimal, assumption, rule agree_octal [OF 2(3)])
    then show ?thesis by (simp only: 2(1,2) prod.case sum.case)
  qed
qed

lemma agree_shift: "sim s t \<Longrightarrow> agree (lexShift tt s) (lexShift tt t)"
  unfolding lexShift_def
  by (rule agree_peekOr, assumption, rule agree_if, rule agree_return, assumption, rule agree_send) (auto intro: agree_return)

lemma agree_oneChar: "sim s t \<Longrightarrow> agree (lexOneChar a b s) (lexOneChar a b t)"
  unfolding lexOneChar_def Let_def by (intro agree_if agree_return agree_error sim_build) simp_all

text \<open>Strings and characters call themselves after an escape, with less ahead.\<close>

lemma agree_string:
  fixes s t :: "'z lexState_scheme"
  shows "sim s t \<Longrightarrow> agree (lexStringLiteral s) (lexStringLiteral t)"
proof (induction "length (stream s)" arbitrary: s t rule: less_induct)
  case less
  let ?g = "\<lambda>s. bindS (peekOne s) (\<lambda>b s2.
           if b = dquote then bindS (sendCurrent s2) (\<lambda>_ s3. (Inr TokenStringLiteral, s3))
           else if b = newline then (Inl (NewlineInString (scLine s2) (scColumn s2)), s2)
           else
             bindS (popOneFromBuffer s2) (\<lambda>_ s3.
             bindS (peekOne s3) (\<lambda>b s4.
               if b = newline then bindS (popOneFromBuffer s4) (\<lambda>_ s5. lexStringLiteral s5)
               else if b = dquote then bindS (sendCurrent s4) (\<lambda>_ s5. lexStringLiteral s5)
               else (Inl ErrNotImplementedInV0, s4))))"
  show ?case
  proof (rule agree_run_strict [where act = build and h = "\<lambda>x. x" and g = ?g, OF lexStringLiteral.simps _ _ _ less.prems])
    fix s' t' :: "'z lexState_scheme"
    assume st: "sim s' t'" and le: "length (stream s') \<le> length (stream s)"
    show "agree (?g s') (?g t')"
    proof (rule agree_peek [OF st], intro agree_if)
      fix b and s2 t2 :: "'z lexState_scheme"
      assume s2: "sim s2 t2" "buffered s2 t2"
      then show "agree (bindS (sendCurrent s2) (\<lambda>_ s3. (Inr TokenStringLiteral, s3))) (bindS (sendCurrent t2) (\<lambda>_ s3. (Inr TokenStringLiteral, s3)))"
        by (rule agree_send) (rule agree_return)
      show "agree (Inl (NewlineInString (scLine s2) (scColumn s2)), s2) (Inl (NewlineInString (scLine t2) (scColumn t2)), t2)"
        by (rule agree_positioned [OF s2(1)]) simp
      assume len: "stream s2 = stream s'"
      note ih = less.hyps [OF order_less_le_trans [OF _ le]]
      show "agree (bindS (popOneFromBuffer s2) (\<lambda>_ s3. bindS (peekOne s3) (\<lambda>b s4.
               if b = newline then bindS (popOneFromBuffer s4) (\<lambda>_ s5. lexStringLiteral s5)
               else if b = dquote then bindS (sendCurrent s4) (\<lambda>_ s5. lexStringLiteral s5)
               else (Inl ErrNotImplementedInV0, s4))))
          (bindS (popOneFromBuffer t2) (\<lambda>_ s3. bindS (peekOne s3) (\<lambda>b s4.
               if b = newline then bindS (popOneFromBuffer s4) (\<lambda>_ s5. lexStringLiteral s5)
               else if b = dquote then bindS (sendCurrent s4) (\<lambda>_ s5. lexStringLiteral s5)
               else (Inl ErrNotImplementedInV0, s4))))"
        by (rule agree_pop [OF s2], rule agree_peek, assumption, intro agree_if)
          (erule (1) agree_pop agree_send, rule ih, simp add: len [symmetric], assumption | erule agree_error, simp)+
    qed
  qed simp_all
qed

lemma agree_character:
  fixes s t :: "'z lexState_scheme"
  shows "sim s t \<Longrightarrow> agree (lexCharacterConstant s) (lexCharacterConstant t)"
proof (induction "length (stream s)" arbitrary: s t rule: less_induct)
  case less
  let ?rest = "\<lambda>s. bindS (popOneFromBuffer s) (\<lambda>_ s3.
             bindS (peekOne s3) (\<lambda>b s4.
               if b = newline then bindS (popOneFromBuffer s4) (\<lambda>_ s5. lexCharacterConstant s5)
               else if b \<in> {quote, backslash, CHR ''n'', CHR ''t'', CHR ''r'', CHR ''0''} then
                 bindS (popOneFromBuffer s4) (\<lambda>esc s5. lexCharacterConstant (build [backslash, esc] s5))
               else (Inl ErrNotImplementedInV0, s4)))"
  let ?g = "\<lambda>s. bindS (peekOne s) (\<lambda>b s2.
           if b = quote then bindS (sendCurrent s2) (\<lambda>_ s3. (Inr TokenCharacterConstant, s3))
           else if b = newline then (Inl (NewlineInCharacter (scLine s2) (scColumn s2)), s2) else ?rest s2)"
  show ?case
  proof (rule agree_run_strict [where act = build and h = "\<lambda>x. x" and g = ?g, OF lexCharacterConstant.simps _ _ _ less.prems])
    fix s' t' :: "'z lexState_scheme"
    assume st: "sim s' t'" and le: "length (stream s') \<le> length (stream s)"
    show "agree (?g s') (?g t')"
    proof (rule agree_peek [OF st], intro agree_if)
      fix b and s2 t2 :: "'z lexState_scheme"
      assume s2: "sim s2 t2" "buffered s2 t2"
      then show "agree (bindS (sendCurrent s2) (\<lambda>_ s3. (Inr TokenCharacterConstant, s3))) (bindS (sendCurrent t2) (\<lambda>_ s3. (Inr TokenCharacterConstant, s3)))"
        by (rule agree_send) (rule agree_return)
      show "agree (Inl (NewlineInCharacter (scLine s2) (scColumn s2)), s2) (Inl (NewlineInCharacter (scLine t2) (scColumn t2)), t2)"
        by (rule agree_positioned [OF s2(1)]) simp
      assume len: "stream s2 = stream s'"
      note ih = less.hyps [OF order_less_le_trans [OF _ le]]
      show "agree (?rest s2) (?rest t2)"
        by (rule agree_pop [OF s2], rule agree_peek, assumption, intro agree_if)
          (erule (1) agree_pop, rule ih, simp add: len [symmetric], (assumption | erule sim_build) | erule agree_error, simp)+
    qed
  qed simp_all
qed

section \<open>Punctuation and comments\<close>

text \<open>
  White space may be read in parts, which \<open>ppNext\<close> puts together: the relation between two lexers lets one be
  further in a run of white space.
\<close>

definition afterWhite :: "'z lexState_scheme \<Rightarrow> string \<times> int \<times> int" where
  "afterWhite s =
     (dropWhile whiteByteClass (stream s), forward (takeWhile whiteByteClass (stream s)) (scLine s, scColumn s))"

definition wsim :: "'z lexState_scheme \<Rightarrow> 'z lexState_scheme \<Rightarrow> bool" where
  "wsim s t \<longleftrightarrow> calm s \<and> calm t \<and> afterWhite s = afterWhite t \<and> lexState.more s = lexState.more t"

definition agreeW :: "('z lexState_scheme, tokenType) step \<Rightarrow> ('z lexState_scheme, tokenType) step \<Rightarrow> bool" where
  "agreeW r r' \<longleftrightarrow> agree r r' \<or> (fst r = Inr tokenWhitespace \<and> fst r' = Inr tokenWhitespace \<and> wsim (snd r) (snd r'))"

lemma agreeW_bind:
  "agree r r' \<Longrightarrow> (\<And>x s t. r = (Inr x, s) \<Longrightarrow> r' = (Inr x, t) \<Longrightarrow> sim s t \<Longrightarrow> agreeW (f x s) (g x t)) \<Longrightarrow>
     agreeW (bindS r f) (bindS r' g)"
  by (cases r; cases r'; cases "fst r"; cases "fst r'") (auto simp: agree_def agreeW_def)

lemma reads_afterWhite:
  assumes "reads data out s s'" "\<forall>b \<in> set data. whiteByteClass b"
  shows "afterWhite s' = afterWhite s"
proof -
  have st: "stream s = data @ stream s'" using assms(1) by (simp add: reads_def)
  show ?thesis
    using assms unfolding afterWhite_def st by (simp add: forward_append reads_def [of data out s s'])
qed

lemma agreeW_white:
  assumes "sim s t"
  shows "agreeW (lexWhiteSpace s) (lexWhiteSpace t)"
proof -
  have one: "(\<exists>u'. lexWhiteSpace u = (Inl (ReadError IoEOF), u') \<and> reads [] [] u u' \<and> exhausted u' \<and> stream u = []) \<or>
      (\<exists>u'. lexWhiteSpace u = (Inr tokenWhitespace, u') \<and> calm u' \<and> afterWhite u' = afterWhite u \<and>
         lexState.more u' = lexState.more u \<and> stream u \<noteq> [])" if c: "calm u" for u :: "'a lexState_scheme"
  proof (cases rule: class_calm [OF c, of whiteByteClass])
    case (1 s')
    then show ?thesis by (simp add: lexWhiteSpace_def)
  next
    case (2 s')
    then show ?thesis using reads_afterWhite [OF 2(2)] by (simp add: lexWhiteSpace_def reads_def)
  next
    case (3 data p s')
    then show ?thesis using reads_afterWhite [OF 3(2,4)] by (simp add: lexWhiteSpace_def reads_def)
  qed
  have st: "stream s = stream t" "afterWhite s = afterWhite t" "lexState.more s = lexState.more t"
    using assms by (simp_all add: sim_def afterWhite_def)
  show ?thesis
    using one [OF sim_calm(1) [OF assms]] one [OF sim_calm(2) [OF assms]] st sim_reads [OF assms]
    by (auto simp: agreeW_def wsim_def agree_eof)
qed

lemma peek_facts:
  fixes s :: "'z lexState_scheme"
  assumes "calm s" "peekOne s = (r, s')"
  shows "stream s' = stream s" "r = Inr b \<Longrightarrow> remaining s' > 0"
  by (cases rule: peekOne_calm [OF assms(1)]; use assms(2) in \<open>auto simp: reads_def\<close>)+

lemma pop_facts:
  fixes s :: "'z lexState_scheme"
  assumes "calm s" "popOneFromBuffer s = (Inr b, s')"
  shows "length (stream s') < length (stream s)"
proof -
  have "remaining s > 0" using assms(2) by (auto simp: popOneFromBuffer_def split: if_splits)
  then show ?thesis using popOne_calm [OF assms(1)] assms(2) by (metis Pair_inject length_Cons lessI Inr_inject)
qed

lemma agree_peek_only: "sim s t \<Longrightarrow> agree (peekOne s) (peekOne t)"
  by (rule peek_both) (auto intro: agree_eof agree_return)

lemma agree_pop_only: "sim s t \<Longrightarrow> buffered s t \<Longrightarrow> agree (popOneFromBuffer s) (popOneFromBuffer t)"
  using agree_pop [of s t "\<lambda>b s. (Inr b, s)" "\<lambda>b s. (Inr b, s)"]
  by (simp add: bindS_def agree_return split: prod.splits sum.splits)

lemma agree_sendTwo_only: "sim s t \<Longrightarrow> buffered s t \<Longrightarrow> agree (sendTwo a b s) (sendTwo a b t)"
  unfolding sendTwo_def by (rule agree_pop) (auto intro: agree_return sim_build)

lemma agreeW_I: "agree r r' \<Longrightarrow> agreeW r r'"
  by (simp add: agreeW_def)

lemma agreeW_if: "(b \<Longrightarrow> agreeW r r') \<Longrightarrow> (\<not> b \<Longrightarrow> agreeW u u') \<Longrightarrow> agreeW (if b then r else u) (if b then r' else u')"
  by simp

text \<open>No pair of characters in the tables has the character that stands for the end of the input.\<close>

lemma tables_end: "tableGet2 c (CHR 0x00) = tokenNil"
  by (auto simp: tableGet2_def tableGet_def punctuation2CharLexTable_def split: option.splits if_splits)

lemma agreeW_comment:
  fixes s t :: "'z lexState_scheme"
  assumes st: "sim s t"
    and ih: "\<And>u v :: 'z lexState_scheme. length (stream u) < length (stream s) \<Longrightarrow> sim u v \<Longrightarrow>
      agreeW (lexCommentSingleLine u) (lexCommentSingleLine v) \<and> agreeW (lex u) (lex v)"
  shows "agreeW (lexCommentSingleLine s) (lexCommentSingleLine t)"
proof (rule strict_run_both [where act = "\<lambda>_ s. s" and h = "\<lambda>_. []" and cls = bcSingleLineCommentEnd and f = lexCommentSingleLine
      and g = "\<lambda>s. bindS (readOne s) (\<lambda>b s2. if b = backslash then lexCommentSingleLine s2 else lex s2)", OF lexCommentSingleLine.simps _ _ _ st])
  fix s' t' :: "'z lexState_scheme"
  assume st': "sim s' t'" and b: "buffered s' t'" and le: "length (stream s') \<le> length (stream s)"
  have one: "readOne s' = popOneFromBuffer s'" "readOne t' = popOneFromBuffer t'"
    using b by (simp_all add: readOne.simps [of s'] readOne.simps [of t'] buffered_def)
  show "agreeW (bindS (readOne s') (\<lambda>b s2. if b = backslash then lexCommentSingleLine s2 else lex s2))
      (bindS (readOne t') (\<lambda>b s2. if b = backslash then lexCommentSingleLine s2 else lex s2))"
    unfolding one
  proof (rule agreeW_bind [OF agree_pop_only [OF st' b]])
    fix c and u v :: "'z lexState_scheme"
    assume "popOneFromBuffer s' = (Inr c, u)" "sim u v"
    then show "agreeW (if c = backslash then lexCommentSingleLine u else lex u) (if c = backslash then lexCommentSingleLine v else lex v)"
      using ih [of u v] pop_facts [OF sim_calm(1) [OF st']] le by fastforce
  qed
qed (auto simp: build_def agreeW_I)

lemma agreeW_punctuation:
  fixes s t :: "'z lexState_scheme"
  assumes st: "sim s t" "buffered s t"
    and ih: "\<And>u v :: 'z lexState_scheme. length (stream u) < length (stream s) \<Longrightarrow> sim u v \<Longrightarrow>
      agreeW (lexCommentSingleLine u) (lexCommentSingleLine v)"
  shows "agreeW (lexPunctuation s) (lexPunctuation t)"
proof (subst (1 2) lexPunctuation.simps, rule agreeW_bind [OF agree_pop_only [OF st]], rule agreeW_bind [OF agree_orEOF [OF agree_peek_only]], assumption)
  fix first second and s1 t1 s2 t2 :: "'z lexState_scheme"
  assume p: "popOneFromBuffer s = (Inr first, s1)" and s1: "sim s1 t1" and s2: "sim s2 t2"
    and k: "orEOF (CHR 0x00) (peekOne s1) = (Inr second, s2)" "orEOF (CHR 0x00) (peekOne t1) = (Inr second, t2)"
  have b: "buffered s2 t2" if "second \<noteq> CHR 0x00"
    using k that peek_facts(2) [OF sim_calm(1) [OF s1]] peek_facts(2) [OF sim_calm(2) [OF s1]]
    by (auto simp: orEOF_eq_Inr buffered_def)
  have "stream s2 = stream s1" using k(1) peek_facts(1) [OF sim_calm(1) [OF s1]] by (auto simp: orEOF_eq_Inr)
  then have le: "length (stream s2) < length (stream s)" using pop_facts [OF sim_calm(1) [OF st(1)] p] by simp
  have b2: "buffered s2 t2" if "tableGet2 first second \<noteq> tokenNil" using b tables_end that by metis
  show "agreeW
     (if second = CHR ''='' \<and> tableGet punctuationCharEqualLexTable first \<noteq> tokenNil then
         bindS (sendTwo first second s2) (\<lambda>_ s3. (Inr (tableGet punctuationCharEqualLexTable first), s3))
       else if tableGet2 first second = tokenNil then lexOneChar first second s2
       else if tableGet2 first second = tokenCommentSingle then
         bindS (popOneFromBuffer s2) (\<lambda>_ s3. lexCommentSingleLine s3)
       else if tableGet2 first second = tokenCommentMulti then
         bindS (popOneFromBuffer s2) (\<lambda>_ s3. lexCommentMultiLine s3)
       else if tableGet2 first second = TokenShiftLeft \<or> tableGet2 first second = TokenShiftRight then
         bindS (sendTwo first second s2) (\<lambda>_ s3. lexShift (tableGet2 first second) s3)
       else bindS (sendTwo first second s2) (\<lambda>_ s3. (Inr (tableGet2 first second), s3)))
     (if second = CHR ''='' \<and> tableGet punctuationCharEqualLexTable first \<noteq> tokenNil then
         bindS (sendTwo first second t2) (\<lambda>_ s3. (Inr (tableGet punctuationCharEqualLexTable first), s3))
       else if tableGet2 first second = tokenNil then lexOneChar first second t2
       else if tableGet2 first second = tokenCommentSingle then
         bindS (popOneFromBuffer t2) (\<lambda>_ s3. lexCommentSingleLine s3)
       else if tableGet2 first second = tokenCommentMulti then
         bindS (popOneFromBuffer t2) (\<lambda>_ s3. lexCommentMultiLine s3)
       else if tableGet2 first second = TokenShiftLeft \<or> tableGet2 first second = TokenShiftRight then
         bindS (sendTwo first second t2) (\<lambda>_ s3. lexShift (tableGet2 first second) s3)
       else bindS (sendTwo first second t2) (\<lambda>_ s3. (Inr (tableGet2 first second), s3)))"
  proof (intro agreeW_if)
    assume "second = CHR ''='' \<and> tableGet punctuationCharEqualLexTable first \<noteq> tokenNil"
    then show "agreeW (bindS (sendTwo first second s2) (\<lambda>_ s3. (Inr (tableGet punctuationCharEqualLexTable first), s3)))
        (bindS (sendTwo first second t2) (\<lambda>_ s3. (Inr (tableGet punctuationCharEqualLexTable first), s3)))"
      by (intro agreeW_I agree_sendTwo s2 b agree_return) auto
  next
    show "agreeW (lexOneChar first second s2) (lexOneChar first second t2)" by (rule agreeW_I [OF agree_oneChar [OF s2]])
  next
    assume "tableGet2 first second \<noteq> tokenNil"
    note b' = b2 [OF this]
    show "agreeW (bindS (popOneFromBuffer s2) (\<lambda>_ s3. lexCommentSingleLine s3)) (bindS (popOneFromBuffer t2) (\<lambda>_ s3. lexCommentSingleLine s3))"
      by (rule agreeW_bind [OF agree_pop_only [OF s2 b']], rule ih)
        (use pop_facts [OF sim_calm(1) [OF s2]] le in fastforce)+
    show "agreeW (bindS (popOneFromBuffer s2) (\<lambda>_ s3. lexCommentMultiLine s3)) (bindS (popOneFromBuffer t2) (\<lambda>_ s3. lexCommentMultiLine s3))"
      by (rule agreeW_I, rule agree_pop [OF s2 b'], rule agree_float)
    show "agreeW (bindS (sendTwo first second s2) (\<lambda>_ s3. lexShift (tableGet2 first second) s3))
        (bindS (sendTwo first second t2) (\<lambda>_ s3. lexShift (tableGet2 first second) s3))"
      by (rule agreeW_I, rule agree_sendTwo [OF s2 b'], rule agree_shift)
    show "agreeW (bindS (sendTwo first second s2) (\<lambda>_ s3. (Inr (tableGet2 first second), s3)))
        (bindS (sendTwo first second t2) (\<lambda>_ s3. (Inr (tableGet2 first second), s3)))"
      by (rule agreeW_I, rule agree_sendTwo [OF s2 b'], rule agree_return)
  qed
qed

lemma agreeW_lex:
  fixes s t :: "'z lexState_scheme"
  shows "sim s t \<Longrightarrow> agreeW (lexCommentSingleLine s) (lexCommentSingleLine t) \<and> agreeW (lex s) (lex t)"
proof (induction "length (stream s)" arbitrary: s t rule: less_induct)
  case less
  have c: "agreeW (lexCommentSingleLine s) (lexCommentSingleLine t)"
    by (rule agreeW_comment [OF less.prems]) (rule less.hyps)
  have "agreeW (lex s) (lex t)"
  proof (subst (1 2) lex.simps, rule agreeW_bind [OF agree_peek_only [OF less.prems]])
    fix b and s1 t1 :: "'z lexState_scheme"
    assume k: "peekOne s = (Inr b, s1)" "peekOne t = (Inr b, t1)" and s1: "sim s1 t1"
    have bf: "buffered s1 t1"
      using peek_facts(2) [OF sim_calm(1) [OF less.prems] k(1)] peek_facts(2) [OF sim_calm(2) [OF less.prems] k(2)]
      by (simp add: buffered_def)
    have le: "stream s1 = stream s" using peek_facts(1) [OF sim_calm(1) [OF less.prems] k(1)] .
    have p: "agreeW (lexPunctuation s1) (lexPunctuation t1)"
      by (rule agreeW_punctuation [OF s1 bf]) (use less.hyps le in auto)
    show "agreeW
       (if whiteByteClass b then lexWhiteSpace s1
       else if alphaByteClass b then lexIdentifier s1
       else if b = CHR ''0'' then lexOctalOrHexadecimalConstant s1
       else if digitByteClass b then lexDecimalInteger s1
       else if b = quote then bindS (sendCurrent s1) (\<lambda>_ s2. lexCharacterConstant s2)
       else if b = dquote then bindS (sendCurrent s1) (\<lambda>_ s2. lexStringLiteral s2)
       else if b = CHR ''.'' then lexDots s1
       else lexPunctuation s1)
       (if whiteByteClass b then lexWhiteSpace t1
       else if alphaByteClass b then lexIdentifier t1
       else if b = CHR ''0'' then lexOctalOrHexadecimalConstant t1
       else if digitByteClass b then lexDecimalInteger t1
       else if b = quote then bindS (sendCurrent t1) (\<lambda>_ s2. lexCharacterConstant s2)
       else if b = dquote then bindS (sendCurrent t1) (\<lambda>_ s2. lexStringLiteral s2)
       else if b = CHR ''.'' then lexDots t1
       else lexPunctuation t1)"
      by (intro agreeW_if agreeW_white p agreeW_I agree_identifier agree_zero agree_decimal agree_dots s1 bf agree_send
          agree_character agree_string)
  qed
  with c show ?case by blast
qed

section \<open>The preprocessor\<close>

lemma sim_fields:
  fixes p q :: preprocesor
  assumes "sim p q"
  shows "ppReady p = ppReady q" "ppMacros p = ppMacros q" "ppLastSeenLine p = ppLastSeenLine q" "ppLine p = ppLine q"
    "ppTokLine p = ppTokLine q" "ppTokColumn p = ppTokColumn q" "scLine p = scLine q" "scColumn p = scColumn q" "lsAcc p = lsAcc q"
  using assms by (cases p; cases q; simp add: sim_def)+

lemma sim_update:
  fixes p q :: preprocesor
  assumes "sim p q"
  shows "sim (p\<lparr>ppReady := r\<rparr>) (q\<lparr>ppReady := r\<rparr>)" "sim (setMacro n b p) (setMacro n b q)"
    "sim (p\<lparr>ppLastSeenLine := l\<rparr>) (q\<lparr>ppLastSeenLine := l\<rparr>)" "sim (p\<lparr>ppLine := l\<rparr>) (q\<lparr>ppLine := l\<rparr>)"
  using assms by (cases p; cases q; simp add: sim_def calm_def stream_def pending_def setMacro_def)+

text \<open>Before white space, with no token ready, the fields that the next token sets do not matter.\<close>

definition loose :: "preprocesor \<Rightarrow> preprocesor \<Rightarrow> bool" where
  "loose p q \<longleftrightarrow> calm p \<and> calm q \<and> afterWhite p = afterWhite q \<and> ppReady p = [] \<and> ppReady q = [] \<and>
     ppMacros p = ppMacros q \<and> ppLastSeenLine p = ppLastSeenLine q \<and> ppLine p = ppLine q"

lemma loose_trans: "loose p q \<Longrightarrow> loose q r \<Longrightarrow> loose p r"
  by (simp add: loose_def)

lemma loose_sym: "loose p q \<Longrightarrow> loose q p"
  by (simp add: loose_def)

lemma sim_loose: "sim p q \<Longrightarrow> ppReady p = [] \<Longrightarrow> loose p q"
  using sim_fields(1-4) [of p q] unfolding loose_def sim_def afterWhite_def by metis

definition psim :: "preprocesor \<Rightarrow> preprocesor \<Rightarrow> bool" where
  "psim p q \<longleftrightarrow> sim p q \<or> loose p q"

text \<open>The state in which \<open>ppLex\<close> starts the lexer.\<close>

definition marked :: "preprocesor \<Rightarrow> preprocesor" where
  "marked p = p\<lparr>ppTokLine := scLine p, ppTokColumn := scColumn p, lsAcc := []\<rparr>"

lemma marked_simps [simp]:
  "stream (marked p) = stream p" "calm (marked p) = calm p" "scLine (marked p) = scLine p" "scColumn (marked p) = scColumn p"
  "ppReady (marked p) = ppReady p" "ppMacros (marked p) = ppMacros p" "ppLastSeenLine (marked p) = ppLastSeenLine p"
  "ppLine (marked p) = ppLine p" "afterWhite (marked p) = afterWhite p"
  by (simp_all add: marked_def stream_def pending_def calm_def afterWhite_def)

lemma more_loose:
  fixes p q :: preprocesor
  assumes "lexState.more q = lexState.more p"
  shows "ppReady q = ppReady p" "ppMacros q = ppMacros p" "ppLastSeenLine q = ppLastSeenLine p" "ppLine q = ppLine p"
  using assms by (cases p; cases q; simp)+

definition startsWhite :: "string \<Rightarrow> bool" where
  "startsWhite xs \<longleftrightarrow> takeWhile whiteByteClass xs \<noteq> []"

lemma lex_white:
  fixes s :: "'z lexState_scheme"
  assumes "calm s" "startsWhite (stream s)"
  obtains s' where "lex s = (Inr tokenWhitespace, s')" "calm s'" "afterWhite s' = afterWhite s" "lexState.more s' = lexState.more s"
    "length (stream s') < length (stream s)"
proof (cases rule: peekOne_calm [OF assms(1)])
  case (1 s')
  then show thesis using assms(2) by (simp add: startsWhite_def)
next
  case (2 b s1)
  have st: "stream s1 = stream s" "calm s1" "lexState.more s1 = lexState.more s" "afterWhite s1 = afterWhite s"
    using 2(2) by (simp_all add: reads_def afterWhite_def)
  have w: "whiteByteClass b"
    using assms(2) 2(4) by (metis startsWhite_def takeWhile.simps(2))
  have l: "lex s = lexWhiteSpace s1" using 2(1) w by (subst lex.simps) simp
  show thesis
  proof (cases rule: class_calm [OF st(2), of whiteByteClass])
    case (1 s')
    then show thesis using assms(2) st by (simp add: startsWhite_def)
  next
    case (2 s')
    then show thesis using assms(2) st by (simp add: startsWhite_def)
  next
    case (3 data p s')
    have "afterWhite s' = afterWhite s" using reads_afterWhite [OF 3(2,4)] st by simp
    moreover have "length (stream s') < length (stream s)" using 3(2,3) st by (simp add: reads_def)
    ultimately show thesis using 3(1,2) st l by (intro that [of s']) (simp_all add: lexWhiteSpace_def reads_def)
  qed
qed

lemma ppNext_white:
  assumes "calm p" "startsWhite (stream p)" "ppReady p = []"
  obtains p1 where "ppLex p = (Inr tokenWhitespace, p1)" "ppNext p = ppNext p1" "loose p p1" "length (stream p1) < length (stream p)"
proof -
  obtain p1 where l: "lex (marked p) = (Inr tokenWhitespace, p1)" "calm p1" "afterWhite p1 = afterWhite p"
    "lexState.more p1 = lexState.more (marked p)" "length (stream p1) < length (stream p)"
    using lex_white [of "marked p"] assms by auto
  have x: "ppLex p = (Inr tokenWhitespace, p1)" using l(1) by (simp add: ppLex_def marked_def)
  show thesis
  proof (rule that [OF x _ _ l(5)])
    show "ppNext p = ppNext p1" using x assms(3) by (subst ppNext.simps) (simp add: popFromReady_def)
    show "loose p p1" using assms l more_loose [OF l(4)] by (simp add: loose_def)
  qed
qed

lemma skip_white:
  "calm p \<Longrightarrow> ppReady p = [] \<Longrightarrow> \<exists>q. ppNext p = ppNext q \<and> loose p q \<and> \<not> startsWhite (stream q)"
proof (induction "length (stream p)" arbitrary: p rule: less_induct)
  case less
  show ?case
  proof (cases "startsWhite (stream p)")
    case True
    obtain p1 where p1: "ppNext p = ppNext p1" "loose p p1" "length (stream p1) < length (stream p)"
      using ppNext_white [OF less.prems(1) True less.prems(2)] by blast
    then obtain q where "ppNext p1 = ppNext q" "loose p1 q" "\<not> startsWhite (stream q)"
      using less.hyps [OF p1(3)] by (auto simp: loose_def)
    then show ?thesis using p1 loose_trans by metis
  next
    case False
    then show ?thesis using less.prems by (auto simp: loose_def)
  qed
qed

text \<open>At the same byte the two lexers start alike.\<close>

lemma afterWhite_here: "\<not> startsWhite (stream s) \<Longrightarrow> afterWhite s = (stream s, scLine s, scColumn s)"
  using takeWhile_dropWhile_id [of whiteByteClass "stream s"] by (simp add: afterWhite_def startsWhite_def)

lemma marked_more:
  "ppReady p = ppReady q \<Longrightarrow> ppMacros p = ppMacros q \<Longrightarrow> ppLastSeenLine p = ppLastSeenLine q \<Longrightarrow> ppLine p = ppLine q \<Longrightarrow>
     scLine p = scLine q \<Longrightarrow> scColumn p = scColumn q \<Longrightarrow>
     lsAcc (marked p) = lsAcc (marked q) \<and> lexState.more (marked p) = lexState.more (marked q)"
  by (cases p; cases q; simp add: marked_def)

lemma loose_sim:
  assumes "loose p q" "\<not> startsWhite (stream p)" "\<not> startsWhite (stream q)"
  shows "sim (marked p) (marked q)"
proof -
  have "stream p = stream q" "scLine p = scLine q" "scColumn p = scColumn q"
    using assms afterWhite_here [of p] afterWhite_here [of q] by (simp_all add: loose_def)
  then show ?thesis using assms(1) marked_more [of p q] by (simp add: sim_def loose_def)
qed

lemma agree_errorAt: "sim p q \<Longrightarrow> (\<And>l c. e l c \<noteq> ReadError IoEOF) \<Longrightarrow> agree (errorAt e p) (errorAt e q)"
  using sim_fields [of p q] by (simp add: errorAt_def agree_def)

lemma agree_emit: "sim p q \<Longrightarrow> agree (emitToken tt p) (emitToken tt q)"
  using sim_fields [of p q] by (simp add: emitToken_def makeToken_def agree_return sim_update)

lemma agree_handleDots: "sim p q \<Longrightarrow> agree (handleDots p) (handleDots q)"
  using sim_fields [of p q] by (simp add: handleDots_def agree_emit agree_errorAt)

lemma agree_nextPPToken: "agree r r' \<Longrightarrow> agree (nextPPToken r) (nextPPToken r')"
  unfolding nextPPToken_def by (rule agree_bind) (auto simp: sim_fields intro: agree_return)

lemma ppLex_marked: "ppLex p = lex (marked p)"
  by (simp add: ppLex_def marked_def)

lemma agree_ready:
  assumes "sim p q" "ppReady p \<noteq> []"
  shows "agree (ppNext p) (ppNext q)"
proof -
  obtain tok rest where r: "ppReady p = tok # rest" using assms(2) by (cases "ppReady p") auto
  then have "ppReady q = tok # rest" using sim_fields(1) [OF assms(1)] by metis
  with r show ?thesis using sim_update(1) [OF assms(1)]
    by (subst (1 2) ppNext.simps) (simp add: popFromReady_def agree_return)
qed

lemma agree_substitution:
  assumes "sim p q" "ts = [] \<Longrightarrow> agree (ppNext p) (ppNext q)"
  shows "agree (handleSubstitution ts p) (handleSubstitution ts q)"
  using assms by (subst (1 2) handleSubstitution.simps) (auto intro: agree_return sim_update split: list.split)

lemma agree_pp:
  "\<forall>q. psim p1 q \<longrightarrow> agree (ppNext p1) (ppNext q)"
  "\<forall>q. sim p2 q \<longrightarrow> agree (handleKeywordOrSubsitution p2) (handleKeywordOrSubsitution q)"
  "\<forall>q. sim p3 q \<longrightarrow> agree (handleSubstitution ts p3) (handleSubstitution ts q)"
  "\<forall>q. sim p4 q \<longrightarrow> agree (handleDirective p4) (handleDirective q)"
  "\<forall>q. sim p5 q \<longrightarrow> agree (handleDefineName p5) (handleDefineName q)"
  "\<forall>q. sim p6 q \<longrightarrow> agree (defineBody name body p6) (defineBody name body q)"
proof (induction p1 and p2 and ts p3 and p4 and p5 and name body p6
    rule: ppNext_handleKeywordOrSubsitution_handleSubstitution_handleDirective_handleDefineName_defineBody.induct)
  case (1 p)
  show ?case
  proof (intro allI impI)
    fix q assume pq: "psim p q"
    show "agree (ppNext p) (ppNext q)"
    proof (cases "ppReady p = []")
      case False
      then show ?thesis using pq by (auto simp: psim_def loose_def intro: agree_ready)
    next
      case ready: True
      then have none: "popFromReady p = None" by (simp add: popFromReady_def)
      have lq: "loose p q" using pq sim_loose [OF _ ready] by (auto simp: psim_def)
      note ih = 1 [OF none]
      show ?thesis
      proof (cases "startsWhite (stream p)")
        case True
        obtain p1 where p1: "ppLex p = (Inr tokenWhitespace, p1)" "ppNext p = ppNext p1" "loose p p1"
          using ppNext_white [OF _ True ready] lq by (auto simp: loose_def)
        have "psim p1 q" using loose_trans [OF loose_sym [OF p1(3)] lq] by (simp add: psim_def)
        then show ?thesis using ih(1) [OF p1(1)] p1(2) by simp
      next
        case False
        obtain q' where q': "ppNext q = ppNext q'" "loose q q'" "\<not> startsWhite (stream q')"
          using skip_white [of q] lq by (auto simp: loose_def)
        have sm: "sim (marked p) (marked q')" using loose_sim [OF loose_trans [OF lq q'(2)] False q'(3)] .
        have none': "popFromReady q' = None" using q'(2) by (simp add: popFromReady_def loose_def)
        have rd: "ppReady u = []" if "ppLex v = (r, u)" "ppReady v = []" for r u v
          using ppLex_ready [of v] that by simp
        let ?k = "\<lambda>tt p1. if tt = tokenWhitespace then ppNext p1
            else if tt = TokenIdentifier then handleKeywordOrSubsitution p1
            else if tt = tokenDots then handleDots p1
            else if tt = tokenPreprocStart then
              (if ppLastSeenLine p1 \<ge> ppTokLine p1 then errorAt DirectiveNotOnLineStart p1 else handleDirective p1)
            else emitToken tt p1"
        have "agree (bindS (ppLex p) ?k) (bindS (ppLex q') ?k)"
        proof (cases "agree (ppLex p) (ppLex q')")
          case True
          then show ?thesis
          proof (rule agree_bind)
            fix tt p1 q1
            assume l: "ppLex p = (Inr tt, p1)" "ppLex q' = (Inr tt, q1)" and s1: "sim p1 q1"
            have dir: "(ppLastSeenLine p1 \<ge> ppTokLine p1) = (ppLastSeenLine q1 \<ge> ppTokLine q1)"
              using sim_fields [OF s1] by simp
            show "agree (?k tt p1) (?k tt q1)"
              unfolding dir
              by (intro agree_if agree_handleDots [OF s1] agree_emit [OF s1] agree_errorAt [OF s1])
                (use ih [OF l(1)] s1 dir in \<open>auto simp: psim_def\<close>)
          qed
        next
          case no: False
          obtain p1 q1 where w: "ppLex p = (Inr tokenWhitespace, p1)" "ppLex q' = (Inr tokenWhitespace, q1)" "wsim p1 q1"
            using no agreeW_lex [OF sm] unfolding ppLex_marked agreeW_def by (metis prod.collapse)
          have "loose p1 q1"
            using w(3) rd [OF w(1) ready] rd [OF w(2)] q'(2) more_loose [of q1 p1] by (simp add: loose_def wsim_def)
          then show ?thesis using ih(1) [OF w(1)] w(1,2) by (simp add: psim_def)
        qed
        then show ?thesis unfolding q'(1) by (subst (1 2) ppNext.simps) (simp add: none none')
      qed
    qed
  qed
next
  case (2 p)
  show ?case
  proof (intro allI impI)
    fix q assume s: "sim p q"
    show "agree (handleKeywordOrSubsitution p) (handleKeywordOrSubsitution q)"
      using 2 s sim_fields(2,9) [OF s] agree_emit [OF s]
      by (subst (1 2) handleKeywordOrSubsitution.simps) (auto split: option.split)
  qed
next
  case (3 ts p)
  then show ?case using agree_substitution by (auto simp: psim_def)
next
  case (4 p)
  show ?case
  proof (intro allI impI)
    fix q assume s: "sim p q"
    have s': "sim (p\<lparr>ppLine := scLine p\<rparr>) (q\<lparr>ppLine := scLine q\<rparr>)"
      using sim_update(4) [OF s] sim_fields(7) [OF s] by simp
    have n: "agree (nextPPToken (ppNext (p\<lparr>ppLine := scLine p\<rparr>))) (nextPPToken (ppNext (q\<lparr>ppLine := scLine q\<rparr>)))"
      using 4(1) s' by (simp add: agree_nextPPToken psim_def)
    show "agree (handleDirective p) (handleDirective q)"
      by (subst (1 2) handleDirective.simps, rule agree_bind [OF n], intro agree_if agree_errorAt)
        (use 4(2) in \<open>auto simp: psim_def\<close>)
  qed
next
  case (5 p)
  show ?case
  proof (intro allI impI)
    fix q assume s: "sim p q"
    have n: "agree (nextPPToken (ppNext p)) (nextPPToken (ppNext q))"
      using 5(1) s by (simp add: agree_nextPPToken psim_def)
    show "agree (handleDefineName p) (handleDefineName q)"
      by (subst (1 2) handleDefineName.simps, rule agree_bind [OF n], intro agree_if agree_errorAt)
        (use 5(2) in \<open>auto simp: psim_def\<close>)
  qed
next
  case (6 name body p)
  show ?case
  proof (intro allI impI)
    fix q assume s: "sim p q"
    have n: "agree (nextPPToken (ppNext p)) (nextPPToken (ppNext q))"
      using 6(1) s by (simp add: agree_nextPPToken psim_def)
    show "agree (defineBody name body p) (defineBody name body q)"
      by (subst (1 2) defineBody.simps, rule agree_bind [OF n], intro agree_if agree_return sim_update)
        (use 6(2) in \<open>auto simp: psim_def\<close>)
  qed
qed

section \<open>The lexer\<close>

lemma agree_finished: "agree r r' \<Longrightarrow> fst r = Inl (ReadError IoEOF) \<Longrightarrow> finished (snd r) \<longleftrightarrow> finished (snd r')" for r :: "(preprocesor, 'a) step"
  using sim_fields(1) [of "snd r" "snd r'"] by (auto simp: agree_def finished_def)

lemma lexAll_sim: "sim p q \<Longrightarrow> lexAll p = lexAll q"
proof (induction p arbitrary: q rule: lexAll.induct)
  case (1 p)
  obtain r p1 q1 where n: "ppNext p = (r, p1)" "ppNext q = (r, q1)" and s: "sim p1 q1"
    and e: "r = Inl (ReadError IoEOF) \<Longrightarrow> finished p1 \<longleftrightarrow> finished q1"
  proof -
    have a: "agree (ppNext p) (ppNext q)" using agree_pp(1) [of p] 1(2) by (simp add: psim_def)
    obtain r p1 r' q1 where n: "ppNext p = (r, p1)" "ppNext q = (r', q1)" by fastforce
    have "r' = r" "sim p1 q1" using a unfolding n agree_def by simp_all
    then show thesis using that [of r p1 q1] n agree_finished [OF a] by simp
  qed
  show ?case
  proof (cases "r = Inl (ReadError IoEOF) \<and> finished p1")
    case True
    then show ?thesis using n e by (subst (1 2) lexAll.simps) simp
  next
    case False
    then have "lexAll p1 = lexAll q1" using 1(1) [OF n(1) [symmetric] _ s] by simp
    then show ?thesis using n e False by (subst (1 2) lexAll.simps) auto
  qed
qed

lemma buffer_size: "0 < defaultScannerBufferSize"
  by (simp add: defaultScannerBufferSize_def)

lemma NewLexer_outcomes:
  assumes "steady r" "steady r'" "readerBytes r = readerBytes r'"
  shows "outcomes (NewLexer r) = outcomes (NewLexer r')"
proof -
  have "sim (lxP (NewLexer r)) (lxP (NewLexer r'))"
    using assms buffer_size by (simp add: NewLexer_def sim_def calm_def stream_def pending_def newPreprocesor_def newScanner_def
        scanner.defs Let_def)
  from lexAll_sim [OF this] show ?thesis by (simp add: outcomes_def NewLexer_def)
qed

end
