(* ===== verification/Parser.thy ===== *)
theory Parser
  imports ParserState
begin

text \<open>
  The recursive-descent parser of \<open>internal/parser/parser.go\<close>, one function per method. The methods call
  themselves on what the source has left, so they are total functions here.
\<close>

section \<open>Progress of the token operations\<close>

text \<open>\<open>moves b p p'\<close>: the source of \<open>p'\<close> is a suffix of that of \<open>p\<close>, and a shorter one if \<open>b\<close>.\<close>

definition moves :: "bool \<Rightarrow> parser \<Rightarrow> parser \<Rightarrow> bool" where
  "moves b p p' \<longleftrightarrow> shorter p p' \<and> (b \<longrightarrow> left p' < left p)"

lemma moves_refl: "moves False p p"
  by (simp add: moves_def)

lemma moves_trans: "moves b p p' \<Longrightarrow> moves c p' p'' \<Longrightarrow> moves (b \<or> c) p p''"
  by (auto simp: moves_def dest: shorter_trans shorter_left)

lemma moves_weaken: "moves b p p' \<Longrightarrow> moves False p p'"
  by (simp add: moves_def)

lemma moves_left: "moves b p p' \<Longrightarrow> left p' \<le> left p" "moves True p p' \<Longrightarrow> left p' < left p"
  by (auto simp: moves_def dest: shorter_left)

lemma moves_leftD: "moves b p p' \<Longrightarrow> left p' \<le> left p \<and> (b \<longrightarrow> left p' < left p)"
  using moves_left by (cases b) auto

lemma moves_tokens: "psTokens p' = psTokens p \<Longrightarrow> moves False p p'"
  by (simp add: moves_def shorter_def)

lemma moves_peek: "peekTok p = (tok, p1) \<Longrightarrow> moves False p p1"
  using shorter_peek [of p] by (simp add: moves_def)

lemma moves_next: "nextTok p = (tok, p1) \<Longrightarrow> moves (tokType tok \<noteq> TokenEOF) p p1"
  using shorter_next [of p] nextTok_token [of p tok p1] by (auto simp: moves_def)

lemma not_EOF [simp]:
  "TokenStar \<noteq> TokenEOF" "TokenLParen \<noteq> TokenEOF" "TokenRParen \<noteq> TokenEOF" "TokenLBrace \<noteq> TokenEOF" "TokenRBrace \<noteq> TokenEOF"
  "TokenLBracket \<noteq> TokenEOF" "TokenSemicolon \<noteq> TokenEOF" "TokenComma \<noteq> TokenEOF" "TokenAssign \<noteq> TokenEOF" "TokenElse \<noteq> TokenEOF"
  "TokenReturn \<noteq> TokenEOF" "TokenIf \<noteq> TokenEOF" "TokenWhile \<noteq> TokenEOF" "TokenFor \<noteq> TokenEOF" "TokenIdentifier \<noteq> TokenEOF"
  "TokenIntegerConstant \<noteq> TokenEOF" "TokenCharacterConstant \<noteq> TokenEOF" "TokenInt \<noteq> TokenEOF" "TokenChar \<noteq> TokenEOF" "TokenVoid \<noteq> TokenEOF"
  by (simp_all add: token_types)

text \<open>A peeked token is the one \<open>nextTok\<close> takes.\<close>

lemma next_after_peek:
  "peekTok p = (tok, p1) \<Longrightarrow> tokType tok \<noteq> TokenEOF \<Longrightarrow> moves True p (snd (nextTok p1))"
  using peekTok_token [of p tok p1] sourceNext_suffix [of "psTokens p1"] by (auto simp: moves_def shorter_def)

lemma accept_moves: "accept tt p = (b, p1) \<Longrightarrow> tt \<noteq> TokenEOF \<Longrightarrow> moves b p p1"
  using next_after_peek [of p] moves_peek [of p] by (auto simp: accept_def split: prod.splits if_splits)

lemma accept_left: "(True, p1) = accept tt p \<Longrightarrow> left p1 < left p" if "tt \<noteq> TokenEOF"
  using accept_moves [of tt p True p1] moves_left(2) that by simp

lemma expect_moves: "expect tt what p = (r, p1) \<Longrightarrow> tt \<noteq> TokenEOF \<Longrightarrow> moves (r \<noteq> None) p p1"
  using moves_next [of p] psTokens_simps(5)
  by (auto simp: expect_def failWith_def moves_def shorter_def split: prod.splits if_splits)

section \<open>Types and declarators\<close>

definition mkTypeName :: "token \<Rightarrow> typeSpecifier \<Rightarrow> typeName" where
  "mkTypeName tok spec = \<lparr>tnToken = tok, tnSpecifier = spec, tnPointerDepth = 0\<rparr>"

text \<open>\<open>typ.PointerDepth += ptrDepth\<close>\<close>

definition addPointers :: "nat \<Rightarrow> typeName \<Rightarrow> typeName" where
  "addPointers n t = t\<lparr>tnPointerDepth := tnPointerDepth t + int n\<rparr>"

text \<open>An unsupported type is reported and skipped.\<close>

definition skipType :: "token \<Rightarrow> string \<Rightarrow> parser \<Rightarrow> 'a parsed" where
  "skipType tok what p = (None, snd (nextTok (addDiagnostic (parserError tok (PUnsupported what)) p)))"

definition parseTypeName :: "parser \<Rightarrow> (token \<times> typeName) parsed" where
  "parseTypeName p =
     (case peekTok p of (tok, p1) \<Rightarrow>
        if tokType tok = TokenInt then (Some (tok, mkTypeName tok TypeSpecifierInt), snd (nextTok p1))
        else if tokType tok = TokenChar then (Some (tok, mkTypeName tok TypeSpecifierChar), snd (nextTok p1))
        else if tokType tok = TokenVoid then (Some (tok, mkTypeName tok TypeSpecifierVoid), snd (nextTok p1))
        else if tokType tok = TokenStruct then skipType tok ''struct declarations'' p1
        else if tokType tok = TokenUnion then skipType tok ''union declarations'' p1
        else if tokType tok = TokenEnum then skipType tok ''enum declarations'' p1
        else if tokType tok = TokenFloat \<or> tokType tok = TokenDouble then skipType tok ''floating-point types'' p1
        else failWith (errorToken tok p1) (PExpectedType tok) p1)"

lemma parseTypeName_moves: "parseTypeName p = (r, p1) \<Longrightarrow> moves (r \<noteq> None) p p1"
proof -
  assume r: "parseTypeName p = (r, p1)"
  obtain tok q where k: "peekTok p = (tok, q)" by fastforce
  have n: "tokType tok \<noteq> TokenEOF \<Longrightarrow> moves True p (snd (nextTok q))" using next_after_peek [OF k] by blast
  have s: "moves False p (snd (nextTok (addDiagnostic e q)))" for e
    using moves_peek [OF k] sourceNext_suffix [of "psTokens q"] by (auto simp: moves_def shorter_def)
  have f: "moves False p (addDiagnostic e q)" for e using moves_peek [OF k] by (simp add: moves_def shorter_def)
  show ?thesis using r k n s f by (auto simp: parseTypeName_def skipType_def failWith_def token_types split: if_splits)
qed

function parseStars :: "nat \<Rightarrow> parser \<Rightarrow> nat \<times> parser" where
  "parseStars ptrDepth p =
     (case accept TokenStar p of (b, p1) \<Rightarrow> if b then parseStars (ptrDepth + 1) p1 else (ptrDepth, p1))"
  by auto
termination
  by (relation "measure (\<lambda>(n, p). left p)") (auto intro: accept_left [OF not_EOF(1)])

declare parseStars.simps [simp del]

definition parseDeclarator :: "string \<Rightarrow> parser \<Rightarrow> (token \<times> string \<times> nat) parsed" where
  "parseDeclarator what p =
     (case parseStars 0 p of (ptrDepth, p1) \<Rightarrow>
      case peekTok p1 of (tok, p2) \<Rightarrow>
        if tokType tok = TokenLParen then
          (case peekTok p2 of (tok', p3) \<Rightarrow> failWith tok' (PUnsupported ''function pointers'') p3)
        else
          bindP (expectIdent what p2) (\<lambda>r p3.
            case peekTok p3 of (tok', p4) \<Rightarrow>
              if tokType tok' = TokenLBracket then
                (case peekTok p4 of (tok'', p5) \<Rightarrow> failWith tok'' (PUnsupported ''arrays'') p5)
              else (Some (fst r, snd r, ptrDepth), p4)))"

lemma parseStars_moves: "parseStars n p = (m, p1) \<Longrightarrow> moves False p p1"
proof (induction n p arbitrary: m p1 rule: parseStars.induct)
  case (1 n p)
  obtain b q where a: "accept TokenStar p = (b, q)" by fastforce
  have "moves b p q" using accept_moves [OF a] by (simp add: token_types)
  then show ?case using 1(1) [OF a [symmetric]] 1(2) a
    by (auto simp: parseStars.simps [of n p] split: if_splits dest: moves_trans moves_weaken)
qed

section \<open>Progress of parsing methods\<close>

text \<open>\<open>eats b p r\<close>: a parsing method went from \<open>p\<close> to the result \<open>r\<close>, and took a token if \<open>b\<close> and it succeeded.\<close>

definition eats :: "bool \<Rightarrow> parser \<Rightarrow> 'a parsed \<Rightarrow> bool" where
  "eats b p r \<longleftrightarrow> moves (b \<and> fst r \<noteq> None) p (snd r)"

lemma eats_bind_strict:
  "eats True p r \<Longrightarrow> (\<And>x p1. r = (Some x, p1) \<Longrightarrow> moves True p p1 \<Longrightarrow> eats False p1 (f x p1)) \<Longrightarrow> eats b p (bindP r f)"
proof (cases r)
  case (Pair x q)
  assume r: "eats True p r" and f: "\<And>x p1. r = (Some x, p1) \<Longrightarrow> moves True p p1 \<Longrightarrow> eats False p1 (f x p1)"
  show ?thesis
  proof (cases x)
    case None
    then show ?thesis using r Pair by (simp add: eats_def)
  next
    case (Some y)
    then have m: "moves True p q" using r Pair by (simp add: eats_def)
    have "moves False q (snd (f y q))" using f [of y q] Pair Some m by (simp add: eats_def)
    then show ?thesis using moves_trans [OF m] Pair Some by (auto simp: eats_def moves_def)
  qed
qed

lemma eats_bind:
  "eats False p r \<Longrightarrow> (\<And>x p1. r = (Some x, p1) \<Longrightarrow> moves False p p1 \<Longrightarrow> eats b p1 (f x p1)) \<Longrightarrow> eats b p (bindP r f)"
  by (cases r; cases "fst r") (auto simp: eats_def bindP_def dest: moves_trans)

lemma eats_weaken: "eats b p r \<Longrightarrow> eats False p r"
  by (auto simp: eats_def dest: moves_weaken)

lemma eats_after: "moves False p p1 \<Longrightarrow> eats b p1 r \<Longrightarrow> eats b p r"
  by (auto simp: eats_def dest: moves_trans)

lemma eats_after_strict: "moves True p p1 \<Longrightarrow> eats False p1 r \<Longrightarrow> eats b p r"
  by (auto simp: eats_def moves_def dest: shorter_trans shorter_left)

lemma eats_return: "eats False p (x, p)" "eats b p (None, p)"
  by (simp_all add: eats_def moves_refl)

lemma eats_fail: "eats b p (failWith tok msg p)"
  by (simp add: eats_def failWith_def moves_def shorter_def)

lemma eats_peek: "(\<And>tok p1. (tok, p1) = peekTok p \<Longrightarrow> moves False p p1 \<Longrightarrow> eats b p1 (f tok p1)) \<Longrightarrow> eats b p (case peekTok p of (tok, p1) \<Rightarrow> f tok p1)"
  using moves_peek [of p] by (auto intro: eats_after split: prod.splits)

lemma eats_if: "(c \<Longrightarrow> eats b p r) \<Longrightarrow> (\<not> c \<Longrightarrow> eats b p r') \<Longrightarrow> eats b p (if c then r else r')"
  by simp

lemma eats_expect: "tt \<noteq> TokenEOF \<Longrightarrow> eats True p (expect tt what p)"
  using expect_moves [of tt what p] by (cases "expect tt what p") (simp add: eats_def)

lemma eats_expectIdent: "eats True p (expectIdent what p)" "eats True p (expectInteger what p)"
  unfolding expectIdent_def expectInteger_def
  by (rule eats_bind_strict [OF eats_expect]; simp add: eats_return)+

lemma eats_accept:
  "tt \<noteq> TokenEOF \<Longrightarrow> (\<And>p1. (True, p1) = accept tt p \<Longrightarrow> moves True p p1 \<Longrightarrow> eats False p1 (f True p1))
    \<Longrightarrow> (\<And>p1. (False, p1) = accept tt p \<Longrightarrow> moves False p p1 \<Longrightarrow> eats b p1 (f False p1))
    \<Longrightarrow> eats b p (case accept tt p of (c, p1) \<Rightarrow> f c p1)"
  using accept_moves [of tt p]
  by (cases "accept tt p"; cases "fst (accept tt p)") (auto intro: eats_after eats_after_strict)

lemma eats_typeName: "eats True p (parseTypeName p)"
  using parseTypeName_moves [of p] by (cases "parseTypeName p") (simp add: eats_def)

lemma eats_declarator: "eats True p (parseDeclarator what p)"
proof -
  obtain n p1 where s: "parseStars 0 p = (n, p1)" by fastforce
  have "eats True p1 (case peekTok p1 of (tok, p2) \<Rightarrow>
        if tokType tok = TokenLParen then
          (case peekTok p2 of (tok', p3) \<Rightarrow> failWith tok' (PUnsupported ''function pointers'') p3)
        else
          bindP (expectIdent what p2) (\<lambda>r p3.
            case peekTok p3 of (tok', p4) \<Rightarrow>
              if tokType tok' = TokenLBracket then
                (case peekTok p4 of (tok'', p5) \<Rightarrow> failWith tok'' (PUnsupported ''arrays'') p5)
              else (Some (fst r, snd r, n), p4)))"
    by (intro eats_peek eats_if eats_fail eats_bind_strict [OF eats_expectIdent(1)] eats_return)
  then show ?thesis using eats_after [OF parseStars_moves [OF s]] by (simp add: parseDeclarator_def s)
qed

lemma eats_tail: "eats False p (hasDisallowedExprTail p)"
  unfolding hasDisallowedExprTail_def by (intro eats_peek eats_if eats_fail eats_return)

lemma eats_left: "eats True p r \<Longrightarrow> r = (Some x, p1) \<Longrightarrow> left p1 < left p" "eats b p r \<Longrightarrow> left (snd r) \<le> left p"
  by (auto simp: eats_def moves_def dest: shorter_left)

section \<open>Parameters\<close>

function parseParameters :: "functionParameter list \<Rightarrow> parser \<Rightarrow> functionParameter list parsed" where
  "parseParameters params p =
     bindP (parseTypeName p) (\<lambda>tt p1.
     bindP (parseDeclarator ''parameter name'' p1) (\<lambda>d p2.
       let typ = addPointers (snd (snd d)) (snd tt) in
       if tnSpecifier typ = TypeSpecifierVoid \<and> tnPointerDepth typ = 0 then
         failWith (fst d) (PUnsupported ''void objects'') p2
       else
         let params' = params @ [\<lparr>fpToken = fst d, fpType = typ, fpName = fst (snd d)\<rparr>] in
         case accept TokenComma p2 of (c, p3) \<Rightarrow>
           if c then
             (case peekTok p3 of (tok, p4) \<Rightarrow>
               if tokType tok = TokenEllipsis then
                 (case peekTok p4 of (tok', p5) \<Rightarrow> failWith tok' (PUnsupported ''variadic functions'') p5)
               else parseParameters params' p4)
           else (Some params', p3)))"
  by auto
termination
  by (relation "measure (\<lambda>(ps, p). left p)")
    (auto dest!: eats_left(1) [OF eats_typeName] eats_left(1) [OF eats_declarator] sym [of "(_, _)"] accept_moves moves_peek
      moves_leftD)

definition parseParameterList :: "parser \<Rightarrow> functionParameter list parsed" where
  "parseParameterList p =
     (case peekTok p of (tok, p1) \<Rightarrow>
        if tokType tok = TokenRParen then (Some [], p1)
        else
          case peekTok p1 of (tok', p2) \<Rightarrow>
            if tokType tok' = TokenEllipsis then
              (case peekTok p2 of (tok'', p3) \<Rightarrow> failWith tok'' (PUnsupported ''variadic functions'') p3)
            else parseParameters [] p2)"

lemma eats_parameters: "eats True p (parseParameters params p)"
proof (induction params p rule: parseParameters.induct)
  case (1 params p)
  show ?case
    by (subst parseParameters.simps, rule eats_bind_strict [OF eats_typeName], unfold Let_def)
      (intro eats_bind_strict [OF eats_declarator] eats_if eats_fail eats_accept eats_peek eats_return not_EOF;
       (rule eats_weaken, rule 1; (assumption | rule refl | rule TrueI))?)
qed

lemma eats_parameterList: "eats False p (parseParameterList p)"
  unfolding parseParameterList_def
  by (intro eats_peek eats_if eats_fail eats_return eats_weaken [OF eats_parameters])

text \<open>After a token is peeked, \<open>nextTok\<close> takes it.\<close>

lemma eats_next: "eats b (snd (nextTok p)) r \<Longrightarrow> eats b p r"
  by (rule eats_after [where ?p1.0 = "snd (nextTok p)"]) (simp_all add: moves_def)

lemma eats_next_strict:
  "(tok, p1) = peekTok p \<Longrightarrow> tokType tok \<noteq> TokenEOF \<Longrightarrow> eats False (snd (nextTok p1)) r \<Longrightarrow> eats b p1 r"
proof (rule eats_after_strict)
  assume "(tok, p1) = peekTok p" "tokType tok \<noteq> TokenEOF"
  then obtain rest where "psTokens p1 = Inr tok # rest" using peekTok_token [of p tok p1] by auto
  then show "moves True p1 (snd (nextTok p1))" by (simp add: moves_def shorter_def suffix_def)
qed

lemma peek_left:
  assumes "(tok, p1) = peekTok p"
  shows "left p1 \<le> left p" "left (snd (nextTok p1)) \<le> left p" "tokType tok \<noteq> TokenEOF \<Longrightarrow> left (snd (nextTok p1)) < left p"
proof -
  show le: "left p1 \<le> left p" using moves_peek [of p tok p1] assms moves_left(1) by auto
  show "left (snd (nextTok p1)) \<le> left p" using le shorter_left [OF shorter_next [of p1]] by simp
  show "tokType tok \<noteq> TokenEOF \<Longrightarrow> left (snd (nextTok p1)) < left p"
    using peekTok_token [of p tok p1] assms by auto
qed

lemma eats_nextCase: "(\<And>tok q. (tok, q) = nextTok p \<Longrightarrow> eats b p (f tok q)) \<Longrightarrow> eats b p (case nextTok p of (tok, q) \<Rightarrow> f tok q)"
  by (cases "nextTok p") simp

section \<open>Expressions\<close>

definition infixPrecedence :: "tokenType \<Rightarrow> int" where
  "infixPrecedence tt =
     (if tt = TokenOrOr then 1
      else if tt = TokenAndAnd then 2
      else if tt = TokenPipe then 3
      else if tt = TokenCaret then 4
      else if tt = TokenAmp then 5
      else if tt = TokenEq \<or> tt = TokenNe then 6
      else if tt = TokenLt \<or> tt = TokenLe \<or> tt = TokenGt \<or> tt = TokenGe then 7
      else if tt = TokenShiftLeft \<or> tt = TokenShiftRight then 8
      else if tt = TokenPlus \<or> tt = TokenMinus then 9
      else if tt = TokenStar \<or> tt = TokenSlash \<or> tt = TokenPercent then 10
      else -1)"

definition unaryTokens :: "tokenType set" where
  "unaryTokens = {TokenMinus, TokenBang, TokenTilde, TokenPlus, TokenStar, TokenAmp}"

lemma infix_not_EOF: "\<not> infixPrecedence tt < int minPrec \<Longrightarrow> tt \<noteq> TokenEOF"
  by (auto simp: infixPrecedence_def token_types)

lemma unary_not_EOF: "tt \<in> unaryTokens \<Longrightarrow> tt \<noteq> TokenEOF"
  by (auto simp: unaryTokens_def token_types)

text \<open>The calls pass 0 or a precedence plus one as \<open>minPrec\<close>, so it is a natural number.\<close>

function parseExpression :: "nat \<Rightarrow> parser \<Rightarrow> expr parsed"
  and infixLoop :: "nat \<Rightarrow> expr \<Rightarrow> parser \<Rightarrow> expr parsed"
  and parseUnaryExpression :: "parser \<Rightarrow> expr parsed"
  and parsePostfixExpression :: "parser \<Rightarrow> expr parsed"
  and callLoop :: "expr \<Rightarrow> parser \<Rightarrow> expr parsed"
  and parseArguments :: "expr list \<Rightarrow> parser \<Rightarrow> expr list parsed"
  and parsePrimaryExpression :: "parser \<Rightarrow> expr parsed" where
  "parseExpression minPrec p = bindP (parseUnaryExpression p) (\<lambda>lhs p1. infixLoop minPrec lhs p1)"
| "infixLoop minPrec lhs p =
     (case peekTok p of (tok, p1) \<Rightarrow>
        if tokType tok = TokenAssign then
          (if minPrec > 0 then (Some lhs, p1)
           else
             bindP (parseExpression 0 (snd (nextTok p1))) (\<lambda>rhs p2.
               infixLoop minPrec (AssignmentExpression tok lhs rhs) p2))
        else if infixPrecedence (tokType tok) < int minPrec then (Some lhs, p1)
        else
          bindP (parseExpression (nat (infixPrecedence (tokType tok) + 1)) (snd (nextTok p1))) (\<lambda>rhs p2.
            infixLoop minPrec (BinaryExpression tok (tokType tok) lhs rhs) p2))"
| "parseUnaryExpression p =
     (case peekTok p of (tok, p1) \<Rightarrow>
        if tokType tok \<in> unaryTokens then
          bindP (parseUnaryExpression (snd (nextTok p1))) (\<lambda>operand p2.
            (Some (UnaryExpression tok (tokType tok) operand), p2))
        else parsePostfixExpression p1)"
| "parsePostfixExpression p = bindP (parsePrimaryExpression p) (\<lambda>e p1. callLoop e p1)"
| "callLoop e p =
     (case accept TokenLParen p of (b, p1) \<Rightarrow>
        if \<not> b then (Some e, p1)
        else
          bindP (case peekTok p1 of (tok, p2) \<Rightarrow>
                   if tokType tok \<noteq> TokenRParen then parseArguments [] p2 else (Some [], p2)) (\<lambda>args p3.
          bindP (expect TokenRParen '')'' p3) (\<lambda>_ p4.
            callLoop (CallExpression (psLast p1) e args) p4)))"
| "parseArguments args p =
     bindP (parseExpression 0 p) (\<lambda>arg p1.
       case peekTok p1 of (tok, p2) \<Rightarrow>
         if tokType tok = TokenQuestion then
           (case peekTok p2 of (tok', p3) \<Rightarrow> failWith tok' (PUnsupported ''ternary operator'') p3)
         else
           case accept TokenComma p2 of (c, p3) \<Rightarrow>
             if c then parseArguments (args @ [arg]) p3 else (Some (args @ [arg]), p3))"
| "parsePrimaryExpression p =
     (case peekTok p of (tok, p1) \<Rightarrow>
        if tokType tok = TokenIdentifier then
          bindP (expectIdent ''identifier'' p1) (\<lambda>r p2. (Some (IdentifierExpression (fst r) (snd r)), p2))
        else if tokType tok = TokenIntegerConstant then
          bindP (expectInteger ''integer literal'' p1) (\<lambda>r p2. (Some (IntegerLiteralExpression (fst r) (snd r)), p2))
        else if tokType tok = TokenCharacterConstant then
          (case nextTok p1 of (tok', p2) \<Rightarrow> (Some (CharacterLiteralExpression tok' (tokRaw tok')), p2))
        else if tokType tok = TokenLParen then
          (case nextTok p1 of (openTok, p2) \<Rightarrow>
           case peekTok p2 of (tok', p3) \<Rightarrow>
             if isTypeSpecifierToken (tokType tok') then failWith openTok (PUnsupported ''casts'') p3
             else
               bindP (parseExpression 0 p3) (\<lambda>e p4.
               bindP (expect TokenRParen '')'' p4) (\<lambda>_ p5. (Some e, p5))))
        else if tokType tok = TokenPlusPlus \<or> tokType tok = TokenMinusMinus then
          failWith tok (PUnsupported ''increment/decrement operators'') p1
        else failWith (errorToken tok p1) (PExpectedExpression tok) p1)"
  by pat_completeness auto
abbreviation parsingDom where
  "parsingDom \<equiv> parseExpression_infixLoop_parseUnaryExpression_parsePostfixExpression_callLoop_parseArguments_parsePrimaryExpression_dom"

text \<open>
  Every one of them takes a token when it succeeds, the two loops apart. Termination rests on it, so it is shown
  first where the functions are defined.
\<close>

lemma eats_partial:
  "parsingDom (Inl (Inl (m, p))) \<Longrightarrow> eats True p (parseExpression m p)"
  "parsingDom (Inl (Inr (Inl (m1, lhs, p1)))) \<Longrightarrow> eats False p1 (infixLoop m1 lhs p1)"
  "parsingDom (Inl (Inr (Inr p2))) \<Longrightarrow> eats True p2 (parseUnaryExpression p2)"
  "parsingDom (Inr (Inl (Inl p3))) \<Longrightarrow> eats True p3 (parsePostfixExpression p3)"
  "parsingDom (Inr (Inl (Inr (e, p4)))) \<Longrightarrow> eats False p4 (callLoop e p4)"
  "parsingDom (Inr (Inr (Inl (args, p5)))) \<Longrightarrow> eats True p5 (parseArguments args p5)"
  "parsingDom (Inr (Inr (Inr p6))) \<Longrightarrow> eats True p6 (parsePrimaryExpression p6)"
proof (induction m p and m1 lhs p1 and p2 and p3 and e p4 and args p5 and p6 rule: parseExpression_infixLoop_parseUnaryExpression_parsePostfixExpression_callLoop_parseArguments_parsePrimaryExpression.pinduct)
  case (1 m p)
  show ?case
    by (subst parseExpression.psimps [OF 1(1)], rule eats_bind_strict [OF 1(2)], rule 1(3))
next
  case (2 m lhs p)
  show ?case
    by (subst infixLoop.psimps [OF 2(1)], intro eats_peek eats_if eats_return)
      (rule eats_next, rule eats_bind_strict; rule 2; assumption)+
next
  case (3 p)
  show ?case
  proof (subst parseUnaryExpression.psimps [OF 3(1)], intro eats_peek eats_if)
    fix tok p1
    assume t: "(tok, p1) = peekTok p" "tokType tok \<in> unaryTokens"
    then have "tokType tok \<noteq> TokenEOF" by (simp add: unary_not_EOF)
    with t(1) show "eats True p1 (bindP (parseUnaryExpression (snd (nextTok p1))) (\<lambda>operand p2.
          (Some (UnaryExpression tok (tokType tok) operand), p2)))"
      by (rule eats_next_strict) (intro eats_bind_strict [OF 3(2) [OF t]] eats_return)
  next
    fix tok p1
    assume t: "(tok, p1) = peekTok p" "tokType tok \<notin> unaryTokens"
    then show "eats True p1 (parsePostfixExpression p1)" using 3(3) by blast
  qed
next
  case (4 p)
  show ?case
    by (subst parsePostfixExpression.psimps [OF 4(1)], rule eats_bind_strict [OF 4(2)], rule 4(3))
next
  case (5 e p)
  show ?case
  proof (subst callLoop.psimps [OF 5(1)], intro eats_accept eats_if not_EOF)
    fix p1
    assume a: "(True, p1) = accept TokenLParen p"
    have args: "eats False p1 (case peekTok p1 of (tok, p2) \<Rightarrow>
        if tokType tok \<noteq> TokenRParen then parseArguments [] p2 else (Some [], p2))"
      by (intro eats_peek eats_if eats_return) (rule eats_weaken, rule 5(2) [OF a], simp_all)
    show "eats False p1 (bindP (case peekTok p1 of (tok, p2) \<Rightarrow>
                 if tokType tok \<noteq> TokenRParen then parseArguments [] p2 else (Some [], p2)) (\<lambda>args p3.
        bindP (expect TokenRParen '')'' p3) (\<lambda>_ p4. callLoop (CallExpression (psLast p1) e args) p4)))"
      by (intro eats_bind [OF args] eats_bind_strict [OF eats_expect] not_EOF) (rule 5(3) [OF a]; simp)
  qed (simp_all add: eats_return)
next
  case (6 args p)
  show ?case
  proof (subst parseArguments.psimps [OF 6(1)], intro eats_bind_strict [OF 6(2)] eats_peek eats_if eats_fail eats_accept not_EOF)
    fix arg p1 tok p2 p3
    assume "parseExpression 0 p = (Some arg, p1)" "(tok, p2) = peekTok p1" "tokType tok \<noteq> TokenQuestion"
      "(True, p3) = accept TokenComma p2"
    from 6(3) [OF this] show "eats False p3 (parseArguments (args @ [arg]) p3)"
      by (simp add: eats_weaken)
  qed (simp_all add: eats_return)
next
  case (7 p)
  show ?case
  proof (subst parsePrimaryExpression.psimps [OF 7(1)], rule eats_peek, intro eats_if eats_fail)
    fix tok p1
    assume k: "(tok, p1) = peekTok p" and t: "tokType tok = TokenCharacterConstant"
    have "eats True p1 (Some (CharacterLiteralExpression tok' (tokRaw tok')), snd (nextTok p1))" for tok'
      by (rule eats_next_strict [OF k]) (simp_all add: t eats_return)
    then show "eats True p1 (case nextTok p1 of (tok', p2) \<Rightarrow> (Some (CharacterLiteralExpression tok' (tokRaw tok')), p2))"
      by (auto split: prod.splits)
  next
    fix tok p1
    assume k: "(tok, p1) = peekTok p" and not: "tokType tok \<noteq> TokenIdentifier" "tokType tok \<noteq> TokenIntegerConstant"
      "tokType tok \<noteq> TokenCharacterConstant" and t: "tokType tok = TokenLParen"
    obtain q r where n: "(q, r) = nextTok p1" by (metis surj_pair)
    have r: "snd (nextTok p1) = r" by (simp flip: n)
    let ?body = "case peekTok r of (tok', p3) \<Rightarrow>
           if isTypeSpecifierToken (tokType tok') then failWith q (PUnsupported ''casts'') p3
           else
             bindP (parseExpression 0 p3) (\<lambda>e p4.
             bindP (expect TokenRParen '')'' p4) (\<lambda>_ p5. (Some e, p5)))"
    have "eats False r ?body"
    proof (intro eats_peek eats_if eats_fail)
      fix tok' p3
      assume "(tok', p3) = peekTok r" "\<not> isTypeSpecifierToken (tokType tok')"
      from 7(2) [OF k not t n this]
      show "eats False p3 (bindP (parseExpression 0 p3) (\<lambda>e p4.
             bindP (expect TokenRParen '')'' p4) (\<lambda>_ p5. (Some e, p5))))"
        by (rule eats_bind_strict) (intro eats_bind_strict [OF eats_expect] eats_return not_EOF)
    qed
    then have "eats True p1 ?body"
      by (intro eats_next_strict [OF k]) (simp_all add: t r)
    then show "eats True p1 (case nextTok p1 of (openTok, p2) \<Rightarrow>
         case peekTok p2 of (tok', p3) \<Rightarrow>
           if isTypeSpecifierToken (tokType tok') then failWith openTok (PUnsupported ''casts'') p3
           else
             bindP (parseExpression 0 p3) (\<lambda>e p4.
             bindP (expect TokenRParen '')'' p4) (\<lambda>_ p5. (Some e, p5))))"
      by (simp flip: n)
  qed (intro eats_bind_strict [OF eats_expectIdent(1)] eats_bind_strict [OF eats_expectIdent(2)] eats_return)+
qed

lemma parsing_total: "All parsingDom"
proof -
  note less = eats_partial(1) [THEN eats_left(1)] eats_partial(3) [THEN eats_left(1)] eats_partial(7) [THEN eats_left(1)]
  have args: "left q \<le> left p1"
    if "(case peekTok p1 of (tok, p2) \<Rightarrow>
        if tokType tok \<noteq> TokenRParen then parseArguments [] p2 else (Some [], p2)) = (Some x, q)"
      and "\<And>tok p2. (tok, p2) = peekTok p1 \<Longrightarrow> tokType tok \<noteq> TokenRParen \<Longrightarrow> parsingDom (Inr (Inr (Inl ([], p2))))"
    for p1 x q
  proof -
    obtain tok p2 where k: "(tok, p2) = peekTok p1" by (metis surj_pair)
    show ?thesis
      using that(1) that(2) [OF k] eats_partial(6) [of "[]" p2, THEN eats_left(1)] peek_left [OF k]
      by (auto simp flip: k split: if_splits)
  qed
  have operand: "left q < left p"
    if "(tok, p1) = peekTok p" "tokType tok \<noteq> TokenEOF" "parseExpression n (snd (nextTok p1)) = (Some x, q)"
      "parsingDom (Inl (Inl (n, snd (nextTok p1))))" for tok p1 p n x q
    using less(1) [OF that(4,3)] peek_left(2) [OF that(1)] by simp
  have assigned: "length (snd (sourceNext (psTokens p1))) < left p" if "(tok, p1) = peekTok p" "tokType tok = TokenAssign" for tok p1 p
    using peek_left(3) [OF that(1)] that(2) by simp
  have argument: "left p2 < left p"
    if "(True, p1) = accept TokenLParen p" "(tok, p2) = peekTok p1" for p p1 tok p2
    using accept_left [OF not_EOF(2) that(1)] peek_left(1) [OF that(2)] by simp
  have called: "left p4 < left p"
    if "(True, p1) = accept TokenLParen p"
      and "(case peekTok p1 of (tok, p2) \<Rightarrow>
        if tokType tok \<noteq> TokenRParen then parseArguments [] p2 else (Some [], p2)) = (Some x, p3)"
      and "expect TokenRParen '')'' p3 = (Some y, p4)"
      and "\<And>tok p2. (tok, p2) = peekTok p1 \<Longrightarrow> tokType tok \<noteq> TokenRParen \<Longrightarrow> parsingDom (Inr (Inr (Inl ([], p2))))"
    for p p1 x p3 y p4
  proof -
    have "left p3 \<le> left p1" using that(2) by (rule args) (rule that(4))
    then show ?thesis
      using accept_left [OF not_EOF(2) that(1)] moves_left(1) [OF expect_moves [OF that(3) not_EOF(3)]] by simp
  qed
  have comma: "left p3 < left p"
    if "parseExpression 0 p = (Some x, p1)" "(tok, p2) = peekTok p1" "(True, p3) = accept TokenComma p2"
      "parsingDom (Inl (Inl (0, p)))" for p x p1 tok p2 p3
    using less(1) [OF that(4,1)] peek_left(1) [OF that(2)] accept_left [OF not_EOF(8) that(3)] by simp
  have paren: "left p3 < left p"
    if "(tok, p1) = peekTok p" "tokType tok = TokenLParen" "(tok', p2) = nextTok p1" "(tok'', p3) = peekTok p2" for tok p1 p tok' p2 tok'' p3
  proof -
    have "p2 = snd (nextTok p1)" by (simp flip: that(3))
    then show ?thesis using peek_left(3) [OF that(1)] that(2) peek_left(1) [OF that(4)] by simp
  qed
  show ?thesis
  proof (rule "parseExpression_infixLoop_parseUnaryExpression_parsePostfixExpression_callLoop_parseArguments_parsePrimaryExpression.termination" [of "measures
      [case_sum (case_sum (\<lambda>(m, p). left p) (case_sum (\<lambda>(m, e, p). left p) left))
         (case_sum (case_sum left (\<lambda>(e, p). left p)) (case_sum (\<lambda>(es, p). left p) left)),
       case_sum (case_sum (\<lambda>_. 5) (case_sum (\<lambda>_. 0) (\<lambda>_. 4)))
         (case_sum (case_sum (\<lambda>_. 3) (\<lambda>_. 0)) (case_sum (\<lambda>_. 6) (\<lambda>_. 2)))]"])
  qed (simp_all, (auto dest: peek_left infix_not_EOF unary_not_EOF less accept_left [OF not_EOF(2)] args)+,
    (erule (1) assigned | (erule operand, simp, assumption, assumption) | (erule operand, rule infix_not_EOF, assumption+)
      | erule (1) argument | (erule called; simp) | (erule comma; simp) | (erule paren; simp))+)
qed

termination parseExpression by (rule parsing_total)

declare parseExpression.simps [simp del] infixLoop.simps [simp del] parseUnaryExpression.simps [simp del]
  parsePostfixExpression.simps [simp del] callLoop.simps [simp del] parseArguments.simps [simp del]
  parsePrimaryExpression.simps [simp del]

lemmas eats_expression = eats_partial [OF parsing_total [THEN spec]]

end
