(* ===== verification/ParserStmt.thy ===== *)
theory ParserStmt
  imports Parser
begin

text \<open>
  Statements, declarations and translation units, the second half of \<open>internal/parser/parser.go\<close>. The
  repeated \<open>parseExpression(0)\<close> with its check of the tail is \<open>parseWholeExpression\<close>; the three parts of
  a \<open>for\<close> header are functions of their own.
\<close>

section \<open>Statements without statements inside\<close>

definition parseWholeExpression :: "parser \<Rightarrow> expr parsed" where
  "parseWholeExpression p =
     bindP (parseExpression 0 p) (\<lambda>e p1. bindP (hasDisallowedExprTail p1) (\<lambda>_ p2. (Some e, p2)))"

definition parseInitializer :: "parser \<Rightarrow> expr option parsed" where
  "parseInitializer p =
     (case accept TokenAssign p of (b, p1) \<Rightarrow>
        if b then bindP (parseWholeExpression p1) (\<lambda>e p2. (Some (Some e), p2)) else (Some None, p1))"

definition parseDeclarationTail :: "token \<Rightarrow> typeName \<Rightarrow> token \<Rightarrow> string \<Rightarrow> parser \<Rightarrow> Declaration parsed" where
  "parseDeclarationTail typeTok typ nameTok name p =
     bindP (parseInitializer p) (\<lambda>initExpr p1.
       case accept TokenComma p1 of (c, p2) \<Rightarrow>
         if c then failWith nameTok (PUnsupported ''multiple declarators in one declaration'') p2
         else
           bindP (expect TokenSemicolon '';'' p2) (\<lambda>_ p3.
             (Some \<lparr>declToken = typeTok, declType = typ, declName = name, declInitializer = initExpr\<rparr>, p3)))"

definition parseDeclarationStatement :: "parser \<Rightarrow> stmt parsed" where
  "parseDeclarationStatement p =
     bindP (parseTypeName p) (\<lambda>tt p1.
     bindP (parseDeclarator ''declaration name'' p1) (\<lambda>d p2.
       let typ = addPointers (snd (snd d)) (snd tt) in
       if tnSpecifier typ = TypeSpecifierVoid \<and> tnPointerDepth typ = 0 then
         failWith (fst d) (PUnsupported ''void objects'') p2
       else
         bindP (parseDeclarationTail (fst tt) typ (fst d) (fst (snd d)) p2) (\<lambda>decl p3.
           (Some (DeclarationStatement (fst tt) decl), p3))))"

definition parseReturnStatement :: "parser \<Rightarrow> stmt parsed" where
  "parseReturnStatement p =
     bindP (expect TokenReturn ''return'' p) (\<lambda>retTok p1.
       case accept TokenSemicolon p1 of (b, p2) \<Rightarrow>
         if b then (Some (ReturnStatement retTok None), p2)
         else
           bindP (parseWholeExpression p2) (\<lambda>e p3.
           bindP (expect TokenSemicolon '';'' p3) (\<lambda>_ p4. (Some (ReturnStatement retTok (Some e)), p4))))"

definition parseExpressionStatement :: "parser \<Rightarrow> stmt parsed" where
  "parseExpressionStatement p =
     (case peekTok p of (tok, p1) \<Rightarrow>
      case accept TokenSemicolon p1 of (b, p2) \<Rightarrow>
        if b then (Some (ExpressionStatement tok None), p2)
        else
          bindP (parseWholeExpression p2) (\<lambda>e p3.
          bindP (expect TokenSemicolon '';'' p3) (\<lambda>_ p4. (Some (ExpressionStatement tok (Some e)), p4))))"

text \<open>The head of an \<open>if\<close> or a \<open>while\<close>: the keyword and the condition in parentheses.\<close>

definition parseHead :: "tokenType \<Rightarrow> string \<Rightarrow> parser \<Rightarrow> (token \<times> expr) parsed" where
  "parseHead tt what p =
     bindP (expect tt what p) (\<lambda>tok p1.
     bindP (expect TokenLParen ''('' p1) (\<lambda>_ p2.
     bindP (parseWholeExpression p2) (\<lambda>cond p3.
     bindP (expect TokenRParen '')'' p3) (\<lambda>_ p4. (Some (tok, cond), p4)))))"

definition parseForInit :: "parser \<Rightarrow> stmt option parsed" where
  "parseForInit p =
     (case accept TokenSemicolon p of (b, p1) \<Rightarrow>
        if b then (Some None, p1)
        else
          case peekTok p1 of (tok, p2) \<Rightarrow>
            if isTypeSpecifierToken (tokType tok) then
              bindP (parseDeclarationStatement p2) (\<lambda>s p3. (Some (Some s), p3))
            else
              case peekTok p2 of (tok', p3) \<Rightarrow>
                bindP (parseWholeExpression p3) (\<lambda>e p4.
                bindP (expect TokenSemicolon '';'' p4) (\<lambda>_ p5. (Some (Some (ExpressionStatement tok' (Some e))), p5))))"

definition parseForCond :: "parser \<Rightarrow> expr option parsed" where
  "parseForCond p =
     (case accept TokenSemicolon p of (b, p1) \<Rightarrow>
        if b then (Some None, p1)
        else
          bindP (parseWholeExpression p1) (\<lambda>e p2.
          bindP (expect TokenSemicolon '';'' p2) (\<lambda>_ p3. (Some (Some e), p3))))"

definition parseForPost :: "parser \<Rightarrow> expr option parsed" where
  "parseForPost p =
     (case peekTok p of (tok, p1) \<Rightarrow>
        if tokType tok \<noteq> TokenRParen then bindP (parseWholeExpression p1) (\<lambda>e p2. (Some (Some e), p2))
        else (Some None, p1))"

definition parseForHead :: "parser \<Rightarrow> (token \<times> stmt option \<times> expr option \<times> expr option) parsed" where
  "parseForHead p =
     bindP (expect TokenFor ''for'' p) (\<lambda>tok p1.
     bindP (expect TokenLParen ''('' p1) (\<lambda>_ p2.
     bindP (parseForInit p2) (\<lambda>ini p3.
     bindP (parseForCond p3) (\<lambda>cond p4.
     bindP (parseForPost p4) (\<lambda>post p5.
     bindP (expect TokenRParen '')'' p5) (\<lambda>_ p6. (Some (tok, ini, cond, post), p6)))))))"

section \<open>Recovery\<close>

function synchronizeStatement :: "parser \<Rightarrow> parser" where
  "synchronizeStatement p =
     (case peekTok p of (tok, p1) \<Rightarrow>
        if tokType tok = TokenEOF \<or> tokType tok = TokenRBrace then p1
        else if tokType tok = TokenSemicolon then snd (nextTok p1)
        else synchronizeStatement (snd (nextTok p1)))"
  by auto
termination by (relation "measure left") (auto dest: peek_left(3))

function synchronizeTopLevel :: "parser \<Rightarrow> parser" where
  "synchronizeTopLevel p =
     (case peekTok p of (tok, p1) \<Rightarrow>
        if tokType tok = TokenEOF \<or> tokType tok = TokenInt \<or> tokType tok = TokenChar \<or> tokType tok = TokenVoid then p1
        else synchronizeTopLevel (snd (nextTok p1)))"
  by auto
termination by (relation "measure left") (auto dest: peek_left(3))

declare synchronizeStatement.simps [simp del] synchronizeTopLevel.simps [simp del]

section \<open>Progress\<close>

lemma eats_whole: "eats True p (parseWholeExpression p)"
  unfolding parseWholeExpression_def by (intro eats_bind_strict [OF eats_expression(1)] eats_bind [OF eats_tail] eats_return)

lemma eats_initializer: "eats False p (parseInitializer p)"
  unfolding parseInitializer_def
  by (intro eats_accept eats_if eats_bind [OF eats_weaken [OF eats_whole]] eats_return not_EOF)

lemma eats_declarationTail: "eats True p (parseDeclarationTail typeTok typ nameTok name p)"
  unfolding parseDeclarationTail_def
  by (intro eats_bind [OF eats_initializer] eats_accept eats_if eats_fail eats_bind_strict [OF eats_expect] eats_return not_EOF)

lemma eats_declarationStatement: "eats True p (parseDeclarationStatement p)"
  unfolding parseDeclarationStatement_def Let_def
  by (intro eats_bind_strict [OF eats_typeName] eats_weaken [OF eats_declarator] eats_bind_strict [OF eats_declarator] eats_if eats_fail
      eats_bind_strict [OF eats_declarationTail] eats_return)

lemma eats_return_statement: "eats True p (parseReturnStatement p)"
  unfolding parseReturnStatement_def
  by (intro eats_bind_strict [OF eats_expect] eats_accept eats_if eats_return eats_bind_strict [OF eats_whole] not_EOF)

lemma eats_expressionStatement: "eats True p (parseExpressionStatement p)"
  unfolding parseExpressionStatement_def
  by (intro eats_peek eats_accept eats_if eats_return eats_bind_strict [OF eats_whole] eats_bind_strict [OF eats_expect] not_EOF)
    simp_all

lemma eats_head: "tt \<noteq> TokenEOF \<Longrightarrow> eats True p (parseHead tt what p)"
  unfolding parseHead_def
  by (intro eats_bind_strict [OF eats_expect] eats_bind_strict [OF eats_whole] eats_return not_EOF)

lemma eats_forInit: "eats False p (parseForInit p)"
  unfolding parseForInit_def
  by (intro eats_accept eats_if eats_peek eats_return eats_bind_strict [OF eats_declarationStatement]
      eats_bind_strict [OF eats_whole] eats_bind_strict [OF eats_expect] not_EOF)

lemma eats_forCond: "eats False p (parseForCond p)"
  unfolding parseForCond_def
  by (intro eats_accept eats_if eats_return eats_bind_strict [OF eats_whole] eats_bind_strict [OF eats_expect] not_EOF)

lemma eats_forPost: "eats False p (parseForPost p)"
  unfolding parseForPost_def by (intro eats_peek eats_if eats_return eats_bind_strict [OF eats_whole])

lemma eats_forHead: "eats True p (parseForHead p)"
  unfolding parseForHead_def
  by (intro eats_bind_strict [OF eats_expect] eats_bind [OF eats_forInit] eats_bind [OF eats_forCond] eats_bind [OF eats_forPost]
      eats_return not_EOF)

lemma synchronizeStatement_shorter: "shorter p (synchronizeStatement p)"
proof (induction p rule: synchronizeStatement.induct)
  case (1 p)
  obtain tok p1 where k: "peekTok p = (tok, p1)" by fastforce
  have "shorter p p1" "shorter p (snd (nextTok p1))" using shorter_peek [of p] k shorter_trans [OF _ shorter_next] by auto
  then show ?case
    using 1 [OF k [symmetric]] k shorter_trans [of p "snd (nextTok p1)"] by (subst synchronizeStatement.simps) auto
qed

lemma synchronizeStatement_takes:
  assumes "peekTok p = (tok, p1)" "tokType tok \<noteq> TokenEOF" "tokType tok \<noteq> TokenRBrace"
  shows "left (synchronizeStatement p) < left p"
  using assms peek_left(3) [OF assms(1) [symmetric] assms(2)] shorter_left [OF synchronizeStatement_shorter [of "snd (nextTok p1)"]]
  by (subst synchronizeStatement.simps) auto

lemma synchronizeTopLevel_shorter: "shorter p (synchronizeTopLevel p)"
proof (induction p rule: synchronizeTopLevel.induct)
  case (1 p)
  obtain tok p1 where k: "peekTok p = (tok, p1)" by fastforce
  have "shorter p p1" "shorter p (snd (nextTok p1))" using shorter_peek [of p] k shorter_trans [OF _ shorter_next] by auto
  then show ?case
    using 1 [OF k [symmetric]] k shorter_trans [of p "snd (nextTok p1)"] by (subst synchronizeTopLevel.simps) auto
qed

lemma synchronizeTopLevel_takes:
  assumes "peekTok p = (tok, p1)" "tokType tok \<noteq> TokenEOF" "\<not> isTypeSpecifierToken (tokType tok)"
  shows "left (synchronizeTopLevel p) < left p"
  using assms peek_left(3) [OF assms(1) [symmetric] assms(2)] shorter_left [OF synchronizeTopLevel_shorter [of "snd (nextTok p1)"]]
  by (subst synchronizeTopLevel.simps) (auto simp: isTypeSpecifierToken_def)

text \<open>What follows a failed statement is taken: by the statement itself, or by the recovery.\<close>

lemma recovery_takes:
  assumes k: "peekTok p = (tok, p1)" "tokType tok \<noteq> TokenEOF" "tokType tok \<noteq> TokenRBrace" and s: "shorter p1 p2"
  shows "left (synchronizeStatement p2) < left p"
proof (cases "psTokens p2 = psTokens p1")
  case True
  obtain rest where ts: "psTokens p1 = psTokens p" "psTokens p = Inr tok # rest" using peekTok_token [OF k(1,2)] by auto
  have "tokType tok \<noteq> tokenNil" "tokType tok \<noteq> TokenError"
    using k(1,2) ts by (auto simp: peekTok_def normalizeToken_def tokenNil_def split: if_splits)
  then obtain p3 where "peekTok p2 = (tok, p3)"
    using True ts by (auto simp: peekTok_def normalizeToken_def tokenNil_def)
  then show ?thesis using synchronizeStatement_takes [of p2 tok] k True ts by simp
next
  case False
  then have "left p2 < left p1"
    using s by (auto simp: shorter_def suffix_def)
  then show ?thesis using peek_left(1) [OF k(1) [symmetric]] shorter_left [OF synchronizeStatement_shorter [of p2]] by simp
qed

section \<open>Statements\<close>

text \<open>\<open>blockLoop\<close> is the loop of \<open>parseBlockStatement\<close>; a block is its token and its statements.\<close>

function parseStatement :: "parser \<Rightarrow> stmt parsed"
  and parseIfStatement :: "parser \<Rightarrow> stmt parsed"
  and parseWhileStatement :: "parser \<Rightarrow> stmt parsed"
  and parseForStatement :: "parser \<Rightarrow> stmt parsed"
  and parseBlockStatement :: "parser \<Rightarrow> (token \<times> stmt list) parsed"
  and blockLoop :: "token \<Rightarrow> stmt list \<Rightarrow> parser \<Rightarrow> (token \<times> stmt list) parsed" where
  "parseStatement p =
     (case peekTok p of (tok, p1) \<Rightarrow>
        if tokType tok = TokenLBrace then
          bindP (parseBlockStatement p1) (\<lambda>b p2. (Some (BlockStatement (fst b) (snd b)), p2))
        else if tokType tok = TokenReturn then parseReturnStatement p1
        else if tokType tok = TokenIf then parseIfStatement p1
        else if tokType tok = TokenWhile then parseWhileStatement p1
        else if tokType tok = TokenFor then parseForStatement p1
        else if isTypeSpecifierToken (tokType tok) then parseDeclarationStatement p1
        else if tokType tok = TokenStruct then failWith tok (PUnsupported ''struct declarations'') p1
        else if tokType tok = TokenSwitch then failWith tok (PUnsupported ''switch statements'') p1
        else if tokType tok = TokenGoto then failWith tok (PUnsupported ''goto statements'') p1
        else if tokType tok = TokenDo then failWith tok (PUnsupported ''do-while statements'') p1
        else if tokType tok = TokenBreak then failWith tok (PUnsupported ''break statements'') p1
        else if tokType tok = TokenContinue then failWith tok (PUnsupported ''continue statements'') p1
        else parseExpressionStatement p1)"
| "parseIfStatement p =
     bindP (parseHead TokenIf ''if'' p) (\<lambda>h p1.
     bindP (parseStatement p1) (\<lambda>thenStmt p2.
       case accept TokenElse p2 of (b, p3) \<Rightarrow>
         if b then
           bindP (parseStatement p3) (\<lambda>elseStmt p4. (Some (IfStatement (fst h) (snd h) thenStmt (Some elseStmt)), p4))
         else (Some (IfStatement (fst h) (snd h) thenStmt None), p3)))"
| "parseWhileStatement p =
     bindP (parseHead TokenWhile ''while'' p) (\<lambda>h p1.
     bindP (parseStatement p1) (\<lambda>body p2. (Some (WhileStatement (fst h) (snd h) body), p2)))"
| "parseForStatement p =
     bindP (parseForHead p) (\<lambda>h p1.
     bindP (parseStatement p1) (\<lambda>body p2.
       (Some (ForStatement (fst h) (fst (snd h)) (fst (snd (snd h))) (snd (snd (snd h))) body), p2)))"
| "parseBlockStatement p = bindP (expect TokenLBrace ''{'' p) (\<lambda>tok p1. blockLoop tok [] p1)"
| "blockLoop open stmts p =
     (case peekTok p of (tok, p1) \<Rightarrow>
        if tokType tok = TokenEOF then failWith open PExpectedClosingBrace p1
        else if tokType tok = TokenRBrace then (Some (open, stmts), snd (nextTok p1))
        else
          case parseStatement p1 of (r, p2) \<Rightarrow>
            (case r of
               Some s \<Rightarrow> blockLoop open (stmts @ [s]) p2
             | None \<Rightarrow> blockLoop open stmts (synchronizeStatement p2)))"
  by pat_completeness auto
abbreviation statementsDom where
  "statementsDom \<equiv> parseStatement_parseIfStatement_parseWhileStatement_parseForStatement_parseBlockStatement_blockLoop_dom"

lemma eats_statement_partial:
  "statementsDom (Inl (Inl p1)) \<Longrightarrow> eats True p1 (parseStatement p1)"
  "statementsDom (Inl (Inr (Inl p2))) \<Longrightarrow> eats True p2 (parseIfStatement p2)"
  "statementsDom (Inl (Inr (Inr p3))) \<Longrightarrow> eats True p3 (parseWhileStatement p3)"
  "statementsDom (Inr (Inl p4)) \<Longrightarrow> eats True p4 (parseForStatement p4)"
  "statementsDom (Inr (Inr (Inl p5))) \<Longrightarrow> eats True p5 (parseBlockStatement p5)"
  "statementsDom (Inr (Inr (Inr (tok, ss, p6)))) \<Longrightarrow> eats False p6 (blockLoop tok ss p6)"
proof (induction p1 and p2 and p3 and p4 and p5 and tok ss p6 rule: parseStatement_parseIfStatement_parseWhileStatement_parseForStatement_parseBlockStatement_blockLoop.pinduct)
  case (1 p)
  show ?case
    by (subst parseStatement.psimps [OF 1(1)], intro eats_peek eats_if eats_fail eats_return_statement
        eats_declarationStatement eats_expressionStatement)
      ((rule eats_bind_strict, rule 1; simp add: eats_return) | (rule 1; simp))+
next
  case (2 p)
  show ?case
    by (subst parseIfStatement.psimps [OF 2(1)], rule eats_bind_strict [OF eats_head [OF not_EOF(12)]], rule eats_weaken,
        rule eats_bind_strict, rule 2, assumption, intro eats_accept not_EOF eats_if eats_return)
      (simp_all add: eats_return, (rule eats_weaken, rule eats_bind_strict, rule 2; simp add: eats_return))
next
  case (3 p)
  show ?case
    by (subst parseWhileStatement.psimps [OF 3(1)], rule eats_bind_strict [OF eats_head [OF not_EOF(13)]], rule eats_weaken,
        rule eats_bind_strict, rule 3; simp add: eats_return)
next
  case (4 p)
  show ?case
    by (subst parseForStatement.psimps [OF 4(1)], rule eats_bind_strict [OF eats_forHead], rule eats_weaken,
        rule eats_bind_strict, rule 4; simp add: eats_return)
next
  case (5 p)
  show ?case
    by (subst parseBlockStatement.psimps [OF 5(1)], rule eats_bind_strict [OF eats_expect [OF not_EOF(4)]], rule 5)
next
  case (6 tok ss p)
  show ?case
  proof (subst blockLoop.psimps [OF 6(1)], intro eats_peek eats_if eats_fail)
    fix t p1
    assume k: "(t, p1) = peekTok p" and n: "tokType t \<noteq> TokenEOF" "tokType t \<noteq> TokenRBrace"
    obtain r p2 where r: "parseStatement p1 = (r, p2)" by fastforce
    have s: "moves False p1 p2" using 6(2) [OF k n] r by (auto simp: eats_def dest: moves_weaken)
    have sync: "moves False p1 (synchronizeStatement p2)"
      using s synchronizeStatement_shorter [of p2] by (auto simp: moves_def dest: shorter_trans)
    show "eats False p1 (case parseStatement p1 of (r, p2) \<Rightarrow>
          (case r of
             Some s \<Rightarrow> blockLoop tok (ss @ [s]) p2
           | None \<Rightarrow> blockLoop tok ss (synchronizeStatement p2)))"
      using 6(3) [OF k n r [symmetric], THEN eats_after [OF sync]] 6(4) [OF k n r [symmetric], THEN eats_after [OF s]] r
      by (cases r) simp_all
  qed (rule eats_next, rule eats_return)
qed

lemma statements_total: "All statementsDom"
proof -
  have head: "left p1 < left p" if "parseHead tt what p = (Some h, p1)" "tt \<noteq> TokenEOF" for tt what p h p1
    using eats_left(1) [OF eats_head that(1)] that(2) by simp
  have otherwise: "left p2 < left p"
    if "parseHead TokenIf ''if'' p = (Some h, p1)" "parseStatement p1 = (Some s, q)" "(True, p2) = accept TokenElse q"
      "statementsDom (Inl (Inl p1))" for p h p1 s q p2
    using head [OF that(1)] eats_left(1) [OF eats_statement_partial(1) [OF that(4)] that(2)] accept_left [OF not_EOF(10) that(3)] by simp
  have more: "left p2 < left p"
    if "(tok, p1) = peekTok p" "(Some s, p2) = parseStatement p1" "statementsDom (Inl (Inl p1))" for tok p1 p s p2
    using peek_left(1) [OF that(1)] eats_left(1) [OF eats_statement_partial(1) [OF that(3)] that(2) [symmetric]] by simp
  have recovered: "left (synchronizeStatement p2) < left p"
    if "(tok, p1) = peekTok p" "tokType tok \<noteq> TokenEOF" "tokType tok \<noteq> TokenRBrace" "(None, p2) = parseStatement p1"
      "statementsDom (Inl (Inl p1))" for tok p1 p p2
  proof (rule recovery_takes [OF that(1) [symmetric] that(2,3)])
    show "shorter p1 p2" using eats_statement_partial(1) [OF that(5)] by (simp add: eats_def moves_def flip: that(4))
  qed
  show ?thesis
  proof (rule "parseStatement_parseIfStatement_parseWhileStatement_parseForStatement_parseBlockStatement_blockLoop.termination" [of "measures
      [case_sum (case_sum left (case_sum left left)) (case_sum left (case_sum left (\<lambda>(tok, ss, p). left p))),
       case_sum (case_sum (\<lambda>_. 5) (\<lambda>_. 3)) (case_sum (\<lambda>_. 3) (case_sum (\<lambda>_. 4) (\<lambda>_. 6)))]"])
  qed (simp_all, (auto dest: peek_left head eats_left(1) [OF eats_forHead] eats_left(1) [OF eats_expect [OF not_EOF(4)]])+,
    (erule (1) otherwise, simp, assumption | erule (4) recovered | erule (2) more)+)
qed

termination parseStatement by (rule statements_total)

lemmas eats_statement = eats_statement_partial [OF statements_total [THEN spec]]

declare parseStatement.simps [simp del] parseIfStatement.simps [simp del] parseWhileStatement.simps [simp del]
  parseForStatement.simps [simp del] parseBlockStatement.simps [simp del] blockLoop.simps [simp del]

section \<open>Translation units\<close>

text \<open>\<open>parseExternalDeclaration\<close> returns three pointers of which one is set when it succeeds.\<close>

datatype externalDeclaration =
    ExternalFunction functionDefinition
  | ExternalDeclaration Declaration
  | ExternalPrototype functionPrototype

definition parseFunctionTail :: "token \<Rightarrow> typeName \<Rightarrow> string \<Rightarrow> parser \<Rightarrow> externalDeclaration parsed" where
  "parseFunctionTail typeTok typ name p =
     bindP (parseParameterList p) (\<lambda>params p1.
     bindP (expect TokenRParen '')'' p1) (\<lambda>_ p2.
       case accept TokenSemicolon p2 of (b, p3) \<Rightarrow>
         if b then
           (Some (ExternalPrototype
              \<lparr>protoToken = typeTok, protoReturnType = typ, protoName = name, protoParameters = params\<rparr>), p3)
         else
           bindP (parseBlockStatement p3) (\<lambda>body p4.
             (Some (ExternalFunction
                \<lparr>fdReturnType = typ, fdName = name, fdParameters = params, fdBodyToken = fst body,
                 fdBodyStatements = snd body, fdToken = typeTok\<rparr>), p4))))"

definition parseExternalDeclaration :: "parser \<Rightarrow> externalDeclaration parsed" where
  "parseExternalDeclaration p =
     bindP (parseTypeName p) (\<lambda>tt p1.
     bindP (parseDeclarator ''declaration name'' p1) (\<lambda>d p2.
       let typ = addPointers (snd (snd d)) (snd tt) in
       case accept TokenLParen p2 of (b, p3) \<Rightarrow>
         if b then parseFunctionTail (fst tt) typ (fst (snd d)) p3
         else
           bindP (parseDeclarationTail (fst tt) typ (fst d) (fst (snd d)) p3) (\<lambda>decl p4.
             (Some (ExternalDeclaration decl), p4))))"

definition addExternal :: "externalDeclaration \<Rightarrow> translationUnit \<Rightarrow> translationUnit" where
  "addExternal d tu =
     (case d of
        ExternalFunction fn \<Rightarrow> tu\<lparr>tuFunctions := tuFunctions tu @ [fn]\<rparr>
      | ExternalDeclaration decl \<Rightarrow> tu\<lparr>tuDeclarations := tuDeclarations tu @ [decl]\<rparr>
      | ExternalPrototype proto \<Rightarrow> tu\<lparr>tuPrototypes := tuPrototypes tu @ [proto]\<rparr>)"

lemma eats_functionTail: "eats True p (parseFunctionTail typeTok typ name p)"
  unfolding parseFunctionTail_def
  by (intro eats_bind [OF eats_parameterList] eats_bind_strict [OF eats_expect] eats_accept eats_if eats_return
      eats_bind_strict [OF eats_statement(5)] not_EOF)

lemma eats_externalDeclaration: "eats True p (parseExternalDeclaration p)"
  unfolding parseExternalDeclaration_def Let_def
  by (intro eats_bind_strict [OF eats_typeName] eats_weaken [OF eats_declarator] eats_bind_strict [OF eats_declarator] eats_accept
      eats_if eats_return eats_bind_strict [OF eats_declarationTail] eats_weaken [OF eats_functionTail] not_EOF)

text \<open>A declaration that begins with a type takes it, even when it fails.\<close>

lemma externalDeclaration_takes:
  assumes k: "peekTok p = (tok, p1)" and t: "isTypeSpecifierToken (tokType tok)"
  shows "left (snd (parseExternalDeclaration p)) < left p"
proof -
  have n: "tokType tok \<noteq> TokenEOF" using t by (auto simp: isTypeSpecifierToken_def)
  obtain spec where ty: "parseTypeName p = (Some (tok, mkTypeName tok spec), snd (nextTok p1))"
    using k t by (auto simp: parseTypeName_def isTypeSpecifierToken_def token_types)
  have "eats False q (bindP (parseDeclarator ''declaration name'' q) (\<lambda>d p2.
       let typ = addPointers (snd (snd d)) (snd tt) in
       case accept TokenLParen p2 of (b, p3) \<Rightarrow>
         if b then parseFunctionTail (fst tt) typ (fst (snd d)) p3
         else
           bindP (parseDeclarationTail (fst tt) typ (fst d) (fst (snd d)) p3) (\<lambda>decl p4.
             (Some (ExternalDeclaration decl), p4))))" for tt q
    unfolding Let_def
    by (intro eats_bind_strict [OF eats_declarator] eats_accept
      eats_if eats_return eats_bind_strict [OF eats_declarationTail] eats_weaken [OF eats_functionTail] not_EOF)
  from eats_left(2) [OF this, of "snd (nextTok p1)" "(tok, mkTypeName tok spec)"] peek_left(3) [OF k [symmetric] n]
  show ?thesis unfolding parseExternalDeclaration_def ty by simp
qed

lemma peekTok_same:
  "peekTok p = (tok, p1) \<Longrightarrow> tokType tok \<noteq> TokenEOF \<Longrightarrow> psTokens q = psTokens p \<Longrightarrow> fst (peekTok q) = tok"
  using peekTok_token [of p tok p1]
  by (auto simp: peekTok_def normalizeToken_def tokenNil_def split: if_splits)

lemma topLevel_takes:
  assumes k: "(tok, p1) = peekTok p" "tokType tok \<noteq> TokenEOF" and r: "(None, p2) = parseExternalDeclaration p1"
    and k': "(tok', p3) = peekTok p2" "tokType tok' \<noteq> TokenEOF"
  shows "left (synchronizeTopLevel p3) < left p"
proof -
  have p1: "psTokens p1 = psTokens p" and p3: "psTokens p3 = psTokens p2"
    using peekTok_token [OF k(1) [symmetric] k(2)] peekTok_token [OF k'(1) [symmetric] k'(2)] by auto
  have s: "shorter p1 p2" using eats_externalDeclaration [of p1] by (simp add: eats_def moves_def flip: r)
  have le: "left (synchronizeTopLevel p3) \<le> left p3" by (rule shorter_left [OF synchronizeTopLevel_shorter])
  show ?thesis
  proof (cases "psTokens p2 = psTokens p1")
    case False
    then have "left p2 < left p1" using s by (auto simp: shorter_def suffix_def)
    then show ?thesis using le p1 p3 by simp
  next
    case True
    have same: "fst (peekTok q) = tok" if "psTokens q = psTokens p" for q using peekTok_same [OF k(1) [symmetric] k(2) that] .
    have "\<not> isTypeSpecifierToken (tokType tok)"
      using externalDeclaration_takes [of p1 "fst (peekTok p1)" "snd (peekTok p1)"] same [OF p1] True by (auto simp flip: r)
    then have "left (synchronizeTopLevel p3) < left p3"
      using synchronizeTopLevel_takes [of p3 tok "snd (peekTok p3)"] same [of p3] p3 True p1 k(2) by (metis prod.collapse)
    then show ?thesis using p1 p3 True by simp
  qed
qed

lemma topLevel_more:
  "(tok, p1) = peekTok p \<Longrightarrow> (Some d, p2) = parseExternalDeclaration p1 \<Longrightarrow> left p2 < left p"
  using eats_left(1) [OF eats_externalDeclaration, of p1 d p2] peek_left(1) [of tok p1 p] by simp

function topLevelLoop :: "translationUnit \<Rightarrow> parser \<Rightarrow> translationUnit \<times> parser" where
  "topLevelLoop tu p =
     (case peekTok p of (tok, p1) \<Rightarrow>
        if tokType tok = TokenEOF then (tu, p1)
        else
          case parseExternalDeclaration p1 of (r, p2) \<Rightarrow>
            (case r of
               Some d \<Rightarrow> topLevelLoop (addExternal d tu) p2
             | None \<Rightarrow>
                 case peekTok p2 of (tok', p3) \<Rightarrow>
                   if tokType tok' = TokenEOF then (tu, p3) else topLevelLoop tu (synchronizeTopLevel p3)))"
  by auto
termination
by (relation "measure (\<lambda>(tu, p). left p)") (auto dest: topLevel_takes topLevel_more)

declare topLevelLoop.simps [simp del]

definition finishError :: "parser \<Rightarrow> parseErrors option" where
  "finishError p =
     (if psFatal p = None \<and> psDiagnostics p = [] then None
      else Some \<lparr>FatalLexer = psFatal p, Diagnostics = psDiagnostics p\<rparr>)"

definition emptyUnit :: translationUnit where
  "emptyUnit = \<lparr>tuFunctions = [], tuDeclarations = [], tuPrototypes = []\<rparr>"

definition ParseTranslationUnit :: "parser \<Rightarrow> (parseErrors + translationUnit) \<times> parser" where
  "ParseTranslationUnit p =
     (case topLevelLoop emptyUnit p of (tu, p1) \<Rightarrow>
        (case finishError p1 of Some err \<Rightarrow> Inl err | None \<Rightarrow> Inr tu, p1))"

definition Parse :: "tokenSource \<Rightarrow> parseErrors + translationUnit" where
  "Parse tokens = fst (ParseTranslationUnit (newParser tokens))"

end
