(* ===== verification/ParserSteps.thy ===== *)
theory ParserSteps
  imports ParserStmt
begin

text \<open>
  The parser changes its state only by looking at a token, taking one and adding a diagnostic. So every
  reflexive and transitive relation between states that these three respect relates the states before
  and after every method: the interface \<open>parser_relation\<close>. Its interpretations say that diagnostics are
  only added, that a fatal error stays, and that a fault of the lexer is not clean over.
\<close>

locale parser_relation =
  fixes step :: "parser \<Rightarrow> parser \<Rightarrow> bool"
  assumes step_refl: "step p p"
    and step_trans: "step p q \<Longrightarrow> step q r \<Longrightarrow> step p r"
    and step_peek: "step p (snd (peekTok p))"
    and step_next: "step p (snd (nextTok p))"
    and step_diagnostic: "step p (addDiagnostic e p)"
begin

definition steps :: "parser \<Rightarrow> 'a parsed \<Rightarrow> bool" where
  "steps p r \<longleftrightarrow> step p (snd r)"

lemma steps_bind: "steps p r \<Longrightarrow> (\<And>x p1. r = (Some x, p1) \<Longrightarrow> steps p1 (f x p1)) \<Longrightarrow> steps p (bindP r f)"
  by (auto simp: steps_def bindP_def split: prod.splits option.splits intro: step_trans)

lemma steps_simple: "steps p (x, p)" "steps p (failWith tok msg p)"
  by (simp_all add: steps_def step_refl step_diagnostic failWith_def)

lemma steps_if: "(b \<Longrightarrow> steps p r) \<Longrightarrow> (\<not> b \<Longrightarrow> steps p r') \<Longrightarrow> steps p (if b then r else r')"
  by simp

lemma steps_let: "(\<And>x. x = v \<Longrightarrow> steps p (f x)) \<Longrightarrow> steps p (let x = v in f x)"
  by simp

lemma steps_peek: "(\<And>tok p1. (tok, p1) = peekTok p \<Longrightarrow> steps p1 (f tok p1)) \<Longrightarrow> steps p (case peekTok p of (tok, p1) \<Rightarrow> f tok p1)"
  using step_peek [of p] by (auto simp: steps_def split: prod.splits intro: step_trans)

lemma steps_next: "(\<And>tok p1. (tok, p1) = nextTok p \<Longrightarrow> steps p1 (f tok p1)) \<Longrightarrow> steps p (case nextTok p of (tok, p1) \<Rightarrow> f tok p1)"
  using step_next [of p] by (auto simp: steps_def split: prod.splits intro: step_trans)

lemma steps_after: "steps (snd (nextTok p)) r \<Longrightarrow> steps p r"
  using step_next [of p] by (auto simp: steps_def intro: step_trans)

lemma step_accept: "step p (snd (accept tt p))"
  using step_peek [of p] step_next [of "snd (peekTok p)"] by (auto simp: accept_def split: prod.splits intro: step_trans)

lemma steps_accept: "(\<And>b p1. (b, p1) = accept tt p \<Longrightarrow> steps p1 (f b p1)) \<Longrightarrow> steps p (case accept tt p of (b, p1) \<Rightarrow> f b p1)"
  using step_accept [of p tt] by (auto simp: steps_def split: prod.splits intro: step_trans)

lemma steps_expect: "steps p (expect tt what p)"
  unfolding expect_def by (intro steps_next steps_if steps_simple)

lemmas steps_intros = steps_bind steps_if steps_let steps_peek steps_next steps_accept steps_expect steps_simple

lemma steps_expectIdent: "steps p (expectIdent what p)" "steps p (expectInteger what p)"
  unfolding expectIdent_def expectInteger_def by (intro steps_intros)+

lemma steps_tail: "steps p (hasDisallowedExprTail p)"
  unfolding hasDisallowedExprTail_def by (intro steps_intros)

lemma steps_typeName: "steps p (parseTypeName p)"
proof -
  have "steps q (skipType tok what q)" for q tok what
    using step_trans [OF step_diagnostic step_next] by (simp add: skipType_def steps_def)
  moreover have "steps q (x, snd (nextTok q))" for q x
    by (rule steps_after, rule steps_simple)
  ultimately show ?thesis unfolding parseTypeName_def by (intro steps_peek steps_if steps_simple)
qed

lemma step_stars: "step p (snd (parseStars n p))"
proof (induction n p rule: parseStars.induct)
  case (1 n p)
  show ?case
    using 1 step_accept [of p TokenStar]
    by (subst parseStars.simps, cases "accept TokenStar p") (auto intro: step_trans)
qed

lemma steps_declarator: "steps p (parseDeclarator what p)"
proof -
  obtain n p1 where s: "parseStars 0 p = (n, p1)" by fastforce
  have "steps p1 (case peekTok p1 of (tok, p2) \<Rightarrow>
        if tokType tok = TokenLParen then
          (case peekTok p2 of (tok', p3) \<Rightarrow> failWith tok' (PUnsupported ''function pointers'') p3)
        else
          bindP (expectIdent what p2) (\<lambda>r p3.
            case peekTok p3 of (tok', p4) \<Rightarrow>
              if tokType tok' = TokenLBracket then
                (case peekTok p4 of (tok'', p5) \<Rightarrow> failWith tok'' (PUnsupported ''arrays'') p5)
              else (Some (fst r, snd r, n), p4)))"
    by (intro steps_intros steps_expectIdent)
  then show ?thesis using step_stars [of p 0] by (auto simp: parseDeclarator_def s steps_def intro: step_trans)
qed

lemma steps_parameters: "steps p (parseParameters params p)"
proof (induction params p rule: parseParameters.induct)
  case (1 params p)
  show ?case
    by (subst parseParameters.simps, unfold Let_def,
        intro steps_bind steps_typeName steps_declarator steps_if steps_accept steps_peek steps_simple)
      (rule 1; (assumption | rule refl))
qed

lemma steps_parameterList: "steps p (parseParameterList p)"
  unfolding parseParameterList_def by (intro steps_intros steps_parameters)

lemma steps_expression:
  "steps p1 (parseExpression m p1)" "steps p2 (infixLoop n lhs p2)" "steps p3 (parseUnaryExpression p3)"
  "steps p4 (parsePostfixExpression p4)" "steps p5 (callLoop f p5)" "steps p6 (parseArguments acc p6)"
  "steps p7 (parsePrimaryExpression p7)"
proof (induction m p1 and n lhs p2 and p3 and p4 and f p5 and acc p6 and p7
    rule: parseExpression_infixLoop_parseUnaryExpression_parsePostfixExpression_callLoop_parseArguments_parsePrimaryExpression.induct)
  case (1 m p)
  show ?case by (subst parseExpression.simps, intro steps_bind) (rule 1; assumption?)+
next
  case (2 m lhs p)
  show ?case
    by (subst infixLoop.simps, intro steps_peek steps_if steps_simple) (rule steps_after, rule steps_bind; rule 2; assumption)+
next
  case (3 p)
  show ?case
    by (subst parseUnaryExpression.simps, intro steps_peek steps_if)
      ((rule steps_after, rule steps_bind, rule 3, assumption+, rule steps_simple) | (rule 3; assumption))+
next
  case (4 p)
  show ?case by (subst parsePostfixExpression.simps, intro steps_bind) (rule 4; assumption?)+
next
  case (5 e p)
  show ?case
    by (subst callLoop.simps, intro steps_accept steps_if steps_bind steps_peek steps_simple steps_expect)
      (rule 5; (assumption | simp))+
next
  case (6 args p)
  show ?case
    by (subst parseArguments.simps, intro steps_bind steps_peek steps_if steps_accept steps_simple) (rule 6; assumption)+
next
  case (7 p)
  show ?case
    by (subst parsePrimaryExpression.simps, intro steps_intros steps_expectIdent) (rule 7; assumption)
qed

lemma steps_whole: "steps p (parseWholeExpression p)"
  unfolding parseWholeExpression_def by (intro steps_intros steps_expression steps_tail)

lemma steps_declaration:
  "steps p (parseInitializer p)" "steps p (parseDeclarationTail tt typ nm name p)" "steps p (parseDeclarationStatement p)"
proof -
  show ini: "steps p (parseInitializer p)" for p
    unfolding parseInitializer_def by (intro steps_intros steps_whole)
  show tail: "steps p (parseDeclarationTail tt ty nm name p)" for p tt ty nm name
    unfolding parseDeclarationTail_def by (intro steps_intros ini)
  show "steps p (parseDeclarationStatement p)"
    unfolding parseDeclarationStatement_def by (intro steps_intros steps_typeName steps_declarator tail)
qed

lemma steps_heads:
  "steps p (parseReturnStatement p)" "steps p (parseExpressionStatement p)" "steps p (parseHead tt what p)"
  "steps p (parseForInit p)" "steps p (parseForCond p)" "steps p (parseForPost p)" "steps p (parseForHead p)"
proof -
  show "steps p (parseReturnStatement p)" "steps p (parseExpressionStatement p)" "steps p (parseHead tt what p)"
    unfolding parseReturnStatement_def parseExpressionStatement_def parseHead_def by (intro steps_intros steps_whole)+
  show ini: "steps p (parseForInit p)" and cond: "steps p (parseForCond p)" and post: "steps p (parseForPost p)" for p
    unfolding parseForInit_def parseForCond_def parseForPost_def by (intro steps_intros steps_whole steps_declaration)+
  show "steps p (parseForHead p)"
    unfolding parseForHead_def by (intro steps_intros ini cond post)
qed

lemma step_synchronize: "step p (synchronizeStatement p)"
proof (induction p rule: synchronizeStatement.induct)
  case (1 p)
  obtain tok p1 where k: "peekTok p = (tok, p1)" by fastforce
  show ?case
    using step_peek [of p] step_next [of p1] 1 [OF k [symmetric]] k
    by (subst synchronizeStatement.simps) (auto intro: step_trans)
qed

lemma step_synchronizeTop: "step p (synchronizeTopLevel p)"
proof (induction p rule: synchronizeTopLevel.induct)
  case (1 p)
  obtain tok p1 where k: "peekTok p = (tok, p1)" by fastforce
  show ?case
    using step_peek [of p] step_next [of p1] 1 [OF k [symmetric]] k
    by (subst synchronizeTopLevel.simps) (auto intro: step_trans)
qed

lemma steps_synchronize: "steps (synchronizeStatement p) r \<Longrightarrow> steps p r"
  using step_synchronize [of p] by (auto simp: steps_def intro: step_trans)

lemma steps_case:
  "steps p r \<Longrightarrow> (\<And>p1. r = (None, p1) \<Longrightarrow> steps p1 (f p1)) \<Longrightarrow> (\<And>x p1. r = (Some x, p1) \<Longrightarrow> steps p1 (g x p1)) \<Longrightarrow>
     steps p (case r of (y, p1) \<Rightarrow> (case y of None \<Rightarrow> f p1 | Some x \<Rightarrow> g x p1))"
  by (auto simp: steps_def split: prod.splits option.splits intro: step_trans)

lemma steps_statement:
  "steps p1 (parseStatement p1)" "steps p2 (parseIfStatement p2)" "steps p3 (parseWhileStatement p3)"
  "steps p4 (parseForStatement p4)" "steps p5 (parseBlockStatement p5)" "steps p6 (blockLoop lb acc p6)"
proof (induction p1 and p2 and p3 and p4 and p5 and lb acc p6
    rule: parseStatement_parseIfStatement_parseWhileStatement_parseForStatement_parseBlockStatement_blockLoop.induct)
  case (1 p)
  show ?case
    by (subst parseStatement.simps, intro steps_peek steps_if steps_simple steps_heads steps_declaration)
      ((rule steps_bind, rule 1, assumption+, rule steps_simple) | (rule 1; assumption))+
next
  case (2 p)
  show ?case
    by (subst parseIfStatement.simps, intro steps_bind steps_heads steps_accept steps_if steps_simple) (rule 2; assumption)+
next
  case (3 p)
  show ?case
    by (subst parseWhileStatement.simps, intro steps_bind steps_heads steps_simple) (rule 3; assumption)+
next
  case (4 p)
  show ?case
    by (subst parseForStatement.simps, intro steps_bind steps_heads steps_simple) (rule 4; assumption)+
next
  case (5 p)
  show ?case by (subst parseBlockStatement.simps, intro steps_bind steps_expect) (rule 5; assumption)+
next
  case (6 lb acc p)
  show ?case
  proof (subst blockLoop.simps, intro steps_peek steps_if steps_simple)
    fix tok p1
    show "steps p1 (Some (lb, acc), snd (nextTok p1))" by (rule steps_after, rule steps_simple)
  next
    fix tok p1
    assume k: "(tok, p1) = peekTok p" "tokType tok \<noteq> TokenEOF" "tokType tok \<noteq> TokenRBrace"
    note ih = 6 [OF k]
    show "steps p1 (case parseStatement p1 of (r, p2) \<Rightarrow>
       (case r of None \<Rightarrow> blockLoop lb acc (synchronizeStatement p2) | Some s \<Rightarrow> blockLoop lb (acc @ [s]) p2))"
      using ih(2,3) by (intro steps_case ih(1)) (auto intro: steps_synchronize)
  qed
qed

lemma steps_external: "steps p (parseExternalDeclaration p)"
proof -
  have "steps q (parseFunctionTail tt ty name q)" for q tt ty name
    unfolding parseFunctionTail_def by (intro steps_intros steps_parameterList steps_statement)
  then show ?thesis
    unfolding parseExternalDeclaration_def by (intro steps_intros steps_typeName steps_declarator steps_declaration)
qed

text \<open>The loop over the declarations ends when it looks at a token and sees the end.\<close>

lemma topLevel_ends:
  "\<exists>q. step p q \<and> tokType (fst (peekTok q)) = TokenEOF \<and> snd (peekTok q) = snd (topLevelLoop tu p)"
proof (induction tu p rule: topLevelLoop.induct)
  case (1 tu p)
  obtain tok p1 r p2 tok' p3 where k: "peekTok p = (tok, p1)" "parseExternalDeclaration p1 = (r, p2)" "peekTok p2 = (tok', p3)"
    by (meson surj_pair)
  have p: "step p p2" "step p p3"
    using step_peek [of p] step_peek [of p2] steps_external [of p1] k by (auto simp: steps_def intro: step_trans)
  have sync: "step p (synchronizeTopLevel p3)" using p(2) step_synchronizeTop by (rule step_trans)
  consider (eof) "tokType tok = TokenEOF" | (more) d where "tokType tok \<noteq> TokenEOF" "r = Some d"
    | (failed) "tokType tok \<noteq> TokenEOF" "r = None" "tokType tok' = TokenEOF"
    | (again) "tokType tok \<noteq> TokenEOF" "r = None" "tokType tok' \<noteq> TokenEOF" by (cases r) auto
  then show ?case
  proof cases
    case eof
    then show ?thesis using step_refl k by (subst topLevelLoop.simps) (auto intro: exI [of _ p])
  next
    case more
    then show ?thesis using 1(2) [OF k(1) [symmetric] _ k(2) [symmetric]] k p(1)
      by (subst topLevelLoop.simps) (auto intro: step_trans)
  next
    case failed
    then show ?thesis using k p(1) by (subst topLevelLoop.simps) (auto intro: exI [of _ p2])
  next
    case again
    then show ?thesis using 1(1) [OF k(1) [symmetric] _ k(2) [symmetric] _ k(3) [symmetric]] k sync
      by (subst topLevelLoop.simps) (auto intro: step_trans)
  qed
qed

lemma unit_ends:
  "\<exists>q. step p q \<and> tokType (fst (peekTok q)) = TokenEOF \<and> snd (peekTok q) = snd (ParseTranslationUnit p)"
  using topLevel_ends [of p emptyUnit] by (cases "topLevelLoop emptyUnit p") (simp add: ParseTranslationUnit_def)

lemma step_unit: "step p (snd (ParseTranslationUnit p))"
  using unit_ends [of p] step_peek by (metis step_trans)

end

section \<open>Diagnostics and faults\<close>

text \<open>Diagnostics are only added, at the end; the first fatal error stays.\<close>

definition reported :: "parser \<Rightarrow> parser \<Rightarrow> bool" where
  "reported p q \<longleftrightarrow> prefix (psDiagnostics p) (psDiagnostics q) \<and> (psFatal p \<noteq> None \<longrightarrow> psFatal q = psFatal p)"

lemma reported_token:
  "reported p (snd (normalizeToken r p))" "reported p (rememberLast tok p)" "reported p (p\<lparr>psTokens := ts\<rparr>)"
  by (auto simp: reported_def normalizeToken_def rememberLast_def setFatal_def split: sum.splits)

lemma reported_trans: "reported p q \<Longrightarrow> reported q r \<Longrightarrow> reported p r"
  by (auto simp: reported_def)

lemma normalized_reported: "reported p (rememberLast tok (snd (normalizeToken r (p\<lparr>psTokens := ts\<rparr>))))"
  using reported_trans [OF reported_token(3) reported_trans [OF reported_token(1) reported_token(2)]] .

interpretation reporting: parser_relation reported
proof
  show "reported p (snd (peekTok p))" "reported p (snd (nextTok p))" for p
    using normalized_reported [of p] by (auto simp: peekTok_def nextTok_def split: prod.split) (metis snd_conv)+
qed (auto simp: reported_def addDiagnostic_def)

text \<open>\<open>clean\<close>: tokens that are passed on as they are.\<close>

definition clean :: "token list \<Rightarrow> bool" where
  "clean ts \<longleftrightarrow> (\<forall>t \<in> set ts. tokType t \<noteq> tokenNil \<and> tokType t \<noteq> TokenEOF \<and> tokType t \<noteq> TokenError)"

lemma clean_simps [simp]:
  "clean []" "clean (t # ts) \<longleftrightarrow> tokType t \<noteq> tokenNil \<and> tokType t \<noteq> TokenEOF \<and> tokType t \<noteq> TokenError \<and> clean ts"
  "clean (ts @ us) \<longleftrightarrow> clean ts \<and> clean us"
  by (auto simp: clean_def)

text \<open>
  \<open>faultOf r\<close>: what a result of the lexer that is neither a token nor the end is reported as. \<open>facing r p\<close>:
  the parser \<open>p\<close> has reported it, or it is still ahead with nothing but tokens before it.
\<close>

fun faultOf :: "lexErr + token \<Rightarrow> fatalError option" where
  "faultOf (Inl e) = (if e = ReadError IoEOF then None else Some (FatalLex e))"
| "faultOf (Inr t) = (if tokType t = TokenError then Some (FatalToken (tokRaw t)) else None)"

definition facing :: "lexErr + token \<Rightarrow> fatalError \<Rightarrow> parser \<Rightarrow> bool" where
  "facing r e p \<longleftrightarrow> faultOf r = Some e \<and>
     (psFatal p = Some e \<or> (psFatal p = None \<and> (\<exists>ts rest. psTokens p = map Inr ts @ r # rest \<and> clean ts)))"

lemma facing_peek:
  assumes "facing r e p"
  shows "facing r e (snd (peekTok p))" "tokType (fst (peekTok p)) = TokenEOF \<Longrightarrow> psFatal (snd (peekTok p)) = Some e"
proof -
  have "facing r e (snd (peekTok p)) \<and> (tokType (fst (peekTok p)) = TokenEOF \<longrightarrow> psFatal (snd (peekTok p)) = Some e)"
  proof (cases "psFatal p")
    case (Some e')
    then show ?thesis using assms reporting.step_peek [of p] by (auto simp: facing_def reported_def)
  next
    case None
    then obtain ts rest where t: "psTokens p = map Inr ts @ r # rest" "clean ts" "faultOf r = Some e"
      using assms by (auto simp: facing_def)
    show ?thesis
    proof (cases ts)
      case Nil
      then show ?thesis using t None
        by (cases r) (auto simp: facing_def peekTok_def normalizeToken_def rememberLast_def setFatal_def tokenNil_def
            TokenError_def split: if_splits)
    next
      case (Cons u us)
      then have "peekTok p = (u, p\<lparr>psLast := u\<rparr>)"
        using t by (simp add: peekTok_def normalizeToken_def rememberLast_def tokenNil_def)
      then show ?thesis using assms None t Cons by (simp add: facing_def)
    qed
  qed
  then show "facing r e (snd (peekTok p))" "tokType (fst (peekTok p)) = TokenEOF \<Longrightarrow> psFatal (snd (peekTok p)) = Some e"
    by auto
qed

lemma facing_next:
  assumes "facing r e p"
  shows "facing r e (snd (nextTok p))"
proof (cases "psFatal p")
  case (Some e')
  then show ?thesis using assms reporting.step_next [of p] by (auto simp: facing_def reported_def)
next
  case None
  then obtain ts rest where t: "psTokens p = map Inr ts @ r # rest" "clean ts" "faultOf r = Some e"
    using assms by (auto simp: facing_def)
  show ?thesis
  proof (cases ts)
    case Nil
    then show ?thesis using t None
      by (cases r) (auto simp: facing_def nextTok_def normalizeToken_def rememberLast_def setFatal_def split: if_splits)
  next
    case (Cons u us)
    then have "nextTok p = (u, p\<lparr>psTokens := map Inr us @ r # rest, psLast := u\<rparr>)"
      using t by (simp add: nextTok_def normalizeToken_def rememberLast_def tokenNil_def)
    then show ?thesis using t None Cons by (auto simp: facing_def)
  qed
qed

interpretation fault_ahead: parser_relation "\<lambda>p q. facing r e p \<longrightarrow> facing r e q" for r e
  by unfold_locales (auto simp: facing_peek facing_next, simp add: facing_def addDiagnostic_def)

lemma Parse_fault:
  assumes "clean ts" "faultOf r = Some e"
  shows "\<exists>ds. Parse (map Inr ts @ r # rest) = Inl \<lparr>FatalLexer = Some e, Diagnostics = ds\<rparr>"
proof -
  let ?p = "newParser (map Inr ts @ r # rest)"
  have "facing r e ?p" using assms by (auto simp: facing_def newParser_def)
  then have "psFatal (snd (ParseTranslationUnit ?p)) = Some e"
    using fault_ahead.unit_ends [of r e ?p] facing_peek(2) by metis
  then show ?thesis by (auto simp: Parse_def ParseTranslationUnit_def finishError_def split: prod.splits)
qed

end
