(* ===== verification/LexerTokens.thy ===== *)
theory LexerTokens
  imports LexerStream ParserSteps
begin

text \<open>
  What the tokens of the lexer are: never the zero token, the end or an error, and an identifier has a name.
\<close>

section \<open>The results of the lexers\<close>

definition delivers :: "('a \<Rightarrow> bool) \<Rightarrow> ('s, 'a) step \<Rightarrow> bool" where
  "delivers P r \<longleftrightarrow> (\<forall>x s. r = (Inr x, s) \<longrightarrow> P x)"

lemma delivers_simps [simp]: "delivers P (Inr x, s) \<longleftrightarrow> P x" "delivers P (Inl e, s)"
  by (auto simp: delivers_def)

lemma delivers_bind: "(\<And>x s. r = (Inr x, s) \<Longrightarrow> delivers P (f x s)) \<Longrightarrow> delivers P (bindS r f)"
  by (auto simp: delivers_def bindS_def split: prod.splits sum.splits)

lemma delivers_if: "(b \<Longrightarrow> delivers P r) \<Longrightarrow> (\<not> b \<Longrightarrow> delivers P r') \<Longrightarrow> delivers P (if b then r else r')"
  by simp

lemma delivers_pair: "(\<And>x y. p = (x, y) \<Longrightarrow> delivers P (f x y)) \<Longrightarrow> delivers P (case p of (x, y) \<Rightarrow> f x y)"
  by (cases p) simp

lemmas delivers_intros = delivers_bind delivers_if delivers_pair

text \<open>Token types of tokens other than identifiers.\<close>

definition plainType :: "tokenType \<Rightarrow> bool" where
  "plainType tt \<longleftrightarrow> tokenNil < tt \<and> tt < TokenEOF \<and> tt \<noteq> TokenIdentifier"

lemma plain_types [simp]:
  "plainType tokenWhitespace" "plainType tokenDots" "plainType TokenIntegerConstant" "plainType TokenStringLiteral"
  "plainType TokenCharacterConstant" "plainType TokenShiftLeftAssign" "plainType TokenShiftRightAssign"
  by (simp_all add: plainType_def token_types)

lemma tableGet_in: "tableGet t c \<noteq> tokenNil \<Longrightarrow> tableGet t c \<in> snd ` set t"
  by (auto simp: tableGet_def split: option.splits dest!: map_of_SomeD intro: rev_image_eqI)

lemma tables_plain:
  "\<forall>tt \<in> snd ` set punctuationCharEqualLexTable. plainType tt"
  "\<forall>tt \<in> snd ` set punctuation1CharLexTable. plainType tt"
  "\<forall>t \<in> snd ` set punctuation2CharLexTable. \<forall>tt \<in> snd ` set t. plainType tt"
  by (simp_all add: punctuationCharEqualLexTable_def punctuation1CharLexTable_def punctuation2CharLexTable_def plainType_def token_types)

lemma tableGet_plain:
  "tableGet punctuationCharEqualLexTable c \<noteq> tokenNil \<Longrightarrow> plainType (tableGet punctuationCharEqualLexTable c)"
  "tableGet punctuation1CharLexTable c \<noteq> tokenNil \<Longrightarrow> plainType (tableGet punctuation1CharLexTable c)"
  using tableGet_in tables_plain by blast+

lemma tableGet2_plain: "tableGet2 c d \<noteq> tokenNil \<Longrightarrow> plainType (tableGet2 c d)"
proof (cases "map_of punctuation2CharLexTable c")
  case (Some t)
  assume "tableGet2 c d \<noteq> tokenNil"
  then have "tableGet2 c d \<in> snd ` set t" using Some tableGet_in by (simp add: tableGet2_def)
  then show ?thesis using tables_plain(3) map_of_SomeD [OF Some] by force
qed (simp add: tableGet2_def)

lemma delivers_small:
  "delivers plainType (lexWhiteSpace s)" "delivers plainType (lexOneChar a b s)" "delivers plainType (lexDecimalFloat s)"
  "delivers plainType (lexHexedecimalFloat s)" "delivers plainType (lexCommentMultiLine s)" "plainType tt \<Longrightarrow> delivers plainType (lexShift tt s)"
  "delivers plainType (finishInteger s)"
proof -
  show "delivers plainType (lexWhiteSpace s)" "delivers plainType (finishInteger s)"
    unfolding lexWhiteSpace_def finishInteger_def by (rule delivers_bind, simp)+
  show "delivers plainType (lexOneChar a b s)" by (simp add: lexOneChar_def Let_def tableGet_plain)
  show "plainType tt \<Longrightarrow> delivers plainType (lexShift tt s)"
    unfolding lexShift_def by (intro delivers_intros) simp_all
qed (simp_all add: lexDecimalFloat_def lexHexedecimalFloat_def lexCommentMultiLine_def)

lemma delivers_dots: "delivers plainType (lexDots s)"
proof (induction s rule: lexDots.induct)
  case (1 s)
  show ?case by (subst lexDots.simps, intro delivers_intros) (use 1 in auto)
qed

lemma delivers_decimal: "delivers plainType (lexDecimalInteger s)"
proof (induction s rule: lexDecimalInteger.induct)
  case (1 s)
  show ?case by (subst lexDecimalInteger.simps, intro delivers_intros delivers_small) (use 1 in auto)
qed

lemma delivers_octal: "delivers plainType (lexOctalConstant s)"
proof (induction s rule: lexOctalConstant.induct)
  case (1 s)
  show ?case by (subst lexOctalConstant.simps, intro delivers_intros delivers_small) (use 1 in auto)
qed

lemma delivers_hexadecimal: "delivers plainType (lexHexadecimalConstant b s)"
proof (induction b s rule: lexHexadecimalConstant.induct)
  case (1 b s)
  show ?case by (subst lexHexadecimalConstant.simps, intro delivers_intros delivers_small) (use 1 in auto)
qed

lemma delivers_zero: "delivers plainType (lexOctalOrHexadecimalConstant s)"
  unfolding lexOctalOrHexadecimalConstant_def
  by (rule delivers_bind)
    (auto intro!: delivers_bind simp: delivers_hexadecimal delivers_octal split: prod.split sum.split)

lemma delivers_string: "delivers plainType (lexStringLiteral s)"
proof (induction s rule: lexStringLiteral.induct)
  case (1 s)
  show ?case by (subst lexStringLiteral.simps, intro delivers_intros) (use 1 in auto)
qed

lemma delivers_character: "delivers plainType (lexCharacterConstant s)"
proof (induction s rule: lexCharacterConstant.induct)
  case (1 s)
  show ?case by (subst lexCharacterConstant.simps, intro delivers_intros) (use 1 in auto)
qed

section \<open>Identifiers have names\<close>

interpretation acc_kept: scanning "\<lambda>s t :: 'z lexState_scheme. prefix (lsAcc s) (lsAcc t)"
proof
  fix s :: "'z lexState_scheme" and cls data
  show "prefix (lsAcc s) (lsAcc (snd (popOneFromBuffer s)))"
    by (auto simp: popOneFromBuffer_def Let_def)
  have f: "lsAcc (snd (fillBuffer s)) = lsAcc s"
    by (auto simp: fillBuffer_def Let_def split: option.splits prod.splits)
  then show "prefix (lsAcc s) (lsAcc (snd (fillBuffer s)))" by simp
  show "prefix (lsAcc s) (lsAcc (snd (readBytesInClass cls s)))"
    using f by (auto simp: readBytesInClass_def bindS_def Let_def split: prod.splits sum.splits)
qed (auto simp: build_def)

lemma identifier_named:
  assumes "pending s = b # xs" "alphaByteClass b" "lexIdentifier s = (Inr tt, s')"
  shows "tt = TokenIdentifier \<and> lsAcc s' \<noteq> []"
proof -
  have cls: "alphaDigitByteClass b" using assms(2) by (simp add: alphaDigitByteClass_def byteClassCombine_def)
  have r: "remaining s \<noteq> 0" using assms(1) by (metis list.distinct(1) pending_Nil)
  define data where "data = takeWhile alphaDigitByteClass (pending s)"
  have d: "data \<noteq> []" using assms(1) cls by (simp add: data_def)
  obtain p s1 where c: "readBytesInClass alphaDigitByteClass s = (Inr (data, p), s1)"
    using r d by (simp add: readBytesInClass_def Let_def data_def)
  have l: "lexIdentifier s = (if \<not> p then (Inr TokenIdentifier, build data s1) else lexIdentifier (build data s1))"
    using c by (subst lexIdentifier.simps) simp
  have n: "lsAcc (build data s1) \<noteq> []" using d by (simp add: build_def)
  have t: "delivers (\<lambda>tt. tt = TokenIdentifier) (lexIdentifier u)" for u :: "'a lexState_scheme"
  proof (induction u rule: lexIdentifier.induct)
    case (1 u)
    show ?case by (subst lexIdentifier.simps, intro delivers_intros) (use 1 in auto)
  qed
  have "prefix (lsAcc (build data s1)) (lsAcc (snd (lexIdentifier (build data s1))))"
    using acc_kept.steps_identifier [of "build data s1"] by (simp add: acc_kept.steps_def)
  then show ?thesis using assms(3) l n t [of "build data s1"] by (auto simp: delivers_def split: if_splits)
qed

definition named :: "('z lexState_scheme, tokenType) step \<Rightarrow> bool" where
  "named r \<longleftrightarrow> (\<forall>tt s. r = (Inr tt, s) \<longrightarrow> plainType tt \<or> (tt = TokenIdentifier \<and> lsAcc s \<noteq> []))"

lemma named_plain: "delivers plainType r \<Longrightarrow> named r"
  by (auto simp: delivers_def named_def)

lemma named_bind: "(\<And>x s. r = (Inr x, s) \<Longrightarrow> named (f x s)) \<Longrightarrow> named (bindS r f)"
  by (auto simp: named_def bindS_def split: prod.splits sum.splits)

lemma named_if: "(b \<Longrightarrow> named r) \<Longrightarrow> (\<not> b \<Longrightarrow> named r') \<Longrightarrow> named (if b then r else r')"
  by simp

lemma named_pair: "(\<And>x y. p = (x, y) \<Longrightarrow> named (f x y)) \<Longrightarrow> named (case p of (x, y) \<Rightarrow> f x y)"
  by (cases p) simp

lemmas named_intros = named_bind named_if named_pair

lemma lex_named:
  fixes s t u :: "'z lexState_scheme"
  shows "named (lexCommentSingleLine s)" "named (lexPunctuation t)" "named (lex u)"
proof (induction s and t and u rule: lexCommentSingleLine_lexPunctuation_lex.induct)
  case (1 s)
  show ?case by (subst lexCommentSingleLine.simps, intro named_intros) ((rule 1; (assumption | rule sym, assumption))+)
next
  case (2 s)
  have plain: "named (Inr tt, v)" "named (lexShift tt v)" if "plainType tt" for tt and v :: "'z lexState_scheme"
    using that delivers_small(6) [OF that] by (auto intro: named_plain)
  have small: "named (lexOneChar c d v)" "named (lexCommentMultiLine v)" for c d and v :: "'z lexState_scheme"
    by (rule named_plain, rule delivers_small)+
  show ?case
    by (subst lexPunctuation.simps, intro named_bind named_if small plain tableGet_plain tableGet2_plain)
      (erule conjunct2, (rule 2; (assumption | rule sym, assumption)), assumption+)
next
  case (3 s)
  show ?case
  proof (subst lex.simps, rule named_bind)
    fix b and s1 :: "'z lexState_scheme"
    assume k: "peekOne s = (Inr b, s1)"
    then obtain xs where xs: "pending s1 = b # xs" using peekOne_pending by blast
    have i: "named (lexIdentifier s1)" if "alphaByteClass b"
      using identifier_named [OF xs that] by (auto simp: named_def)
    have q: "named (bindS (sendCurrent s1) (\<lambda>_ s2. lexCharacterConstant s2))" "named (bindS (sendCurrent s1) (\<lambda>_ s2. lexStringLiteral s2))"
      by (rule named_plain, rule delivers_bind, rule delivers_string delivers_character)+
    have p: "named (lexPunctuation s1)" if "\<not> whiteByteClass b" "\<not> alphaByteClass b" "b \<noteq> CHR ''0''" "\<not> digitByteClass b" "b \<noteq> quote"
      "b \<noteq> dquote" "b \<noteq> CHR ''.''" using 3 [OF k that] .
    show "named
      (if whiteByteClass b then lexWhiteSpace s1
       else if alphaByteClass b then lexIdentifier s1
       else if b = CHR ''0'' then lexOctalOrHexadecimalConstant s1
       else if digitByteClass b then lexDecimalInteger s1
       else if b = quote then bindS (sendCurrent s1) (\<lambda>_ s2. lexCharacterConstant s2)
       else if b = dquote then bindS (sendCurrent s1) (\<lambda>_ s2. lexStringLiteral s2)
       else if b = CHR ''.'' then lexDots s1
       else lexPunctuation s1)"
      by (intro named_if i q p named_plain delivers_small delivers_zero delivers_decimal delivers_dots)
  qed
qed

section \<open>Good tokens\<close>

definition goodToken :: "token \<Rightarrow> bool" where
  "goodToken t \<longleftrightarrow> plainType (tokType t) \<or> (tokType t = TokenIdentifier \<and> tokRaw t \<noteq> [])"

definition goodTokens :: "preprocesor \<Rightarrow> bool" where
  "goodTokens p \<longleftrightarrow> list_all goodToken (ppReady p) \<and> (\<forall>n b. ppMacros p n = Some b \<longrightarrow> list_all goodToken b)"

text \<open>The result is a good token and the state stays good tokens; after the end none is ready.\<close>

definition stays :: "(preprocesor, token) step \<Rightarrow> bool" where
  "stays r \<longleftrightarrow> goodTokens (snd r) \<and> (\<forall>t. fst r = Inr t \<longrightarrow> goodToken t) \<and> (fst r = Inl (ReadError IoEOF) \<longrightarrow> ppReady (snd r) = [])"

lemma goodTokens_more: "goodTokens p \<Longrightarrow> ppReady q = ppReady p \<Longrightarrow> ppMacros q = ppMacros p \<Longrightarrow> goodTokens q"
  by (simp add: goodTokens_def)

lemma ppLex_good:
  assumes "goodTokens p" "ppLex p = (r, p1)"
  shows "goodTokens p1" "r = Inr tt \<Longrightarrow> plainType tt \<or> (tt = TokenIdentifier \<and> lsAcc p1 \<noteq> [])" "ppReady p1 = ppReady p"
proof -
  have "lexState.more (snd (lex (marked p))) = lexState.more (marked p)"
    using context_kept.steps_lex(3) [of "marked p"] by (simp add: context_kept.steps_def)
  then have m: "ppReady p1 = ppReady p" "ppMacros p1 = ppMacros p"
    using more_loose(1,2) [of p1 "marked p"] assms(2) by (simp_all add: ppLex_marked)
  show "goodTokens p1" "ppReady p1 = ppReady p" using m assms(1) by (auto intro: goodTokens_more)
  show "r = Inr tt \<Longrightarrow> plainType tt \<or> (tt = TokenIdentifier \<and> lsAcc p1 \<noteq> [])"
    using lex_named(3) [of "marked p"] assms(2) by (simp add: ppLex_marked named_def)
qed

lemma stays_bind:
  "stays r \<Longrightarrow> (\<And>t p. r = (Inr t, p) \<Longrightarrow> goodTokens p \<Longrightarrow> goodToken t \<Longrightarrow> stays (f (t, tokLine t = ppLine p) p)) \<Longrightarrow>
     stays (bindS (nextPPToken r) f)"
  by (cases r; cases "fst r") (auto simp: stays_def nextPPToken_def)

lemma stays_error: "goodTokens p \<Longrightarrow> (\<And>l c. e l c \<noteq> ReadError IoEOF) \<Longrightarrow> stays (errorAt e p)"
  by (simp add: errorAt_def stays_def)

lemma stays_if: "(b \<Longrightarrow> stays r) \<Longrightarrow> (\<not> b \<Longrightarrow> stays r') \<Longrightarrow> stays (if b then r else r')"
  by simp

lemma stays_emit:
  "goodTokens p \<Longrightarrow> plainType tt \<or> (tt = TokenIdentifier \<and> lsAcc p \<noteq> []) \<Longrightarrow> stays (emitToken tt p)"
  by (simp add: emitToken_def makeToken_def stays_def goodTokens_def goodToken_def)

lemma keyword_plain: "keywordType s = TokenIdentifier \<or> plainType (keywordType s)"
proof (cases "map_of keywordTable s")
  case (Some tt)
  have "\<forall>tt \<in> snd ` set keywordTable. plainType tt" by (simp add: keywordTable_def plainType_def token_types)
  then show ?thesis using Some map_of_SomeD [OF Some] by (force simp: keywordType_def)
qed (simp add: keywordType_def)

lemma stays_pp:
  "goodTokens p1 \<Longrightarrow> stays (ppNext p1)"
  "goodTokens p2 \<Longrightarrow> lsAcc p2 \<noteq> [] \<Longrightarrow> ppReady p2 = [] \<Longrightarrow> stays (handleKeywordOrSubsitution p2)"
  "goodTokens p3 \<Longrightarrow> list_all goodToken ts \<Longrightarrow> stays (handleSubstitution ts p3)"
  "goodTokens p4 \<Longrightarrow> stays (handleDirective p4)"
  "goodTokens p5 \<Longrightarrow> stays (handleDefineName p5)"
  "goodTokens p6 \<Longrightarrow> list_all goodToken body \<Longrightarrow> stays (defineBody name body p6)"
proof (induction p1 and p2 and ts p3 and p4 and p5 and name body p6
    rule: ppNext_handleKeywordOrSubsitution_handleSubstitution_handleDirective_handleDefineName_defineBody.induct)
  case (1 p)
  show ?case
  proof (cases "popFromReady p")
    case (Some r)
    then show ?thesis using 1(4)
      by (subst ppNext.simps) (auto simp: stays_def goodTokens_def popFromReady_def split: list.splits)
  next
    case None
    then have rd: "ppReady p = []" by (auto simp: popFromReady_def split: list.splits)
    obtain r p1 where l: "ppLex p = (r, p1)" by fastforce
    note g = ppLex_good [OF 1(4) l]
    show ?thesis
    proof (cases r)
      case (Inl e)
      then show ?thesis using g rd l by (subst ppNext.simps) (simp add: None stays_def)
    next
      case (Inr tt)
      note ih = 1(1-3) [OF None l [unfolded Inr]]
      have "stays (if tt = tokenWhitespace then ppNext p1
            else if tt = TokenIdentifier then handleKeywordOrSubsitution p1
            else if tt = tokenDots then handleDots p1
            else if tt = tokenPreprocStart then
              (if ppLastSeenLine p1 \<ge> ppTokLine p1 then errorAt DirectiveNotOnLineStart p1 else handleDirective p1)
            else emitToken tt p1)"
      proof (intro stays_if stays_error g(1))
        assume "tt = TokenIdentifier" "tt \<noteq> tokenWhitespace"
        then show "stays (handleKeywordOrSubsitution p1)"
          using ih(2) g(1) g(2) [OF Inr] g(3) rd by (simp add: plainType_def)
      next
        show "stays (handleDots p1)"
          unfolding handleDots_def by (intro stays_if stays_error stays_emit g(1)) (simp_all add: plainType_def token_types)
      next
        show "stays (emitToken tt p1)" by (rule stays_emit [OF g(1) g(2) [OF Inr]])
      qed (use ih g(1) in simp_all)
      then show ?thesis using Inr l by (subst ppNext.simps) (simp add: None)
    qed
  qed
next
  case (2 p)
  show ?case
  proof (cases "ppMacros p (lsAcc p)")
    case None
    then show ?thesis using 2(2,3) keyword_plain [of "lsAcc p"]
      by (subst handleKeywordOrSubsitution.simps) (auto intro: stays_emit)
  next
    case (Some b)
    then show ?thesis using 2(1) [OF Some] 2(2) by (subst handleKeywordOrSubsitution.simps) (simp add: goodTokens_def)
  qed
next
  case (3 ts p)
  then show ?case
    by (subst handleSubstitution.simps) (auto simp: stays_def goodTokens_def split: list.split)
next
  case (4 p)
  have "goodTokens (p\<lparr>ppLine := scLine p\<rparr>)" using 4(3) by (simp add: goodTokens_def)
  note n = 4(1) [OF this]
  show ?case
    by (subst handleDirective.simps, rule stays_bind [OF n], intro stays_if stays_error) (auto intro!: 4(2) simp: nextPPToken_def)
next
  case (5 p)
  show ?case
  proof (subst handleDefineName.simps, rule stays_bind [OF 5(1) [OF 5(3)]], intro stays_if stays_error)
    fix t q
    assume n: "ppNext p = (Inr t, q)" and g: "goodTokens q"
      and c: "\<not> (\<not> snd (t, tokLine t = ppLine q) \<or> tokType (fst (t, tokLine t = ppLine q)) \<noteq> TokenIdentifier)"
    have "nextPPToken (ppNext p) = (Inr (t, tokLine t = ppLine q), q)" using n by (simp add: nextPPToken_def)
    from 5(2) [OF this c g] show "stays (defineBody (tokRaw (fst (t, tokLine t = ppLine q))) [] q)" by simp
  qed simp_all
next
  case (6 name body p)
  show ?case
  proof (subst defineBody.simps, rule stays_bind [OF 6(1) [OF 6(3)]], intro stays_if)
    fix t q
    assume n: "ppNext p = (Inr t, q)" and g: "goodTokens q" "goodToken t"
    then show "stays (Inr (fst (t, tokLine t = ppLine q)), setMacro name body q)"
      using 6(4) by (simp add: stays_def goodTokens_def setMacro_def)
    assume c: "\<not> \<not> snd (t, tokLine t = ppLine q)"
    have "nextPPToken (ppNext p) = (Inr (t, tokLine t = ppLine q), q)" using n by (simp add: nextPPToken_def)
    from 6(2) [OF this c g(1)] show "stays (defineBody name (body @ [fst (t, tokLine t = ppLine q)]) q)"
      using 6(4) g(2) by simp
  qed
qed

section \<open>A lexer on a steady reader\<close>

lemma goodToken_clean: "list_all goodToken ts \<Longrightarrow> clean ts"
  by (induction ts) (auto simp: goodToken_def plainType_def token_types)

text \<open>The results are good tokens and errors other than the end.\<close>

definition goodResult :: "lexErr + token \<Rightarrow> bool" where
  "goodResult r \<longleftrightarrow> (case r of Inl e \<Rightarrow> e \<noteq> ReadError IoEOF | Inr t \<Rightarrow> goodToken t)"

lemma lexAll_good: "calm p \<Longrightarrow> goodTokens p \<Longrightarrow> list_all goodResult (lexAll p)"
proof (induction p rule: lexAll.induct)
  case (1 p)
  obtain r p1 where n: "ppNext p = (r, p1)" by fastforce
  have "sim p p" using 1(2) by (simp add: sim_def)
  then have a: "agree (r, p1) (r, p1)" using agree_pp(1) [of p] n by (auto simp: psim_def)
  have k: "stays (r, p1)" using stays_pp(1) [OF 1(3)] n by simp
  have f: "finished p1" if "r = Inl (ReadError IoEOF)"
    using a k that by (simp add: agree_def stays_def finished_def)
  have "list_all goodResult (lexAll p1)" if "\<not> (r = Inl (ReadError IoEOF) \<and> finished p1)"
    using 1(1) [OF n [symmetric] that] a k by (simp add: agree_def sim_def stays_def)
  moreover have "goodResult r" if "\<not> (r = Inl (ReadError IoEOF) \<and> finished p1)"
    using f k that by (auto simp: goodResult_def stays_def split: sum.split)
  ultimately show ?case by (subst lexAll.simps) (simp add: n)
qed

lemma outcomes_good:
  assumes "steady r"
  shows "list_all goodResult (outcomes (NewLexer r))"
proof -
  have "sim (lxP (NewLexer r)) (lxP (NewLexer r))"
    using assms buffer_size by (simp add: NewLexer_def sim_def calm_def newPreprocesor_def newScanner_def scanner.defs Let_def)
  then have "calm (lxP (NewLexer r))" by (rule sim_calm)
  moreover have "goodTokens (lxP (NewLexer r))"
    by (simp add: NewLexer_def goodTokens_def newPreprocesor_def newScanner_def scanner.defs Let_def)
  ultimately show ?thesis using lexAll_good by (simp add: outcomes_def NewLexer_def)
qed

text \<open>So it lists tokens up to a first fault, if there is one.\<close>

lemma good_results_split:
  "list_all goodResult rs \<Longrightarrow> (\<exists>ts. rs = map Inr ts \<and> list_all goodToken ts) \<or>
     (\<exists>ts e rest. rs = map Inr ts @ Inl e # rest \<and> list_all goodToken ts \<and> e \<noteq> ReadError IoEOF)"
proof (induction rs)
  case (Cons r rs)
  show ?case
  proof (cases r)
    case (Inl e)
    then show ?thesis using Cons.prems by (intro disjI2 exI [of _ "[]"]) (auto simp: goodResult_def)
  next
    case (Inr t)
    then have g: "goodToken t" using Cons.prems by (simp add: goodResult_def)
    consider ts where "rs = map Inr ts" "list_all goodToken ts"
      | ts e rest where "rs = map Inr ts @ Inl e # rest" "list_all goodToken ts" "e \<noteq> ReadError IoEOF"
      using Cons by auto
    then show ?thesis
    proof cases
      case 1
      then show ?thesis using Inr g by (intro disjI1 exI [of _ "t # ts"]) simp
    next
      case (2 ts e rest)
      then show ?thesis using Inr g by (intro disjI2 exI [of _ "t # ts"] exI [of _ e] exI [of _ rest]) simp
    qed
  qed
qed simp

text \<open>To evaluate a lexer on concrete bytes, a start without the 4096 bytes of the empty buffer.\<close>

definition startOn :: "string \<Rightarrow> preprocesor" where
  "startOn bytes = newPreprocesor
     \<lparr>scReader = [(bytes, None)], scBuff = [], scCap = length bytes, scPos = 0, scErr = None, scLine = 1, scColumn = 1\<rparr>"

lemma outcomes_startOn:
  assumes "steady r" "readerBytes r = bytes" "bytes \<noteq> []"
  shows "outcomes (NewLexer r) = lexAll (startOn bytes)"
proof -
  have "readerBytes [(bytes, None)] = bytes" by (simp add: readerBytes_def)
  then have "sim (lxP (NewLexer r)) (startOn bytes)"
    using assms buffer_size by (simp add: NewLexer_def startOn_def sim_def calm_def stream_def pending_def newPreprocesor_def
        newScanner_def scanner.defs Let_def)
  from lexAll_sim [OF this] show ?thesis by (simp add: outcomes_def NewLexer_def)
qed

end
