(* ===== verification/Grammar.thy ===== *)
theory Grammar
  imports ParserSteps
begin

text \<open>
  The language of the parser as a grammar: which token lists spell which trees. Expressions carry the
  level of their outermost operator: 0 for assignments, 1 to 10 for the binary operators by their
  precedence, 11 for unary expressions and 12 for postfix ones. Statements carry a flag that is false
  when they end in an \<open>if\<close> without \<open>else\<close>, which an \<open>else\<close> may then not follow.
\<close>

section \<open>Expressions\<close>

inductive exprOf :: "nat \<Rightarrow> token list \<Rightarrow> expr \<Rightarrow> bool"
  and argsOf :: "token list \<Rightarrow> expr list \<Rightarrow> bool" where
  exprOf_ident: "tokType t = TokenIdentifier \<Longrightarrow> exprOf 12 [t] (IdentifierExpression t (tokRaw t))"
| exprOf_int: "tokType t = TokenIntegerConstant \<Longrightarrow> exprOf 12 [t] (IntegerLiteralExpression t (tokRaw t))"
| exprOf_char: "tokType t = TokenCharacterConstant \<Longrightarrow> exprOf 12 [t] (CharacterLiteralExpression t (tokRaw t))"
| exprOf_paren:
    "tokType lp = TokenLParen \<Longrightarrow> exprOf 0 ts e \<Longrightarrow> tokType rp = TokenRParen \<Longrightarrow> exprOf 12 (lp # ts @ [rp]) e"
| exprOf_call0:
    "exprOf 12 ts f \<Longrightarrow> tokType lp = TokenLParen \<Longrightarrow> tokType rp = TokenRParen \<Longrightarrow>
       exprOf 12 (ts @ [lp, rp]) (CallExpression lp f [])"
| exprOf_call:
    "exprOf 12 ts f \<Longrightarrow> tokType lp = TokenLParen \<Longrightarrow> argsOf us as \<Longrightarrow> tokType rp = TokenRParen \<Longrightarrow>
       exprOf 12 (ts @ lp # us @ [rp]) (CallExpression lp f as)"
| exprOf_unary:
    "tokType t \<in> unaryTokens \<Longrightarrow> exprOf 11 ts e \<Longrightarrow> exprOf 11 (t # ts) (UnaryExpression t (tokType t) e)"
| exprOf_up: "exprOf (Suc k) ts e \<Longrightarrow> k < 12 \<Longrightarrow> exprOf k ts e"
| exprOf_binary:
    "exprOf k ts l \<Longrightarrow> infixPrecedence (tokType t) = int k \<Longrightarrow> exprOf (Suc k) us r \<Longrightarrow>
       exprOf k (ts @ t # us) (BinaryExpression t (tokType t) l r)"
| exprOf_assign:
    "exprOf 1 ts l \<Longrightarrow> tokType t = TokenAssign \<Longrightarrow> exprOf 0 us r \<Longrightarrow> exprOf 0 (ts @ t # us) (AssignmentExpression t l r)"
| argsOf_one: "exprOf 0 ts e \<Longrightarrow> argsOf ts [e]"
| argsOf_more: "exprOf 0 ts e \<Longrightarrow> tokType c = TokenComma \<Longrightarrow> argsOf us as \<Longrightarrow> argsOf (ts @ c # us) (e # as)"

section \<open>Types and declarations\<close>

definition specifierOf :: "tokenType \<Rightarrow> typeSpecifier" where
  "specifierOf tt =
     (if tt = TokenInt then TypeSpecifierInt else if tt = TokenChar then TypeSpecifierChar else TypeSpecifierVoid)"

text \<open>A type token followed by stars.\<close>

definition declaredType :: "token \<Rightarrow> token list \<Rightarrow> typeName" where
  "declaredType tt stars = addPointers (length stars) (mkTypeName tt (specifierOf (tokType tt)))"

definition typeAndName :: "token \<Rightarrow> token list \<Rightarrow> token \<Rightarrow> bool" where
  "typeAndName tt stars nm \<longleftrightarrow>
     isTypeSpecifierToken (tokType tt) \<and> (\<forall>s \<in> set stars. tokType s = TokenStar) \<and> tokType nm = TokenIdentifier"

definition isVoidObject :: "typeName \<Rightarrow> bool" where
  "isVoidObject typ \<longleftrightarrow> tnSpecifier typ = TypeSpecifierVoid \<and> tnPointerDepth typ = 0"

text \<open>An optional initializer and the semicolon.\<close>

inductive initializerOf :: "token list \<Rightarrow> expr option \<Rightarrow> bool" where
  initializerOf_none: "tokType semi = TokenSemicolon \<Longrightarrow> initializerOf [semi] None"
| initializerOf_some:
    "tokType eq = TokenAssign \<Longrightarrow> exprOf 0 es e \<Longrightarrow> tokType semi = TokenSemicolon \<Longrightarrow>
       initializerOf (eq # es @ [semi]) (Some e)"

inductive declarationOf :: "token list \<Rightarrow> Declaration \<Rightarrow> bool" where
  declarationOf:
    "typeAndName tt stars nm \<Longrightarrow> initializerOf us ini \<Longrightarrow>
       declarationOf (tt # stars @ nm # us)
         \<lparr>declToken = tt, declType = declaredType tt stars, declName = tokRaw nm, declInitializer = ini\<rparr>"

inductive paramsOf :: "token list \<Rightarrow> functionParameter list \<Rightarrow> bool" where
  paramsOf_one:
    "typeAndName tt stars nm \<Longrightarrow> \<not> isVoidObject (declaredType tt stars) \<Longrightarrow>
       paramsOf (tt # stars @ [nm]) [\<lparr>fpToken = nm, fpType = declaredType tt stars, fpName = tokRaw nm\<rparr>]"
| paramsOf_more:
    "typeAndName tt stars nm \<Longrightarrow> \<not> isVoidObject (declaredType tt stars) \<Longrightarrow> tokType c = TokenComma \<Longrightarrow> paramsOf us ps \<Longrightarrow>
       paramsOf (tt # stars @ nm # c # us) (\<lparr>fpToken = nm, fpType = declaredType tt stars, fpName = tokRaw nm\<rparr> # ps)"

section \<open>Statements\<close>

inductive optExprOf :: "tokenType \<Rightarrow> token list \<Rightarrow> expr option \<Rightarrow> bool" where
  optExprOf_none: "tokType stop = tt \<Longrightarrow> optExprOf tt [stop] None"
| optExprOf_some: "exprOf 0 es e \<Longrightarrow> tokType stop = tt \<Longrightarrow> optExprOf tt (es @ [stop]) (Some e)"

inductive localDeclOf :: "token list \<Rightarrow> stmt \<Rightarrow> bool" where
  localDeclOf:
    "declarationOf ts decl \<Longrightarrow> \<not> isVoidObject (declType decl) \<Longrightarrow> localDeclOf ts (DeclarationStatement (declToken decl) decl)"

inductive exprStmtOf :: "token list \<Rightarrow> stmt \<Rightarrow> bool" where
  exprStmtOf:
    "exprOf 0 es e \<Longrightarrow> tokType semi = TokenSemicolon \<Longrightarrow> exprStmtOf (es @ [semi]) (ExpressionStatement (hd es) (Some e))"

text \<open>The three parts of the head of a \<open>for\<close>, up to its closing parenthesis.\<close>

inductive forInitOf :: "token list \<Rightarrow> stmt option \<Rightarrow> bool" where
  forInitOf_none: "tokType semi = TokenSemicolon \<Longrightarrow> forInitOf [semi] None"
| forInitOf_decl: "localDeclOf ts s \<Longrightarrow> forInitOf ts (Some s)"
| forInitOf_expr: "exprStmtOf ts s \<Longrightarrow> forInitOf ts (Some s)"

inductive headOf :: "tokenType \<Rightarrow> token list \<Rightarrow> token \<Rightarrow> expr \<Rightarrow> bool" where
  headOf:
    "tokType kw = tt \<Longrightarrow> tokType lp = TokenLParen \<Longrightarrow> exprOf 0 es e \<Longrightarrow> tokType rp = TokenRParen \<Longrightarrow>
       headOf tt (kw # lp # es @ [rp]) kw e"

inductive forHeadOf :: "token list \<Rightarrow> token \<Rightarrow> stmt option \<Rightarrow> expr option \<Rightarrow> expr option \<Rightarrow> bool" where
  forHeadOf:
    "tokType kw = TokenFor \<Longrightarrow> tokType lp = TokenLParen \<Longrightarrow> forInitOf is ini \<Longrightarrow> optExprOf TokenSemicolon cs cond \<Longrightarrow>
       optExprOf TokenRParen ps post \<Longrightarrow> forHeadOf (kw # lp # is @ cs @ ps) kw ini cond post"

inductive stmtOf :: "bool \<Rightarrow> token list \<Rightarrow> stmt \<Rightarrow> bool"
  and stmtsOf :: "token list \<Rightarrow> stmt list \<Rightarrow> bool" where
  stmtOf_block:
    "tokType lb = TokenLBrace \<Longrightarrow> stmtsOf ts ss \<Longrightarrow> tokType rb = TokenRBrace \<Longrightarrow>
       stmtOf True (lb # ts @ [rb]) (BlockStatement lb ss)"
| stmtOf_return: "tokType kw = TokenReturn \<Longrightarrow> optExprOf TokenSemicolon ts e \<Longrightarrow> stmtOf True (kw # ts) (ReturnStatement kw e)"
| stmtOf_decl: "localDeclOf ts s \<Longrightarrow> stmtOf True ts s"
| stmtOf_empty: "tokType semi = TokenSemicolon \<Longrightarrow> stmtOf True [semi] (ExpressionStatement semi None)"
| stmtOf_expr: "exprStmtOf ts s \<Longrightarrow> stmtOf True ts s"
| stmtOf_if: "headOf TokenIf ts kw e \<Longrightarrow> stmtOf c us s \<Longrightarrow> stmtOf False (ts @ us) (IfStatement kw e s None)"
| stmtOf_else:
    "headOf TokenIf ts kw e \<Longrightarrow> stmtOf True us s \<Longrightarrow> tokType el = TokenElse \<Longrightarrow> stmtOf c vs s' \<Longrightarrow>
       stmtOf c (ts @ us @ el # vs) (IfStatement kw e s (Some s'))"
| stmtOf_while: "headOf TokenWhile ts kw e \<Longrightarrow> stmtOf c us s \<Longrightarrow> stmtOf c (ts @ us) (WhileStatement kw e s)"
| stmtOf_for:
    "forHeadOf ts kw ini cond post \<Longrightarrow> stmtOf c us s \<Longrightarrow> stmtOf c (ts @ us) (ForStatement kw ini cond post s)"
| stmtsOf_nil: "stmtsOf [] []"
| stmtsOf_cons: "stmtOf c ts s \<Longrightarrow> stmtsOf us ss \<Longrightarrow> stmtsOf (ts @ us) (s # ss)"

section \<open>Translation units\<close>

inductive paramListOf :: "token list \<Rightarrow> functionParameter list \<Rightarrow> bool" where
  paramListOf_none: "paramListOf [] []"
| paramListOf_some: "paramsOf ts ps \<Longrightarrow> paramListOf ts ps"

inductive externalOf :: "token list \<Rightarrow> externalDeclaration \<Rightarrow> bool" where
  externalOf_function:
    "typeAndName tt stars nm \<Longrightarrow> tokType lp = TokenLParen \<Longrightarrow> paramListOf ps params \<Longrightarrow> tokType rp = TokenRParen \<Longrightarrow>
     tokType lb = TokenLBrace \<Longrightarrow> stmtsOf ss body \<Longrightarrow> tokType rb = TokenRBrace \<Longrightarrow>
       externalOf (tt # stars @ nm # lp # ps @ rp # lb # ss @ [rb])
         (ExternalFunction
            \<lparr>fdReturnType = declaredType tt stars, fdName = tokRaw nm, fdParameters = params, fdBodyToken = lb,
             fdBodyStatements = body, fdToken = tt\<rparr>)"
| externalOf_prototype:
    "typeAndName tt stars nm \<Longrightarrow> tokType lp = TokenLParen \<Longrightarrow> paramListOf ps params \<Longrightarrow> tokType rp = TokenRParen \<Longrightarrow>
     tokType semi = TokenSemicolon \<Longrightarrow>
       externalOf (tt # stars @ nm # lp # ps @ [rp, semi])
         (ExternalPrototype
            \<lparr>protoToken = tt, protoReturnType = declaredType tt stars, protoName = tokRaw nm, protoParameters = params\<rparr>)"
| externalOf_declaration: "declarationOf ts decl \<Longrightarrow> externalOf ts (ExternalDeclaration decl)"

inductive unitOf :: "token list \<Rightarrow> externalDeclaration list \<Rightarrow> bool" where
  unitOf_nil: "unitOf [] []"
| unitOf_cons: "externalOf ts d \<Longrightarrow> unitOf us ds \<Longrightarrow> unitOf (ts @ us) (d # ds)"

definition unitTree :: "externalDeclaration list \<Rightarrow> translationUnit" where
  "unitTree ds = foldl (\<lambda>tu d. addExternal d tu) emptyUnit ds"

section \<open>The parser on a list of tokens\<close>

definition parsing :: "parseError list \<Rightarrow> token list \<Rightarrow> token \<Rightarrow> parser" where
  "parsing D ts l = \<lparr>psTokens = map Inr ts, psFatal = None, psDiagnostics = D, psLast = l\<rparr>"

fun headTok :: "token list \<Rightarrow> token" where
  "headTok [] = eofToken"
| "headTok (t # ts) = t"

fun lastTok :: "token list \<Rightarrow> token \<Rightarrow> token" where
  "lastTok [] l = l"
| "lastTok (t # ts) l = t"

abbreviation headType :: "token list \<Rightarrow> tokenType" where
  "headType ts \<equiv> tokType (headTok ts)"

lemma headTok_append: "ts \<noteq> [] \<Longrightarrow> headTok (ts @ us) = hd ts"
  by (cases ts) auto

lemma peek_parsing: "clean ts \<Longrightarrow> peekTok (parsing D ts l) = (headTok ts, parsing D ts (lastTok ts l))"
  by (cases ts)
    (auto simp: peekTok_def parsing_def normalizeToken_def rememberLast_def tokenNil_def)

lemma next_parsing: "clean ts \<Longrightarrow> nextTok (parsing D ts l) = (headTok ts, parsing D (tl ts) (lastTok ts l))"
  by (cases ts)
    (auto simp: nextTok_def parsing_def normalizeToken_def rememberLast_def tokenNil_def)

lemma accept_parsing:
  "clean ts \<Longrightarrow> tt \<noteq> TokenEOF \<Longrightarrow>
     accept tt (parsing D ts l) =
       (if headType ts = tt then (True, parsing D (tl ts) (headTok ts)) else (False, parsing D ts (lastTok ts l)))"
  by (cases ts) (auto simp: accept_def peek_parsing next_parsing)

lemma expect_parsing:
  "clean ts \<Longrightarrow> tt \<noteq> TokenEOF \<Longrightarrow> headType ts = tt \<Longrightarrow>
     expect tt what (parsing D ts l) = (Some (headTok ts), parsing D (tl ts) (headTok ts))"
  by (cases ts) (auto simp: expect_def next_parsing)

lemma diagnostic_parsing [simp]: "addDiagnostic e (parsing D ts l) = parsing (D @ [e]) ts l"
  by (simp add: addDiagnostic_def parsing_def)

lemma psLast_parsing [simp]: "psLast (parsing D ts l) = l"
  by (simp add: parsing_def)

end
