(* ===== verification/GrammarComplete.thy ===== *)
theory GrammarComplete
  imports Grammar
begin

text \<open>
  Completeness: what the grammar derives, the parser accepts with the tree of the derivation, when the
  token that follows does not continue it.
\<close>

declare parseExpression.simps [simp del] infixLoop.simps [simp del] parseUnaryExpression.simps [simp del]
  parsePostfixExpression.simps [simp del] callLoop.simps [simp del] parseArguments.simps [simp del]
  parsePrimaryExpression.simps [simp del]

section \<open>First tokens\<close>

definition firstTokens :: "tokenType set" where
  "firstTokens = {TokenIdentifier, TokenIntegerConstant, TokenCharacterConstant, TokenLParen} \<union> unaryTokens"

lemma primary_not_unary:
  "TokenIdentifier \<notin> unaryTokens" "TokenIntegerConstant \<notin> unaryTokens" "TokenCharacterConstant \<notin> unaryTokens"
  "TokenLParen \<notin> unaryTokens"
  by (simp_all add: unaryTokens_def token_types)

lemma expr_first:
  "exprOf k ts e \<Longrightarrow> ts \<noteq> [] \<and> tokType (hd ts) \<in> firstTokens \<and> (k = 12 \<longrightarrow> tokType (hd ts) \<notin> unaryTokens)"
  "argsOf us as \<Longrightarrow> us \<noteq> [] \<and> tokType (hd us) \<in> firstTokens"
  by (induction k ts e and us as rule: exprOf_argsOf.inducts)
    (auto simp: firstTokens_def primary_not_unary)

lemma first_head:
  "exprOf k ts e \<Longrightarrow> headType (ts @ us) \<in> firstTokens" "exprOf 12 ts e \<Longrightarrow> headType (ts @ us) \<notin> unaryTokens"
  "argsOf vs as \<Longrightarrow> headType (vs @ us) \<in> firstTokens"
  using expr_first(1) [of k ts e] expr_first(1) [of 12 ts e] expr_first(2) [of vs as] by (auto simp: headTok_append)

lemma not_first:
  "tt \<in> firstTokens \<Longrightarrow> tt \<noteq> TokenRParen" "tt \<in> firstTokens \<Longrightarrow> tt \<noteq> TokenSemicolon" "tt \<in> firstTokens \<Longrightarrow> \<not> isTypeSpecifierToken tt"
  "tt \<in> firstTokens \<Longrightarrow> tt \<noteq> TokenEOF"
  by (auto simp: firstTokens_def unaryTokens_def isTypeSpecifierToken_def token_types)

section \<open>Steps of the expression parser\<close>

lemma primary_parsing:
  "clean (t # ts) \<Longrightarrow> tokType t = TokenIdentifier \<Longrightarrow>
     parsePrimaryExpression (parsing D (t # ts) l) = (Some (IdentifierExpression t (tokRaw t)), parsing D ts t)"
  "clean (t # ts) \<Longrightarrow> tokType t = TokenIntegerConstant \<Longrightarrow>
     parsePrimaryExpression (parsing D (t # ts) l) = (Some (IntegerLiteralExpression t (tokRaw t)), parsing D ts t)"
  "clean (t # ts) \<Longrightarrow> tokType t = TokenCharacterConstant \<Longrightarrow>
     parsePrimaryExpression (parsing D (t # ts) l) = (Some (CharacterLiteralExpression t (tokRaw t)), parsing D ts t)"
  by (simp_all add: parsePrimaryExpression.simps peek_parsing next_parsing expectIdent_def expectInteger_def expect_parsing)
    (simp_all add: token_types)

lemma primary_paren:
  assumes "clean (lp # ts @ rp # rest)" "tokType lp = TokenLParen" "tokType rp = TokenRParen"
    and "\<not> isTypeSpecifierToken (headType (ts @ rp # rest))"
    and "\<And>l. \<exists>l'. parseExpression 0 (parsing D (ts @ rp # rest) l) = (Some e, parsing D (rp # rest) l')"
  shows "parsePrimaryExpression (parsing D (lp # ts @ rp # rest) l) = (Some e, parsing D rest rp)"
proof -
  obtain l' where "parseExpression 0 (parsing D (ts @ rp # rest) (lastTok (ts @ rp # rest) lp)) = (Some e, parsing D (rp # rest) l')"
    using assms(5) by blast
  then show ?thesis using assms(1-4)
    by (simp add: parsePrimaryExpression.simps peek_parsing next_parsing expect_parsing token_types)
qed

lemma callLoop_stop: "clean ts \<Longrightarrow> headType ts \<noteq> TokenLParen \<Longrightarrow> callLoop e (parsing D ts l) = (Some e, parsing D ts (lastTok ts l))"
  by (simp add: callLoop.simps accept_parsing)

lemma callLoop_empty:
  "clean (lp # rp # ts) \<Longrightarrow> tokType lp = TokenLParen \<Longrightarrow> tokType rp = TokenRParen \<Longrightarrow>
     callLoop e (parsing D (lp # rp # ts) l) = callLoop (CallExpression lp e []) (parsing D ts rp)"
  by (subst callLoop.simps) (simp add: accept_parsing peek_parsing expect_parsing)

lemma callLoop_args:
  assumes "clean (lp # us @ rp # rest)" "tokType lp = TokenLParen" "tokType rp = TokenRParen" "headType (us @ rp # rest) \<noteq> TokenRParen"
    and "\<And>l. \<exists>l'. parseArguments [] (parsing D (us @ rp # rest) l) = (Some as, parsing D (rp # rest) l')"
  shows "callLoop e (parsing D (lp # us @ rp # rest) l) = callLoop (CallExpression lp e as) (parsing D rest rp)"
proof -
  obtain l' where "parseArguments [] (parsing D (us @ rp # rest) (lastTok (us @ rp # rest) lp)) = (Some as, parsing D (rp # rest) l')"
    using assms(5) by blast
  then show ?thesis using assms(1-4)
    by (subst callLoop.simps) (simp add: accept_parsing peek_parsing expect_parsing)
qed

lemma infixLoop_stop:
  "clean ts \<Longrightarrow> headType ts \<noteq> TokenAssign \<or> 0 < m \<Longrightarrow> infixPrecedence (headType ts) < int m \<Longrightarrow>
     infixLoop m e (parsing D ts l) = (Some e, parsing D ts (lastTok ts l))"
  by (subst infixLoop.simps) (auto simp: peek_parsing)

lemma prec_assign [simp]: "infixPrecedence TokenAssign = - 1"
  by (simp add: infixPrecedence_def token_types)

lemma infixLoop_binary:
  "clean (t # ts) \<Longrightarrow> infixPrecedence (tokType t) = int k \<Longrightarrow> m \<le> k \<Longrightarrow>
     parseExpression (Suc k) (parsing D ts t) = (Some r, p) \<Longrightarrow>
     infixLoop m e (parsing D (t # ts) l) = infixLoop m (BinaryExpression t (tokType t) e r) p"
  by (subst infixLoop.simps) (auto simp: peek_parsing next_parsing nat_add_distrib)

lemma infixLoop_assign:
  "clean (t # ts) \<Longrightarrow> tokType t = TokenAssign \<Longrightarrow> parseExpression 0 (parsing D ts t) = (Some r, p) \<Longrightarrow>
     infixLoop 0 e (parsing D (t # ts) l) = infixLoop 0 (AssignmentExpression t e r) p"
  by (subst infixLoop.simps) (auto simp: peek_parsing next_parsing)

lemma unary_parsing:
  "clean (t # ts) \<Longrightarrow> tokType t \<in> unaryTokens \<Longrightarrow> parseUnaryExpression (parsing D ts t) = (Some e, p) \<Longrightarrow>
     parseUnaryExpression (parsing D (t # ts) l) = (Some (UnaryExpression t (tokType t) e), p)"
  by (subst parseUnaryExpression.simps) (simp add: peek_parsing next_parsing)

lemma unary_postfix:
  "clean ts \<Longrightarrow> headType ts \<notin> unaryTokens \<Longrightarrow>
     parseUnaryExpression (parsing D ts l) = parsePostfixExpression (parsing D ts (lastTok ts l))"
  by (subst parseUnaryExpression.simps) (simp add: peek_parsing)

lemma args_last:
  "clean rest \<Longrightarrow> headType rest \<noteq> TokenQuestion \<Longrightarrow> headType rest \<noteq> TokenComma \<Longrightarrow>
     parseExpression 0 p = (Some e, parsing D rest l') \<Longrightarrow>
     parseArguments acc p = (Some (acc @ [e]), parsing D rest (lastTok rest (lastTok rest l')))"
  by (subst parseArguments.simps) (simp add: peek_parsing accept_parsing)

lemma args_next:
  "clean (c # rest) \<Longrightarrow> tokType c = TokenComma \<Longrightarrow> parseExpression 0 p = (Some e, parsing D (c # rest) l') \<Longrightarrow>
     parseArguments acc p = parseArguments (acc @ [e]) (parsing D rest c)"
  by (subst parseArguments.simps) (simp add: peek_parsing accept_parsing token_types)

section \<open>Expressions\<close>

text \<open>\<open>follows k rest\<close>: the first token of \<open>rest\<close> does not continue an expression of level \<open>k\<close>.\<close>

definition follows :: "nat \<Rightarrow> token list \<Rightarrow> bool" where
  "follows k rest \<longleftrightarrow>
     headType rest \<noteq> TokenLParen \<and> infixPrecedence (headType rest) \<le> int k \<and> (k = 0 \<longrightarrow> headType rest \<noteq> TokenAssign)"

definition parsesAs :: "nat \<Rightarrow> token list \<Rightarrow> expr \<Rightarrow> bool" where
  "parsesAs k ts e \<longleftrightarrow> (\<forall>D rest l. clean (ts @ rest) \<longrightarrow>
     (k = 12 \<longrightarrow> (\<exists>l'. parsePostfixExpression (parsing D (ts @ rest) l) = callLoop e (parsing D rest l'))) \<and>
     (k = 11 \<longrightarrow> headType rest \<noteq> TokenLParen \<longrightarrow>
        (\<exists>l'. parseUnaryExpression (parsing D (ts @ rest) l) = (Some e, parsing D rest l'))) \<and>
     (k < 12 \<longrightarrow> follows k rest \<longrightarrow>
        (\<forall>m \<le> k. \<exists>l'. parseExpression m (parsing D (ts @ rest) l) = infixLoop m e (parsing D rest l'))))"

lemma parsesAsD:
  "parsesAs 12 ts e \<Longrightarrow> clean (ts @ rest) \<Longrightarrow>
     \<exists>l'. parsePostfixExpression (parsing D (ts @ rest) l) = callLoop e (parsing D rest l')"
  "parsesAs 11 ts e \<Longrightarrow> clean (ts @ rest) \<Longrightarrow> headType rest \<noteq> TokenLParen \<Longrightarrow>
     \<exists>l'. parseUnaryExpression (parsing D (ts @ rest) l) = (Some e, parsing D rest l')"
  "parsesAs k ts e \<Longrightarrow> clean (ts @ rest) \<Longrightarrow> k < 12 \<Longrightarrow> follows k rest \<Longrightarrow> m \<le> k \<Longrightarrow>
     \<exists>l'. parseExpression m (parsing D (ts @ rest) l) = infixLoop m e (parsing D rest l')"
  unfolding parsesAs_def by blast+

text \<open>A whole expression of level \<open>m\<close>.\<close>

lemma parsesAs_whole:
  assumes "parsesAs m ts e" "m < 12" "clean (ts @ rest)" "headType rest \<noteq> TokenLParen" "infixPrecedence (headType rest) < int m"
    "m = 0 \<longrightarrow> headType rest \<noteq> TokenAssign"
  shows "\<exists>l'. parseExpression m (parsing D (ts @ rest) l) = (Some e, parsing D rest l')"
proof -
  have "follows m rest" using assms by (simp add: follows_def)
  then obtain l' where "parseExpression m (parsing D (ts @ rest) l) = infixLoop m e (parsing D rest l')"
    using parsesAsD(3) [OF assms(1,3,2)] by blast
  then show ?thesis using infixLoop_stop [of rest m e D l'] assms by auto
qed

lemma unary_parses_all:
  assumes "\<And>D rest l. clean (ts @ rest) \<Longrightarrow> headType rest \<noteq> TokenLParen \<Longrightarrow>
     \<exists>l'. parseUnaryExpression (parsing D (ts @ rest) l) = (Some e, parsing D rest l')"
  shows "parsesAs 11 ts e"
  unfolding parsesAs_def follows_def
  using assms by (auto simp: parseExpression.simps) (metis bindP_simps(2))

lemma postfix_parses:
  assumes "\<And>D rest l. clean (ts @ rest) \<Longrightarrow> \<exists>l'. parsePostfixExpression (parsing D (ts @ rest) l) = callLoop e (parsing D rest l')"
  shows "parsesAs 12 ts e"
  unfolding parsesAs_def using assms by auto

lemma primary_parses:
  assumes "\<And>D rest l. clean (ts @ rest) \<Longrightarrow> \<exists>l'. parsePrimaryExpression (parsing D (ts @ rest) l) = (Some e, parsing D rest l')"
  shows "parsesAs 12 ts e"
proof (rule postfix_parses)
  fix D rest l
  assume "clean (ts @ rest)"
  then obtain l' where "parsePrimaryExpression (parsing D (ts @ rest) l) = (Some e, parsing D rest l')" using assms by blast
  then show "\<exists>l'. parsePostfixExpression (parsing D (ts @ rest) l) = callLoop e (parsing D rest l')"
    by (auto simp: parsePostfixExpression.simps)
qed

lemma prec_separators [simp]:
  "infixPrecedence TokenRParen = - 1" "infixPrecedence TokenComma = - 1" "infixPrecedence TokenSemicolon = - 1"
  "infixPrecedence TokenLParen = - 1"
  by (simp_all add: infixPrecedence_def token_types)

lemma separators_distinct [simp]:
  "TokenRParen \<noteq> TokenLParen" "TokenComma \<noteq> TokenLParen" "TokenSemicolon \<noteq> TokenLParen" "TokenRParen \<noteq> TokenAssign"
  "TokenComma \<noteq> TokenAssign" "TokenSemicolon \<noteq> TokenAssign" "TokenRParen \<noteq> TokenQuestion" "TokenRParen \<noteq> TokenComma"
  "TokenAssign \<noteq> TokenLParen" "TokenSemicolon \<noteq> TokenRParen"
  by (simp_all add: token_types)

lemma if_in: "a \<in> S \<Longrightarrow> b \<in> S \<Longrightarrow> (if c then a else b) \<in> S"
  by simp

lemma prec_values: "infixPrecedence tt \<in> {-1, 1, 2, 3, 4, 5, 6, 7, 8, 9, 10}"
  unfolding infixPrecedence_def by (intro if_in) simp_all

lemma prec_nonpos: "infixPrecedence tt \<le> 0 \<Longrightarrow> infixPrecedence tt < 0"
  using prec_values [of tt] by auto

lemma prec_range: "infixPrecedence tt = int k \<Longrightarrow> 0 < k \<and> k < 11"
  using prec_values [of tt] by auto

lemma prec_not_LParen: "infixPrecedence tt = int k \<Longrightarrow> tt \<noteq> TokenLParen"
  by auto

lemma args_complete:
  assumes "parsesAs 0 ts e" "clean (ts @ rest)" "headType rest = TokenRParen"
  shows "\<exists>l'. parseArguments acc (parsing D (ts @ rest) l) = (Some (acc @ [e]), parsing D rest l')"
proof -
  obtain l' where "parseExpression 0 (parsing D (ts @ rest) l) = (Some e, parsing D rest l')"
    using parsesAs_whole [OF assms(1) _ assms(2)] assms(3) by fastforce
  then show ?thesis using args_last [of rest _ e D l' acc] assms by auto
qed

theorem exprOf_complete:
  "exprOf k ts e \<Longrightarrow> parsesAs k ts e"
  "argsOf us as \<Longrightarrow> \<forall>D rest l acc. clean (us @ rest) \<longrightarrow> headType rest = TokenRParen \<longrightarrow>
     (\<exists>l'. parseArguments acc (parsing D (us @ rest) l) = (Some (acc @ as), parsing D rest l'))"
proof (induction k ts e and us as rule: exprOf_argsOf.inducts)
  case (exprOf_ident t)
  then show ?case by (intro primary_parses) (auto simp: primary_parsing)
next
  case (exprOf_int t)
  then show ?case by (intro primary_parses) (auto simp: primary_parsing)
next
  case (exprOf_char t)
  then show ?case by (intro primary_parses) (auto simp: primary_parsing)
next
  case (exprOf_paren lp ts e rp)
  show ?case
  proof (rule primary_parses)
    fix D rest l
    assume c: "clean ((lp # ts @ [rp]) @ rest)"
    have "\<exists>l'. parseExpression 0 (parsing D (ts @ rp # rest) l) = (Some e, parsing D (rp # rest) l')" for l
      using exprOf_paren.hyps c by (intro parsesAs_whole [OF exprOf_paren.IH]) auto
    from primary_paren [OF _ exprOf_paren.hyps(1,3) _ this]
    show "\<exists>l'. parsePrimaryExpression (parsing D ((lp # ts @ [rp]) @ rest) l) = (Some e, parsing D rest l')"
      using c first_head(1) [OF exprOf_paren.hyps(2)] not_first by fastforce
  qed
next
  case (exprOf_call0 ts f lp rp)
  show ?case
  proof (rule postfix_parses)
    fix D rest l
    assume c: "clean ((ts @ [lp, rp]) @ rest)"
    then show "\<exists>l'. parsePostfixExpression (parsing D ((ts @ [lp, rp]) @ rest) l) = callLoop (CallExpression lp f []) (parsing D rest l')"
      using parsesAsD(1) [OF exprOf_call0.IH, of "lp # rp # rest" D l] exprOf_call0.hyps by (auto simp: callLoop_empty)
  qed
next
  case (exprOf_call ts f lp us as rp)
  show ?case
  proof (rule postfix_parses)
    fix D rest l
    assume c: "clean ((ts @ lp # us @ [rp]) @ rest)"
    have "\<exists>l'. parseArguments [] (parsing D (us @ rp # rest) l) = (Some as, parsing D (rp # rest) l')" for l
      using exprOf_call.IH(2) [rule_format, of "rp # rest" "[]" D l] exprOf_call.hyps c by simp
    moreover have "headType (us @ rp # rest) \<noteq> TokenRParen" using first_head(3) [OF exprOf_call.hyps(3)] not_first(1) by blast
    ultimately have "callLoop f (parsing D (lp # us @ rp # rest) l) = callLoop (CallExpression lp f as) (parsing D rest rp)" for l
      using c exprOf_call.hyps by (intro callLoop_args) auto
    then show "\<exists>l'. parsePostfixExpression (parsing D ((ts @ lp # us @ [rp]) @ rest) l) = callLoop (CallExpression lp f as) (parsing D rest l')"
      using parsesAsD(1) [OF exprOf_call.IH(1), of "lp # us @ rp # rest" D l] c by auto
  qed
next
  case (exprOf_unary t ts e)
  show ?case
  proof (rule unary_parses_all)
    fix D rest l
    assume c: "clean ((t # ts) @ rest)" "headType rest \<noteq> TokenLParen"
    then obtain l' where "parseUnaryExpression (parsing D (ts @ rest) t) = (Some e, parsing D rest l')"
      using parsesAsD(2) [OF exprOf_unary.IH, of rest D t] by auto
    then show "\<exists>l'. parseUnaryExpression (parsing D ((t # ts) @ rest) l) = (Some (UnaryExpression t (tokType t) e), parsing D rest l')"
      using c exprOf_unary.hyps by (auto simp: unary_parsing)
  qed
next
  case (exprOf_up k ts e)
  show ?case
  proof (cases "k = 11")
    case True
    have first: "headType (ts @ rest) \<notin> unaryTokens" for rest using first_head(2) exprOf_up.hyps True by simp
    have "parsesAs 11 ts e"
    proof (rule unary_parses_all)
      fix D rest l
      assume c: "clean (ts @ rest)" "headType rest \<noteq> TokenLParen"
      obtain l' where "parsePostfixExpression (parsing D (ts @ rest) (lastTok (ts @ rest) l)) = callLoop e (parsing D rest l')"
        using parsesAsD(1) [of ts e rest D] exprOf_up.IH True c by fastforce
      then show "\<exists>l'. parseUnaryExpression (parsing D (ts @ rest) l) = (Some e, parsing D rest l')"
        using unary_postfix [OF c(1) first] callLoop_stop c by auto
    qed
    then show ?thesis using True by simp
  next
    case False
    then have k: "k < 11" using exprOf_up.hyps by simp
    have "follows k rest \<Longrightarrow> follows (Suc k) rest" for rest by (auto simp: follows_def)
    then show ?thesis using exprOf_up.IH k unfolding parsesAs_def by (auto simp: le_Suc_eq)
  qed
next
  case (exprOf_binary k ts e1 t us e2)
  have k: "0 < k" "k < 11" using prec_range [OF exprOf_binary.hyps(2)] by auto
  show ?case
    unfolding parsesAs_def
  proof (intro allI impI conjI)
    fix D rest l m
    assume c: "clean ((ts @ t # us) @ rest)" and f: "follows k rest" and m: "m \<le> k"
    have "\<exists>l'. parseExpression m (parsing D (ts @ t # us @ rest) l) = infixLoop m e1 (parsing D (t # us @ rest) l')"
      using exprOf_binary.hyps k m c by (intro parsesAsD(3) [OF exprOf_binary.IH(1)]) (auto simp: follows_def)
    moreover obtain l2 where "parseExpression (Suc k) (parsing D (us @ rest) t) = (Some e2, parsing D rest l2)"
      using parsesAs_whole [OF exprOf_binary.IH(2)] k c f by (fastforce simp: follows_def)
    ultimately show "\<exists>l'. parseExpression m (parsing D ((ts @ t # us) @ rest) l)
        = infixLoop m (BinaryExpression t (tokType t) e1 e2) (parsing D rest l')"
      using infixLoop_binary [OF _ exprOf_binary.hyps(2) m] c by fastforce
  qed (use k in auto)
next
  case (exprOf_assign ts e1 t us e2)
  show ?case
    unfolding parsesAs_def
  proof (intro allI impI conjI)
    fix D rest l and m :: nat
    assume c: "clean ((ts @ t # us) @ rest)" and f: "follows 0 rest" and m: "m \<le> 0"
    have "\<exists>l'. parseExpression 0 (parsing D (ts @ t # us @ rest) l) = infixLoop 0 e1 (parsing D (t # us @ rest) l')"
      using exprOf_assign.hyps c by (intro parsesAsD(3) [OF exprOf_assign.IH(1)]) (auto simp: follows_def)
    moreover have "infixPrecedence (headType rest) < 0"
      using f by (auto simp: follows_def intro: prec_nonpos)
    then obtain l2 where "parseExpression 0 (parsing D (us @ rest) t) = (Some e2, parsing D rest l2)"
      using parsesAs_whole [OF exprOf_assign.IH(2)] c f by (fastforce simp: follows_def)
    ultimately show "\<exists>l'. parseExpression m (parsing D ((ts @ t # us) @ rest) l)
        = infixLoop m (AssignmentExpression t e1 e2) (parsing D rest l')"
      using infixLoop_assign [OF _ exprOf_assign.hyps(2)] c m by fastforce
  qed auto
next
  case (argsOf_one ts e)
  show ?case using args_complete [OF argsOf_one.IH] by simp
next
  case (argsOf_more ts e c us as)
  show ?case
  proof (intro allI impI)
    fix D rest l acc
    assume cl: "clean ((ts @ c # us) @ rest)" and r: "headType rest = TokenRParen"
    obtain l1 where one: "parseExpression 0 (parsing D (ts @ c # us @ rest) l) = (Some e, parsing D (c # us @ rest) l1)"
      using parsesAs_whole [OF argsOf_more.IH(1), of "c # us @ rest" D l] argsOf_more.hyps cl by auto
    obtain l2 where more: "parseArguments (acc @ [e]) (parsing D (us @ rest) c) = (Some ((acc @ [e]) @ as), parsing D rest l2)"
      using argsOf_more.IH(2) [rule_format, of rest "acc @ [e]" D c] cl r by auto
    have "clean (c # us @ rest)" using cl by simp
    from args_next [OF this argsOf_more.hyps(2) one, of acc] more
    show "\<exists>l'. parseArguments acc (parsing D ((ts @ c # us) @ rest) l) = (Some (acc @ e # as), parsing D rest l')"
      by (intro exI [of _ l2]) simp
  qed
qed

end
