(* ===== verification/GrammarSound.thy ===== *)
theory GrammarSound
  imports GrammarComplete
begin

text \<open>
  Soundness: what the parser accepts without a diagnostic the grammar derives, from exactly the tokens
  it took.
\<close>

section \<open>Outcomes\<close>

text \<open>
  \<open>outcome b G D ts r\<close>: from the tokens \<open>ts\<close> a method went to \<open>r\<close>, taking some tokens. If it failed there
  is a new diagnostic; if it succeeded, then \<open>G\<close> relates the tokens taken, the rest and the value, unless
  there is a new diagnostic, which is only possible when \<open>b\<close> is false.
\<close>

inductive outcome ::
  "bool \<Rightarrow> (token list \<Rightarrow> token list \<Rightarrow> 'a \<Rightarrow> bool) \<Rightarrow> parseError list \<Rightarrow> token list \<Rightarrow> 'a parsed \<Rightarrow> bool" for b G D where
  outcome_failed: "E \<noteq> [] \<Longrightarrow> outcome b G D (us @ rest) (None, parsing (D @ E) rest l)"
| outcome_success: "G us rest x \<Longrightarrow> outcome b G D (us @ rest) (Some x, parsing D rest l)"
| outcome_recovered: "\<not> b \<Longrightarrow> E \<noteq> [] \<Longrightarrow> outcome b G D (us @ rest) (Some x, parsing (D @ E) rest l)"

lemma outcome_mono:
  "outcome b G D ts r \<Longrightarrow> (\<And>us rest x. ts = us @ rest \<Longrightarrow> G us rest x \<Longrightarrow> H us rest x) \<Longrightarrow> outcome b H D ts r"
  by (induction rule: outcome.induct) (auto intro: outcome.intros)

lemma outcome_weaken: "outcome b G D ts r \<Longrightarrow> outcome False G D ts r"
  by (induction rule: outcome.induct) (auto intro: outcome.intros)

lemma outcome_prefix: "outcome b (\<lambda>vs. H (us @ vs)) D rest r \<Longrightarrow> outcome b H D (us @ rest) r"
proof (induction rule: outcome.induct)
  case (outcome_failed E us' rest l)
  then show ?case using outcome.outcome_failed [of E b H D "us @ us'"] by simp
next
  case (outcome_success us' rest x l)
  then show ?case using outcome.outcome_success [of H "us @ us'"] by simp
next
  case (outcome_recovered E us' rest x l)
  then show ?case using outcome.outcome_recovered [of b E H D "us @ us'"] by simp
qed

lemma outcome_extend: "outcome b G (D @ E) rest r \<Longrightarrow> E \<noteq> [] \<Longrightarrow> outcome False H D (us @ rest) r"
proof (induction rule: outcome.induct)
  case (outcome_failed E' us' rest l)
  then show ?case using outcome.outcome_failed [of "E @ E'" False H D "us @ us'"] by simp
next
  case (outcome_success us' rest x l)
  then show ?case using outcome.outcome_recovered [of False E H D "us @ us'"] by simp
next
  case (outcome_recovered E' us' rest x l)
  then show ?case using outcome.outcome_recovered [of False "E @ E'" H D "us @ us'"] by simp
qed

lemma outcome_bind:
  assumes "outcome True G D ts r"
    and "\<And>x us rest l. ts = us @ rest \<Longrightarrow> r = (Some x, parsing D rest l) \<Longrightarrow> G us rest x \<Longrightarrow>
      outcome b (\<lambda>vs. H (us @ vs)) D rest (f x (parsing D rest l))"
  shows "outcome b H D ts (bindP r f)"
  using assms
proof (cases rule: outcome.cases)
  case (outcome_success us rest x l)
  then show ?thesis using outcome_prefix [OF assms(2)] by simp
qed (auto intro: outcome.intros)

text \<open>After a success that may hide a diagnostic, the rest has to behave in any case.\<close>

lemma outcome_bind_weak:
  assumes "outcome False G D ts r"
    and "\<And>x us rest l D'. ts = us @ rest \<Longrightarrow> r = (Some x, parsing D' rest l) \<Longrightarrow>
      outcome False (\<lambda>vs rest' y. G us rest x \<longrightarrow> H (us @ vs) rest' y) D' rest (f x (parsing D' rest l))"
  shows "outcome False H D ts (bindP r f)"
  using assms(1)
proof (cases rule: outcome.cases)
  case (outcome_failed E us rest l)
  then show ?thesis by (auto intro: outcome.intros)
next
  case (outcome_success us rest x l)
  then have "outcome False (\<lambda>vs. H (us @ vs)) D rest (f x (parsing D rest l))"
    by (intro outcome_mono [OF assms(2)]) auto
  then show ?thesis using outcome_success by (simp add: outcome_prefix)
next
  case (outcome_recovered E us rest x l)
  then show ?thesis using outcome_extend [OF assms(2)] by simp
qed

lemma outcome_return: "G [] ts x \<Longrightarrow> outcome b G D ts (Some x, parsing D ts l)"
  using outcome_success [of G "[]"] by simp

lemma outcome_fail: "outcome b G D ts (failWith t msg (parsing D ts l))"
  using outcome_failed [of "[parserError t msg]" b G D "[]"] by (simp add: failWith_def)

lemma outcome_take: "outcome b (\<lambda>vs. G (t # vs)) D us r \<Longrightarrow> outcome b G D (t # us) r"
  using outcome_prefix [of b G "[t]" D us r] by simp

lemma outcome_if: "(c \<Longrightarrow> outcome b G D ts r) \<Longrightarrow> (\<not> c \<Longrightarrow> outcome b G D ts r') \<Longrightarrow> outcome b G D ts (if c then r else r')"
  by simp

lemma outcome_expect:
  assumes "clean ts" "tt \<noteq> TokenEOF"
  shows "outcome b (\<lambda>us rest t. us = [t] \<and> tokType t = tt) D ts (expect tt what (parsing D ts l))"
proof (cases ts)
  case Nil
  then show ?thesis using assms by (simp add: expect_def next_parsing outcome_fail)
next
  case (Cons t us)
  then show ?thesis using assms
    by (auto simp: expect_def next_parsing intro!: outcome_take outcome_return outcome_fail)
qed

lemma outcome_expectIdent:
  assumes "clean ts"
  shows "outcome b (\<lambda>us rest r. us = [fst r] \<and> tokType (fst r) = TokenIdentifier \<and> snd r = tokRaw (fst r)) D ts
      (expectIdent what (parsing D ts l))"
    and "outcome b (\<lambda>us rest r. us = [fst r] \<and> tokType (fst r) = TokenIntegerConstant \<and> snd r = tokRaw (fst r)) D ts
      (expectInteger what (parsing D ts l))"
  unfolding expectIdent_def expectInteger_def
  by (rule outcome_bind [OF outcome_expect [OF assms]]; simp add: outcome_return)+

lemma outcome_peek:
  "clean ts \<Longrightarrow> (\<And>tok l'. (tok, parsing D ts l') = peekTok (parsing D ts l) \<Longrightarrow> tok = headTok ts \<Longrightarrow> outcome b G D ts (f tok (parsing D ts l'))) \<Longrightarrow>
     outcome b G D ts (case peekTok (parsing D ts l) of (tok, p1) \<Rightarrow> f tok p1)"
  by (simp add: peek_parsing)

lemma outcome_accept:
  assumes "clean ts" "tt \<noteq> TokenEOF"
    and "\<And>t us. ts = t # us \<Longrightarrow> tokType t = tt \<Longrightarrow> (True, parsing D us t) = accept tt (parsing D ts l) \<Longrightarrow>
      outcome b (\<lambda>vs. G (t # vs)) D us (f True (parsing D us t))"
    and "\<And>l'. (False, parsing D ts l') = accept tt (parsing D ts l) \<Longrightarrow> headType ts \<noteq> tt \<Longrightarrow> outcome b G D ts (f False (parsing D ts l'))"
  shows "outcome b G D ts (case accept tt (parsing D ts l) of (b, p1) \<Rightarrow> f b p1)"
proof (cases "headType ts = tt")
  case True
  then obtain t us where "ts = t # us" using assms(2) by (cases ts) auto
  then show ?thesis using assms(1,3) True assms(2) by (auto simp: accept_parsing intro!: outcome_take)
next
  case False
  then show ?thesis using assms(1,2,4) by (auto simp: accept_parsing)
qed

text \<open>A token that was peeked and is not the end is taken by \<open>nextTok\<close>.\<close>

lemma outcome_next:
  assumes "clean ts" "headType ts \<noteq> TokenEOF"
    and "\<And>t us. ts = t # us \<Longrightarrow> nextTok (parsing D ts l) = (t, parsing D us t) \<Longrightarrow> outcome b (\<lambda>vs. G (t # vs)) D us (f (parsing D us t))"
  shows "outcome b G D ts (f (snd (nextTok (parsing D ts l))))"
proof -
  obtain t us where ts: "ts = t # us" using assms(2) by (cases ts) auto
  then have n: "nextTok (parsing D ts l) = (t, parsing D us t)" using assms(1) by (simp add: next_parsing)
  from outcome_take [OF assms(3) [OF ts n]] show ?thesis by (simp add: n ts [symmetric])
qed

section \<open>Expressions\<close>

lemma exprOf_down: "exprOf k ts e \<Longrightarrow> k \<le> 12 \<Longrightarrow> j \<le> k \<Longrightarrow> exprOf j ts e"
  by (rule inc_induct [of j k]) (auto intro: exprOf_up)

definition stops :: "nat \<Rightarrow> token list \<Rightarrow> bool" where
  "stops m rest \<longleftrightarrow> infixPrecedence (headType rest) < int m \<and> (m = 0 \<longrightarrow> headType rest \<noteq> TokenAssign)"

lemma stops_iff: "\<not> infixPrecedence (headType ts) < int m \<Longrightarrow> headType ts \<noteq> TokenAssign \<Longrightarrow> stops k ts \<Longrightarrow> m < k"
  by (simp add: stops_def)

lemma expression_sound:
  "clean ts1 \<Longrightarrow> m \<le> 11 \<Longrightarrow> p1 = parsing D ts1 l1 \<Longrightarrow>
     outcome True (\<lambda>us rest e. exprOf m us e \<and> stops m rest) D ts1 (parseExpression m p1)"
  "clean ts2 \<Longrightarrow> p2 = parsing D ts2 l2 \<Longrightarrow> exprOf k vs lhs \<Longrightarrow> n \<le> k \<Longrightarrow> k \<le> 11 \<Longrightarrow> infixPrecedence (headType ts2) \<le> int k \<Longrightarrow>
     (k = 0 \<longrightarrow> headType ts2 \<noteq> TokenAssign) \<Longrightarrow>
     outcome True (\<lambda>us rest e. exprOf n (vs @ us) e \<and> stops n rest) D ts2 (infixLoop n lhs p2)"
  "clean ts3 \<Longrightarrow> p3 = parsing D ts3 l3 \<Longrightarrow> outcome True (\<lambda>us rest e. exprOf 11 us e) D ts3 (parseUnaryExpression p3)"
  "clean ts4 \<Longrightarrow> p4 = parsing D ts4 l4 \<Longrightarrow> outcome True (\<lambda>us rest e. exprOf 12 us e) D ts4 (parsePostfixExpression p4)"
  "clean ts5 \<Longrightarrow> p5 = parsing D ts5 l5 \<Longrightarrow> exprOf 12 ws f \<Longrightarrow>
     outcome True (\<lambda>us rest e. exprOf 12 (ws @ us) e) D ts5 (callLoop f p5)"
  "clean ts6 \<Longrightarrow> p6 = parsing D ts6 l6 \<Longrightarrow>
     outcome True (\<lambda>us rest as'. \<exists>as. as' = acc @ as \<and> argsOf us as) D ts6 (parseArguments acc p6)"
  "clean ts7 \<Longrightarrow> p7 = parsing D ts7 l7 \<Longrightarrow> outcome True (\<lambda>us rest e. exprOf 12 us e) D ts7 (parsePrimaryExpression p7)"
proof (induction m p1 and n lhs p2 and p3 and p4 and f p5 and acc p6 and p7 arbitrary: ts1 D l1 and ts2 D l2 k vs and ts3 D l3
    and ts4 D l4 and ts5 D l5 ws and ts6 D l6 and ts7 D l7
    rule: parseExpression_infixLoop_parseUnaryExpression_parsePostfixExpression_callLoop_parseArguments_parsePrimaryExpression.induct)
  case (1 m p)
  show ?case
    unfolding parseExpression.simps [of m p]
  proof (rule outcome_bind [OF 1(1) [OF 1(3,5)]])
    fix e us rest l
    assume ts: "ts1 = us @ rest" and r: "parseUnaryExpression p = (Some e, parsing D rest l)" and g: "exprOf 11 us e"
    have "infixPrecedence (headType rest) \<le> int 11" using prec_values [of "headType rest"] by auto
    then show "outcome True (\<lambda>vs rest' y. exprOf m (us @ vs) y \<and> stops m rest') D rest (infixLoop m e (parsing D rest l))"
      using 1(2) [OF r _ refl g 1(4) order_refl] 1(3) ts by auto
  qed
next
  case (2 m lhs p)
  show ?case
    unfolding 2(6)
  proof (subst infixLoop.simps, rule outcome_peek [OF 2(5)], rule outcome_if, rule outcome_if)
    fix tok l'
    assume k: "(tok, parsing D ts2 l') = peekTok (parsing D ts2 l2)" and t: "tok = headTok ts2" "tokType tok = TokenAssign" "0 < m"
    then show "outcome True (\<lambda>us rest e. exprOf m (vs @ us) e \<and> stops m rest) D ts2 (Some lhs, parsing D ts2 l')"
      using exprOf_down [OF 2(7)] 2(8,9) by (intro outcome_return) (auto simp: stops_def)
  next
    fix tok l'
    assume k: "(tok, parsing D ts2 l') = peekTok (parsing D ts2 l2)" and t: "tok = headTok ts2" "tokType tok = TokenAssign" "\<not> 0 < m"
    show "outcome True (\<lambda>us rest e. exprOf m (vs @ us) e \<and> stops m rest) D ts2
       (bindP (parseExpression 0 (snd (nextTok (parsing D ts2 l'))))
         (\<lambda>rhs. infixLoop m (AssignmentExpression tok lhs rhs)))"
    proof (rule outcome_next [where f = "\<lambda>q. bindP (parseExpression 0 q) (\<lambda>rhs. infixLoop m (AssignmentExpression tok lhs rhs))", OF 2(5)])
      fix t' us
      assume ts: "ts2 = t' # us" and n: "nextTok (parsing D ts2 l') = (t', parsing D us t')"
      note ih = 2(1,2) [OF k [folded 2(6)] t(2,3), unfolded n snd_conv]
      show "outcome True (\<lambda>us rest e. exprOf m (vs @ t' # us) e \<and> stops m rest) D us
         (bindP (parseExpression 0 (parsing D us t')) (\<lambda>rhs. infixLoop m (AssignmentExpression tok lhs rhs)))"
      proof (rule outcome_bind [OF ih(1) [OF _ _ refl]])
        fix rhs us1 rest l
        assume u: "us = us1 @ rest" and r: "parseExpression 0 (parsing D us t') = (Some rhs, parsing D rest l)"
          and g: "exprOf 0 us1 rhs \<and> stops 0 rest"
        have "exprOf 1 vs lhs" using exprOf_down [OF 2(7), of 1] 2(9,11) t by (cases k) auto
        then have a: "exprOf 0 (vs @ t' # us1) (AssignmentExpression tok lhs rhs)"
          using g t ts exprOf_assign [of vs lhs tok us1 rhs] by simp
        have c: "clean rest" using 2(5) ts u by simp
        show "outcome True (\<lambda>vs' rest e. exprOf m (vs @ t' # us1 @ vs') e \<and> stops m rest) D rest
            (infixLoop m (AssignmentExpression tok lhs rhs) (parsing D rest l))"
          using ih(2) [OF r c refl a] t g by (simp add: stops_def)
      qed (use 2(5) ts in auto)
    qed (use t 2(5) in auto)
  next
    fix tok l'
    assume k: "(tok, parsing D ts2 l') = peekTok (parsing D ts2 l2)" and t: "tok = headTok ts2" "tokType tok \<noteq> TokenAssign"
    show "outcome True (\<lambda>us rest e. exprOf m (vs @ us) e \<and> stops m rest) D ts2
       (if infixPrecedence (tokType tok) < int m then (Some lhs, parsing D ts2 l')
        else bindP (parseExpression (nat (infixPrecedence (tokType tok) + 1)) (snd (nextTok (parsing D ts2 l'))))
               (\<lambda>rhs. infixLoop m (BinaryExpression tok (tokType tok) lhs rhs)))"
    proof (rule outcome_if)
      assume "infixPrecedence (tokType tok) < int m"
      then show "outcome True (\<lambda>us rest e. exprOf m (vs @ us) e \<and> stops m rest) D ts2 (Some lhs, parsing D ts2 l')"
        using exprOf_down [OF 2(7)] 2(8,9) t by (intro outcome_return) (auto simp: stops_def)
    next
      assume m: "\<not> infixPrecedence (tokType tok) < int m"
      let ?q = "nat (infixPrecedence (tokType tok))"
      have q: "infixPrecedence (tokType tok) = int ?q" "m \<le> ?q" using m by auto
      then have q': "nat (infixPrecedence (tokType tok) + 1) = Suc ?q" "Suc ?q \<le> 11" "0 < ?q"
        using prec_range [of "tokType tok" ?q] by auto
      have qk: "?q \<le> k" using 2(10) t by simp
      show "outcome True (\<lambda>us rest e. exprOf m (vs @ us) e \<and> stops m rest) D ts2
         (bindP (parseExpression (nat (infixPrecedence (tokType tok) + 1)) (snd (nextTok (parsing D ts2 l'))))
               (\<lambda>rhs. infixLoop m (BinaryExpression tok (tokType tok) lhs rhs)))"
      proof (rule outcome_next [where f = "\<lambda>q. bindP (parseExpression (nat (infixPrecedence (tokType tok) + 1)) q)
            (\<lambda>rhs. infixLoop m (BinaryExpression tok (tokType tok) lhs rhs))", OF 2(5)])
        fix t' us
        assume ts: "ts2 = t' # us" and n: "nextTok (parsing D ts2 l') = (t', parsing D us t')"
        note ih = 2(3,4) [OF k [folded 2(6)] t(2) m]
        show "outcome True (\<lambda>us rest e. exprOf m (vs @ t' # us) e \<and> stops m rest) D us
           (bindP (parseExpression (nat (infixPrecedence (tokType tok) + 1)) (parsing D us t'))
              (\<lambda>rhs. infixLoop m (BinaryExpression tok (tokType tok) lhs rhs)))"
          unfolding q'
        proof (rule outcome_bind [OF ih(1) [unfolded n snd_conv q', OF _ q'(2) refl]])
          fix rhs us1 rest l
          assume u: "us = us1 @ rest" and r: "parseExpression (Suc ?q) (parsing D us t') = (Some rhs, parsing D rest l)"
            and g: "exprOf (Suc ?q) us1 rhs \<and> stops (Suc ?q) rest"
          have tk: "t' = tok" using t ts by simp
          have a: "exprOf ?q (vs @ t' # us1) (BinaryExpression tok (tokType tok) lhs rhs)"
            using exprOf_down [OF 2(7) _ qk] 2(9) q(1) g exprOf_binary [of ?q vs lhs tok us1 rhs] unfolding tk by auto
          have c: "clean rest" using 2(5) ts u by simp
          show "outcome True (\<lambda>vs' rest e. exprOf m (vs @ t' # us1 @ vs') e \<and> stops m rest) D rest
              (infixLoop m (BinaryExpression tok (tokType tok) lhs rhs) (parsing D rest l))"
            using ih(2) [unfolded n snd_conv q', OF r c refl a q(2)] q' g by (simp add: stops_def)
        qed (use 2(5) ts in auto)
      qed (use t m in \<open>auto dest: infix_not_EOF\<close>)
    qed
  qed
next
  case (3 p)
  show ?case
    unfolding 3(4)
  proof (subst parseUnaryExpression.simps, rule outcome_peek [OF 3(3)], rule outcome_if)
    fix tok l'
    assume k: "(tok, parsing D ts3 l') = peekTok (parsing D ts3 l3)" and t: "tok = headTok ts3" "tokType tok \<in> unaryTokens"
    show "outcome True (\<lambda>us rest e. exprOf 11 us e) D ts3
        (bindP (parseUnaryExpression (snd (nextTok (parsing D ts3 l')))) (\<lambda>operand p2.
            (Some (UnaryExpression tok (tokType tok) operand), p2)))"
    proof (rule outcome_next [where f = "\<lambda>q. bindP (parseUnaryExpression q) (\<lambda>operand p2.
            (Some (UnaryExpression tok (tokType tok) operand), p2))", OF 3(3)])
      fix t' us
      assume ts: "ts3 = t' # us" and n: "nextTok (parsing D ts3 l') = (t', parsing D us t')"
      have ih: "outcome True (\<lambda>us rest e. exprOf 11 us e) D us (parseUnaryExpression (parsing D us t'))"
        using 3(1) [OF k [folded 3(4)] t(2), unfolded n snd_conv, OF _ refl] 3(3) ts by simp
      show "outcome True (\<lambda>us rest e. exprOf 11 (t' # us) e) D us
          (bindP (parseUnaryExpression (parsing D us t')) (\<lambda>operand p2. (Some (UnaryExpression tok (tokType tok) operand), p2)))"
        by (rule outcome_bind [OF ih], rule outcome_return) (use t ts exprOf_unary [of t'] in auto)
    qed (use t in \<open>auto dest: unary_not_EOF\<close>)
  next
    fix tok l'
    assume k: "(tok, parsing D ts3 l') = peekTok (parsing D ts3 l3)" and t: "tok = headTok ts3" "tokType tok \<notin> unaryTokens"
    show "outcome True (\<lambda>us rest e. exprOf 11 us e) D ts3 (parsePostfixExpression (parsing D ts3 l'))"
      using 3(2) [OF k [folded 3(4)] t(2) 3(3) refl] by (rule outcome_mono) (rule exprOf_down [of 12]; simp)
  qed
next
  case (4 p)
  show ?case
    unfolding parsePostfixExpression.simps [of p]
    by (rule outcome_bind [OF 4(1) [OF 4(3,4)]]) (use 4(2) [OF _ _ refl] 4(3) in auto)
next
  case (5 e p)
  show ?case
    unfolding 5(4)
  proof (subst callLoop.simps, rule outcome_accept [OF 5(3)], simp add: token_types)
    fix t us
    assume ts: "ts5 = t # us" and lp: "tokType t = TokenLParen"
      and a: "(True, parsing D us t) = accept TokenLParen (parsing D ts5 l5)"
    let ?args = "\<lambda>q. case peekTok q of (tok, p2) \<Rightarrow> if tokType tok \<noteq> TokenRParen then parseArguments [] p2 else (Some [], p2)"
    have c: "clean us" using 5(3) ts by simp
    note a' = a [folded 5(4)]
    have args: "outcome True (\<lambda>us rest as. (us = [] \<and> as = []) \<or> argsOf us as) D us (?args (parsing D us t))"
    proof (rule outcome_peek [OF c], rule outcome_if)
      fix tok l'
      assume k: "(tok, parsing D us l') = peekTok (parsing D us t)" and n: "tokType tok \<noteq> TokenRParen"
      show "outcome True (\<lambda>us rest as. (us = [] \<and> as = []) \<or> argsOf us as) D us (parseArguments [] (parsing D us l'))"
        using 5(1) [OF a' _ k n c refl] by (auto elim!: outcome_mono)
    qed (rule outcome_return, simp)
    have "outcome True (\<lambda>vs rest e. exprOf 12 (ws @ t # vs) e) D us
        (bindP (?args (parsing D us t)) (\<lambda>args p3.
          bindP (expect TokenRParen '')'' p3) (\<lambda>_ p4. callLoop (CallExpression t e args) p4)))"
    proof (rule outcome_bind [OF args], rule outcome_bind [OF outcome_expect])
      fix as vs r1 l1 rp vs' r2 l2
      assume u: "us = vs @ r1" "r1 = vs' @ r2" and r: "?args (parsing D us t) = (Some as, parsing D r1 l1)"
        and g: "(vs = [] \<and> as = []) \<or> argsOf vs as" and e: "expect TokenRParen '')'' (parsing D r1 l1) = (Some rp, parsing D r2 l2)"
        and rp: "vs' = [rp] \<and> tokType rp = TokenRParen"
      have call: "exprOf 12 (ws @ t # vs @ [rp]) (CallExpression (psLast (parsing D us t)) e as)"
        using g exprOf_call0 [OF 5(5) lp] exprOf_call [OF 5(5) lp] rp by auto
      have "clean r2" using c u by simp
      from 5(2) [OF a' _ r e this refl call]
      show "outcome True (\<lambda>us rest e. exprOf 12 (ws @ t # vs @ vs' @ us) e) D r2
          (callLoop (CallExpression t e as) (parsing D r2 l2))"
        using rp by simp
    qed (use c in \<open>auto simp: token_types\<close>)
    then show "outcome True (\<lambda>vs rest e. exprOf 12 (ws @ t # vs) e) D us
        (if \<not> True then (Some e, parsing D us t)
         else bindP (?args (parsing D us t)) (\<lambda>args p3.
          bindP (expect TokenRParen '')'' p3) (\<lambda>_ p4. callLoop (CallExpression (psLast (parsing D us t)) e args) p4)))"
      by (simp only: not_True_eq_False if_False psLast_parsing)
  next
    fix l'
    show "outcome True (\<lambda>us rest e. exprOf 12 (ws @ us) e) D ts5
        (if \<not> False then (Some e, parsing D ts5 l')
         else bindP (case peekTok (parsing D ts5 l') of (tok, p2) \<Rightarrow> if tokType tok \<noteq> TokenRParen then parseArguments [] p2 else (Some [], p2)) (\<lambda>args p3.
          bindP (expect TokenRParen '')'' p3) (\<lambda>_ p4. callLoop (CallExpression (psLast (parsing D ts5 l')) e args) p4)))"
      using outcome_return [of "\<lambda>us rest e. exprOf 12 (ws @ us) e"] 5(5) by simp
  qed
next
  case (6 acc p)
  show ?case
  proof (subst parseArguments.simps, rule outcome_bind [OF 6(1) [OF 6(3) _ 6(4)]])
    fix e us rest l
    assume u: "ts6 = us @ rest" and r: "parseExpression 0 p = (Some e, parsing D rest l)" and g: "exprOf 0 us e \<and> stops 0 rest"
    have c: "clean rest" using 6(3) u by simp
    show "outcome True (\<lambda>vs rest as'. \<exists>as. as' = acc @ as \<and> argsOf (us @ vs) as) D rest
       (case peekTok (parsing D rest l) of (tok, p2) \<Rightarrow>
         if tokType tok = TokenQuestion then
           (case peekTok p2 of (tok', p3) \<Rightarrow> failWith tok' (PUnsupported ''ternary operator'') p3)
         else
           case accept TokenComma p2 of (c, p3) \<Rightarrow>
             if c then parseArguments (acc @ [e]) p3 else (Some (acc @ [e]), p3))"
    proof (rule outcome_peek [OF c], rule outcome_if)
      fix tok l'
      assume k: "(tok, parsing D rest l') = peekTok (parsing D rest l)" and q: "tokType tok \<noteq> TokenQuestion"
      show "outcome True (\<lambda>vs rest as'. \<exists>as. as' = acc @ as \<and> argsOf (us @ vs) as) D rest
         (case accept TokenComma (parsing D rest l') of (c, p3) \<Rightarrow>
             if c then parseArguments (acc @ [e]) p3 else (Some (acc @ [e]), p3))"
      proof (rule outcome_accept [OF c], simp add: token_types)
        fix t vs
        assume ts: "rest = t # vs" and tt: "tokType t = TokenComma" and a: "(True, parsing D vs t) = accept TokenComma (parsing D rest l')"
        have "outcome True (\<lambda>ws rest as'. \<exists>as. as' = (acc @ [e]) @ as \<and> argsOf ws as) D vs (parseArguments (acc @ [e]) (parsing D vs t))"
          using 6(2) [OF r k q a _ _ refl] c ts by simp
        then show "outcome True (\<lambda>ws rest as'. \<exists>as. as' = acc @ as \<and> argsOf (us @ t # ws) as) D vs
            (if True then parseArguments (acc @ [e]) (parsing D vs t) else (Some (acc @ [e]), parsing D vs t))"
          using argsOf_more [of us e t] g tt by (auto elim!: outcome_mono)
      next
        fix l'
        show "outcome True (\<lambda>vs rest as'. \<exists>as. as' = acc @ as \<and> argsOf (us @ vs) as) D rest
            (if False then parseArguments (acc @ [e]) (parsing D rest l') else (Some (acc @ [e]), parsing D rest l'))"
          using g argsOf_one [of us e] by (auto intro!: outcome_return)
      qed
    qed (simp add: peek_parsing [OF c] outcome_fail)
  qed simp
next
  case (7 p)
  show ?case
    unfolding 7(3)
  proof (subst parsePrimaryExpression.simps, rule outcome_peek [OF 7(2)], intro outcome_if outcome_fail)
    fix tok l'
    show "outcome True (\<lambda>us rest e. exprOf 12 us e) D ts7
        (bindP (expectIdent ''identifier'' (parsing D ts7 l')) (\<lambda>r p2. (Some (IdentifierExpression (fst r) (snd r)), p2)))"
      by (rule outcome_bind [OF outcome_expectIdent(1) [OF 7(2)]], rule outcome_return) (auto intro: exprOf_ident)
  next
    fix tok l'
    show "outcome True (\<lambda>us rest e. exprOf 12 us e) D ts7
        (bindP (expectInteger ''integer literal'' (parsing D ts7 l')) (\<lambda>r p2. (Some (IntegerLiteralExpression (fst r) (snd r)), p2)))"
      by (rule outcome_bind [OF outcome_expectIdent(2) [OF 7(2)]], rule outcome_return) (auto intro: exprOf_int)
  next
    fix tok l'
    assume t: "tok = headTok ts7" "tokType tok = TokenCharacterConstant"
    then obtain us where ts: "ts7 = tok # us" by (cases ts7) (auto simp: token_types)
    have "outcome True (\<lambda>vs rest e. exprOf 12 (tok # vs) e) D us (Some (CharacterLiteralExpression tok (tokRaw tok)), parsing D us tok)"
      using t by (intro outcome_return exprOf_char)
    then show "outcome True (\<lambda>us rest e. exprOf 12 us e) D ts7
        (case nextTok (parsing D ts7 l') of (tok', p2) \<Rightarrow> (Some (CharacterLiteralExpression tok' (tokRaw tok')), p2))"
      using outcome_take [of True "\<lambda>us rest e. exprOf 12 us e" tok D us] 7(2) ts by (simp add: next_parsing)
  next
    fix tok l'
    assume k: "(tok, parsing D ts7 l') = peekTok (parsing D ts7 l7)" and t: "tok = headTok ts7"
      and n: "tokType tok \<noteq> TokenIdentifier" "tokType tok \<noteq> TokenIntegerConstant" "tokType tok \<noteq> TokenCharacterConstant"
      and lp: "tokType tok = TokenLParen"
    obtain us where ts: "ts7 = tok # us" using t lp by (cases ts7) (auto simp: token_types)
    have c: "clean us" using 7(2) ts by simp
    have nx: "(tok, parsing D us tok) = nextTok (parsing D ts7 l')" using 7(2) ts by (simp add: next_parsing)
    have "outcome True (\<lambda>vs rest e. exprOf 12 (tok # vs) e) D us
       (case peekTok (parsing D us tok) of (tok', p3) \<Rightarrow>
             if isTypeSpecifierToken (tokType tok') then failWith tok (PUnsupported ''casts'') p3
             else
               bindP (parseExpression 0 p3) (\<lambda>e p4.
               bindP (expect TokenRParen '')'' p4) (\<lambda>_ p5. (Some e, p5))))"
    proof (rule outcome_peek [OF c], intro outcome_if outcome_fail)
      fix tok' l''
      assume k': "(tok', parsing D us l'') = peekTok (parsing D us tok)" and s: "\<not> isTypeSpecifierToken (tokType tok')"
      show "outcome True (\<lambda>vs rest e. exprOf 12 (tok # vs) e) D us
          (bindP (parseExpression 0 (parsing D us l'')) (\<lambda>e p4. bindP (expect TokenRParen '')'' p4) (\<lambda>_ p5. (Some e, p5))))"
        by (rule outcome_bind [OF 7(1) [OF k [folded 7(3)] n lp nx k' s c _ refl]], simp,
            rule outcome_bind [OF outcome_expect], use c in simp, simp, rule outcome_return)
          (use lp exprOf_paren [of tok] in auto)
    qed
    then show "outcome True (\<lambda>us rest e. exprOf 12 us e) D ts7
        (case nextTok (parsing D ts7 l') of (openTok, p2) \<Rightarrow>
           case peekTok p2 of (tok', p3) \<Rightarrow>
             if isTypeSpecifierToken (tokType tok') then failWith openTok (PUnsupported ''casts'') p3
             else
               bindP (parseExpression 0 p3) (\<lambda>e p4.
               bindP (expect TokenRParen '')'' p4) (\<lambda>_ p5. (Some e, p5))))"
      using outcome_take [of True "\<lambda>us rest e. exprOf 12 us e" tok D us] nx [symmetric] by (simp add: ts)
  qed
qed

end
