(* ===== verification/StmtComplete.thy ===== *)
theory StmtComplete
  imports GrammarSound
begin

text \<open>Completeness for declarations, statements and translation units.\<close>

section \<open>Reaching a result\<close>

text \<open>\<open>reaches D rest x r\<close>: a method succeeded with \<open>x\<close>, left \<open>rest\<close> and added no diagnostic to \<open>D\<close>.\<close>

definition reaches :: "parseError list \<Rightarrow> token list \<Rightarrow> 'a \<Rightarrow> 'a parsed \<Rightarrow> bool" where
  "reaches D rest x r \<longleftrightarrow> (\<exists>l. r = (Some x, parsing D rest l))"

lemma reaches_return [simp]: "reaches D rest x (Some x, parsing D rest l)"
  by (auto simp: reaches_def)

lemma reaches_bind:
  "reaches D rest x r \<Longrightarrow> (\<And>l. reaches D rest' y (f x (parsing D rest l))) \<Longrightarrow> reaches D rest' y (bindP r f)"
  by (auto simp: reaches_def)

lemma reaches_peek:
  "clean ts \<Longrightarrow> (\<And>l. reaches D rest x (f (headTok ts) (parsing D ts l))) \<Longrightarrow>
     reaches D rest x (case peekTok (parsing D ts l) of (tok, p1) \<Rightarrow> f tok p1)"
  by (simp add: peek_parsing)

lemma reaches_accept:
  "clean (t # ts) \<Longrightarrow> tokType t = tt \<Longrightarrow> (\<And>l. reaches D rest x (f True (parsing D ts l))) \<Longrightarrow>
     reaches D rest x (case accept tt (parsing D (t # ts) l) of (b, p1) \<Rightarrow> f b p1)"
  by (auto simp: accept_parsing)

lemma reaches_refuse:
  "clean ts \<Longrightarrow> tt \<noteq> TokenEOF \<Longrightarrow> headType ts \<noteq> tt \<Longrightarrow> (\<And>l. reaches D rest x (f False (parsing D ts l))) \<Longrightarrow>
     reaches D rest x (case accept tt (parsing D ts l) of (b, p1) \<Rightarrow> f b p1)"
  by (simp add: accept_parsing)

lemma reaches_expect: "clean (t # ts) \<Longrightarrow> tokType t = tt \<Longrightarrow> reaches D ts t (expect tt what (parsing D (t # ts) l))"
  by (auto simp: expect_parsing reaches_def)

lemma reaches_expectIdent:
  "clean (t # ts) \<Longrightarrow> tokType t = TokenIdentifier \<Longrightarrow> reaches D ts (t, tokRaw t) (expectIdent what (parsing D (t # ts) l))"
  unfolding expectIdent_def by (rule reaches_bind, rule reaches_expect) simp_all

section \<open>Declarations\<close>

lemma typeName_complete:
  assumes "clean (tt # ts)" "isTypeSpecifierToken (tokType tt)"
  shows "reaches D ts (tt, mkTypeName tt (specifierOf (tokType tt))) (parseTypeName (parsing D (tt # ts) l))"
  using assms unfolding isTypeSpecifierToken_def
  by (elim disjE) (simp_all add: parseTypeName_def peek_parsing next_parsing specifierOf_def token_types)

lemma stars_complete:
  "clean (stars @ rest) \<Longrightarrow> \<forall>s \<in> set stars. tokType s = TokenStar \<Longrightarrow> headType rest \<noteq> TokenStar \<Longrightarrow>
     \<exists>l'. parseStars n (parsing D (stars @ rest) l) = (n + length stars, parsing D rest l')"
proof (induction stars arbitrary: n l)
  case Nil
  then show ?case by (subst parseStars.simps) (auto simp: accept_parsing)
next
  case (Cons s stars)
  then obtain l' where "parseStars (n + 1) (parsing D (stars @ rest) s) = (n + 1 + length stars, parsing D rest l')" by fastforce
  then show ?case using Cons.prems by (subst parseStars.simps) (auto simp: accept_parsing)
qed

lemma declarator_complete:
  assumes "typeAndName tt stars nm" "clean (stars @ nm # rest)" "headType rest \<noteq> TokenLBracket"
  shows "reaches D rest (nm, tokRaw nm, length stars) (parseDeclarator what (parsing D (stars @ nm # rest) l))"
proof -
  have nm: "tokType nm = TokenIdentifier" "TokenIdentifier \<noteq> TokenStar" "TokenIdentifier \<noteq> TokenLParen"
    using assms(1) by (auto simp: typeAndName_def token_types)
  obtain l' where s: "parseStars 0 (parsing D (stars @ nm # rest) l) = (length stars, parsing D (nm # rest) l')"
    using stars_complete [of stars "nm # rest" 0 D l] assms nm by (auto simp: typeAndName_def)
  have "reaches D rest (nm, tokRaw nm, length stars)
     (case peekTok (parsing D (nm # rest) l') of (tok, p2) \<Rightarrow>
        if tokType tok = TokenLParen then
          (case peekTok p2 of (tok', p3) \<Rightarrow> failWith tok' (PUnsupported ''function pointers'') p3)
        else
          bindP (expectIdent what p2) (\<lambda>r p3.
            case peekTok p3 of (tok', p4) \<Rightarrow>
              if tokType tok' = TokenLBracket then
                (case peekTok p4 of (tok'', p5) \<Rightarrow> failWith tok'' (PUnsupported ''arrays'') p5)
              else (Some (fst r, snd r, length stars), p4)))"
    using assms nm
    by (intro reaches_peek) (auto intro!: reaches_bind [OF reaches_expectIdent] reaches_peek reaches_return)
  then show ?thesis by (simp add: parseDeclarator_def s)
qed

lemma whole_complete:
  assumes "exprOf 0 es e" "clean (es @ rest)" "headType rest = TokenSemicolon \<or> headType rest = TokenRParen"
  shows "reaches D rest e (parseWholeExpression (parsing D (es @ rest) l))"
proof -
  have e: "reaches D rest e (parseExpression 0 (parsing D (es @ rest) l))"
    using parsesAs_whole [OF exprOf_complete(1) [OF assms(1)] _ assms(2), of D l] assms(3) by (auto simp: reaches_def)
  have t: "reaches D rest () (hasDisallowedExprTail (parsing D rest l'))" for l'
    using assms unfolding hasDisallowedExprTail_def
    by (intro reaches_peek) (auto intro: reaches_return simp: compoundAssigns_def token_types)
  show ?thesis
    unfolding parseWholeExpression_def by (rule reaches_bind [OF e], rule reaches_bind [OF t], rule reaches_return)
qed

lemma initializer_first: "initializerOf us ini \<Longrightarrow> headType (us @ rest) = TokenSemicolon \<or> headType (us @ rest) = TokenAssign"
  by (cases rule: initializerOf.cases) auto

lemma declarationTail_complete:
  assumes "initializerOf us ini" "clean (us @ rest)"
  shows "reaches D rest \<lparr>declToken = tt, declType = typ, declName = name, declInitializer = ini\<rparr>
     (parseDeclarationTail tt typ nm name (parsing D (us @ rest) l))"
  using assms(1)
proof (cases rule: initializerOf.cases)
  case (initializerOf_none semi)
  have "reaches D (semi # rest) None (parseInitializer (parsing D (semi # rest) l))"
    using initializerOf_none assms(2) unfolding parseInitializer_def
    by (intro reaches_refuse) (auto intro: reaches_return simp: token_types)
  then show ?thesis
    using initializerOf_none assms(2) unfolding parseDeclarationTail_def
    by (auto simp: token_types intro!: reaches_bind [where x = None and rest = "semi # rest"] reaches_refuse reaches_bind [OF reaches_expect] reaches_return)
next
  case (initializerOf_some eq es e semi)
  have "reaches D (semi # rest) (Some e) (parseInitializer (parsing D (eq # es @ semi # rest) l))"
    using initializerOf_some assms(2) unfolding parseInitializer_def
    by (intro reaches_accept) (auto intro!: reaches_bind [OF whole_complete [of es]] reaches_return)
  then show ?thesis
    using initializerOf_some assms(2) unfolding parseDeclarationTail_def
    by (auto simp: token_types intro!: reaches_bind [where x = "Some e" and rest = "semi # rest"] reaches_refuse reaches_bind [OF reaches_expect] reaches_return)
qed

lemma localDecl_complete:
  assumes "localDeclOf ts s" "clean (ts @ rest)"
  shows "reaches D rest s (parseDeclarationStatement (parsing D (ts @ rest) l))"
  using assms(1)
proof (cases rule: localDeclOf.cases)
  case (localDeclOf decl)
  from localDeclOf(2) show ?thesis
  proof (cases rule: declarationOf.cases)
    case (declarationOf tt stars nm us ini)
    have "headType (us @ rest) \<noteq> TokenLBracket" using initializer_first [OF declarationOf(4), of rest] by (auto simp: token_types)
    then show ?thesis
      using localDeclOf declarationOf assms(2) unfolding parseDeclarationStatement_def
      by (auto simp: typeAndName_def declaredType_def isVoidObject_def Let_def
          intro!: reaches_bind [OF typeName_complete] reaches_bind [OF declarator_complete] reaches_bind [OF declarationTail_complete] reaches_return)
  qed
qed

section \<open>Heads of statements\<close>

lemma exprStmt_complete:
  assumes "exprStmtOf ts s" "clean (ts @ rest)"
  shows "reaches D rest s (parseExpressionStatement (parsing D (ts @ rest) l))"
  using assms(1)
proof (cases rule: exprStmtOf.cases)
  case (exprStmtOf es e semi)
  have h: "headType (es @ semi # rest) \<noteq> TokenSemicolon" "headTok (es @ semi # rest) = hd es"
    using first_head(1) [OF exprStmtOf(3), of "semi # rest"] not_first(2) expr_first(1) [OF exprStmtOf(3)] by (auto simp: headTok_append)
  show ?thesis
    using exprStmtOf assms(2) h unfolding parseExpressionStatement_def
    by (auto intro!: reaches_peek reaches_refuse reaches_bind [OF whole_complete [of es]] reaches_bind [OF reaches_expect])
qed

lemma head_complete:
  assumes "headOf tt ts kw e" "clean (ts @ rest)"
  shows "reaches D rest (kw, e) (parseHead tt what (parsing D (ts @ rest) l))"
  using assms(1)
proof (cases rule: headOf.cases)
  case (headOf lp es rp)
  then show ?thesis
    using assms(2) unfolding parseHead_def
    by (auto intro!: reaches_bind [OF reaches_expect] reaches_bind [OF whole_complete [of es]])
qed

lemma forInit_complete:
  assumes "forInitOf ts ini" "clean (ts @ rest)"
  shows "reaches D rest ini (parseForInit (parsing D (ts @ rest) l))"
  using assms(1)
proof (cases rule: forInitOf.cases)
  case (forInitOf_none semi)
  then show ?thesis using assms(2) unfolding parseForInit_def by (auto intro!: reaches_accept)
next
  case (forInitOf_decl s)
  from forInitOf_decl(2) have h: "isTypeSpecifierToken (headType (ts @ rest))" "headType (ts @ rest) \<noteq> TokenSemicolon"
    by (auto elim!: localDeclOf.cases declarationOf.cases simp: typeAndName_def isTypeSpecifierToken_def token_types)
  have s: "reaches D rest (Some s) (bindP (parseDeclarationStatement (parsing D (ts @ rest) l)) (\<lambda>s p3. (Some (Some s), p3)))" for l
    by (rule reaches_bind [OF localDecl_complete [OF forInitOf_decl(2) assms(2)]], rule reaches_return)
  show ?thesis using forInitOf_decl(1) assms(2) h s unfolding parseForInit_def
    by (auto intro!: reaches_refuse reaches_peek)
next
  case (forInitOf_expr s)
  from forInitOf_expr(2) show ?thesis
  proof (cases rule: exprStmtOf.cases)
    case (exprStmtOf es e semi)
    have h: "headType (es @ semi # rest) \<noteq> TokenSemicolon" "headTok (es @ semi # rest) = hd es"
      "\<not> isTypeSpecifierToken (headType (es @ semi # rest))"
      using first_head(1) [OF exprStmtOf(3), of "semi # rest"] not_first(2,3) expr_first(1) [OF exprStmtOf(3)] by (auto simp: headTok_append)
    have c: "clean (es @ semi # rest)" "clean (semi # rest)" using assms(2) exprStmtOf(1) by auto
    have s: "reaches D rest (Some s) (bindP (parseWholeExpression (parsing D (es @ semi # rest) l)) (\<lambda>e p4.
        bindP (expect TokenSemicolon '';'' p4) (\<lambda>_ p5. (Some (Some (ExpressionStatement (hd es) (Some e))), p5))))" for l
      unfolding exprStmtOf(2)
      by (rule reaches_bind [OF whole_complete [OF exprStmtOf(3) c(1)]], simp add: exprStmtOf(4),
          rule reaches_bind [OF reaches_expect [OF c(2) exprStmtOf(4)]], rule reaches_return)
    show ?thesis
      using forInitOf_expr(1) exprStmtOf(1) c(1) h s unfolding parseForInit_def
      by (auto intro!: reaches_peek reaches_refuse)
  qed
qed

lemma forCond_complete:
  assumes "optExprOf TokenSemicolon ts cond" "clean (ts @ rest)"
  shows "reaches D rest cond (parseForCond (parsing D (ts @ rest) l))"
  using assms(1)
proof (cases rule: optExprOf.cases)
  case (optExprOf_none semi)
  then show ?thesis using assms(2) unfolding parseForCond_def by (auto intro!: reaches_accept)
next
  case (optExprOf_some es e semi)
  have "headType (es @ semi # rest) \<noteq> TokenSemicolon" using first_head(1) [OF optExprOf_some(3), of "semi # rest"] not_first(2) by auto
  then show ?thesis using assms(2) optExprOf_some unfolding parseForCond_def
    by (auto intro!: reaches_refuse reaches_bind [OF whole_complete [of es]] reaches_bind [OF reaches_expect])
qed

lemma forPost_complete:
  assumes "optExprOf TokenRParen ts post" "clean (ts @ rest)"
  shows "\<exists>rp. reaches D (rp # rest) post (parseForPost (parsing D (ts @ rest) l)) \<and> tokType rp = TokenRParen \<and> clean (rp # rest)"
  using assms(1)
proof (cases rule: optExprOf.cases)
  case (optExprOf_none rp)
  then show ?thesis using assms(2) unfolding parseForPost_def by (auto intro!: exI [of _ rp] reaches_peek simp: token_types)
next
  case (optExprOf_some es e rp)
  have "headType (es @ rp # rest) \<noteq> TokenRParen" using first_head(1) [OF optExprOf_some(3), of "rp # rest"] not_first(1) by auto
  then show ?thesis using assms(2) optExprOf_some unfolding parseForPost_def
    by (auto intro!: exI [of _ rp] reaches_peek reaches_bind [OF whole_complete [of es]] simp: token_types)
qed

lemma forHead_complete:
  assumes "forHeadOf ts kw ini cond post" "clean (ts @ rest)"
  shows "reaches D rest (kw, ini, cond, post) (parseForHead (parsing D (ts @ rest) l))"
  using assms(1)
proof (cases rule: forHeadOf.cases)
  case (forHeadOf lp "is" cs ps)
  have c: "clean (ps @ rest)" "clean (cs @ ps @ rest)" "clean (is @ cs @ ps @ rest)" using assms(2) forHeadOf(1) by auto
  have post: "reaches D rest (kw, ini, cond, post)
     (bindP (parseForPost (parsing D (ps @ rest) l)) (\<lambda>post p5.
      bindP (expect TokenRParen '')'' p5) (\<lambda>_ p6. (Some (kw, ini, cond, post), p6))))" for l
  proof -
    obtain rp where "reaches D (rp # rest) post (parseForPost (parsing D (ps @ rest) l))" "tokType rp = TokenRParen" "clean (rp # rest)"
      using forPost_complete [OF forHeadOf(6) c(1)] by blast
    note rp = this
    show ?thesis by (rule reaches_bind [OF rp(1)], rule reaches_bind [OF reaches_expect [OF rp(3,2)]], rule reaches_return)
  qed
  show ?thesis
    using assms(2) forHeadOf unfolding parseForHead_def
    by (auto intro!: reaches_bind [OF reaches_expect] reaches_bind [OF forInit_complete [of "is"]] reaches_bind [OF forCond_complete [of cs]] post)
qed

lemma return_complete:
  assumes "tokType kw = TokenReturn" "optExprOf TokenSemicolon ts e" "clean (kw # ts @ rest)"
  shows "reaches D rest (ReturnStatement kw e) (parseReturnStatement (parsing D (kw # ts @ rest) l))"
  using assms(2)
proof (cases rule: optExprOf.cases)
  case (optExprOf_none semi)
  then show ?thesis using assms unfolding parseReturnStatement_def
    by (auto intro!: reaches_bind [OF reaches_expect] reaches_accept)
next
  case (optExprOf_some es e semi)
  have "headType (es @ semi # rest) \<noteq> TokenSemicolon" using first_head(1) [OF optExprOf_some(3), of "semi # rest"] not_first(2) by auto
  then show ?thesis using assms optExprOf_some unfolding parseReturnStatement_def
    by (auto intro!: reaches_bind [OF reaches_expect] reaches_refuse reaches_bind [OF whole_complete [of es]])
qed

section \<open>Statements\<close>

definition stmtFirst :: "tokenType set" where
  "stmtFirst = firstTokens \<union> {TokenLBrace, TokenReturn, TokenIf, TokenWhile, TokenFor, TokenSemicolon, TokenInt, TokenChar, TokenVoid}"

lemma exprStmt_first: "exprStmtOf ts s \<Longrightarrow> ts \<noteq> [] \<and> tokType (hd ts) \<in> firstTokens"
  by (cases rule: exprStmtOf.cases) (use expr_first(1) in fastforce)+

lemma localDecl_first: "localDeclOf ts s \<Longrightarrow> ts \<noteq> [] \<and> isTypeSpecifierToken (tokType (hd ts))"
  by (auto elim!: localDeclOf.cases declarationOf.cases simp: typeAndName_def)

lemma head_first: "headOf tt ts kw e \<Longrightarrow> ts \<noteq> [] \<and> tokType (hd ts) = tt"
  by (auto elim: headOf.cases)

lemma forHead_first: "forHeadOf ts kw ini cond post \<Longrightarrow> ts \<noteq> [] \<and> tokType (hd ts) = TokenFor"
  by (auto elim: forHeadOf.cases)

lemma stmt_first:
  assumes "stmtOf c ts s"
  shows "ts \<noteq> [] \<and> tokType (hd ts) \<in> stmtFirst"
  using assms
proof (cases rule: stmtOf.cases)
  case stmtOf_decl
  then show ?thesis using localDecl_first [of ts s] by (auto simp: stmtFirst_def isTypeSpecifierToken_def)
next
  case stmtOf_expr
  then show ?thesis using exprStmt_first [of ts s] by (auto simp: stmtFirst_def)
qed (auto simp: stmtFirst_def dest!: head_first forHead_first)

lemma stmtFirst_not: "tt \<in> stmtFirst \<Longrightarrow> tt \<noteq> TokenElse \<and> tt \<noteq> TokenRBrace \<and> tt \<noteq> TokenEOF"
  by (auto simp: stmtFirst_def firstTokens_def unaryTokens_def token_types)

lemma stmts_head:
  assumes "stmtsOf us ss" "tokType rb = TokenRBrace"
  shows "headType (us @ rb # rest) \<noteq> TokenElse"
  using assms(1)
proof (cases rule: stmtsOf.cases)
  case stmtsOf_nil
  then show ?thesis using assms(2) by (simp add: token_types)
next
  case (stmtsOf_cons c ts s us' ss')
  then show ?thesis using stmt_first [of c ts s] stmtFirst_not by (auto simp: headTok_append)
qed

lemma firstTokens_not_keyword:
  "tt \<in> firstTokens \<Longrightarrow> tt \<notin> {TokenLBrace, TokenReturn, TokenIf, TokenWhile, TokenFor, TokenStruct, TokenSwitch, TokenGoto, TokenDo,
     TokenBreak, TokenContinue} \<and> \<not> isTypeSpecifierToken tt"
  by (auto simp: firstTokens_def unaryTokens_def isTypeSpecifierToken_def token_types)

text \<open>\<open>parseStatement\<close> by the type of the next token.\<close>

lemma dispatch:
  assumes "clean ts"
  shows "headType ts = TokenLBrace \<Longrightarrow> parseStatement (parsing D ts l) =
      bindP (parseBlockStatement (parsing D ts (lastTok ts l))) (\<lambda>b p2. (Some (BlockStatement (fst b) (snd b)), p2))"
    and "headType ts = TokenReturn \<Longrightarrow> parseStatement (parsing D ts l) = parseReturnStatement (parsing D ts (lastTok ts l))"
    and "headType ts = TokenIf \<Longrightarrow> parseStatement (parsing D ts l) = parseIfStatement (parsing D ts (lastTok ts l))"
    and "headType ts = TokenWhile \<Longrightarrow> parseStatement (parsing D ts l) = parseWhileStatement (parsing D ts (lastTok ts l))"
    and "headType ts = TokenFor \<Longrightarrow> parseStatement (parsing D ts l) = parseForStatement (parsing D ts (lastTok ts l))"
    and "isTypeSpecifierToken (headType ts) \<Longrightarrow> parseStatement (parsing D ts l) = parseDeclarationStatement (parsing D ts (lastTok ts l))"
    and "headType ts \<in> firstTokens \<or> headType ts = TokenSemicolon \<Longrightarrow>
      parseStatement (parsing D ts l) = parseExpressionStatement (parsing D ts (lastTok ts l))"
  using assms firstTokens_not_keyword [of "headType ts"]
  by (subst parseStatement.simps; auto simp: peek_parsing isTypeSpecifierToken_def token_types)+

lemma stmt_complete:
  "stmtOf c ts s \<Longrightarrow> \<forall>rest D l. clean (ts @ rest) \<longrightarrow> (\<not> c \<longrightarrow> headType rest \<noteq> TokenElse) \<longrightarrow>
     reaches D rest s (parseStatement (parsing D (ts @ rest) l))"
  "stmtsOf us ss \<Longrightarrow> \<forall>rest D l tok acc rb. clean (us @ rb # rest) \<longrightarrow> tokType rb = TokenRBrace \<longrightarrow>
     reaches D rest (tok, acc @ ss) (blockLoop tok acc (parsing D (us @ rb # rest) l))"
proof (induction c ts s and us ss rule: stmtOf_stmtsOf.inducts)
  case (stmtOf_block lb ts ss rb)
  show ?case
  proof (intro allI impI)
    fix rest D l
    assume c: "clean ((lb # ts @ [rb]) @ rest)"
    have "reaches D rest (lb, ss) (parseBlockStatement (parsing D (lb # ts @ rb # rest) l'))" for l'
      unfolding parseBlockStatement.simps
      by (rule reaches_bind, rule reaches_expect) (use c stmtOf_block.hyps stmtOf_block.IH [rule_format, of rb rest D lb "[]"] in auto)
    then show "reaches D rest (BlockStatement lb ss) (parseStatement (parsing D ((lb # ts @ [rb]) @ rest) l))"
      using c stmtOf_block.hyps dispatch(1) [of "lb # ts @ rb # rest" D l] by (auto intro!: reaches_bind)
  qed
next
  case (stmtOf_return kw ts e)
  then show ?case using return_complete dispatch(2) by auto
next
  case (stmtOf_decl ts s)
  show ?case
  proof (intro allI impI)
    fix rest D l
    assume c: "clean (ts @ rest)"
    have "isTypeSpecifierToken (headType (ts @ rest))" using localDecl_first [OF stmtOf_decl] by (auto simp: headTok_append)
    then show "reaches D rest s (parseStatement (parsing D (ts @ rest) l))"
      using dispatch(6) [OF c] localDecl_complete [OF stmtOf_decl c] by simp
  qed
next
  case (stmtOf_empty semi)
  then show ?case
    by (auto simp: dispatch(7) parseExpressionStatement_def peek_parsing intro!: reaches_accept)
next
  case (stmtOf_expr ts s)
  show ?case
  proof (intro allI impI)
    fix rest D l
    assume c: "clean (ts @ rest)"
    have "headType (ts @ rest) \<in> firstTokens" using exprStmt_first [OF stmtOf_expr] by (auto simp: headTok_append)
    then show "reaches D rest s (parseStatement (parsing D (ts @ rest) l))"
      using dispatch(7) [OF c] exprStmt_complete [OF stmtOf_expr c] by simp
  qed
next
  case (stmtOf_if ts kw e c us s)
  show ?case
  proof (intro allI impI)
    fix rest D l
    assume cl: "clean ((ts @ us) @ rest)" and n: "\<not> False \<longrightarrow> headType rest \<noteq> TokenElse"
    have h: "headType (ts @ us @ rest) = TokenIf" using head_first [OF stmtOf_if.hyps(1)] by (auto simp: headTok_append)
    have "reaches D rest (IfStatement kw e s None) (parseIfStatement (parsing D (ts @ us @ rest) l'))" for l'
      unfolding parseIfStatement.simps
      by (rule reaches_bind [OF head_complete [OF stmtOf_if.hyps(1)]], use cl in simp, rule reaches_bind)
        (use stmtOf_if.IH cl n in \<open>auto intro!: reaches_refuse simp: token_types\<close>)
    then show "reaches D rest (IfStatement kw e s None) (parseStatement (parsing D ((ts @ us) @ rest) l))"
      using dispatch(3) [OF _ h] cl by simp
  qed
next
  case (stmtOf_else ts kw e us s el c vs s')
  show ?case
  proof (intro allI impI)
    fix rest D l
    assume cl: "clean ((ts @ us @ el # vs) @ rest)" and n: "\<not> c \<longrightarrow> headType rest \<noteq> TokenElse"
    have h: "headType (ts @ us @ el # vs @ rest) = TokenIf" using head_first [OF stmtOf_else.hyps(1)] by (auto simp: headTok_append)
    have then': "reaches D (el # vs @ rest) s (parseStatement (parsing D (us @ el # vs @ rest) l'))" for l'
      using stmtOf_else.IH(1) cl by simp
    have else': "reaches D rest s' (parseStatement (parsing D (vs @ rest) l'))" for l'
      using stmtOf_else.IH(2) cl n by simp
    have "reaches D rest (IfStatement kw e s (Some s')) (parseIfStatement (parsing D (ts @ us @ el # vs @ rest) l'))" for l'
      unfolding parseIfStatement.simps
      by (rule reaches_bind [OF head_complete [OF stmtOf_else.hyps(1)]], use cl in simp, rule reaches_bind [OF then'])
        (use stmtOf_else.hyps cl in \<open>auto intro!: reaches_accept reaches_bind [OF else']\<close>)
    then show "reaches D rest (IfStatement kw e s (Some s')) (parseStatement (parsing D ((ts @ us @ el # vs) @ rest) l))"
      using dispatch(3) [OF _ h] cl by simp
  qed
next
  case (stmtOf_while ts kw e c us s)
  show ?case
  proof (intro allI impI)
    fix rest D l
    assume cl: "clean ((ts @ us) @ rest)" and n: "\<not> c \<longrightarrow> headType rest \<noteq> TokenElse"
    have h: "headType (ts @ us @ rest) = TokenWhile" using head_first [OF stmtOf_while.hyps(1)] by (auto simp: headTok_append)
    have "reaches D rest (WhileStatement kw e s) (parseWhileStatement (parsing D (ts @ us @ rest) l'))" for l'
      unfolding parseWhileStatement.simps
      by (rule reaches_bind [OF head_complete [OF stmtOf_while.hyps(1)]], use cl in simp, rule reaches_bind)
        (use stmtOf_while.IH cl n in auto)
    then show "reaches D rest (WhileStatement kw e s) (parseStatement (parsing D ((ts @ us) @ rest) l))"
      using dispatch(4) [OF _ h] cl by simp
  qed
next
  case (stmtOf_for ts kw ini cond post c us s)
  show ?case
  proof (intro allI impI)
    fix rest D l
    assume cl: "clean ((ts @ us) @ rest)" and n: "\<not> c \<longrightarrow> headType rest \<noteq> TokenElse"
    have h: "headType (ts @ us @ rest) = TokenFor" using forHead_first [OF stmtOf_for.hyps(1)] by (auto simp: headTok_append)
    have "reaches D rest (ForStatement kw ini cond post s) (parseForStatement (parsing D (ts @ us @ rest) l'))" for l'
      unfolding parseForStatement.simps
      by (rule reaches_bind [OF forHead_complete [OF stmtOf_for.hyps(1)]], use cl in simp, rule reaches_bind)
        (use stmtOf_for.IH cl n in auto)
    then show "reaches D rest (ForStatement kw ini cond post s) (parseStatement (parsing D ((ts @ us) @ rest) l))"
      using dispatch(5) [OF _ h] cl by simp
  qed
next
  case stmtsOf_nil
  then show ?case by (subst blockLoop.simps) (auto simp: peek_parsing next_parsing token_types)
next
  case (stmtsOf_cons c ts s us ss)
  show ?case
  proof (intro allI impI)
    fix rest D l tok acc rb
    assume cl: "clean ((ts @ us) @ rb # rest)" and rb: "tokType rb = TokenRBrace"
    have h: "headType (ts @ us @ rb # rest) \<noteq> TokenEOF" "headType (ts @ us @ rb # rest) \<noteq> TokenRBrace"
      using stmt_first [OF stmtsOf_cons.hyps(1)] stmtFirst_not by (auto simp: headTok_append)
    obtain l' where s: "parseStatement (parsing D (ts @ us @ rb # rest) (lastTok (ts @ us @ rb # rest) l)) = (Some s, parsing D (us @ rb # rest) l')"
      using stmtsOf_cons.IH(1) cl stmts_head [OF stmtsOf_cons.hyps(2) rb] unfolding reaches_def by fastforce
    have "reaches D rest (tok, (acc @ [s]) @ ss) (blockLoop tok (acc @ [s]) (parsing D (us @ rb # rest) l'))"
      using stmtsOf_cons.IH(2) [rule_format, of rb rest D tok "acc @ [s]" l'] cl rb by simp
    then show "reaches D rest (tok, acc @ s # ss) (blockLoop tok acc (parsing D ((ts @ us) @ rb # rest) l))"
      using h s cl by (subst blockLoop.simps) (simp add: peek_parsing)
  qed
qed

section \<open>Translation units\<close>

lemma params_complete:
  "paramsOf ts ps \<Longrightarrow> clean (ts @ rest) \<Longrightarrow> headType rest = TokenRParen \<Longrightarrow>
     reaches D rest (acc @ ps) (parseParameters acc (parsing D (ts @ rest) l))"
proof (induction ts ps arbitrary: acc l rule: paramsOf.induct)
  case (paramsOf_one tt stars nm)
  then show ?case
    by (subst parseParameters.simps)
      (auto simp: typeAndName_def declaredType_def isVoidObject_def Let_def token_types
        intro!: reaches_bind [OF typeName_complete] reaches_bind [OF declarator_complete] reaches_refuse)
next
  case (paramsOf_more tt stars nm c us ps)
  let ?p = "\<lparr>fpToken = nm, fpType = declaredType tt stars, fpName = tokRaw nm\<rparr>"
  have cl: "clean (tt # stars @ nm # c # us @ rest)" using paramsOf_more.prems by simp
  have hd: "headType (us @ rest) \<noteq> TokenEllipsis"
    using paramsOf_more.hyps(4) by (cases rule: paramsOf.cases) (auto simp: typeAndName_def isTypeSpecifierToken_def token_types)
  have more: "reaches D rest (acc @ ?p # ps) (parseParameters (acc @ [?p]) (parsing D (us @ rest) l'))" for l'
    using paramsOf_more.IH [of "acc @ [?p]"] paramsOf_more.prems by simp
  have tn: "reaches D (stars @ nm # c # us @ rest) (tt, mkTypeName tt (specifierOf (tokType tt))) (parseTypeName (parsing D (tt # stars @ nm # c # us @ rest) l))"
    using cl paramsOf_more.hyps(1) by (intro typeName_complete) (auto simp: typeAndName_def)
  have de: "reaches D (c # us @ rest) (nm, tokRaw nm, length stars) (parseDeclarator what (parsing D (stars @ nm # c # us @ rest) l'))" for l' what
    using cl paramsOf_more.hyps(1,3) by (intro declarator_complete) (auto simp: token_types)
  have ac: "reaches D rest (acc @ ?p # ps)
     (case accept TokenComma (parsing D (c # us @ rest) l') of (b, p3) \<Rightarrow>
        if b then
          (case peekTok p3 of (tok, p4) \<Rightarrow>
             if tokType tok = TokenEllipsis then
               (case peekTok p4 of (tok', p5) \<Rightarrow> failWith tok' (PUnsupported ''variadic functions'') p5)
             else parseParameters (acc @ [?p]) p4)
        else (Some (acc @ [?p]), p3))" for l'
    using cl paramsOf_more.hyps(3) hd more by (intro reaches_accept) (auto intro!: reaches_peek)
  show ?case
    unfolding append_Cons append_assoc append_Nil
    by (subst parseParameters.simps, rule reaches_bind [OF tn], rule reaches_bind [OF de], insert paramsOf_more.hyps(2) ac,
        unfold Let_def fst_conv snd_conv declaredType_def isVoidObject_def if_not_P, simp only: if_not_P if_False)
qed

lemma params_first: "paramsOf ts ps \<Longrightarrow> isTypeSpecifierToken (headType (ts @ rest))"
  by (cases rule: paramsOf.cases) (auto simp: typeAndName_def)

lemma type_not: "isTypeSpecifierToken tt \<Longrightarrow> tt \<noteq> TokenRParen \<and> tt \<noteq> TokenEllipsis \<and> tt \<noteq> TokenEOF"
  by (auto simp: isTypeSpecifierToken_def token_types)

lemma paramList_complete:
  assumes "paramListOf ts ps" "clean (ts @ rest)" "headType rest = TokenRParen"
  shows "reaches D rest ps (parseParameterList (parsing D (ts @ rest) l))"
  using assms(1)
proof (cases rule: paramListOf.cases)
  case paramListOf_none
  then show ?thesis using assms unfolding parseParameterList_def by (auto intro!: reaches_peek)
next
  case paramListOf_some
  then show ?thesis using assms type_not [OF params_first [OF paramListOf_some, of rest]] params_complete [OF paramListOf_some assms(2,3), of D "[]"]
    unfolding parseParameterList_def by (auto intro!: reaches_peek)
qed

lemma block_complete:
  assumes "tokType lb = TokenLBrace" "stmtsOf ss body" "tokType rb = TokenRBrace" "clean (lb # ss @ rb # rest)"
  shows "reaches D rest (lb, body) (parseBlockStatement (parsing D (lb # ss @ rb # rest) l))"
  unfolding parseBlockStatement.simps
  by (rule reaches_bind, rule reaches_expect)
    (use assms stmt_complete(2) [OF assms(2), rule_format, of rb rest D lb "[]"] in auto)

lemma functionTail_complete:
  assumes "paramListOf ps params" "tokType rp = TokenRParen" "tokType lb = TokenLBrace" "stmtsOf ss body" "tokType rb = TokenRBrace"
    and "clean (ps @ rp # lb # ss @ rb # rest)"
  shows "reaches D rest
     (ExternalFunction
        \<lparr>fdReturnType = typ, fdName = name, fdParameters = params, fdBodyToken = lb, fdBodyStatements = body, fdToken = tt\<rparr>)
     (parseFunctionTail tt typ name (parsing D (ps @ rp # lb # ss @ rb # rest) l))"
proof -
  have c: "clean (rp # lb # ss @ rb # rest)" "clean (lb # ss @ rb # rest)" using assms(6) by auto
  note pl = paramList_complete [OF assms(1,6)]
  note bl = block_complete [OF assms(3-5) c(2)]
  show ?thesis
    unfolding parseFunctionTail_def
    by (rule reaches_bind [OF pl], simp add: assms(2), rule reaches_bind [OF reaches_expect [OF c(1) assms(2)]],
        rule reaches_refuse [OF c(2)], simp, simp add: assms(3) token_types, simp, rule reaches_bind [OF bl], simp)
qed

lemma prototypeTail_complete:
  assumes "paramListOf ps params" "tokType rp = TokenRParen" "tokType semi = TokenSemicolon" "clean (ps @ rp # semi # rest)"
  shows "reaches D rest
     (ExternalPrototype \<lparr>protoToken = tt, protoReturnType = typ, protoName = name, protoParameters = params\<rparr>)
     (parseFunctionTail tt typ name (parsing D (ps @ rp # semi # rest) l))"
proof -
  have c: "clean (rp # semi # rest)" "clean (semi # rest)" using assms(4) by auto
  note pl = paramList_complete [OF assms(1,4)]
  show ?thesis
    unfolding parseFunctionTail_def
    by (rule reaches_bind [OF pl], simp add: assms(2), rule reaches_bind [OF reaches_expect [OF c(1) assms(2)]],
        rule reaches_accept [OF c(2) assms(3)], simp)
qed

text \<open>A declaration from its type and its name on.\<close>

lemma external_start:
  assumes "typeAndName tt stars nm" "clean (tt # stars @ nm # us)" "headType us \<noteq> TokenLBracket"
    and "\<And>l. reaches D rest d
      (case accept TokenLParen (parsing D us l) of (b, p3) \<Rightarrow>
         if b then parseFunctionTail tt (declaredType tt stars) (tokRaw nm) p3
         else
           bindP (parseDeclarationTail tt (declaredType tt stars) nm (tokRaw nm) p3) (\<lambda>decl p4.
             (Some (ExternalDeclaration decl), p4)))"
  shows "reaches D rest d (parseExternalDeclaration (parsing D (tt # stars @ nm # us) l))"
proof -
  have tn: "reaches D (stars @ nm # us) (tt, mkTypeName tt (specifierOf (tokType tt))) (parseTypeName (parsing D (tt # stars @ nm # us) l))"
    using assms(1,2) by (intro typeName_complete) (auto simp: typeAndName_def)
  have de: "reaches D us (nm, tokRaw nm, length stars) (parseDeclarator what (parsing D (stars @ nm # us) l'))" for l' what
    using assms(1-3) by (intro declarator_complete) auto
  show ?thesis
    unfolding parseExternalDeclaration_def
    by (rule reaches_bind [OF tn], rule reaches_bind [OF de]) (insert assms(4), unfold Let_def fst_conv snd_conv declaredType_def, assumption)
qed

lemma external_complete:
  assumes "externalOf ts d" "clean (ts @ rest)"
  shows "reaches D rest d (parseExternalDeclaration (parsing D (ts @ rest) l))"
  using assms(1)
proof (cases rule: externalOf.cases)
  case (externalOf_function tt stars nm lp ps params rp lb ss body rb)
  have c: "clean (lp # ps @ rp # lb # ss @ rb # rest)" using assms(2) externalOf_function(1) by simp
  have "reaches D rest d (parseExternalDeclaration (parsing D (tt # stars @ nm # lp # ps @ rp # lb # ss @ rb # rest) l))"
    using externalOf_function assms(2) functionTail_complete [OF externalOf_function(5-9), of rest D "declaredType tt stars" "tokRaw nm" tt]
    by (intro external_start reaches_accept [OF c]) (auto simp: token_types)
  then show ?thesis using externalOf_function(1) by simp
next
  case (externalOf_prototype tt stars nm lp ps params rp semi)
  have c: "clean (lp # ps @ rp # semi # rest)" using assms(2) externalOf_prototype(1) by simp
  have "reaches D rest d (parseExternalDeclaration (parsing D (tt # stars @ nm # lp # ps @ rp # semi # rest) l))"
    using externalOf_prototype assms(2) prototypeTail_complete [OF externalOf_prototype(5-7), of rest D tt "declaredType tt stars" "tokRaw nm"]
    by (intro external_start reaches_accept [OF c]) (auto simp: token_types)
  then show ?thesis using externalOf_prototype(1) by simp
next
  case (externalOf_declaration decl)
  from externalOf_declaration(2) show ?thesis
  proof (cases rule: declarationOf.cases)
    case (declarationOf tt stars nm us ini)
    have c: "clean (us @ rest)" using assms(2) declarationOf(1) by simp
    have h: "headType (us @ rest) \<noteq> TokenLParen" "headType (us @ rest) \<noteq> TokenLBracket"
      using initializer_first [OF declarationOf(4), of rest] by (auto simp: token_types)
    have t: "reaches D rest d (bindP (parseDeclarationTail tt (declaredType tt stars) nm (tokRaw nm) (parsing D (us @ rest) l')) (\<lambda>decl p4.
             (Some (ExternalDeclaration decl), p4)))" for l'
      unfolding externalOf_declaration(1) declarationOf(2)
      by (rule reaches_bind [OF declarationTail_complete [OF declarationOf(4) c]], rule reaches_return)
    have "reaches D rest d (parseExternalDeclaration (parsing D (tt # stars @ nm # us @ rest) l))"
      using declarationOf(1,3) assms(2) h c t by (intro external_start reaches_refuse) (auto simp: token_types)
    then show ?thesis using declarationOf(1) by simp
  qed
qed

lemma external_first:
  assumes "externalOf ts d"
  shows "isTypeSpecifierToken (headType (ts @ rest))"
  using assms by (cases rule: externalOf.cases) (auto simp: typeAndName_def elim: declarationOf.cases)

lemma topLevel_complete:
  "unitOf ts ds \<Longrightarrow> clean ts \<Longrightarrow>
     \<exists>l'. topLevelLoop tu (parsing D ts l) = (foldl (\<lambda>tu d. addExternal d tu) tu ds, parsing D [] l')"
proof (induction ts ds arbitrary: tu l rule: unitOf.induct)
  case unitOf_nil
  then show ?case by (subst topLevelLoop.simps) (auto simp: peek_parsing)
next
  case (unitOf_cons ts d us ds)
  have h: "headType (ts @ us) \<noteq> TokenEOF" using type_not [OF external_first [OF unitOf_cons.hyps(1), of us]] by simp
  obtain l1 where e: "parseExternalDeclaration (parsing D (ts @ us) (lastTok (ts @ us) l)) = (Some d, parsing D us l1)"
    using external_complete [OF unitOf_cons.hyps(1) unitOf_cons.prems] unfolding reaches_def by blast
  obtain l2 where "topLevelLoop (addExternal d tu) (parsing D us l1) = (foldl (\<lambda>tu d. addExternal d tu) (addExternal d tu) ds, parsing D [] l2)"
    using unitOf_cons.IH [of "addExternal d tu" l1] unitOf_cons.prems by auto
  then show ?case using h e unitOf_cons.prems by (intro exI [of _ l2], subst topLevelLoop.simps) (simp add: peek_parsing)
qed

end
