(* ===== verification/StmtSound.thy ===== *)
theory StmtSound
  imports StmtComplete
begin

text \<open>
  Soundness for declarations, statements and translation units, and the main result: on a list of tokens
  \<open>Parse\<close> succeeds exactly when the grammar derives the list, with the tree of the derivation.
\<close>

section \<open>Declarations\<close>

lemma outcome_simple:
  "G [] ts x \<Longrightarrow> outcome b G D ts (Some x, parsing D ts l)" "outcome b G D ts (failWith t msg (parsing D ts l))"
  by (simp_all add: outcome_return outcome_fail)

lemma typeName_sound:
  assumes "clean ts"
  shows "outcome True (\<lambda>us rest r. us = [fst r] \<and> isTypeSpecifierToken (tokType (fst r)) \<and>
     snd r = mkTypeName (fst r) (specifierOf (tokType (fst r)))) D ts (parseTypeName (parsing D ts l))"
proof -
  let ?G = "\<lambda>us rest r. us = [fst r] \<and> isTypeSpecifierToken (tokType (fst r)) \<and>
     snd r = mkTypeName (fst r) (specifierOf (tokType (fst r)))"
  have skip: "outcome True ?G D ts (skipType t what (parsing D ts l'))" if n: "headType ts \<noteq> TokenEOF" for t what l'
  proof -
    obtain u us where "ts = u # us" using n by (cases ts) auto
    then show ?thesis using assms outcome_failed [of "[parserError t (PUnsupported what)]" True ?G D "[u]" us u]
      by (simp add: skipType_def next_parsing)
  qed
  have took: "outcome True ?G D ts (Some (headTok ts, mkTypeName (headTok ts) spec), snd (nextTok (parsing D ts l')))"
    if t: "isTypeSpecifierToken (headType ts)" "spec = specifierOf (headType ts)" for spec l'
  proof -
    obtain u us where ts: "ts = u # us" using t by (cases ts) (auto simp: isTypeSpecifierToken_def token_types)
    have "outcome True ?G D (u # us) (Some (u, mkTypeName u spec), parsing D us u)"
      using t ts by (intro outcome_take outcome_return) simp
    then show ?thesis using assms ts by (simp add: next_parsing)
  qed
  show ?thesis
    unfolding parseTypeName_def
    by (rule outcome_peek [OF assms], intro outcome_if outcome_simple)
      ((rule took; simp add: isTypeSpecifierToken_def specifierOf_def token_types) | (rule skip; auto simp: token_types) | simp)+
qed

lemma stars_sound:
  "clean ts \<Longrightarrow> \<exists>stars rest l'. ts = stars @ rest \<and> parseStars n (parsing D ts l) = (n + length stars, parsing D rest l') \<and>
     (\<forall>s \<in> set stars. tokType s = TokenStar)"
proof (induction ts arbitrary: n l)
  case Nil
  then show ?case by (subst parseStars.simps) (auto simp: accept_parsing token_types)
next
  case (Cons t ts)
  show ?case
  proof (cases "tokType t = TokenStar")
    case True
    obtain stars rest l' where "ts = stars @ rest" "parseStars (n + 1) (parsing D ts t) = (n + 1 + length stars, parsing D rest l')"
      "\<forall>s \<in> set stars. tokType s = TokenStar"
      using Cons.IH [of "n + 1" t] Cons.prems by auto
    then show ?thesis using True Cons.prems
      by (subst parseStars.simps, intro exI [of _ "t # stars"] exI [of _ rest] exI [of _ l']) (auto simp: accept_parsing)
  next
    case False
    then show ?thesis using Cons.prems
      by (subst parseStars.simps, intro exI [of _ "[]"] exI [of _ "t # ts"] exI [of _ t]) (auto simp: accept_parsing)
  qed
qed

lemma declarator_sound:
  assumes "clean ts"
  shows "outcome True (\<lambda>us rest r. \<exists>stars. us = stars @ [fst r] \<and> (\<forall>s \<in> set stars. tokType s = TokenStar) \<and>
     tokType (fst r) = TokenIdentifier \<and> snd r = (tokRaw (fst r), length stars)) D ts (parseDeclarator what (parsing D ts l))"
proof -
  obtain stars rest l' where s: "ts = stars @ rest" "parseStars 0 (parsing D ts l) = (length stars, parsing D rest l')"
    "\<forall>s \<in> set stars. tokType s = TokenStar"
    using stars_sound [OF assms, of 0 D l] by auto
  have c: "clean rest" using assms s(1) by simp
  let ?G = "\<lambda>us rest r. \<exists>stars. us = stars @ [fst r] \<and> (\<forall>s \<in> set stars. tokType s = TokenStar) \<and>
     tokType (fst r) = TokenIdentifier \<and> snd r = (tokRaw (fst r), length stars)"
  have "outcome True (\<lambda>us. ?G (stars @ us)) D rest
     (case peekTok (parsing D rest l') of (tok, p2) \<Rightarrow>
        if tokType tok = TokenLParen then
          (case peekTok p2 of (tok', p3) \<Rightarrow> failWith tok' (PUnsupported ''function pointers'') p3)
        else
          bindP (expectIdent what p2) (\<lambda>r p3.
            case peekTok p3 of (tok', p4) \<Rightarrow>
              if tokType tok' = TokenLBracket then
                (case peekTok p4 of (tok'', p5) \<Rightarrow> failWith tok'' (PUnsupported ''arrays'') p5)
              else (Some (fst r, snd r, length stars), p4)))"
  proof (rule outcome_peek [OF c], rule outcome_if, rule outcome_peek [OF c], rule outcome_fail, rule outcome_bind [OF outcome_expectIdent(1) [OF c]])
    fix r us rest' l''
    assume r: "rest = us @ rest'" and g: "us = [fst r] \<and> tokType (fst r) = TokenIdentifier \<and> snd r = tokRaw (fst r)"
    have c': "clean rest'" using c r by simp
    show "outcome True (\<lambda>vs. ?G (stars @ us @ vs)) D rest'
       (case peekTok (parsing D rest' l'') of (tok', p4) \<Rightarrow>
              if tokType tok' = TokenLBracket then
                (case peekTok p4 of (tok'', p5) \<Rightarrow> failWith tok'' (PUnsupported ''arrays'') p5)
              else (Some (fst r, snd r, length stars), p4))"
      by (rule outcome_peek [OF c'], rule outcome_if, rule outcome_peek [OF c'], rule outcome_fail, rule outcome_return)
        (use s(3) g in auto)
  qed
  then show ?thesis using outcome_prefix [of True ?G stars D rest] s(1,2) by (simp add: parseDeclarator_def)
qed

lemma tail_sound: "clean ts \<Longrightarrow> outcome True (\<lambda>us rest x. us = []) D ts (hasDisallowedExprTail (parsing D ts l))"
  unfolding hasDisallowedExprTail_def by (rule outcome_peek) (auto intro!: outcome_if outcome_simple)

lemma whole_sound: "clean ts \<Longrightarrow> outcome True (\<lambda>us rest e. exprOf 0 us e) D ts (parseWholeExpression (parsing D ts l))"
  unfolding parseWholeExpression_def
  by (rule outcome_bind [OF expression_sound(1) [OF _ _ refl]], assumption, simp, rule outcome_bind [OF tail_sound])
    (auto intro!: outcome_return)

lemma expect_sound:
  "clean ts \<Longrightarrow> tt \<noteq> TokenEOF \<Longrightarrow> (\<And>t us l'. ts = t # us \<Longrightarrow> tokType t = tt \<Longrightarrow>
      outcome b (\<lambda>vs. H (t # vs)) D us (f t (parsing D us l'))) \<Longrightarrow>
   outcome b H D ts (bindP (expect tt what (parsing D ts l)) f)"
  by (rule outcome_bind [OF outcome_expect]) auto

lemma initializer_sound:
  assumes "clean ts"
  shows "outcome True (\<lambda>us rest ini. \<forall>semi. tokType semi = TokenSemicolon \<longrightarrow> initializerOf (us @ [semi]) ini) D ts
     (parseInitializer (parsing D ts l))"
  unfolding parseInitializer_def
proof (rule outcome_accept [OF assms])
  fix t us
  assume ts: "ts = t # us" and t: "tokType t = TokenAssign"
  have c: "clean us" using assms ts by simp
  show "outcome True (\<lambda>vs rest ini. \<forall>semi. tokType semi = TokenSemicolon \<longrightarrow> initializerOf ((t # vs) @ [semi]) ini) D us
      (if True then bindP (parseWholeExpression (parsing D us t)) (\<lambda>e p2. (Some (Some e), p2)) else (Some None, parsing D us t))"
    unfolding if_True
    by (rule outcome_bind [OF whole_sound [OF c]], rule outcome_return) (use t initializerOf_some in auto)
next
  fix l'
  show "outcome True (\<lambda>us rest ini. \<forall>semi. tokType semi = TokenSemicolon \<longrightarrow> initializerOf (us @ [semi]) ini) D ts
      (if False then bindP (parseWholeExpression (parsing D ts l')) (\<lambda>e p2. (Some (Some e), p2)) else (Some None, parsing D ts l'))"
    unfolding if_False by (rule outcome_return) (use initializerOf_none in auto)
qed (simp add: token_types)

lemma declarationTail_sound:
  assumes "clean ts"
  shows "outcome True (\<lambda>us rest decl. \<exists>ini. initializerOf us ini \<and>
      decl = \<lparr>declToken = tt, declType = tyn, declName = name, declInitializer = ini\<rparr>) D ts
     (parseDeclarationTail tt tyn nm name (parsing D ts l))"
  unfolding parseDeclarationTail_def
proof (rule outcome_bind [OF initializer_sound [OF assms]])
  fix ini us rest l
  assume u: "ts = us @ rest" and g: "\<forall>semi. tokType semi = TokenSemicolon \<longrightarrow> initializerOf (us @ [semi]) ini"
  have c: "clean rest" using assms u by simp
  show "outcome True (\<lambda>vs rest decl. \<exists>ini. initializerOf (us @ vs) ini \<and>
      decl = \<lparr>declToken = tt, declType = tyn, declName = name, declInitializer = ini\<rparr>) D rest
     (case accept TokenComma (parsing D rest l) of (c, p2) \<Rightarrow>
         if c then failWith nm (PUnsupported ''multiple declarators in one declaration'') p2
         else
           bindP (expect TokenSemicolon '';'' p2) (\<lambda>_ p3.
             (Some \<lparr>declToken = tt, declType = tyn, declName = name, declInitializer = ini\<rparr>, p3)))"
    by (rule outcome_accept [OF c], simp, simp add: outcome_fail, unfold if_False, rule expect_sound [OF c], simp, rule outcome_return)
      (use g in auto)
qed

lemma typed_sound:
  assumes "clean ts"
    and "\<And>tt stars nm us l'. ts = tt # stars @ nm # us \<Longrightarrow> clean us \<Longrightarrow> typeAndName tt stars nm \<Longrightarrow>
      outcome b (\<lambda>vs. H (tt # stars @ nm # vs)) D us (f tt (declaredType tt stars) nm (tokRaw nm) (parsing D us l'))"
  shows "outcome b H D ts (bindP (parseTypeName (parsing D ts l)) (\<lambda>tt p1. bindP (parseDeclarator what p1) (\<lambda>d p2.
       f (fst tt) (addPointers (snd (snd d)) (snd tt)) (fst d) (fst (snd d)) p2)))"
proof (rule outcome_bind [OF typeName_sound [OF assms(1)]], rule outcome_bind [OF declarator_sound])
  fix r us rest l d vs rest' l'
  assume u: "ts = us @ rest" "rest = vs @ rest'"
    and g: "us = [fst r] \<and> isTypeSpecifierToken (tokType (fst r)) \<and> snd r = mkTypeName (fst r) (specifierOf (tokType (fst r)))"
    and h: "\<exists>stars. vs = stars @ [fst d] \<and> (\<forall>s \<in> set stars. tokType s = TokenStar) \<and>
     tokType (fst d) = TokenIdentifier \<and> snd d = (tokRaw (fst d), length stars)"
  from h obtain stars where s: "vs = stars @ [fst d]" "\<forall>s \<in> set stars. tokType s = TokenStar" "tokType (fst d) = TokenIdentifier"
    "snd d = (tokRaw (fst d), length stars)" by blast
  have "outcome b (\<lambda>ws. H (fst r # stars @ fst d # ws)) D rest'
      (f (fst r) (declaredType (fst r) stars) (fst d) (tokRaw (fst d)) (parsing D rest' l'))"
    using g s u assms(1) by (intro assms(2)) (auto simp: typeAndName_def)
  then show "outcome b (\<lambda>ws. H (us @ vs @ ws)) D rest' (f (fst r) (addPointers (snd (snd d)) (snd r)) (fst d) (fst (snd d)) (parsing D rest' l'))"
    using g s by (simp add: declaredType_def)
qed (use assms(1) in auto)

lemma localDecl_sound:
  assumes "clean ts"
  shows "outcome True (\<lambda>us rest s. localDeclOf us s) D ts (parseDeclarationStatement (parsing D ts l))"
  unfolding parseDeclarationStatement_def Let_def
proof (rule typed_sound [OF assms])
  fix tt stars nm us l'
  assume ts: "ts = tt # stars @ nm # us" and c: "clean us" and t: "typeAndName tt stars nm"
  let ?tyn = "declaredType tt stars"
  show "outcome True (\<lambda>vs rest s. localDeclOf (tt # stars @ nm # vs) s) D us
     (if tnSpecifier ?tyn = TypeSpecifierVoid \<and> tnPointerDepth ?tyn = 0 then
         failWith nm (PUnsupported ''void objects'') (parsing D us l')
       else
         bindP (parseDeclarationTail tt ?tyn nm (tokRaw nm) (parsing D us l')) (\<lambda>decl p3.
           (Some (DeclarationStatement tt decl), p3)))"
  proof (rule outcome_if)
    assume v: "\<not> (tnSpecifier ?tyn = TypeSpecifierVoid \<and> tnPointerDepth ?tyn = 0)"
    show "outcome True (\<lambda>vs rest s. localDeclOf (tt # stars @ nm # vs) s) D us
       (bindP (parseDeclarationTail tt ?tyn nm (tokRaw nm) (parsing D us l')) (\<lambda>decl p3. (Some (DeclarationStatement tt decl), p3)))"
    proof (rule outcome_bind [OF declarationTail_sound [OF c]], rule outcome_return)
      fix decl us' rest
      assume "\<exists>ini. initializerOf us' ini \<and> decl = \<lparr>declToken = tt, declType = ?tyn, declName = tokRaw nm, declInitializer = ini\<rparr>"
      then obtain ini where "initializerOf us' ini"
        and d: "decl = \<lparr>declToken = tt, declType = ?tyn, declName = tokRaw nm, declInitializer = ini\<rparr>" by blast
      then have "declarationOf (tt # stars @ nm # us') decl" using declarationOf t by blast
      from localDeclOf [OF this] show "localDeclOf (tt # stars @ nm # us' @ []) (DeclarationStatement tt decl)"
        using v d by (simp add: isVoidObject_def)
    qed
  qed (rule outcome_fail)
qed

section \<open>Heads of statements\<close>

text \<open>An optional expression and a semicolon.\<close>

lemma optExpr_sound:
  assumes "clean ts"
    and "\<And>semi. tokType semi = TokenSemicolon \<Longrightarrow> semi = headTok ts \<Longrightarrow> H [semi] x0"
    and "\<And>es e semi. exprOf 0 es e \<Longrightarrow> tokType semi = TokenSemicolon \<Longrightarrow> hd es = headTok ts \<Longrightarrow> H (es @ [semi]) (x1 e)"
  shows "outcome True (\<lambda>us rest x. H us x) D ts
     (case accept TokenSemicolon (parsing D ts l) of (b, p2) \<Rightarrow>
         if b then (Some x0, p2)
         else bindP (parseWholeExpression p2) (\<lambda>e p3. bindP (expect TokenSemicolon what p3) (\<lambda>_ p4. (Some (x1 e), p4))))"
proof (rule outcome_accept [OF assms(1)])
  fix t :: token and us
  assume "ts = t # us" "tokType t = TokenSemicolon"
  then show "outcome True (\<lambda>vs rest x. H (t # vs) x) D us
     (if True then (Some x0, parsing D us t)
      else bindP (parseWholeExpression (parsing D us t)) (\<lambda>e p3. bindP (expect TokenSemicolon what p3) (\<lambda>_ p4. (Some (x1 e), p4))))"
    using assms(2) by (simp add: outcome_return)
next
  fix l'
  have "outcome True (\<lambda>us rest x. H us x) D ts
     (bindP (parseWholeExpression (parsing D ts l')) (\<lambda>e p3. bindP (expect TokenSemicolon what p3) (\<lambda>_ p4. (Some (x1 e), p4))))"
  proof (rule outcome_bind [OF whole_sound [OF assms(1)]], rule expect_sound)
    fix e es rest l t us l'
    assume "ts = es @ rest" "exprOf 0 es e" "rest = t # us" "tokType t = TokenSemicolon"
    then have "H (es @ t # []) (x1 e)" using assms(3) expr_first(1) [of 0 es e] by (simp add: headTok_append)
    then show "outcome True (\<lambda>vs rest x. H (es @ t # vs) x) D us (Some (x1 e), parsing D us l')"
      by (intro outcome_return) simp
  qed (use assms(1) in auto)
  then show "outcome True (\<lambda>us rest x. H us x) D ts
     (if False then (Some x0, parsing D ts l')
      else bindP (parseWholeExpression (parsing D ts l')) (\<lambda>e p3. bindP (expect TokenSemicolon what p3) (\<lambda>_ p4. (Some (x1 e), p4))))"
    by (simp only: if_False)
qed simp

lemma exprStmt_sound:
  assumes "clean ts"
  shows "outcome True (\<lambda>us rest s. stmtOf True us s) D ts (parseExpressionStatement (parsing D ts l))"
  unfolding parseExpressionStatement_def
proof (rule outcome_peek [OF assms], rule optExpr_sound [OF assms])
  fix tok semi :: token
  assume "tok = headTok ts" "tokType semi = TokenSemicolon" "semi = headTok ts"
  then show "stmtOf True [semi] (ExpressionStatement tok None)" using stmtOf_empty by simp
next
  fix tok semi :: token and es e
  assume "tok = headTok ts" "exprOf 0 es e" "tokType semi = TokenSemicolon" "hd es = headTok ts"
  then show "stmtOf True (es @ [semi]) (ExpressionStatement tok (Some e))" using stmtOf_expr exprStmtOf by metis
qed

lemma forCond_sound: "clean ts \<Longrightarrow> outcome True (\<lambda>us rest e. optExprOf TokenSemicolon us e) D ts (parseForCond (parsing D ts l))"
  unfolding parseForCond_def by (rule optExpr_sound) (auto intro: optExprOf.intros)

lemma return_sound:
  assumes "clean ts"
  shows "outcome True (\<lambda>us rest s. stmtOf True us s) D ts (parseReturnStatement (parsing D ts l))"
  unfolding parseReturnStatement_def
proof (rule expect_sound [OF assms], simp, rule optExpr_sound)
  fix kw semi :: token
  assume "tokType kw = TokenReturn" "tokType semi = TokenSemicolon"
  then show "stmtOf True (kw # [semi]) (ReturnStatement kw None)" by (intro stmtOf_return optExprOf_none)
next
  fix kw semi :: token and es e
  assume "tokType kw = TokenReturn" "tokType semi = TokenSemicolon" "exprOf 0 es e"
  then show "stmtOf True (kw # es @ [semi]) (ReturnStatement kw (Some e))" by (intro stmtOf_return optExprOf_some)
qed (use assms in auto)

lemma head_sound:
  assumes "clean ts" "tt \<noteq> TokenEOF"
  shows "outcome True (\<lambda>us rest h. headOf tt us (fst h) (snd h)) D ts (parseHead tt what (parsing D ts l))"
  unfolding parseHead_def
proof (rule expect_sound [OF assms], rule expect_sound)
  fix kw us l' lp vs la
  assume u: "ts = kw # us" "us = lp # vs" and t: "tokType kw = tt" "tokType lp = TokenLParen"
  have c: "clean vs" using assms(1) u by simp
  show "outcome True (\<lambda>ws rest h. headOf tt (kw # lp # ws) (fst h) (snd h)) D vs
     (bindP (parseWholeExpression (parsing D vs la)) (\<lambda>cond p3.
      bindP (expect TokenRParen '')'' p3) (\<lambda>_ p4. (Some (kw, cond), p4))))"
  proof (rule outcome_bind [OF whole_sound [OF c]], rule expect_sound)
    fix e es rest l and rp :: token and us' lb
    assume "exprOf 0 es e" "tokType rp = TokenRParen"
    then show "outcome True (\<lambda>ws rest h. headOf tt (kw # lp # es @ rp # ws) (fst h) (snd h)) D us' (Some (kw, e), parsing D us' lb)"
      using headOf [OF t] by (intro outcome_return) simp
  qed (use c in auto)
qed (use assms in auto)

lemma forInit_sound:
  assumes "clean ts"
  shows "outcome True (\<lambda>us rest ini. forInitOf us ini) D ts (parseForInit (parsing D ts l))"
  unfolding parseForInit_def
proof (rule outcome_accept [OF assms])
  fix t :: token and us
  assume "tokType t = TokenSemicolon"
  then show "outcome True (\<lambda>vs rest ini. forInitOf (t # vs) ini) D us
     (if True then (Some None, parsing D us t)
      else case peekTok (parsing D us t) of (tok, p2) \<Rightarrow>
            if isTypeSpecifierToken (tokType tok) then
              bindP (parseDeclarationStatement p2) (\<lambda>s p3. (Some (Some s), p3))
            else
              case peekTok p2 of (tok', p3) \<Rightarrow>
                bindP (parseWholeExpression p3) (\<lambda>e p4.
                bindP (expect TokenSemicolon '';'' p4) (\<lambda>_ p5. (Some (Some (ExpressionStatement tok' (Some e))), p5))))"
    by (simp add: outcome_return forInitOf_none)
next
  fix la
  have "outcome True (\<lambda>us rest ini. forInitOf us ini) D ts
     (case peekTok (parsing D ts la) of (tok, p2) \<Rightarrow>
            if isTypeSpecifierToken (tokType tok) then
              bindP (parseDeclarationStatement p2) (\<lambda>s p3. (Some (Some s), p3))
            else
              case peekTok p2 of (tok', p3) \<Rightarrow>
                bindP (parseWholeExpression p3) (\<lambda>e p4.
                bindP (expect TokenSemicolon '';'' p4) (\<lambda>_ p5. (Some (Some (ExpressionStatement tok' (Some e))), p5))))"
  proof (rule outcome_peek [OF assms], rule outcome_if, rule outcome_bind [OF localDecl_sound [OF assms]], rule outcome_return,
      simp add: forInitOf_decl, rule outcome_peek [OF assms], rule outcome_bind [OF whole_sound [OF assms]], rule expect_sound)
    fix tok tok' :: token and e es rest and t' :: token and us lb
    assume "tok' = headTok ts" "ts = es @ rest" "exprOf 0 es e" "rest = t' # us" "tokType t' = TokenSemicolon"
    then have "exprStmtOf (es @ t' # []) (ExpressionStatement tok' (Some e))"
      using exprStmtOf [of es e t'] expr_first(1) [of 0 es e] by (simp add: headTok_append)
    then show "outcome True (\<lambda>vs rest ini. forInitOf (es @ t' # vs) ini) D us (Some (Some (ExpressionStatement tok' (Some e))), parsing D us lb)"
      by (intro outcome_return forInitOf_expr) simp
  qed (use assms in auto)
  then show "outcome True (\<lambda>us rest ini. forInitOf us ini) D ts
     (if False then (Some None, parsing D ts la)
      else case peekTok (parsing D ts la) of (tok, p2) \<Rightarrow>
            if isTypeSpecifierToken (tokType tok) then
              bindP (parseDeclarationStatement p2) (\<lambda>s p3. (Some (Some s), p3))
            else
              case peekTok p2 of (tok', p3) \<Rightarrow>
                bindP (parseWholeExpression p3) (\<lambda>e p4.
                bindP (expect TokenSemicolon '';'' p4) (\<lambda>_ p5. (Some (Some (ExpressionStatement tok' (Some e))), p5))))"
    by (simp only: if_False)
qed simp

lemma forPost_sound:
  assumes "clean ts"
  shows "outcome True (\<lambda>us rest e. \<forall>rp. tokType rp = TokenRParen \<longrightarrow> optExprOf TokenRParen (us @ [rp]) e) D ts (parseForPost (parsing D ts l))"
  unfolding parseForPost_def
  by (rule outcome_peek [OF assms], rule outcome_if, rule outcome_bind [OF whole_sound [OF assms]], rule outcome_return)
    (auto intro!: optExprOf_some optExprOf_none [of _ _, simplified] outcome_return)

lemma forHead_sound:
  assumes "clean ts"
  shows "outcome True (\<lambda>us rest h. forHeadOf us (fst h) (fst (snd h)) (fst (snd (snd h))) (snd (snd (snd h)))) D ts
     (parseForHead (parsing D ts l))"
  unfolding parseForHead_def
proof (rule expect_sound [OF assms], simp, rule expect_sound)
  fix kw us l' lp vs la
  assume u: "ts = kw # us" "us = lp # vs" and t: "tokType kw = TokenFor" "tokType lp = TokenLParen"
  have c: "clean vs" using assms(1) u by simp
  show "outcome True (\<lambda>ws rest h. forHeadOf (kw # lp # ws) (fst h) (fst (snd h)) (fst (snd (snd h))) (snd (snd (snd h)))) D vs
     (bindP (parseForInit (parsing D vs la)) (\<lambda>ini p3.
     bindP (parseForCond p3) (\<lambda>cond p4.
     bindP (parseForPost p4) (\<lambda>post p5.
     bindP (expect TokenRParen '')'' p5) (\<lambda>_ p6. (Some (kw, ini, cond, post), p6))))))"
  proof (rule outcome_bind [OF forInit_sound [OF c]], rule outcome_bind [OF forCond_sound], use c in simp,
      rule outcome_bind [OF forPost_sound], use c in simp, rule expect_sound)
    fix ini "is" cond cs post ps and rp :: token and us' lb
    assume "forInitOf is ini" "optExprOf TokenSemicolon cs cond" "tokType rp = TokenRParen"
      "\<forall>rp. tokType rp = TokenRParen \<longrightarrow> optExprOf TokenRParen (ps @ [rp]) post"
    then show "outcome True (\<lambda>ws rest h. forHeadOf (kw # lp # is @ cs @ ps @ rp # ws) (fst h) (fst (snd h)) (fst (snd (snd h))) (snd (snd (snd h))))
        D us' (Some (kw, ini, cond, post), parsing D us' lb)"
      using forHeadOf [OF t, of "is" ini cs cond "ps @ [rp]" post] by (intro outcome_return) simp
  qed (use c in auto)
qed (use assms in auto)

section \<open>Statements\<close>

lemma synchronize_sound: "clean ts \<Longrightarrow> \<exists>us rest l'. ts = us @ rest \<and> synchronizeStatement (parsing D ts l) = parsing D rest l'"
proof (induction ts arbitrary: l)
  case Nil
  have "synchronizeStatement (parsing D [] l) = parsing D [] l"
    by (subst synchronizeStatement.simps) (simp add: peek_parsing)
  then show ?case by auto
next
  case (Cons t ts)
  obtain us rest l' where u: "ts = us @ rest" "synchronizeStatement (parsing D ts t) = parsing D rest l'"
    using Cons.IH [of t] Cons.prems by auto
  have e: "synchronizeStatement (parsing D (t # ts) l) =
      (if tokType t = TokenRBrace then parsing D (t # ts) t
       else if tokType t = TokenSemicolon then parsing D ts t else parsing D rest l')"
    using Cons.prems u(2) by (subst synchronizeStatement.simps) (simp add: peek_parsing next_parsing)
  have "t # ts = [] @ (t # ts)" "t # ts = [t] @ ts" "t # ts = (t # us) @ rest" using u(1) by simp_all
  then show ?case unfolding e by metis
qed

text \<open>A statement, with what an \<open>else\<close> after it would mean.\<close>

definition stmtAt :: "token list \<Rightarrow> token list \<Rightarrow> stmt \<Rightarrow> bool" where
  "stmtAt us rest s \<longleftrightarrow> (\<exists>c. stmtOf c us s \<and> (c \<or> headType rest \<noteq> TokenElse))"

lemma stmtAt_closed: "outcome b (\<lambda>us rest s. stmtOf True us s) D ts r \<Longrightarrow> outcome False stmtAt D ts r"
  by (rule outcome_mono [OF outcome_weaken [where b = b]], assumption) (auto simp: stmtAt_def)

definition blockRest :: "token \<Rightarrow> stmt list \<Rightarrow> token list \<Rightarrow> token list \<Rightarrow> token \<times> stmt list \<Rightarrow> bool" where
  "blockRest lb acc us rest r \<longleftrightarrow>
     (\<exists>vs rb ss. us = vs @ [rb] \<and> tokType rb = TokenRBrace \<and> stmtsOf vs ss \<and> r = (lb, acc @ ss))"

lemma blockRest_more: "stmtOf c us s \<Longrightarrow> blockRest lb (acc @ [s]) vs rest r \<Longrightarrow> blockRest lb acc (us @ vs) rest r"
  unfolding blockRest_def by (metis append.assoc append_Cons append_Nil stmtsOf_cons)

lemma outcome_thenElse:
  assumes "clean rest" "headOf TokenIf us (fst h) (snd h)"
    and "\<And>p3 ws. accept TokenElse (parsing D rest l) = (True, p3) \<Longrightarrow> clean ws \<Longrightarrow> p3 = parsing D ws (headTok rest) \<Longrightarrow>
      outcome False stmtAt D ws (parseStatement p3)"
  shows "outcome False (\<lambda>ws rest' y. stmtAt vs rest s \<longrightarrow> stmtAt (us @ vs @ ws) rest' y) D rest
     (case accept TokenElse (parsing D rest l) of (b, p3) \<Rightarrow>
        if b then
          bindP (parseStatement p3) (\<lambda>elseStmt p4. (Some (IfStatement (fst h) (snd h) s (Some elseStmt)), p4))
        else (Some (IfStatement (fst h) (snd h) s None), p3))"
proof (rule outcome_accept [OF assms(1)], simp)
  fix t ws
  assume ts: "rest = t # ws" and t: "tokType t = TokenElse" and a: "(True, parsing D ws t) = accept TokenElse (parsing D rest l)"
  have c: "clean ws" using assms(1) ts by simp
  have "outcome False (\<lambda>xs rest' y. stmtAt vs rest s \<longrightarrow> stmtAt (us @ vs @ t # xs) rest' y) D ws
     (bindP (parseStatement (parsing D ws t)) (\<lambda>elseStmt p4. (Some (IfStatement (fst h) (snd h) s (Some elseStmt)), p4)))"
  proof (rule outcome_bind_weak [OF assms(3) [OF a [symmetric] c]], simp add: ts, rule outcome_return, intro impI)
    fix s' xs rest'
    assume "stmtAt xs rest' s'" "stmtAt vs rest s"
    then obtain c' where "stmtOf True vs s" "stmtOf c' xs s'" "c' \<or> headType rest' \<noteq> TokenElse"
      using t ts by (auto simp: stmtAt_def)
    then show "stmtAt (us @ vs @ t # xs @ []) rest' (IfStatement (fst h) (snd h) s (Some s'))"
      unfolding stmtAt_def using stmtOf_else [OF assms(2) _ t] by (metis append_Nil2)
  qed
  then show "outcome False (\<lambda>xs rest' y. stmtAt vs rest s \<longrightarrow> stmtAt (us @ vs @ t # xs) rest' y) D ws
     (if True then
        bindP (parseStatement (parsing D ws t)) (\<lambda>elseStmt p4. (Some (IfStatement (fst h) (snd h) s (Some elseStmt)), p4))
      else (Some (IfStatement (fst h) (snd h) s None), parsing D ws t))"
    by (simp only: if_True)
next
  fix l'
  assume "headType rest \<noteq> TokenElse"
  then show "outcome False (\<lambda>ws rest' y. stmtAt vs rest s \<longrightarrow> stmtAt (us @ vs @ ws) rest' y) D rest
     (if False then
        bindP (parseStatement (parsing D rest l')) (\<lambda>elseStmt p4. (Some (IfStatement (fst h) (snd h) s (Some elseStmt)), p4))
      else (Some (IfStatement (fst h) (snd h) s None), parsing D rest l'))"
    unfolding if_False by (intro outcome_return impI) (use stmtOf_if [OF assms(2)] in \<open>auto simp: stmtAt_def\<close>)
qed

text \<open>A statement whose last part is a statement.\<close>

lemma outcome_body:
  assumes "outcome False stmtAt D ts r"
    and "\<And>c vs s. stmtOf c vs s \<Longrightarrow> stmtOf c (us @ vs) (g s)"
  shows "outcome False (\<lambda>vs. stmtAt (us @ vs)) D ts (bindP r (\<lambda>s p. (Some (g s), p)))"
  by (rule outcome_bind_weak [OF assms(1)], rule outcome_return) (use assms(2) in \<open>auto simp: stmtAt_def\<close>)


lemma block_sound:
  "clean ts \<Longrightarrow> (\<And>lb us l'. ts = lb # us \<Longrightarrow> expect TokenLBrace what (parsing D ts l) = (Some lb, parsing D us l') \<Longrightarrow> clean us \<Longrightarrow>
      outcome False (blockRest lb []) D us (f lb (parsing D us l'))) \<Longrightarrow>
   outcome False (\<lambda>us rest b. \<exists>ss. stmtOf True us (BlockStatement (fst b) ss) \<and> snd b = ss) D ts
     (bindP (expect TokenLBrace what (parsing D ts l)) f)"
proof (rule outcome_bind [OF outcome_expect], assumption, simp)
  fix lb us rest l'
  assume c: "clean ts" and u: "ts = us @ rest" and e: "expect TokenLBrace what (parsing D ts l) = (Some lb, parsing D rest l')"
    and t: "us = [lb] \<and> tokType lb = TokenLBrace"
    and h: "\<And>lb us l'. ts = lb # us \<Longrightarrow> expect TokenLBrace what (parsing D ts l) = (Some lb, parsing D us l') \<Longrightarrow> clean us \<Longrightarrow>
      outcome False (blockRest lb []) D us (f lb (parsing D us l'))"
  have "outcome False (blockRest lb []) D rest (f lb (parsing D rest l'))"
    using c u t by (intro h e) auto
  then show "outcome False (\<lambda>vs rest b. \<exists>ss. stmtOf True (us @ vs) (BlockStatement (fst b) ss) \<and> snd b = ss) D rest
      (f lb (parsing D rest l'))"
    by (rule outcome_mono) (use t stmtOf_block in \<open>auto simp: blockRest_def\<close>)
qed

lemma stmt_sound:
  "clean ts1 \<Longrightarrow> p1 = parsing D ts1 l1 \<Longrightarrow> outcome False stmtAt D ts1 (parseStatement p1)"
  "clean ts2 \<Longrightarrow> p2 = parsing D ts2 l2 \<Longrightarrow> outcome False stmtAt D ts2 (parseIfStatement p2)"
  "clean ts3 \<Longrightarrow> p3 = parsing D ts3 l3 \<Longrightarrow> outcome False stmtAt D ts3 (parseWhileStatement p3)"
  "clean ts4 \<Longrightarrow> p4 = parsing D ts4 l4 \<Longrightarrow> outcome False stmtAt D ts4 (parseForStatement p4)"
  "clean ts5 \<Longrightarrow> p5 = parsing D ts5 l5 \<Longrightarrow>
     outcome False (\<lambda>us rest b. \<exists>ss. stmtOf True us (BlockStatement (fst b) ss) \<and> snd b = ss) D ts5 (parseBlockStatement p5)"
  "clean ts6 \<Longrightarrow> p6 = parsing D ts6 l6 \<Longrightarrow> outcome False (blockRest lb acc) D ts6 (blockLoop lb acc p6)"
proof (induction p1 and p2 and p3 and p4 and p5 and lb acc p6 arbitrary: ts1 D l1 and ts2 D l2 and ts3 D l3 and ts4 D l4 and ts5 D l5
    and ts6 D l6 rule: parseStatement_parseIfStatement_parseWhileStatement_parseForStatement_parseBlockStatement_blockLoop.induct)
  case (1 p)
  show ?case
    unfolding 1(6)
  proof (subst parseStatement.simps, rule outcome_peek [OF 1(5)], intro outcome_if outcome_fail)
    fix tok l'
    assume k: "(tok, parsing D ts1 l') = peekTok (parsing D ts1 l1)" and t: "tokType tok = TokenLBrace"
    show "outcome False stmtAt D ts1 (bindP (parseBlockStatement (parsing D ts1 l')) (\<lambda>b p2. (Some (BlockStatement (fst b) (snd b)), p2)))"
      by (rule outcome_bind_weak [OF 1(1) [OF k [folded 1(6)] t 1(5) refl]], rule outcome_return) (auto simp: stmtAt_def)
  qed (use 1 in \<open>auto intro!: stmtAt_closed [OF return_sound] stmtAt_closed [OF exprStmt_sound]
      stmtAt_closed [OF outcome_mono [OF localDecl_sound stmtOf_decl]]\<close>)
next
  case (2 p)
  show ?case
    unfolding 2(4)
  proof (subst parseIfStatement.simps, rule outcome_bind [OF head_sound [OF 2(3)]], simp)
    fix h us rest l
    assume u: "ts2 = us @ rest" and r: "parseHead TokenIf ''if'' (parsing D ts2 l2) = (Some h, parsing D rest l)"
      and g: "headOf TokenIf us (fst h) (snd h)"
    have c: "clean rest" using 2(3) u by simp
    note r' = r [folded 2(4)]
    show "outcome False (\<lambda>vs. stmtAt (us @ vs)) D rest
       (bindP (parseStatement (parsing D rest l)) (\<lambda>thenStmt p2.
         case accept TokenElse p2 of (b, p3) \<Rightarrow>
           if b then
             bindP (parseStatement p3) (\<lambda>elseStmt p4. (Some (IfStatement (fst h) (snd h) thenStmt (Some elseStmt)), p4))
           else (Some (IfStatement (fst h) (snd h) thenStmt None), p3)))"
    proof (rule outcome_bind_weak [OF 2(1) [OF r' c refl]], rule outcome_thenElse [OF _ g])
      fix s vs rest' l' D' p3 ws
      assume "parseStatement (parsing D rest l) = (Some s, parsing D' rest' l')" "accept TokenElse (parsing D' rest' l') = (True, p3)"
        "clean ws" "p3 = parsing D' ws (headTok rest')"
      then show "outcome False stmtAt D' ws (parseStatement p3)" using 2(2) [OF r'] by metis
    qed (use c in simp)
  qed
next
  case (3 p)
  show ?case
    unfolding 3(3)
  proof (subst parseWhileStatement.simps, rule outcome_bind [OF head_sound [OF 3(2)]], simp)
    fix h us rest l
    assume u: "ts3 = us @ rest" and r: "parseHead TokenWhile ''while'' (parsing D ts3 l3) = (Some h, parsing D rest l)"
      and g: "headOf TokenWhile us (fst h) (snd h)"
    show "outcome False (\<lambda>vs. stmtAt (us @ vs)) D rest
        (bindP (parseStatement (parsing D rest l)) (\<lambda>body p2. (Some (WhileStatement (fst h) (snd h) body), p2)))"
      by (rule outcome_body [OF 3(1) [OF r [folded 3(3)] _ refl] stmtOf_while [OF g]]) (use u 3(2) in simp)
  qed
next
  case (4 p)
  show ?case
    unfolding 4(3)
  proof (subst parseForStatement.simps, rule outcome_bind [OF forHead_sound [OF 4(2)]])
    fix h us rest l
    assume u: "ts4 = us @ rest" and r: "parseForHead (parsing D ts4 l4) = (Some h, parsing D rest l)"
      and g: "forHeadOf us (fst h) (fst (snd h)) (fst (snd (snd h))) (snd (snd (snd h)))"
    show "outcome False (\<lambda>vs. stmtAt (us @ vs)) D rest
        (bindP (parseStatement (parsing D rest l)) (\<lambda>body p2.
          (Some (ForStatement (fst h) (fst (snd h)) (fst (snd (snd h))) (snd (snd (snd h))) body), p2)))"
      by (rule outcome_body [OF 4(1) [OF r [folded 4(3)] _ refl] stmtOf_for [OF g]]) (use u 4(2) in simp)
  qed
next
  case (5 p)
  show ?case
    unfolding 5(3) parseBlockStatement.simps
    by (rule block_sound [OF 5(2)]) (use 5 in metis)
next
  case (6 lb acc p)
  show ?case
    unfolding 6(5)
  proof (subst blockLoop.simps, rule outcome_peek [OF 6(4)], intro outcome_if outcome_fail)
    fix tok l'
    assume t: "tok = headTok ts6" "tokType tok \<noteq> TokenEOF" "tokType tok = TokenRBrace"
    show "outcome False (blockRest lb acc) D ts6 (Some (lb, acc), snd (nextTok (parsing D ts6 l')))"
      by (rule outcome_next [where f = "Pair (Some (lb, acc))", OF 6(4)], use t in simp, rule outcome_return)
        (use t stmtsOf_nil in \<open>auto simp: blockRest_def\<close>)
  next
    fix tok l'
    assume k: "(tok, parsing D ts6 l') = peekTok (parsing D ts6 l6)" and t: "tokType tok \<noteq> TokenEOF" "tokType tok \<noteq> TokenRBrace"
    note ih = 6(1-3) [OF k [folded 6(5)] t]
    have "outcome False stmtAt D ts6 (parseStatement (parsing D ts6 l'))" using ih(1) [OF 6(4) refl] .
    then show "outcome False (blockRest lb acc) D ts6
       (case parseStatement (parsing D ts6 l') of (r, p2) \<Rightarrow>
         case r of None \<Rightarrow> blockLoop lb acc (synchronizeStatement p2) | Some s \<Rightarrow> blockLoop lb (acc @ [s]) p2)"
    proof (cases rule: outcome.cases)
      case (outcome_failed E us rest l)
      obtain us' rest' l'' where s: "rest = us' @ rest'" "synchronizeStatement (parsing (D @ E) rest l) = parsing (D @ E) rest' l''"
        using synchronize_sound [of rest "D @ E" l] 6(4) outcome_failed by auto
      have "outcome False (blockRest lb acc) (D @ E) rest' (blockLoop lb acc (parsing (D @ E) rest' l''))"
        using ih(2) [OF outcome_failed(2) [symmetric] refl] 6(4) outcome_failed s by simp
      from outcome_extend [OF this, of "blockRest lb acc" "us @ us'"] show ?thesis using outcome_failed s by simp
    next
      case (outcome_success us rest s l)
      have "outcome False (blockRest lb (acc @ [s])) D rest (blockLoop lb (acc @ [s]) (parsing D rest l))"
        using ih(3) [OF outcome_success(2) [symmetric] refl] 6(4) outcome_success by simp
      from outcome_mono [OF this, of "\<lambda>vs. blockRest lb acc (us @ vs)"] have
        "outcome False (\<lambda>vs. blockRest lb acc (us @ vs)) D rest (blockLoop lb (acc @ [s]) (parsing D rest l))"
        using outcome_success(3) blockRest_more by (auto simp: stmtAt_def)
      from outcome_prefix [OF this] show ?thesis using outcome_success by simp
    next
      case (outcome_recovered E us rest s l)
      have "outcome False (blockRest lb (acc @ [s])) (D @ E) rest (blockLoop lb (acc @ [s]) (parsing (D @ E) rest l))"
        using ih(3) [OF outcome_recovered(2) [symmetric] refl] 6(4) outcome_recovered by simp
      from outcome_extend [OF this, of "blockRest lb acc" us] show ?thesis using outcome_recovered by simp
    qed
  qed
qed

end
