(* ===== verification/UnitSound.thy ===== *)
theory UnitSound
  imports StmtSound
begin

text \<open>
  Soundness for translation units, and the main result: on a list of tokens \<open>Parse\<close> succeeds exactly when
  the grammar derives the list, with the tree of the derivation.
\<close>

section \<open>Parameters\<close>

lemma params_sound:
  "clean ts \<Longrightarrow> outcome True (\<lambda>us rest ps. \<exists>qs. ps = acc @ qs \<and> paramsOf us qs) D ts (parseParameters acc (parsing D ts l))"
proof (induction ts arbitrary: acc l rule: length_induct)
  case (1 ts)
  show ?case
    unfolding parseParameters.simps [of acc "parsing D ts l"] Let_def
  proof (rule typed_sound [OF 1(2)])
    fix tt stars nm us l'
    assume ts: "ts = tt # stars @ nm # us" and c: "clean us" and t: "typeAndName tt stars nm"
    let ?tyn = "declaredType tt stars"
    let ?p = "\<lparr>fpToken = nm, fpType = ?tyn, fpName = tokRaw nm\<rparr>"
    let ?H = "\<lambda>us rest ps. \<exists>qs. ps = acc @ qs \<and> paramsOf us qs"
    show "outcome True (\<lambda>vs. ?H (tt # stars @ nm # vs)) D us
       (if tnSpecifier ?tyn = TypeSpecifierVoid \<and> tnPointerDepth ?tyn = 0 then
          failWith nm (PUnsupported ''void objects'') (parsing D us l')
        else
          case accept TokenComma (parsing D us l') of (c, p3) \<Rightarrow>
            if c then
              (case peekTok p3 of (tok, p4) \<Rightarrow>
                if tokType tok = TokenEllipsis then
                  (case peekTok p4 of (tok', p5) \<Rightarrow> failWith tok' (PUnsupported ''variadic functions'') p5)
                else parseParameters (acc @ [?p]) p4)
            else (Some (acc @ [?p]), p3))"
    proof (rule outcome_if, rule outcome_fail, rule outcome_accept [OF c], simp)
      fix c' vs
      assume v: "\<not> (tnSpecifier ?tyn = TypeSpecifierVoid \<and> tnPointerDepth ?tyn = 0)" and us: "us = c' # vs"
        and cm: "tokType c' = TokenComma"
      have cv: "clean vs" using c us by simp
      have "outcome True (\<lambda>ws. ?H (tt # stars @ nm # c' # ws)) D vs
          (case peekTok (parsing D vs c') of (tok, p4) \<Rightarrow>
            if tokType tok = TokenEllipsis then
              (case peekTok p4 of (tok', p5) \<Rightarrow> failWith tok' (PUnsupported ''variadic functions'') p5)
            else parseParameters (acc @ [?p]) p4)"
      proof (rule outcome_peek [OF cv], rule outcome_if, rule outcome_peek [OF cv], rule outcome_fail)
        fix lv
        have "outcome True (\<lambda>us rest ps. \<exists>qs. ps = (acc @ [?p]) @ qs \<and> paramsOf us qs) D vs
            (parseParameters (acc @ [?p]) (parsing D vs lv))"
          by (rule 1(1) [rule_format]) (use cv ts us in auto)
        then show "outcome True (\<lambda>ws. ?H (tt # stars @ nm # c' # ws)) D vs (parseParameters (acc @ [?p]) (parsing D vs lv))"
          by (rule outcome_mono) (use paramsOf_more [OF t _ cm] v in \<open>auto simp: isVoidObject_def\<close>)
      qed
      then show "outcome True (\<lambda>ws. ?H (tt # stars @ nm # c' # ws)) D vs
         (if True then
            (case peekTok (parsing D vs c') of (tok, p4) \<Rightarrow>
              if tokType tok = TokenEllipsis then
                (case peekTok p4 of (tok', p5) \<Rightarrow> failWith tok' (PUnsupported ''variadic functions'') p5)
              else parseParameters (acc @ [?p]) p4)
          else (Some (acc @ [?p]), parsing D vs c'))"
        by (simp only: if_True)
    next
      fix lv
      assume "\<not> (tnSpecifier ?tyn = TypeSpecifierVoid \<and> tnPointerDepth ?tyn = 0)"
      then show "outcome True (\<lambda>vs. ?H (tt # stars @ nm # vs)) D us
         (if False then
            (case peekTok (parsing D us lv) of (tok, p4) \<Rightarrow>
              if tokType tok = TokenEllipsis then
                (case peekTok p4 of (tok', p5) \<Rightarrow> failWith tok' (PUnsupported ''variadic functions'') p5)
              else parseParameters (acc @ [?p]) p4)
          else (Some (acc @ [?p]), parsing D us lv))"
        unfolding if_False by (intro outcome_return) (use paramsOf_one [OF t] in \<open>simp add: isVoidObject_def\<close>)
    qed
  qed
qed

lemma paramList_sound:
  assumes "clean ts"
  shows "outcome True (\<lambda>us rest ps. paramListOf us ps) D ts (parseParameterList (parsing D ts l))"
  unfolding parseParameterList_def
  by (rule outcome_peek [OF assms], rule outcome_if, rule outcome_return, rule paramListOf_none, rule outcome_peek [OF assms],
      rule outcome_if, rule outcome_peek [OF assms], rule outcome_fail, rule outcome_mono [OF params_sound [OF assms]])
    (auto intro: paramListOf_some)

section \<open>External declarations\<close>

lemma functionTail_sound:
  assumes "clean ts" "typeAndName tt stars nm" "tokType lp = TokenLParen"
  shows "outcome False (\<lambda>us rest d. externalOf (tt # stars @ nm # lp # us) d) D ts
     (parseFunctionTail tt (declaredType tt stars) (tokRaw nm) (parsing D ts l))"
  unfolding parseFunctionTail_def
proof (rule outcome_bind [OF paramList_sound [OF assms(1)]], rule expect_sound)
  fix params us rest l1 and rp :: token and vs l2
  assume u: "ts = us @ rest" "rest = rp # vs" and p: "paramListOf us params" and rp: "tokType rp = TokenRParen"
  have c: "clean vs" using assms(1) u by simp
  let ?tyn = "declaredType tt stars"
  let ?H = "\<lambda>ws rest d. externalOf (tt # stars @ nm # lp # us @ rp # ws) d"
  show "outcome False ?H D vs
     (case accept TokenSemicolon (parsing D vs l2) of (b, p3) \<Rightarrow>
         if b then
           (Some (ExternalPrototype
              \<lparr>protoToken = tt, protoReturnType = ?tyn, protoName = tokRaw nm, protoParameters = params\<rparr>), p3)
         else
           bindP (parseBlockStatement p3) (\<lambda>body p4.
             (Some (ExternalFunction
                \<lparr>fdReturnType = ?tyn, fdName = tokRaw nm, fdParameters = params, fdBodyToken = fst body,
                 fdBodyStatements = snd body, fdToken = tt\<rparr>), p4)))"
  proof (rule outcome_accept [OF c])
    fix semi :: token and ws
    assume "tokType semi = TokenSemicolon"
    from externalOf_prototype [OF assms(2,3) p rp this] show "outcome False (\<lambda>xs. ?H (semi # xs)) D ws
       (if True then
          (Some (ExternalPrototype
             \<lparr>protoToken = tt, protoReturnType = ?tyn, protoName = tokRaw nm, protoParameters = params\<rparr>), parsing D ws semi)
        else
          bindP (parseBlockStatement (parsing D ws semi)) (\<lambda>body p4.
            (Some (ExternalFunction
               \<lparr>fdReturnType = ?tyn, fdName = tokRaw nm, fdParameters = params, fdBodyToken = fst body,
                fdBodyStatements = snd body, fdToken = tt\<rparr>), p4)))"
      unfolding if_True by (intro outcome_return) simp
  next
    fix l3
    show "outcome False ?H D vs
       (if False then
          (Some (ExternalPrototype
             \<lparr>protoToken = tt, protoReturnType = ?tyn, protoName = tokRaw nm, protoParameters = params\<rparr>), parsing D vs l3)
        else
          bindP (parseBlockStatement (parsing D vs l3)) (\<lambda>body p4.
            (Some (ExternalFunction
               \<lparr>fdReturnType = ?tyn, fdName = tokRaw nm, fdParameters = params, fdBodyToken = fst body,
                fdBodyStatements = snd body, fdToken = tt\<rparr>), p4)))"
      unfolding if_False
    proof (rule outcome_bind_weak [OF stmt_sound(5) [OF c refl]], rule outcome_return, intro impI)
      fix body ws
      assume "\<exists>ss. stmtOf True ws (BlockStatement (fst body) ss) \<and> snd body = ss"
      then have "stmtOf True ws (BlockStatement (fst body) (snd body))" by blast
      then show "?H (ws @ []) rest' (ExternalFunction
         \<lparr>fdReturnType = ?tyn, fdName = tokRaw nm, fdParameters = params, fdBodyToken = fst body,
          fdBodyStatements = snd body, fdToken = tt\<rparr>)" for rest'
        using externalOf_function [OF assms(2,3) p rp]
        by (cases rule: stmtOf.cases) (auto elim!: localDeclOf.cases exprStmtOf.cases)
    qed
  qed simp
qed (use assms(1) in auto)

lemma external_sound:
  assumes "clean ts"
  shows "outcome False (\<lambda>us rest d. externalOf us d) D ts (parseExternalDeclaration (parsing D ts l))"
  unfolding parseExternalDeclaration_def Let_def
proof (rule typed_sound [OF assms])
  fix tt stars nm us l'
  assume ts: "ts = tt # stars @ nm # us" and c: "clean us" and t: "typeAndName tt stars nm"
  let ?tyn = "declaredType tt stars"
  let ?H = "\<lambda>vs rest d. externalOf (tt # stars @ nm # vs) d"
  show "outcome False ?H D us
     (case accept TokenLParen (parsing D us l') of (b, p3) \<Rightarrow>
         if b then parseFunctionTail tt ?tyn (tokRaw nm) p3
         else
           bindP (parseDeclarationTail tt ?tyn nm (tokRaw nm) p3) (\<lambda>decl p4.
             (Some (ExternalDeclaration decl), p4)))"
  proof (rule outcome_accept [OF c])
    fix lp :: token and vs
    assume u: "us = lp # vs" and lp: "tokType lp = TokenLParen"
    show "outcome False (\<lambda>ws. ?H (lp # ws)) D vs
       (if True then parseFunctionTail tt ?tyn (tokRaw nm) (parsing D vs lp)
        else bindP (parseDeclarationTail tt ?tyn nm (tokRaw nm) (parsing D vs lp)) (\<lambda>decl p4. (Some (ExternalDeclaration decl), p4)))"
      unfolding if_True by (rule functionTail_sound [OF _ t lp]) (use c u in simp)
  next
    fix l1
    show "outcome False ?H D us
       (if False then parseFunctionTail tt ?tyn (tokRaw nm) (parsing D us l1)
        else bindP (parseDeclarationTail tt ?tyn nm (tokRaw nm) (parsing D us l1)) (\<lambda>decl p4. (Some (ExternalDeclaration decl), p4)))"
      unfolding if_False
      by (rule outcome_bind [OF declarationTail_sound [OF c]], rule outcome_return)
        (use declarationOf [OF t] externalOf_declaration in auto)
  qed simp
qed

section \<open>Translation units\<close>

text \<open>The loop adds a diagnostic or reads the declarations of a unit.\<close>

lemma synchronizeTop_sound: "clean ts \<Longrightarrow> \<exists>us rest l'. ts = us @ rest \<and> synchronizeTopLevel (parsing D ts l) = parsing D rest l'"
proof (induction ts arbitrary: l)
  case Nil
  have "synchronizeTopLevel (parsing D [] l) = parsing D [] l"
    by (subst synchronizeTopLevel.simps) (simp add: peek_parsing)
  then show ?case by auto
next
  case (Cons t ts)
  obtain us rest l' where u: "ts = us @ rest" "synchronizeTopLevel (parsing D ts t) = parsing D rest l'"
    using Cons.IH [of t] Cons.prems by auto
  have e: "synchronizeTopLevel (parsing D (t # ts) l) =
      (if tokType t = TokenInt \<or> tokType t = TokenChar \<or> tokType t = TokenVoid then parsing D (t # ts) t else parsing D rest l')"
    using Cons.prems u(2) by (subst synchronizeTopLevel.simps) (simp add: peek_parsing next_parsing)
  have "t # ts = [] @ (t # ts)" "t # ts = (t # us) @ rest" using u(1) by simp_all
  then show ?case unfolding e by metis
qed

definition unitRun :: "parseError list \<Rightarrow> token list \<Rightarrow> translationUnit \<Rightarrow> translationUnit \<times> parser \<Rightarrow> bool" where
  "unitRun D ts tu r \<longleftrightarrow>
     (\<exists>E l. snd r = parsing (D @ E) [] l \<and>
        (E = [] \<longrightarrow> (\<exists>ds. unitOf ts ds \<and> fst r = foldl (\<lambda>tu d. addExternal d tu) tu ds)))"

lemma unitRun_failed: "unitRun (D @ E) rest tu r \<Longrightarrow> E \<noteq> [] \<Longrightarrow> unitRun D ts tu' r"
  unfolding unitRun_def by (metis append.assoc append_is_Nil_conv)

lemma unitRun_more: "externalOf us d \<Longrightarrow> unitRun D rest (addExternal d tu) r \<Longrightarrow> unitRun D (us @ rest) tu r"
  unfolding unitRun_def using unitOf_cons by (metis foldl_Cons)

lemma topLevel_sound:
  "clean ts \<Longrightarrow> p = parsing D ts l \<Longrightarrow> unitRun D ts tu (topLevelLoop tu p)"
proof (induction tu p arbitrary: ts D l rule: topLevelLoop.induct)
  case (1 tu p)
  define l1 where "l1 = lastTok ts l"
  have k: "(headTok ts, parsing D ts l1) = peekTok p" using 1(3,4) by (simp add: peek_parsing l1_def)
  show ?case
  proof (cases "headType ts = TokenEOF")
    case True
    then have "ts = []" using 1(3) by (cases ts) auto
    have "unitRun D [] tu (tu, parsing D [] l1)"
      unfolding unitRun_def by (rule exI [of _ "[]"]) (use unitOf_nil in \<open>force\<close>)
    then show ?thesis using \<open>ts = []\<close> True by (subst topLevelLoop.simps) (simp flip: k)
  next
    case False
    have "outcome False (\<lambda>us rest d. externalOf us d) D ts (parseExternalDeclaration (parsing D ts l1))"
      by (rule external_sound [OF 1(3)])
    then show ?thesis
    proof (cases rule: outcome.cases)
      case (outcome_failed E us rest l2)
      have c: "clean rest" using 1(3) outcome_failed by simp
      define l3 where "l3 = lastTok rest l2"
      have k': "(headTok rest, parsing (D @ E) rest l3) = peekTok (parsing (D @ E) rest l2)"
        using c by (simp add: peek_parsing l3_def)
      show ?thesis
      proof (cases "headType rest = TokenEOF")
        case True
        then have "rest = []" using c by (cases rest) auto
        have "unitRun D ts tu (tu, parsing (D @ E) [] l3)"
          unfolding unitRun_def by (rule exI [of _ E]) (use outcome_failed in auto)
        then show ?thesis using \<open>rest = []\<close> True False outcome_failed
          by (subst topLevelLoop.simps) (simp add: peek_parsing l3_def flip: k)
      next
        case more: False
        obtain vs rest' l4 where s: "rest = vs @ rest'" "synchronizeTopLevel (parsing (D @ E) rest l3) = parsing (D @ E) rest' l4"
          using synchronizeTop_sound [OF c] by blast
        have "unitRun (D @ E) rest' tu (topLevelLoop tu (synchronizeTopLevel (parsing (D @ E) rest l3)))"
          by (rule 1(1) [OF k False outcome_failed(2) [symmetric] refl k' more _ s(2)]) (use c s(1) in simp)
        from unitRun_failed [OF this outcome_failed(3)] show ?thesis using False more outcome_failed
          by (subst topLevelLoop.simps) (simp flip: k k')
      qed
    next
      case (outcome_success us rest d l2)
      have "unitRun D rest (addExternal d tu) (topLevelLoop (addExternal d tu) (parsing D rest l2))"
        using 1(2) [OF k False outcome_success(2) [symmetric] refl _ refl] 1(3) outcome_success by simp
      from unitRun_more [OF outcome_success(3) this] show ?thesis using False outcome_success
        by (subst topLevelLoop.simps) (simp flip: k)
    next
      case (outcome_recovered E us rest d l2)
      have "unitRun (D @ E) rest (addExternal d tu) (topLevelLoop (addExternal d tu) (parsing (D @ E) rest l2))"
        using 1(2) [OF k False outcome_recovered(2) [symmetric] refl _ refl] 1(3) outcome_recovered by simp
      from unitRun_failed [OF this outcome_recovered(4)] show ?thesis using False outcome_recovered
        by (subst topLevelLoop.simps) (simp flip: k)
    qed
  qed
qed

section \<open>The language of the parser\<close>

lemma newParser_parsing: "newParser (map Inr ts) = parsing [] ts zeroToken"
  by (simp add: newParser_def parsing_def)

lemma psTokens_parsing: "psTokens (parsing D ts l) = map Inr ts"
  by (simp add: parsing_def)

lemma finishError_parsing: "finishError (parsing D ts l) = (if D = [] then None else Some \<lparr>FatalLexer = None, Diagnostics = D\<rparr>)"
  by (simp add: finishError_def parsing_def)

lemma Parse_unit:
  assumes "clean ts"
  shows "Parse (map Inr ts) = Inr tu \<longleftrightarrow> (\<exists>ds. unitOf ts ds \<and> tu = unitTree ds)"
proof
  assume p: "Parse (map Inr ts) = Inr tu"
  obtain tu' p' where t: "topLevelLoop emptyUnit (parsing [] ts zeroToken) = (tu', p')" by fastforce
  obtain E l where "p' = parsing E [] l" and e: "E = [] \<longrightarrow> (\<exists>ds. unitOf ts ds \<and> tu' = unitTree ds)"
    using topLevel_sound [OF assms refl, of "[]" emptyUnit zeroToken] by (auto simp: unitRun_def t unitTree_def)
  then show "\<exists>ds. unitOf ts ds \<and> tu = unitTree ds"
    using p t by (auto simp: Parse_def ParseTranslationUnit_def newParser_parsing finishError_parsing split: if_splits)
next
  assume "\<exists>ds. unitOf ts ds \<and> tu = unitTree ds"
  then obtain ds where u: "unitOf ts ds" "tu = unitTree ds" by blast
  obtain l' where "topLevelLoop emptyUnit (parsing [] ts zeroToken) = (tu, parsing [] [] l')"
    using topLevel_complete [OF u(1) assms, of emptyUnit "[]" zeroToken] u(2) by (auto simp: unitTree_def)
  then show "Parse (map Inr ts) = Inr tu"
    by (simp add: Parse_def ParseTranslationUnit_def newParser_parsing finishError_parsing)
qed

lemma Parse_reads_all:
  assumes "clean ts"
  shows "psTokens (snd (ParseTranslationUnit (newParser (map Inr ts)))) = []
    \<and> ((\<nexists>ds. unitOf ts ds) \<longrightarrow>
         (\<exists>d ds. Parse (map Inr ts) = Inl \<lparr>FatalLexer = None, Diagnostics = d # ds\<rparr>))"
proof -
  obtain tu' p' where t: "topLevelLoop emptyUnit (parsing [] ts zeroToken) = (tu', p')" by fastforce
  obtain E l where p: "p' = parsing E [] l" and e: "E = [] \<longrightarrow> (\<exists>ds. unitOf ts ds)"
    using topLevel_sound [OF assms refl, of "[]" emptyUnit zeroToken] by (auto simp: unitRun_def t)
  have "\<exists>d ds. E = d # ds" if "\<nexists>ds. unitOf ts ds" using e that by (cases E) auto
  then show ?thesis
    using t p by (auto simp: Parse_def ParseTranslationUnit_def newParser_parsing finishError_parsing psTokens_parsing)
qed

end
