(* ===== verification/Lower.thy ===== *)
theory Lower
  imports Ast TacBuilder
begin

text \<open>
  Semantic checks and lowering of the syntax tree to TAC, \<open>internal/sema/lower.go\<close>. A method of
  \<open>lowerer\<close> that may fail is a state transformer with an error result; the error carries the
  position of the token the code passes to \<open>newError\<close>.
\<close>

section \<open>Errors\<close>

datatype semaMsg =
    MsgUnsupported string
  | MsgConflictingPrototype string
  | MsgDefinedMultipleTimes string
  | MsgConflictingDefinition string
  | MsgDefinitionMismatch string
  | MsgMayReachEnd string
  | MsgParameterRedeclared string
  | MsgIdentifierRedeclared string
  | MsgMustReturnValue
  | MsgMustNotReturnValue
  | MsgReturnType string string
  | MsgInitializerType string string string
  | MsgVoidCondition string
  | MsgInvalidInteger string
  | MsgInvalidCharacter string
  | MsgMultiCharacter string
  | MsgInvalidEscape string
  | MsgUnsupportedEscape string
  | MsgUndeclaredIdentifier string
  | MsgDereferenceNonPointer string
  | MsgDereferenceVoid
  | MsgUnaryVoid
  | MsgUnaryPointer tokenType
  | MsgBinaryVoid
  | MsgAssignmentType string string
  | MsgUndeclaredFunction string
  | MsgArgumentCount string nat nat
  | MsgArgumentType nat string string string

record semaError =
  seLine :: int
  seColumn :: int
  seMessage :: semaMsg

definition newError :: "token \<Rightarrow> semaMsg \<Rightarrow> semaError" where
  "newError tok msg = \<lparr>seLine = tokLine tok, seColumn = tokColumn tok, seMessage = msg\<rparr>"

definition unsupportedError :: "token \<Rightarrow> string \<Rightarrow> semaError" where
  "unsupportedError tok feature = newError tok (MsgUnsupported feature)"

section \<open>State\<close>

record functionSignature =
  sigReturnType :: string
  sigParams :: "string list"

record variableSymbol =
  symType :: string
  symSlot :: string

record typedValue =
  tvValue :: operand
  tvType :: string

type_synonym scope = "string \<rightharpoonup> variableSymbol"

text \<open>The innermost scope, the last of the slice, is the head of \<open>lwScopes\<close>.\<close>

record lowerer =
  lwFn :: tacFunction
  lwNextLabelID :: nat
  lwReturnType :: string
  lwFunctions :: "string \<rightharpoonup> functionSignature"
  lwScopes :: "scope list"

type_synonym 'a lower = "lowerer \<Rightarrow> semaError + 'a \<times> lowerer"

definition returnL :: "'a \<Rightarrow> 'a lower" where
  "returnL x = (\<lambda>l. Inr (x, l))"

definition failL :: "semaError \<Rightarrow> 'a lower" where
  "failL e = (\<lambda>l. Inl e)"

definition bindL :: "'a lower \<Rightarrow> ('a \<Rightarrow> 'b lower) \<Rightarrow> 'b lower" where
  "bindL m f = (\<lambda>l. bindE (m l) (\<lambda>(x, l'). f x l'))"

definition thenL :: "unit lower \<Rightarrow> 'b lower \<Rightarrow> 'b lower" where
  "thenL m n = bindL m (\<lambda>_. n)"

definition guardL :: "bool \<Rightarrow> semaError \<Rightarrow> unit lower" where
  "guardL b e = (if b then returnL () else failL e)"

definition liftE :: "semaError + 'a \<Rightarrow> 'a lower" where
  "liftE r = (\<lambda>l. bindE r (\<lambda>x. Inr (x, l)))"

definition readL :: "(lowerer \<Rightarrow> 'a) \<Rightarrow> 'a lower" where
  "readL f = (\<lambda>l. Inr (f l, l))"

text \<open>A builder call on \<open>l.fn\<close>.\<close>

definition emitL :: "(tacFunction \<Rightarrow> operand \<times> tacFunction) \<Rightarrow> operand lower" where
  "emitL g = (\<lambda>l. case g (lwFn l) of (x, f) \<Rightarrow> Inr (x, l\<lparr>lwFn := f\<rparr>))"

definition execL :: "(tacFunction \<Rightarrow> tacFunction) \<Rightarrow> unit lower" where
  "execL g = (\<lambda>l. Inr ((), l\<lparr>lwFn := g (lwFn l)\<rparr>))"

definition modifyL :: "(lowerer \<Rightarrow> lowerer) \<Rightarrow> unit lower" where
  "modifyL g = (\<lambda>l. Inr ((), g l))"

lemma bindL_cong [fundef_cong]:
  "m = m' \<Longrightarrow> (\<And>x. f x = f' x) \<Longrightarrow> bindL m f = bindL m' f'"
  by (metis ext)

lemma thenL_cong [fundef_cong]: "m = m' \<Longrightarrow> n = n' \<Longrightarrow> thenL m n = thenL m' n'"
  by simp

section \<open>Types\<close>

definition lowerType :: "typeName \<Rightarrow> string" where
  "lowerType t =
     (case tnSpecifier t of
        TypeSpecifierInt \<Rightarrow> ''i32'' @ replicate (nat (tnPointerDepth t)) CHR ''*''
      | TypeSpecifierChar \<Rightarrow> ''i32'' @ replicate (nat (tnPointerDepth t)) CHR ''*''
      | TypeSpecifierVoid \<Rightarrow> ''void'' @ replicate (nat (tnPointerDepth t)) CHR ''*''
      | TypeSpecifierUnknown k \<Rightarrow> [])"

definition lowerObjectType :: "token \<Rightarrow> typeName \<Rightarrow> semaError + string" where
  "lowerObjectType tok t =
     (let typ = lowerType t in
      if typ = [] then Inl (unsupportedError tok ''declaration type'')
      else if typ = ''void'' then Inl (unsupportedError tok ''void objects'')
      else Inr typ)"

definition isPointerType :: "string \<Rightarrow> bool" where
  "isPointerType typ = hasSuffix typ ''*''"

definition pointeeType :: "string \<Rightarrow> string option" where
  "pointeeType typ = (if \<not> isPointerType typ then None else Some (take (length typ - 1) typ))"

definition pointerTo :: "string \<Rightarrow> string" where
  "pointerTo typ = typ @ ''*''"

fun signatureParams :: "functionParameter list \<Rightarrow> string set \<Rightarrow> semaError + string list" where
  "signatureParams [] seen = Inr []"
| "signatureParams (p # ps) seen =
     bindE (lowerObjectType (fpToken p) (fpType p)) (\<lambda>paramType.
       if fpName p \<in> seen then Inl (newError (fpToken p) (MsgParameterRedeclared (fpName p)))
       else bindE (signatureParams ps (insert (fpName p) seen)) (\<lambda>ts. Inr (paramType # ts)))"

definition signatureForFunction :: "token \<Rightarrow> typeName \<Rightarrow> functionParameter list \<Rightarrow> semaError + functionSignature" where
  "signatureForFunction tok ret params =
     (let retType = lowerType ret in
      if retType = [] then Inl (unsupportedError tok ''function return type'')
      else bindE (signatureParams params {}) (\<lambda>ts. Inr \<lparr>sigReturnType = retType, sigParams = ts\<rparr>))"

definition sameSignature :: "functionSignature \<Rightarrow> functionSignature \<Rightarrow> bool" where
  "sameSignature a b \<longleftrightarrow>
     \<not> (sigReturnType a \<noteq> sigReturnType b \<or> length (sigParams a) \<noteq> length (sigParams b))
     \<and> list_all2 (=) (sigParams a) (sigParams b)"

section \<open>Scopes and labels\<close>

definition pushScope :: "lowerer \<Rightarrow> lowerer" where
  "pushScope l = l\<lparr>lwScopes := Map.empty # lwScopes l\<rparr>"

definition popScope :: "lowerer \<Rightarrow> lowerer" where
  "popScope l = l\<lparr>lwScopes := tl (lwScopes l)\<rparr>"

definition currentScope :: "lowerer \<Rightarrow> scope" where
  "currentScope l = hd (lwScopes l)"

definition setCurrentScope :: "scope \<Rightarrow> lowerer \<Rightarrow> lowerer" where
  "setCurrentScope sc l = l\<lparr>lwScopes := sc # tl (lwScopes l)\<rparr>"

definition setLocalSlot :: "string \<Rightarrow> string \<Rightarrow> lowerer \<Rightarrow> lowerer" where
  "setLocalSlot name slot l =
     (let scope = currentScope l;
          vs = (case scope name of Some s \<Rightarrow> s | None \<Rightarrow> \<lparr>symType = [], symSlot = []\<rparr>)
      in setCurrentScope (scope(name \<mapsto> vs\<lparr>symSlot := slot\<rparr>)) l)"

definition declareLocal :: "token \<Rightarrow> string \<Rightarrow> string \<Rightarrow> unit lower" where
  "declareLocal tok name typ = (\<lambda>l.
     if currentScope l name \<noteq> None then Inl (newError tok (MsgIdentifierRedeclared name))
     else Inr ((), setCurrentScope ((currentScope l)(name \<mapsto> \<lparr>symType = typ, symSlot = []\<rparr>)) l))"

fun resolveIn :: "scope list \<Rightarrow> string \<Rightarrow> variableSymbol option" where
  "resolveIn [] name = None"
| "resolveIn (sc # scs) name = (case sc name of Some vs \<Rightarrow> Some vs | None \<Rightarrow> resolveIn scs name)"

definition resolveVariable :: "lowerer \<Rightarrow> string \<Rightarrow> variableSymbol option" where
  "resolveVariable l name = resolveIn (lwScopes l) name"

definition labelText :: "nat \<Rightarrow> string" where
  "labelText n = ''.L'' @ itoa (int n)"

definition newLabel :: "string lower" where
  "newLabel = (\<lambda>l. Inr (labelText (lwNextLabelID l), l\<lparr>lwNextLabelID := lwNextLabelID l + 1\<rparr>))"

section \<open>Expressions\<close>

definition loadAddress :: "operand \<Rightarrow> operand lower" where
  "loadAddress addr =
     (if opKind addr = OperandStackSlotPointer then emitL (AddInstruction OpcodeLoad [addr])
      else emitL (AddInstruction OpcodeLoadIndirect [addr]))"

definition storeAddress :: "operand \<Rightarrow> operand \<Rightarrow> unit lower" where
  "storeAddress addr val =
     (if opKind addr = OperandStackSlotPointer then execL (AddVoidInstruction OpcodeStore [addr, val])
      else execL (AddVoidInstruction OpcodeStoreIndirect [addr, val]))"

text \<open>\<open>decodeCharacterLiteral\<close>; the value is the byte of the literal or of its escape.\<close>

definition decodeCharacterLiteral :: "string \<Rightarrow> semaMsg + int" where
  "decodeCharacterLiteral raw =
     (if length raw < 3 \<or> hd raw \<noteq> CHR 0x27 \<or> last raw \<noteq> CHR 0x27 then Inl (MsgInvalidCharacter raw)
      else
        let body = butlast (tl raw) in
        if body = [] then Inl (MsgInvalidCharacter raw)
        else if hd body \<noteq> CHR 0x5C then
          (if length body \<noteq> 1 then Inl (MsgMultiCharacter raw) else Inr (of_char (hd body)))
        else if length body \<noteq> 2 then Inl (MsgInvalidEscape raw)
        else
          let c = body ! 1 in
          if c = CHR 0x5C then Inr 0x5C
          else if c = CHR 0x27 then Inr 0x27
          else if c = CHR ''n'' then Inr 10
          else if c = CHR ''t'' then Inr 9
          else if c = CHR ''r'' then Inr 13
          else if c = CHR ''0'' then Inr 0
          else Inl (MsgUnsupportedEscape raw))"

definition binaryOpcode :: "tokenType \<Rightarrow> opcode" where
  "binaryOpcode op =
     (if op = TokenPlus then OpcodeAdd
      else if op = TokenMinus then OpcodeSub
      else if op = TokenStar then OpcodeMul
      else if op = TokenSlash then OpcodeDivS
      else if op = TokenPercent then OpcodeModS
      else if op = TokenAmp then OpcodeAnd
      else if op = TokenPipe then OpcodeOr
      else if op = TokenCaret then OpcodeXor
      else if op = TokenShiftLeft then OpcodeShl
      else if op = TokenShiftRight then OpcodeShrS
      else if op = TokenEq then OpcodeEq
      else if op = TokenNe then OpcodeNe
      else if op = TokenLt then OpcodeLtS
      else if op = TokenLe then OpcodeLeS
      else if op = TokenGt then OpcodeGtS
      else if op = TokenGe then OpcodeGeS
      else if op = TokenAndAnd then OpcodeAnd
      else if op = TokenOrOr then OpcodeOr
      else OpcodeInvalid)"

definition typed :: "operand \<Rightarrow> string \<Rightarrow> typedValue" where
  "typed v t = \<lparr>tvValue = v, tvType = t\<rparr>"

text \<open>The emission of \<open>BinaryExpression\<close> once both operands are lowered.\<close>

definition emitBinary :: "token \<Rightarrow> tokenType \<Rightarrow> typedValue \<Rightarrow> typedValue \<Rightarrow> typedValue lower" where
  "emitBinary tok op lhs rhs =
     thenL (guardL (\<not> (tvType lhs = ''void'' \<or> tvType rhs = ''void'')) (newError tok MsgBinaryVoid))
     (let opcode = binaryOpcode op in
      thenL (guardL (opcode \<noteq> OpcodeInvalid) (unsupportedError tok ''binary operator''))
      (if op = TokenAndAnd \<or> op = TokenOrOr then
         bindL (emitL (AddInstruction OpcodeNe [tvValue lhs, Immediate ''0''])) (\<lambda>lhsVal.
         bindL (emitL (AddInstruction OpcodeNe [tvValue rhs, Immediate ''0''])) (\<lambda>rhsVal.
         bindL (emitL (AddInstruction opcode [lhsVal, rhsVal])) (\<lambda>v. returnL (typed v ''i32''))))
       else
         let resultType = (if op \<in> {TokenEq, TokenNe, TokenLt, TokenLe, TokenGt, TokenGe} then ''i32'' else tvType lhs) in
         bindL (emitL (AddInstruction opcode [tvValue lhs, tvValue rhs])) (\<lambda>v. returnL (typed v resultType))))"

text \<open>The second switch of \<open>UnaryExpression\<close>, for operators other than \<open>*\<close> and \<open>&\<close>.\<close>

definition emitUnary :: "token \<Rightarrow> tokenType \<Rightarrow> typedValue \<Rightarrow> typedValue lower" where
  "emitUnary tok op operand =
     thenL (guardL (tvType operand \<noteq> ''void'') (newError tok MsgUnaryVoid))
     (thenL (guardL (\<not> isPointerType (tvType operand)) (newError tok (MsgUnaryPointer op)))
     (if op = TokenPlus then returnL operand
      else if op = TokenMinus then
        bindL (emitL (AddInstruction OpcodeNeg [tvValue operand])) (\<lambda>v. returnL (typed v (tvType operand)))
      else if op = TokenBang then
        bindL (emitL (AddInstruction OpcodeLogicNot [tvValue operand])) (\<lambda>v. returnL (typed v ''i32''))
      else if op = TokenTilde then
        bindL (emitL (AddInstruction OpcodeNot [tvValue operand])) (\<lambda>v. returnL (typed v (tvType operand)))
      else failL (unsupportedError tok ''unary operator'')))"

text \<open>The checks shared by the two uses of \<open>*\<close>: the type the pointer points to.\<close>

definition dereferenced :: "token \<Rightarrow> typedValue \<Rightarrow> string lower" where
  "dereferenced tok ptr =
     (case pointeeType (tvType ptr) of
        None \<Rightarrow> failL (newError tok (MsgDereferenceNonPointer (tvType ptr)))
      | Some elemType \<Rightarrow>
          if elemType = ''void'' then failL (newError tok MsgDereferenceVoid) else returnL elemType)"

definition emitCall :: "string \<Rightarrow> functionSignature \<Rightarrow> operand list \<Rightarrow> typedValue lower" where
  "emitCall name sig args =
     (let calleeName = ''@'' @ name in
      if sigReturnType sig = ''void'' then
        thenL (execL (AddCallVoid (FunctionSymbol calleeName) args)) (returnL (typed zeroOperand ''void''))
      else
        bindL (emitL (AddCall (FunctionSymbol calleeName) args)) (\<lambda>v. returnL (typed v (sigReturnType sig))))"

definition checkCallee :: "token \<Rightarrow> token \<Rightarrow> string \<Rightarrow> nat \<Rightarrow> functionSignature lower" where
  "checkCallee tok calleeTok name n = (\<lambda>l.
     case lwFunctions l name of
       None \<Rightarrow> Inl (newError calleeTok (MsgUndeclaredFunction name))
     | Some sig \<Rightarrow>
         if n \<noteq> length (sigParams sig)
         then Inl (newError tok (MsgArgumentCount name (length (sigParams sig)) n))
         else Inr (sig, l))"

definition lookupVariable :: "token \<Rightarrow> string \<Rightarrow> variableSymbol lower" where
  "lookupVariable tok name = (\<lambda>l.
     case resolveVariable l name of
       None \<Rightarrow> Inl (newError tok (MsgUndeclaredIdentifier name))
     | Some vs \<Rightarrow> Inr (vs, l))"

fun lowerExpr :: "expr \<Rightarrow> typedValue lower"
  and lowerAddress :: "expr \<Rightarrow> (operand \<times> string) lower"
  and lowerArgs :: "token \<Rightarrow> string \<Rightarrow> nat \<Rightarrow> expr list \<Rightarrow> string list \<Rightarrow> operand list lower" where
  "lowerExpr (IntegerLiteralExpression tok raw) =
     (if parseInt 32 raw = None then failL (newError tok (MsgInvalidInteger raw))
      else bindL (emitL (AddInstruction OpcodeConstI32 [Immediate raw])) (\<lambda>v. returnL (typed v ''i32'')))"
| "lowerExpr (CharacterLiteralExpression tok raw) =
     bindL (liftE (mapErr (newError tok) (decodeCharacterLiteral raw))) (\<lambda>value.
     bindL (emitL (AddInstruction OpcodeConstI32 [Immediate (itoa value)])) (\<lambda>v. returnL (typed v ''i32'')))"
| "lowerExpr (IdentifierExpression tok name) =
     bindL (lookupVariable tok name) (\<lambda>vs.
     bindL (emitL (AddInstruction OpcodeLoad [StackSlotPointer (symSlot vs)])) (\<lambda>v.
       returnL (typed v (symType vs))))"
| "lowerExpr (UnaryExpression tok op operand) =
     (if op = TokenStar then
        bindL (lowerExpr operand) (\<lambda>ptr.
        bindL (dereferenced tok ptr) (\<lambda>elemType.
        bindL (loadAddress (tvValue ptr)) (\<lambda>v. returnL (typed v elemType))))
      else if op = TokenAmp then
        bindL (lowerAddress operand) (\<lambda>(addr, elemType). returnL (typed addr (pointerTo elemType)))
      else bindL (lowerExpr operand) (\<lambda>v. emitUnary tok op v))"
| "lowerExpr (BinaryExpression tok op lhs rhs) =
     bindL (lowerExpr lhs) (\<lambda>a. bindL (lowerExpr rhs) (\<lambda>b. emitBinary tok op a b))"
| "lowerExpr (AssignmentExpression tok lhs rhs) =
     bindL (lowerAddress lhs) (\<lambda>(addr, lhsType).
     bindL (lowerExpr rhs) (\<lambda>v.
     thenL (guardL (tvType v = lhsType) (newError tok (MsgAssignmentType lhsType (tvType v))))
     (thenL (storeAddress addr (tvValue v)) (returnL v))))"
| "lowerExpr (CallExpression tok callee args) =
     (case callee of
        IdentifierExpression calleeTok name \<Rightarrow>
          bindL (checkCallee tok calleeTok name (length args)) (\<lambda>sig.
          bindL (lowerArgs tok name 0 args (sigParams sig)) (\<lambda>argv.
            emitCall name sig argv))
      | _ \<Rightarrow> failL (unsupportedError tok ''function call target''))"
| "lowerAddress (IdentifierExpression tok name) =
     bindL (lookupVariable tok name) (\<lambda>vs. returnL (StackSlotPointer (symSlot vs), symType vs))"
| "lowerAddress (UnaryExpression tok op operand) =
     (if op \<noteq> TokenStar then failL (unsupportedError zeroToken ''assignment target'')
      else
        bindL (lowerExpr operand) (\<lambda>ptr.
        bindL (dereferenced tok ptr) (\<lambda>elemType. returnL (tvValue ptr, elemType))))"
| "lowerAddress _ = failL (unsupportedError zeroToken ''assignment target'')"
| "lowerArgs tok name i (e # es) (expected # ts) =
     bindL (lowerExpr e) (\<lambda>arg.
     thenL (guardL (tvType arg = expected) (newError tok (MsgArgumentType (i + 1) name (tvType arg) expected)))
     (bindL (lowerArgs tok name (i + 1) es ts) (\<lambda>argv. returnL (tvValue arg # argv))))"
| "lowerArgs tok name i _ _ = returnL []"

section \<open>Statements\<close>

text \<open>The body of \<open>lowerLocalDeclaration\<close>.\<close>

definition lowerLocalDeclaration :: "Declaration \<Rightarrow> unit lower" where
  "lowerLocalDeclaration decl =
     bindL (liftE (lowerObjectType (declToken decl) (declType decl))) (\<lambda>typ.
     thenL (declareLocal (declToken decl) (declName decl) typ)
     (bindL (emitL (AddInstruction OpcodeAlloca [Immediate typ])) (\<lambda>slot.
     thenL (modifyL (setLocalSlot (declName decl) (opText slot)))
     (case declInitializer decl of
        None \<Rightarrow> returnL ()
      | Some e \<Rightarrow>
          bindL (lowerExpr e) (\<lambda>v.
          thenL (guardL (tvType v = typ) (newError (declToken decl) (MsgInitializerType (declName decl) typ (tvType v))))
          (execL (AddVoidInstruction OpcodeStore [slot, tvValue v])))))))"

text \<open>The \<open>ReturnStatement\<close> case.\<close>

definition lowerReturn :: "token \<Rightarrow> expr option \<Rightarrow> bool lower" where
  "lowerReturn tok eo =
     (case eo of
        None \<Rightarrow>
          bindL (readL lwReturnType) (\<lambda>rt.
          thenL (guardL (rt = ''void'') (newError tok MsgMustReturnValue))
          (thenL (execL (AddRet zeroOperand)) (returnL False)))
      | Some e \<Rightarrow>
          bindL (lowerExpr e) (\<lambda>val.
          bindL (readL lwReturnType) (\<lambda>rt.
          thenL (guardL (rt \<noteq> ''void'') (newError tok MsgMustNotReturnValue))
          (thenL (guardL (tvType val = rt) (newError tok (MsgReturnType rt (tvType val))))
          (thenL (execL (AddRet (tvValue val))) (returnL False))))))"

definition lowerCondition :: "token \<Rightarrow> string \<Rightarrow> expr \<Rightarrow> operand lower" where
  "lowerCondition tok what e =
     bindL (lowerExpr e) (\<lambda>cond.
     thenL (guardL (tvType cond \<noteq> ''void'') (newError tok (MsgVoidCondition what))) (returnL (tvValue cond)))"

definition whenL :: "bool \<Rightarrow> unit lower \<Rightarrow> unit lower" where
  "whenL b m = (if b then m else returnL ())"

lemma whenL_cong [fundef_cong]: "b = b' \<Longrightarrow> (b' \<Longrightarrow> m = m') \<Longrightarrow> whenL b m = whenL b' m'"
  by (simp add: whenL_def)

text \<open>
  \<open>lowerIfStatement\<close>, \<open>lowerWhileStatement\<close> and \<open>lowerForStatement\<close>: the nested statements come as their
  lowering actions, which \<open>lowerStatement\<close> supplies by its recursion.
\<close>

definition lowerIfStatement :: "token \<Rightarrow> expr \<Rightarrow> bool lower \<Rightarrow> bool lower option \<Rightarrow> bool lower" where
  "lowerIfStatement tok c thenStmt elseStmt =
     bindL (lowerCondition tok ''if condition'' c) (\<lambda>cond.
     bindL newLabel (\<lambda>thenLabel. bindL newLabel (\<lambda>endLabel.
       case elseStmt of
         None \<Rightarrow>
           thenL (execL (AddBr cond thenLabel endLabel))
           (thenL (execL (AddLabel thenLabel))
           (bindL thenStmt (\<lambda>thenReachable.
             thenL (whenL thenReachable (execL (AddJmp endLabel)))
             (thenL (execL (AddLabel endLabel)) (returnL True)))))
       | Some e \<Rightarrow>
           bindL newLabel (\<lambda>elseLabel.
           thenL (execL (AddBr cond thenLabel elseLabel))
           (thenL (execL (AddLabel thenLabel))
           (bindL thenStmt (\<lambda>thenReachable.
             thenL (whenL thenReachable (execL (AddJmp endLabel)))
             (thenL (execL (AddLabel elseLabel))
             (bindL e (\<lambda>elseReachable.
               thenL (whenL elseReachable (execL (AddJmp endLabel)))
               (thenL (whenL (thenReachable \<or> elseReachable) (execL (AddLabel endLabel)))
                 (returnL (thenReachable \<or> elseReachable)))))))))))))"

definition lowerWhileStatement :: "token \<Rightarrow> expr \<Rightarrow> bool lower \<Rightarrow> bool lower" where
  "lowerWhileStatement tok c body =
     bindL newLabel (\<lambda>condLabel. bindL newLabel (\<lambda>bodyLabel. bindL newLabel (\<lambda>endLabel.
       thenL (execL (AddJmp condLabel))
       (thenL (execL (AddLabel condLabel))
       (bindL (lowerCondition tok ''while condition'' c) (\<lambda>cond.
         thenL (execL (AddBr cond bodyLabel endLabel))
         (thenL (execL (AddLabel bodyLabel))
         (bindL body (\<lambda>bodyReachable.
           thenL (whenL bodyReachable (execL (AddJmp condLabel)))
           (thenL (execL (AddLabel endLabel)) (returnL True)))))))))))"

definition lowerForStatement :: "token \<Rightarrow> bool lower option \<Rightarrow> expr option \<Rightarrow> expr option \<Rightarrow> bool lower \<Rightarrow> bool lower" where
  "lowerForStatement tok init' c post body =
     thenL (modifyL pushScope)
     (bindL (case init' of None \<Rightarrow> returnL True | Some s \<Rightarrow> s) (\<lambda>initReachable.
       if \<not> initReachable then thenL (modifyL popScope) (returnL False)
       else
         bindL newLabel (\<lambda>condLabel. bindL newLabel (\<lambda>bodyLabel. bindL newLabel (\<lambda>postLabel. bindL newLabel (\<lambda>endLabel.
           thenL (execL (AddJmp condLabel))
           (thenL (execL (AddLabel condLabel))
           (thenL (case c of
                     None \<Rightarrow> execL (AddJmp bodyLabel)
                   | Some e \<Rightarrow> bindL (lowerCondition tok ''for condition'' e) (\<lambda>cond.
                       execL (AddBr cond bodyLabel endLabel)))
           (thenL (execL (AddLabel bodyLabel))
           (bindL body (\<lambda>bodyReachable.
             thenL (whenL bodyReachable (execL (AddJmp postLabel)))
             (thenL (execL (AddLabel postLabel))
             (thenL (case post of None \<Rightarrow> returnL ()
                     | Some e \<Rightarrow> whenL bodyReachable (bindL (lowerExpr e) (\<lambda>_. returnL ())))
             (thenL (whenL bodyReachable (execL (AddJmp condLabel)))
             (thenL (execL (AddLabel endLabel))
             (thenL (modifyL popScope) (returnL True)))))))))))))))))"

fun lowerStatement :: "stmt \<Rightarrow> bool lower"
  and lowerBlockStatements :: "stmt list \<Rightarrow> bool lower" where
  "lowerStatement (BlockStatement tok stmts) =
     thenL (modifyL pushScope)
     (bindL (lowerBlockStatements stmts) (\<lambda>reachable.
       thenL (modifyL popScope) (returnL reachable)))"
| "lowerStatement (DeclarationStatement tok decl) = thenL (lowerLocalDeclaration decl) (returnL True)"
| "lowerStatement (ExpressionStatement tok eo) =
     (case eo of None \<Rightarrow> returnL True | Some e \<Rightarrow> bindL (lowerExpr e) (\<lambda>_. returnL True))"
| "lowerStatement (ReturnStatement tok eo) = lowerReturn tok eo"
| "lowerStatement (IfStatement tok c t eo) =
     lowerIfStatement tok c (lowerStatement t) (case eo of None \<Rightarrow> None | Some e \<Rightarrow> Some (lowerStatement e))"
| "lowerStatement (WhileStatement tok c body) = lowerWhileStatement tok c (lowerStatement body)"
| "lowerStatement (ForStatement tok init' c post body) =
     lowerForStatement tok (case init' of None \<Rightarrow> None | Some s \<Rightarrow> Some (lowerStatement s)) c post (lowerStatement body)"
| "lowerBlockStatements [] = returnL True"
| "lowerBlockStatements (s # ss) =
     bindL (lowerStatement s) (\<lambda>reachable.
       if reachable then lowerBlockStatements ss else returnL False)"

section \<open>Functions and modules\<close>

text \<open>The loop over the parameters of \<open>lowerFunction\<close>.\<close>

fun lowerParameters :: "functionParameter list \<Rightarrow> unit lower" where
  "lowerParameters [] = returnL ()"
| "lowerParameters (p # ps) =
     bindL (liftE (lowerObjectType (fpToken p) (fpType p))) (\<lambda>paramType.
     thenL (declareLocal (fpToken p) (fpName p) paramType)
     (thenL (execL (\<lambda>f. f\<lparr>parameters := parameters f
               @ [\<lparr>paramName = CHR ''%'' # fpName p, paramType = paramType\<rparr>]\<rparr>))
     (bindL (emitL (AddInstruction OpcodeAlloca [Immediate paramType])) (\<lambda>slot.
     thenL (modifyL (setLocalSlot (fpName p) (opText slot)))
     (thenL (execL (AddVoidInstruction OpcodeStore [slot, Param (CHR ''%'' # fpName p)]))
     (lowerParameters ps))))))"

definition initialLowerer :: "string \<Rightarrow> string \<Rightarrow> (string \<rightharpoonup> functionSignature) \<Rightarrow> lowerer" where
  "initialLowerer name retType functions =
     \<lparr>lwFn = \<lparr>fnName = ''@'' @ name, parameters = [], returnType = retType, instructions = [], nextTempID = 0\<rparr>,
      lwNextLabelID = 0, lwReturnType = retType, lwFunctions = functions, lwScopes = []\<rparr>"

definition lowerBody :: "functionDefinition \<Rightarrow> unit lower" where
  "lowerBody pfn =
     thenL (modifyL pushScope)
     (thenL (lowerParameters (fdParameters pfn))
     (bindL (lowerBlockStatements (fdBodyStatements pfn)) (\<lambda>reachable.
       thenL (whenL reachable
         (if tnSpecifier (fdReturnType pfn) = TypeSpecifierVoid then execL (AddRet zeroOperand)
          else failL (newError (fdToken pfn) (MsgMayReachEnd (fdName pfn)))))
       (modifyL popScope))))"

definition lowerFunction :: "functionDefinition \<Rightarrow> (string \<rightharpoonup> functionSignature) \<Rightarrow> semaError + tacFunction" where
  "lowerFunction pfn functions =
     (let retType = lowerType (fdReturnType pfn) in
      if retType = [] then Inl (unsupportedError (fdToken pfn) ''function return type'')
      else bindE (lowerBody pfn (initialLowerer (fdName pfn) retType functions)) (\<lambda>(u, l). Inr (lwFn l)))"

fun collectPrototypes ::
  "functionPrototype list \<Rightarrow> (string \<rightharpoonup> functionSignature) \<Rightarrow> semaError + (string \<rightharpoonup> functionSignature)" where
  "collectPrototypes [] protos = Inr protos"
| "collectPrototypes (p # ps) protos =
     bindE (signatureForFunction (protoToken p) (protoReturnType p) (protoParameters p)) (\<lambda>sig.
       case protos (protoName p) of
         Some prev \<Rightarrow>
           if \<not> sameSignature prev sig then Inl (newError (protoToken p) (MsgConflictingPrototype (protoName p)))
           else collectPrototypes ps protos
       | None \<Rightarrow> collectPrototypes ps (protos(protoName p \<mapsto> sig)))"

fun collectDefinitions ::
  "functionDefinition list \<Rightarrow> (string \<rightharpoonup> functionSignature) \<Rightarrow> (string \<rightharpoonup> functionSignature)
    \<Rightarrow> semaError + (string \<rightharpoonup> functionSignature)" where
  "collectDefinitions [] protos defs = Inr defs"
| "collectDefinitions (pfn # pfns) protos defs =
     bindE (signatureForFunction (fdToken pfn) (fdReturnType pfn) (fdParameters pfn)) (\<lambda>sig.
       case defs (fdName pfn) of
         Some prev \<Rightarrow>
           Inl (newError (fdToken pfn)
             (if sameSignature prev sig then MsgDefinedMultipleTimes (fdName pfn) else MsgConflictingDefinition (fdName pfn)))
       | None \<Rightarrow>
           (case protos (fdName pfn) of
              Some proto \<Rightarrow>
                if \<not> sameSignature proto sig then Inl (newError (fdToken pfn) (MsgDefinitionMismatch (fdName pfn)))
                else collectDefinitions pfns protos (defs(fdName pfn \<mapsto> sig))
            | None \<Rightarrow> collectDefinitions pfns protos (defs(fdName pfn \<mapsto> sig))))"

text \<open>In the code the loop over prototypes also consults \<open>definitions\<close>, which is still empty there.\<close>

definition Lower :: "translationUnit \<Rightarrow> semaError + tacModule" where
  "Lower tu =
     (case tuDeclarations tu of
        d # _ \<Rightarrow> Inl (unsupportedError (declToken d) ''global declarations'')
      | [] \<Rightarrow>
          bindE (collectPrototypes (tuPrototypes tu) Map.empty) (\<lambda>protos.
          bindE (collectDefinitions (tuFunctions tu) protos Map.empty) (\<lambda>defs.
          bindE (mapE (\<lambda>pfn. lowerFunction pfn (protos ++ defs)) (tuFunctions tu)) (\<lambda>fns.
            Inr \<lparr>modFunctions = fns\<rparr>))))"

end
