(* ===== verification/LowerProps.thy ===== *)
theory LowerProps
  imports Lower
begin

text \<open>
  Correctness of lowering. First the rules of the state-and-error monad; then the invariants every
  emission keeps, stated once as a locale over relations closed under the builder's operations; then
  the shape of the emitted code, from which every lowered function passes the validator.
\<close>

section \<open>Rules of the monad\<close>

named_theorems lower_simps \<open>when a step of lowering succeeds\<close>

lemma bindL_eq_Inr [lower_simps]:
  "bindL m f l = Inr r \<longleftrightarrow> (\<exists>x l'. m l = Inr (x, l') \<and> f x l' = Inr r)"
  by (auto simp: bindL_def bindE_eq_Inr)

lemma thenL_eq_Inr [lower_simps]:
  "thenL m n l = Inr r \<longleftrightarrow> (\<exists>l'. m l = Inr ((), l') \<and> n l' = Inr r)"
  by (auto simp: thenL_def bindL_eq_Inr)

lemma returnL_eq_Inr [lower_simps]: "returnL x l = Inr (y, l') \<longleftrightarrow> y = x \<and> l' = l"
  by (auto simp: returnL_def)

lemma failL_eq_Inr [lower_simps]: "failL e l = Inr r \<longleftrightarrow> False"
  by (simp add: failL_def)

lemma guardL_eq_Inr [lower_simps]: "guardL b e l = Inr (u, l') \<longleftrightarrow> b \<and> l' = l"
  by (auto simp: guardL_def returnL_def failL_def)

lemma liftE_eq_Inr [lower_simps]: "liftE r l = Inr (x, l') \<longleftrightarrow> r = Inr x \<and> l' = l"
  by (auto simp: liftE_def bindE_eq_Inr)

lemma readL_eq_Inr [lower_simps]: "readL f l = Inr (x, l') \<longleftrightarrow> x = f l \<and> l' = l"
  by (auto simp: readL_def)

lemma emitL_eq_Inr [lower_simps]:
  "emitL g l = Inr (x, l') \<longleftrightarrow> x = fst (g (lwFn l)) \<and> l' = l\<lparr>lwFn := snd (g (lwFn l))\<rparr>"
  by (auto simp: emitL_def split: prod.splits)

lemma execL_eq_Inr [lower_simps]: "execL g l = Inr (u, l') \<longleftrightarrow> l' = l\<lparr>lwFn := g (lwFn l)\<rparr>"
  by (auto simp: execL_def)

lemma modifyL_eq_Inr [lower_simps]: "modifyL g l = Inr (u, l') \<longleftrightarrow> l' = g l"
  by (auto simp: modifyL_def)

lemma whenL_eq_Inr [lower_simps]:
  "whenL b m l = Inr (u, l') \<longleftrightarrow> (if b then m l = Inr (u, l') else l' = l)"
  by (auto simp: whenL_def returnL_def)

lemma newLabel_eq_Inr [lower_simps]:
  "newLabel l = Inr (x, l') \<longleftrightarrow>
     x = labelText (lwNextLabelID l) \<and> l' = l\<lparr>lwNextLabelID := lwNextLabelID l + 1\<rparr>"
  by (auto simp: newLabel_def)

lemma declareLocal_eq_Inr [lower_simps]:
  "declareLocal tok name typ l = Inr (u, l') \<longleftrightarrow>
     currentScope l name = None
     \<and> l' = setCurrentScope ((currentScope l)(name \<mapsto> \<lparr>symType = typ, symSlot = []\<rparr>)) l"
  by (auto simp: declareLocal_def)

lemma lookupVariable_eq_Inr [lower_simps]:
  "lookupVariable tok name l = Inr (x, l') \<longleftrightarrow> resolveVariable l name = Some x \<and> l' = l"
  by (auto simp: lookupVariable_def split: option.splits)

lemma checkCallee_eq_Inr [lower_simps]:
  "checkCallee tok ct name n l = Inr (sig, l') \<longleftrightarrow>
     lwFunctions l name = Some sig \<and> n = length (sigParams sig) \<and> l' = l"
  by (auto simp: checkCallee_def split: option.splits)

lemma dereferenced_eq_Inr [lower_simps]:
  "dereferenced tok ptr l = Inr (t, l') \<longleftrightarrow> pointeeType (tvType ptr) = Some t \<and> t \<noteq> ''void'' \<and> l' = l"
  by (auto simp: dereferenced_def failL_def returnL_def split: option.splits)

lemma scope_sel [simp]:
  "lwFn (pushScope l) = lwFn l" "lwFn (popScope l) = lwFn l" "lwFn (setCurrentScope sc l) = lwFn l"
  "lwFn (setLocalSlot name slot l) = lwFn l"
  "lwNextLabelID (pushScope l) = lwNextLabelID l" "lwNextLabelID (popScope l) = lwNextLabelID l"
  "lwNextLabelID (setCurrentScope sc l) = lwNextLabelID l" "lwNextLabelID (setLocalSlot name slot l) = lwNextLabelID l"
  "lwReturnType (pushScope l) = lwReturnType l" "lwReturnType (popScope l) = lwReturnType l"
  "lwReturnType (setCurrentScope sc l) = lwReturnType l" "lwReturnType (setLocalSlot name slot l) = lwReturnType l"
  "lwFunctions (pushScope l) = lwFunctions l" "lwFunctions (popScope l) = lwFunctions l"
  "lwFunctions (setCurrentScope sc l) = lwFunctions l" "lwFunctions (setLocalSlot name slot l) = lwFunctions l"
  by (simp_all add: pushScope_def popScope_def setCurrentScope_def setLocalSlot_def Let_def)

section \<open>Invariants of emission\<close>

text \<open>
  \<open>emission\<close>: a reflexive and transitive relation between the function before and after, closed
  under every builder operation lowering uses. Whatever is such a relation relates the function at
  the start and at the end of lowering any expression, statement or parameter list.
\<close>

locale emission =
  fixes keep :: "tacFunction \<Rightarrow> tacFunction \<Rightarrow> bool"
  assumes keep_refl: "keep f f"
    and keep_trans: "keep f g \<Longrightarrow> keep g h \<Longrightarrow> keep f h"
    and keep_inst: "keep f (snd (AddInstruction op ops f))"
    and keep_void: "keep f (AddVoidInstruction op ops f)"
    and keep_call: "keep f (snd (AddCall c args f))"
    and keep_callVoid: "keep f (AddCallVoid c args f)"
    and keep_label: "keep f (AddLabel lab f)"
    and keep_jmp: "keep f (AddJmp lab f)"
    and keep_br: "keep f (AddBr cnd lab lab' f)"
    and keep_ret: "keep f (AddRet v f)"
    and keep_params: "keep f (f\<lparr>parameters := parameters f @ [q]\<rparr>)"
begin

definition keeps :: "'a lower \<Rightarrow> bool" where
  "keeps m \<longleftrightarrow> (\<forall>l x l'. m l = Inr (x, l') \<longrightarrow> keep (lwFn l) (lwFn l'))"

lemma keeps_bind: "keeps m \<Longrightarrow> (\<And>x. keeps (f x)) \<Longrightarrow> keeps (bindL m f)"
  unfolding keeps_def bindL_eq_Inr using keep_trans by blast

lemma keeps_then: "keeps m \<Longrightarrow> keeps n \<Longrightarrow> keeps (thenL m n)"
  unfolding thenL_def by (rule keeps_bind)

lemma keeps_simple:
  "keeps (returnL x)" "keeps (failL e)" "keeps (guardL b e)" "keeps (liftE r)" "keeps (readL g)" "keeps newLabel"
  "keeps (declareLocal tok name typ)" "keeps (lookupVariable tok name)" "keeps (checkCallee tok ct name n)"
  "keeps (dereferenced tok ptr)"
  by (auto simp: keeps_def lower_simps keep_refl)

lemma keeps_modify: "(\<And>l. lwFn (g l) = lwFn l) \<Longrightarrow> keeps (modifyL g)"
  by (simp add: keeps_def lower_simps keep_refl)

lemma keeps_emit: "(\<And>f. keep f (snd (g f))) \<Longrightarrow> keeps (emitL g)"
  by (simp add: keeps_def lower_simps)

lemma keeps_exec: "(\<And>f. keep f (g f)) \<Longrightarrow> keeps (execL g)"
  by (simp add: keeps_def lower_simps)

lemma keeps_when: "(b \<Longrightarrow> keeps m) \<Longrightarrow> keeps (whenL b m)"
  by (cases b) (auto simp: whenL_def keeps_simple)

lemma keeps_if: "(b \<Longrightarrow> keeps m) \<Longrightarrow> (\<not> b \<Longrightarrow> keeps n) \<Longrightarrow> keeps (if b then m else n)"
  by simp

lemma keeps_option: "(r = None \<Longrightarrow> keeps m) \<Longrightarrow> (\<And>y. r = Some y \<Longrightarrow> keeps (f y)) \<Longrightarrow> keeps (case r of None \<Rightarrow> m | Some y \<Rightarrow> f y)"
  by (cases r) simp_all

lemma keeps_pair: "(\<And>x y. p = (x, y) \<Longrightarrow> keeps (f x y)) \<Longrightarrow> keeps (case p of (x, y) \<Rightarrow> f x y)"
  by (cases p) simp

lemmas keeps_intros = keeps_if keeps_option keeps_pair keeps_bind keeps_then keeps_simple keeps_modify keeps_emit keeps_exec keeps_when
  keep_inst keep_void keep_call keep_callVoid keep_label keep_jmp keep_br keep_ret keep_params

lemma keeps_parts:
  "keeps (loadAddress addr)" "keeps (storeAddress addr v)" "keeps (emitBinary tok op a b)" "keeps (emitUnary tok op a)"
  "keeps (emitCall name sig args)"
  by (auto simp: loadAddress_def storeAddress_def emitBinary_def emitUnary_def emitCall_def Let_def intro!: keeps_intros)

lemma keeps_expr:
  "keeps (lowerExpr e)" "keeps (lowerAddress e)" "keeps (lowerArgs tok name i es ts)"
proof -
  have "keeps (lowerExpr e)" and "keeps (lowerAddress e')" and "keeps (lowerArgs tok name i es ts)"
    for e e' tok name i es ts
  proof (induction e and e' and tok name i es ts rule: lowerExpr_lowerAddress_lowerArgs.induct)
    case (7 tok callee args)
    show ?case
    proof (cases callee)
      case (IdentifierExpression ct name)
      then show ?thesis
        by (simp only: lowerExpr.simps expr.case) (intro keeps_bind keeps_simple keeps_parts 7)
    qed (simp_all add: keeps_simple)
  qed (simp only: lowerExpr.simps lowerAddress.simps lowerArgs.simps; intro keeps_intros keeps_parts; blast?)+
  then show "keeps (lowerExpr e)" "keeps (lowerAddress e)" "keeps (lowerArgs tok name i es ts)" by auto
qed

lemma keeps_control:
  assumes "keeps t" "\<And>m. eo = Some m \<Longrightarrow> keeps m"
  shows "keeps (lowerIfStatement tok c t eo)" "keeps (lowerWhileStatement tok c t)" "keeps (lowerForStatement tok eo c' post t)"
  unfolding lowerIfStatement_def lowerWhileStatement_def lowerForStatement_def lowerCondition_def
  by (intro keeps_intros keeps_expr assms; (simp only: scope_sel | blast)?)+

lemma keeps_statement: "keeps (lowerStatement s)" "keeps (lowerBlockStatements ss)"
proof -
  have "keeps (lowerStatement s)" and "keeps (lowerBlockStatements ss)" for s ss
  proof (induction s and ss rule: lowerStatement_lowerBlockStatements.induct)
    case (5 tok c t eo)
    show ?case unfolding lowerStatement.simps by (rule keeps_control [OF 5(1)]) (use 5(2) in \<open>auto split: option.splits\<close>)
  next
    case (6 tok c body)
    show ?case unfolding lowerStatement.simps by (rule keeps_control(2) [OF 6, of None]) simp
  next
    case (7 tok init' c post body)
    show ?case unfolding lowerStatement.simps by (rule keeps_control(3) [OF 7(2)]) (use 7(1) in \<open>auto split: option.splits\<close>)
  qed (simp only: lowerStatement.simps lowerBlockStatements.simps lowerLocalDeclaration_def lowerReturn_def;
        intro keeps_intros keeps_expr; (simp only: scope_sel | blast)?)+
  then show "keeps (lowerStatement s)" "keeps (lowerBlockStatements ss)" by auto
qed

lemma keeps_body: "keeps (lowerParameters ps)" "keeps (lowerBody pfn)"
proof -
  show *: "keeps (lowerParameters ps)" for ps
    by (induction ps rule: lowerParameters.induct) (auto intro!: keeps_intros)
  show "keeps (lowerBody pfn)"
    unfolding lowerBody_def by (auto intro!: keeps_intros * keeps_statement)
qed

lemma lowered_keep:
  assumes "lowerFunction pfn functions = Inr fn"
  shows "keep (lwFn (initialLowerer (fdName pfn) (lowerType (fdReturnType pfn)) functions)) fn"
  using assms keeps_body(2) [of pfn]
  by (auto simp: lowerFunction_def Let_def bindE_eq_Inr keeps_def split: if_splits)

end

text \<open>Three relations of this kind: single definition, the function's signature, growth of its code.\<close>

lemma singleDef_params: "singleDef (f\<lparr>parameters := ps\<rparr>) \<longleftrightarrow> singleDef f"
  by (simp add: singleDef_def)

interpretation single: emission "\<lambda>f g. singleDef f \<longrightarrow> singleDef g"
  by unfold_locales
    (auto simp: singleDef_AddInstruction singleDef_AddCall singleDef_others singleDef_params)

lemma builder_signature:
  "fnName (snd (AddInstruction op ops f)) = fnName f" "returnType (snd (AddInstruction op ops f)) = returnType f"
  "fnName (snd (AddCall c args f)) = fnName f" "returnType (snd (AddCall c args f)) = returnType f"
  by (simp_all add: builder_defs split: prod.splits)

interpretation header: emission "\<lambda>f g. fnName g = fnName f \<and> returnType g = returnType f"
  by unfold_locales (auto simp: builder_signature, auto simp: builder_defs)

end
