(* ===== verification/LowerShape.thy ===== *)
theory LowerShape
  imports LowerProps
begin

text \<open>
  The shape of lowered code. Every instruction verifies, labels are fresh and pairwise different,
  jumps stay among the labels of the same statement, and a statement that does not fall through ends
  in a terminator. So every function \<open>Lower\<close> returns passes the validator.
\<close>

section \<open>Well-formed states\<close>

definition okValue :: "typedValue \<Rightarrow> bool" where
  "okValue v \<longleftrightarrow> (tvType v \<noteq> ''void'' \<longrightarrow> valueKind (opKind (tvValue v)))"

definition okScope :: "scope \<Rightarrow> bool" where
  "okScope sc \<longleftrightarrow> (\<forall>name vs. sc name = Some vs \<longrightarrow> symType vs \<noteq> ''void'')"

definition okSignatures :: "(string \<rightharpoonup> functionSignature) \<Rightarrow> bool" where
  "okSignatures fs \<longleftrightarrow> fs [] = None \<and> (\<forall>name sig. fs name = Some sig \<longrightarrow> ''void'' \<notin> set (sigParams sig))"

definition okL :: "lowerer \<Rightarrow> bool" where
  "okL l \<longleftrightarrow> lwScopes l \<noteq> [] \<and> (\<forall>sc \<in> set (lwScopes l). okScope sc) \<and> okSignatures (lwFunctions l)"

text \<open>What every step keeps: the function table, the return type, the nesting depth, \<open>okL\<close>.\<close>

definition frame :: "lowerer \<Rightarrow> lowerer \<Rightarrow> bool" where
  "frame l l' \<longleftrightarrow> lwFunctions l' = lwFunctions l \<and> lwReturnType l' = lwReturnType l
     \<and> length (lwScopes l') = length (lwScopes l) \<and> okL l' \<and> lwNextLabelID l \<le> lwNextLabelID l'"

lemma frame_okL: "frame l l' \<Longrightarrow> okL l'"
  by (simp add: frame_def)

lemma frame_refl: "okL l \<Longrightarrow> frame l l"
  by (simp add: frame_def)

lemma frame_trans: "frame l l' \<Longrightarrow> frame l' l'' \<Longrightarrow> frame l l''"
  by (auto simp: frame_def)

lemma frame_update: "frame l (l'\<lparr>lwFn := f\<rparr>) \<longleftrightarrow> frame l l'" "frame (l\<lparr>lwFn := f\<rparr>) l' \<longleftrightarrow> frame l l'"
  by (simp_all add: frame_def okL_def)

lemma frame_newLabel: "okL l \<Longrightarrow> frame l (l\<lparr>lwNextLabelID := lwNextLabelID l + 1\<rparr>)"
  by (simp add: frame_def okL_def)

lemma okL_scope: "okL l \<Longrightarrow> okScope (currentScope l)"
  by (simp add: okL_def currentScope_def)

lemma frame_setCurrentScope: "okL l \<Longrightarrow> okScope sc \<Longrightarrow> frame l (setCurrentScope sc l)"
  by (cases "lwScopes l") (auto simp: frame_def okL_def setCurrentScope_def)

lemma frame_declare:
  assumes "okL l" "typ \<noteq> ''void''"
  shows "frame l (setCurrentScope ((currentScope l)(name \<mapsto> \<lparr>symType = typ, symSlot = slot\<rparr>)) l)"
  using assms okL_scope [OF assms(1)] by (intro frame_setCurrentScope) (auto simp: okScope_def)

lemma frame_setLocalSlot: "okL l \<Longrightarrow> frame l (setLocalSlot name slot l)"
  unfolding setLocalSlot_def Let_def
  by (rule frame_setCurrentScope) (auto simp: okScope_def dest: okL_scope split: option.splits)

lemma frame_scoped:
  assumes "okL l" and "frame (pushScope l) l'"
  shows "frame l (popScope l')"
  using assms
  by (cases "lwScopes l'") (auto simp: frame_def okL_def popScope_def pushScope_def Suc_length_conv)

lemma okL_pushScope: "okL l \<Longrightarrow> okL (pushScope l)"
  by (auto simp: okL_def pushScope_def okScope_def)

lemma okL_resolve: "okL l \<Longrightarrow> resolveVariable l name = Some vs \<Longrightarrow> symType vs \<noteq> ''void''"
proof -
  assume "okL l" and r: "resolveVariable l name = Some vs"
  then have "\<forall>sc \<in> set (lwScopes l). okScope sc" by (simp add: okL_def)
  moreover have "resolveIn scs name = Some vs \<Longrightarrow> \<forall>sc \<in> set scs. okScope sc \<Longrightarrow> symType vs \<noteq> ''void''" for scs
    by (induction scs) (auto simp: okScope_def split: option.splits)
  ultimately show ?thesis using r by (simp add: resolveVariable_def)
qed

lemma lowerObjectType_ok: "lowerObjectType tok t = Inr typ \<Longrightarrow> typ \<noteq> ''void''"
  by (auto simp: lowerObjectType_def Let_def split: if_splits)

lemma pointee_not_void: "pointeeType t = Some t' \<Longrightarrow> t \<noteq> ''void''"
  by (auto simp: pointeeType_def isPointerType_def hasSuffix_def split: if_splits)

lemma pointerTo_not_void: "pointerTo t \<noteq> ''void''"
proof
  assume "pointerTo t = ''void''"
  then have "last (pointerTo t) = last ''void''" by simp
  then show False by (simp add: pointerTo_def)
qed

section \<open>Code over a set of labels\<close>

definition codeOver :: "nat list \<Rightarrow> nat set \<Rightarrow> instruction list \<Rightarrow> bool" where
  "codeOver ids T seg \<longleftrightarrow> labelsOf seg = map labelText ids
     \<and> (\<forall>i \<in> set seg. VerifyInstruction i = Inr () \<and> set (targetsOf i) \<subseteq> labelText ` T)"

lemma labelText_inj [simp]: "labelText m = labelText n \<longleftrightarrow> m = n"
  by (auto simp: labelText_def dest: itoa_inj)

lemma labelText_nonempty [simp]: "labelText n \<noteq> []"
  by (simp add: labelText_def)

lemma codeOver_Nil: "codeOver [] T []"
  by (simp add: codeOver_def)

lemma codeOver_append: "codeOver ids T xs \<Longrightarrow> codeOver ids' T ys \<Longrightarrow> codeOver (ids @ ids') T (xs @ ys)"
  by (auto simp: codeOver_def)

lemma codeOver_mono: "codeOver ids T xs \<Longrightarrow> T \<subseteq> U \<Longrightarrow> codeOver ids U xs"
  by (fastforce simp: codeOver_def)

lemma inst_kinds [simp]:
  "instKind (opInst d op ops) = InstructionOp" "instKind (voidInst op ops) = InstructionOp"
  "instKind (callInst d c as) = InstructionOp" "instKind (callVoidInst c as) = InstructionOp"
  "instKind (labelInst x) = InstructionLabel" "instKind (jmpInst x) = InstructionJmp"
  "instKind (brInst c x y) = InstructionBr" "instKind (retInst v) = InstructionRet"
  "instLabel (labelInst x) = x"
  by (simp_all add: inst_defs)

lemma targetsOf_insts [simp]:
  "targetsOf (opInst d op ops) = []" "targetsOf (voidInst op ops) = []" "targetsOf (callInst d c as) = []"
  "targetsOf (callVoidInst c as) = []" "targetsOf (labelInst x) = []" "targetsOf (retInst v) = []"
  "targetsOf (jmpInst x) = [x]" "targetsOf (brInst c x y) = [x, y]"
  by (simp_all add: targetsOf_def) (simp_all add: inst_defs)

lemma codeOver_op:
  "instKind i = InstructionOp \<Longrightarrow> VerifyInstruction i = Inr () \<Longrightarrow> codeOver [] T [i]"
  by (simp add: codeOver_def targetsOf_def)

lemma codeOver_control:
  "codeOver [n] T [labelInst (labelText n)]"
  "n \<in> T \<Longrightarrow> codeOver [] T [jmpInst (labelText n)]"
  "opKind c \<noteq> OperandInvalid \<Longrightarrow> m \<in> T \<Longrightarrow> n \<in> T \<Longrightarrow> codeOver [] T [brInst c (labelText m) (labelText n)]"
  "codeOver [] T [retInst v]"
  by (auto simp: codeOver_def VerifyInstruction_def) (auto simp: inst_defs split: if_splits)

section \<open>Emission\<close>

text \<open>\<open>emits ids T l l'\<close>: \<open>l'\<close> is \<open>l\<close> with code over \<open>T\<close> appended that defines the labels \<open>ids\<close>.\<close>

abbreviation codeOf :: "lowerer \<Rightarrow> instruction list" where
  "codeOf l \<equiv> instructions (lwFn l)"

definition emits :: "nat list \<Rightarrow> nat set \<Rightarrow> lowerer \<Rightarrow> lowerer \<Rightarrow> bool" where
  "emits ids T l l' \<longleftrightarrow> (\<exists>seg. codeOf l' = codeOf l @ seg \<and> codeOver ids T seg) \<and> frame l l'"

lemma emits_okL: "emits ids T l l' \<Longrightarrow> okL l'"
  by (simp add: emits_def frame_def)

lemma emits_trans: "emits ids T l l' \<Longrightarrow> emits ids' T l' l'' \<Longrightarrow> emits (ids @ ids') T l l''"
  unfolding emits_def using codeOver_append frame_trans by fastforce

lemma emits_mono: "emits ids T l l' \<Longrightarrow> T \<subseteq> U \<Longrightarrow> emits ids U l l'"
  by (auto simp: emits_def intro: codeOver_mono)

lemma emits_silent: "frame l l' \<Longrightarrow> lwFn l' = lwFn l \<Longrightarrow> emits [] T l l'"
  by (simp add: emits_def codeOver_Nil)

lemma emits_emit:
  "okL l \<Longrightarrow> codeOver ids T [i] \<Longrightarrow> instructions f = codeOf l @ [i] \<Longrightarrow> emits ids T l (l\<lparr>lwFn := f\<rparr>)"
  by (simp add: emits_def frame_update frame_refl)

text \<open>Straight-line code, as expressions emit it.\<close>

definition straight :: "lowerer \<Rightarrow> lowerer \<Rightarrow> bool" where
  "straight l l' \<longleftrightarrow> emits [] {} l l' \<and> lwScopes l' = lwScopes l \<and> lwNextLabelID l' = lwNextLabelID l"

lemma straight_refl: "okL l \<Longrightarrow> straight l l"
  by (auto simp: straight_def intro: emits_silent frame_refl)

lemma straight_trans: "straight l l' \<Longrightarrow> straight l' l'' \<Longrightarrow> straight l l''"
  using emits_trans [of "[]" "{}" l l' "[]"] by (simp add: straight_def)

lemma straight_okL: "straight l l' \<Longrightarrow> okL l'"
  by (auto simp: straight_def dest: emits_okL)

lemma straight_op:
  assumes "okL l" "instKind i = InstructionOp" "VerifyInstruction i = Inr ()"
    and "instructions f = instructions (lwFn l) @ [i]"
  shows "straight l (l\<lparr>lwFn := f\<rparr>)"
  using emits_emit [OF assms(1) codeOver_op [OF assms(2,3)] assms(4)] by (auto simp: straight_def)


section \<open>Expressions\<close>

lemma okL_update: "okL (l\<lparr>lwFn := f\<rparr>) \<longleftrightarrow> okL l"
  by (simp add: okL_def)

lemma okL_callee:
  "okL l \<Longrightarrow> lwFunctions l name = Some sig \<Longrightarrow> ''void'' \<notin> set (sigParams sig) \<and> name \<noteq> []"
  by (auto simp: okL_def okSignatures_def)

lemma AddInstruction_appends:
  "instructions (snd (AddInstruction op ops f)) = instructions f @ [opInst (fst (AddInstruction op ops f)) op ops]"
  "opKind (fst (AddInstruction op ops f)) = (if op = OpcodeAlloca then OperandStackSlotPointer else OperandTemp)"
  by (simp_all add: builder_defs)

lemma AddCall_appends:
  "instructions (snd (AddCall c as f)) = instructions f @ [callInst (fst (AddCall c as f)) c as]"
  "opKind (fst (AddCall c as f)) = OperandTemp"
  by (simp_all add: builder_defs)

lemma opInst_verified:
  "verifyOpcodeOperands (opInst d op ops) = Inr () \<Longrightarrow> op \<noteq> OpcodeInvalid \<Longrightarrow> VerifyInstruction (opInst d op ops) = Inr ()"
  "verifyOpcodeOperands (voidInst op ops) = Inr () \<Longrightarrow> op \<noteq> OpcodeInvalid \<Longrightarrow> VerifyInstruction (voidInst op ops) = Inr ()"
  by (simp_all add: VerifyInstruction_def inst_kinds) (simp_all add: opInst_def voidInst_def)

text \<open>What the operation of an instruction demands of its operands.\<close>

definition operandsOk :: "opcode \<Rightarrow> operand list \<Rightarrow> bool" where
  "operandsOk op ops \<longleftrightarrow>
     (if op = OpcodeConstI32 \<or> op = OpcodeAlloca then map opKind ops = [OperandImmediate]
      else if op \<in> set binaryOpcodes \<or> op = OpcodeStoreIndirect then twoValues ops
      else if op \<in> set unaryOpcodes \<or> op = OpcodeLoadIndirect then oneValue ops
      else if op = OpcodeLoad then map opKind ops = [OperandStackSlotPointer]
      else if op = OpcodeStore then twoValues ops \<and> opKind (ops ! 0) = OperandStackSlotPointer
      else False)"

lemma verify_op:
  assumes "operandsOk op ops"
  shows "opKind d = OperandTemp \<or> opKind d = OperandStackSlotPointer \<Longrightarrow> VerifyInstruction (opInst d op ops) = Inr ()"
    and "VerifyInstruction (voidInst op ops) = Inr ()"
  using assms
  by (auto simp: operandsOk_def VerifyInstruction_def verifyOpcodeOperands_def Let_def opInst_def voidInst_def
      requireKinds_iff destinationOk_def binaryOpcodes_def unaryOpcodes_def bindE_eq_Inr oneValue_def twoValues_def
      split: if_splits)

lemma straight_AddInstruction:
  assumes "okL l" "operandsOk op ops"
  shows "straight l (l\<lparr>lwFn := snd (AddInstruction op ops (lwFn l))\<rparr>)"
  using assms
  by (intro straight_op [where i = "opInst (fst (AddInstruction op ops (lwFn l))) op ops"])
    (auto simp: AddInstruction_appends intro!: verify_op(1))

lemma straight_AddVoidInstruction:
  assumes "okL l" "operandsOk op ops"
  shows "straight l (l\<lparr>lwFn := AddVoidInstruction op ops (lwFn l)\<rparr>)"
  using assms
  by (intro straight_op [where i = "voidInst op ops"]) (auto simp: AddVoidInstruction_def emit_def intro: verify_op)

lemma straight_call:
  assumes "okL l" "name \<noteq> []" "\<forall>a \<in> set as. valueKind (opKind a)"
  shows "straight l (l\<lparr>lwFn := snd (AddCall (FunctionSymbol (''@'' @ name)) as (lwFn l))\<rparr>)"
    and "straight l (l\<lparr>lwFn := AddCallVoid (FunctionSymbol (''@'' @ name)) as (lwFn l)\<rparr>)"
proof -
  let ?c = "FunctionSymbol (''@'' @ name)"
  have v: "VerifyInstruction (callInst d ?c as) = Inr ()" "VerifyInstruction (callVoidInst ?c as) = Inr ()"
    if "opKind d = OperandTemp" for d
    using that assms(2,3)
    by (simp_all add: VerifyInstruction_def verifyOpcodeOperands_def callInst_def callVoidInst_def callArgsOk_iff
        isFunctionSymbol_Cons destinationOk_def binaryOpcodes_def unaryOpcodes_def bindE_eq_Inr)
  show "straight l (l\<lparr>lwFn := snd (AddCall ?c as (lwFn l))\<rparr>)"
    by (rule straight_op [OF assms(1) _ v(1) AddCall_appends(1)]) (simp_all add: AddCall_appends)
  show "straight l (l\<lparr>lwFn := AddCallVoid ?c as (lwFn l)\<rparr>)"
    by (rule straight_op [OF assms(1) _ v(2) [OF operand_kinds(2)]]) (simp_all add: AddCallVoid_def emit_def)
qed

lemma binaryOpcode_binary: "binaryOpcode op \<noteq> OpcodeInvalid \<Longrightarrow> binaryOpcode op \<in> set binaryOpcodes"
  unfolding binaryOpcode_def by (simp add: binaryOpcodes_def split: if_splits)

lemma okValue_typed [simp]: "valueKind (opKind v) \<Longrightarrow> okValue (typed v t)"
  by (simp add: okValue_def typed_def)

lemma typed_sel [simp]: "tvValue (typed v t) = v" "tvType (typed v t) = t"
  by (simp_all add: typed_def)

text \<open>\<open>yields P m\<close>: from a well-formed state \<open>m\<close> emits straight-line code and returns a \<open>P\<close>.\<close>

definition yields :: "('a \<Rightarrow> bool) \<Rightarrow> 'a lower \<Rightarrow> bool" where
  "yields P m \<longleftrightarrow> (\<forall>l x l'. okL l \<longrightarrow> m l = Inr (x, l') \<longrightarrow> straight l l' \<and> P x)"

lemma yields_bind: "yields P m \<Longrightarrow> (\<And>x. P x \<Longrightarrow> yields Q (f x)) \<Longrightarrow> yields Q (bindL m f)"
  unfolding yields_def bindL_eq_Inr using straight_okL straight_trans by blast

lemma yields_then: "yields P m \<Longrightarrow> yields Q n \<Longrightarrow> yields Q (thenL m n)"
  unfolding thenL_def by (rule yields_bind)

lemma yields_guard_then: "(b \<Longrightarrow> yields Q n) \<Longrightarrow> yields Q (thenL (guardL b e) n)"
  by (auto simp: yields_def lower_simps)

lemma yields_return: "P x \<Longrightarrow> yields P (returnL x)"
  by (simp add: yields_def lower_simps straight_refl)

lemma yields_fail: "yields P (failL e)"
  by (simp add: yields_def lower_simps)

lemma yields_lift: "(\<And>x. r = Inr x \<Longrightarrow> P x) \<Longrightarrow> yields P (liftE r)"
  by (auto simp: yields_def lower_simps straight_refl)

lemma yields_if: "(b \<Longrightarrow> yields P m) \<Longrightarrow> (\<not> b \<Longrightarrow> yields P n) \<Longrightarrow> yields P (if b then m else n)"
  by simp

lemma yields_inst:
  "operandsOk op ops \<Longrightarrow> op \<noteq> OpcodeAlloca \<Longrightarrow> yields (\<lambda>v. opKind v = OperandTemp) (emitL (AddInstruction op ops))"
  by (auto simp: yields_def lower_simps AddInstruction_appends intro: straight_AddInstruction)

lemma yields_alloca:
  "yields (\<lambda>v. opKind v = OperandStackSlotPointer) (emitL (AddInstruction OpcodeAlloca [Immediate t]))"
  by (auto simp: yields_def lower_simps AddInstruction_appends operandsOk_def intro: straight_AddInstruction)

lemma yields_void: "operandsOk op ops \<Longrightarrow> yields (\<lambda>_. True) (execL (AddVoidInstruction op ops))"
  by (auto simp: yields_def lower_simps intro: straight_AddVoidInstruction)

lemma yields_lookup: "yields (\<lambda>vs. symType vs \<noteq> ''void'') (lookupVariable tok name)"
  by (auto simp: yields_def lower_simps straight_refl dest: okL_resolve)

lemma yields_callee: "yields (\<lambda>sig. ''void'' \<notin> set (sigParams sig) \<and> name \<noteq> []) (checkCallee tok ct name n)"
  by (auto simp: yields_def lower_simps straight_refl dest: okL_callee)

lemma yields_dereferenced: "yields (\<lambda>t. t \<noteq> ''void'' \<and> tvType ptr \<noteq> ''void'') (dereferenced tok ptr)"
  by (auto simp: yields_def lower_simps straight_refl dest: pointee_not_void)


text \<open>The emissions of the expression cases.\<close>

abbreviation yieldsValue :: "typedValue lower \<Rightarrow> bool" where
  "yieldsValue \<equiv> yields okValue"

lemma okValue_kind: "okValue v \<Longrightarrow> tvType v \<noteq> ''void'' \<Longrightarrow> valueKind (opKind (tvValue v))"
  by (simp add: okValue_def)

lemma yields_typed:
  "operandsOk op ops \<Longrightarrow> op \<noteq> OpcodeAlloca \<Longrightarrow> yieldsValue (bindL (emitL (AddInstruction op ops)) (\<lambda>v. returnL (typed v t)))"
  by (rule yields_bind [OF yields_inst]) (auto intro: yields_return)

lemma yields_loadAddress:
  "valueKind (opKind addr) \<Longrightarrow> yields (\<lambda>v. opKind v = OperandTemp) (loadAddress addr)"
  by (simp add: loadAddress_def yields_inst operandsOk_def binaryOpcodes_def unaryOpcodes_def oneValue_def)

lemma yields_storeAddress:
  "valueKind (opKind addr) \<Longrightarrow> valueKind (opKind v) \<Longrightarrow> yields (\<lambda>_. True) (storeAddress addr v)"
  by (simp add: storeAddress_def yields_void operandsOk_def binaryOpcodes_def unaryOpcodes_def twoValues_def)

lemma operandsOk_binary: "op \<in> set binaryOpcodes \<Longrightarrow> twoValues ops \<Longrightarrow> operandsOk op ops"
  by (auto simp: operandsOk_def binaryOpcodes_def)

lemma operandsOk_unary: "op \<in> set unaryOpcodes \<Longrightarrow> oneValue ops \<Longrightarrow> operandsOk op ops"
  by (auto simp: operandsOk_def binaryOpcodes_def unaryOpcodes_def)

lemma not_alloca: "op \<in> set binaryOpcodes \<Longrightarrow> op \<noteq> OpcodeAlloca" "op \<in> set unaryOpcodes \<Longrightarrow> op \<noteq> OpcodeAlloca"
  by (auto simp: binaryOpcodes_def unaryOpcodes_def)

lemma yields_binop:
  "op \<in> set binaryOpcodes \<Longrightarrow> valueKind (opKind a) \<Longrightarrow> valueKind (opKind b)
    \<Longrightarrow> yields (\<lambda>v. opKind v = OperandTemp) (emitL (AddInstruction op [a, b]))"
  by (rule yields_inst) (auto simp: twoValues_def not_alloca intro: operandsOk_binary)

lemma yields_emitBinary:
  assumes "okValue a" "okValue b"
  shows "yieldsValue (emitBinary tok op a b)"
proof -
  have *: "yieldsValue (if op = TokenAndAnd \<or> op = TokenOrOr
      then bindL (emitL (AddInstruction OpcodeNe [tvValue a, Immediate ''0''])) (\<lambda>lhsVal.
           bindL (emitL (AddInstruction OpcodeNe [tvValue b, Immediate ''0''])) (\<lambda>rhsVal.
           bindL (emitL (AddInstruction (binaryOpcode op) [lhsVal, rhsVal])) (\<lambda>v. returnL (typed v ''i32''))))
      else bindL (emitL (AddInstruction (binaryOpcode op) [tvValue a, tvValue b])) (\<lambda>v. returnL (typed v t)))"
    if "\<not> (tvType a = ''void'' \<or> tvType b = ''void'')" "binaryOpcode op \<noteq> OpcodeInvalid" for t
  proof -
    have k: "valueKind (opKind (tvValue a))" "valueKind (opKind (tvValue b))"
      using assms that(1) by (simp_all add: okValue_kind)
    have ne: "OpcodeNe \<in> set binaryOpcodes" by (simp add: binaryOpcodes_def)
    note bin = binaryOpcode_binary [OF that(2)]
    show ?thesis
      by (rule yields_if)
        (rule yields_bind [OF yields_binop [OF ne k(1)]], simp,
         rule yields_bind [OF yields_binop [OF ne k(2)]], simp,
         rule yields_bind [OF yields_binop [OF bin]], simp, simp, rule yields_return, simp,
         rule yields_bind [OF yields_binop [OF bin k]], rule yields_return, simp)
  qed
  show ?thesis
    unfolding emitBinary_def Let_def by (intro yields_guard_then *)
qed

lemma yields_emitUnary: "okValue a \<Longrightarrow> yieldsValue (emitUnary tok op a)"
  unfolding emitUnary_def
  by (intro yields_guard_then)
    (auto intro!: yields_return yields_fail yields_typed operandsOk_unary simp: okValue_kind oneValue_def unaryOpcodes_def)

lemma yields_emitCall:
  assumes "name \<noteq> []" "\<forall>a \<in> set args. valueKind (opKind a)"
  shows "yieldsValue (emitCall name sig args)"
  using straight_call [OF _ assms]
  by (auto simp: emitCall_def Let_def yields_def lower_simps AddCall_appends okValue_def)

lemma yields_expr:
  "yieldsValue (lowerExpr e)"
  "yields (\<lambda>(a, t). valueKind (opKind a) \<and> t \<noteq> ''void'') (lowerAddress e)"
  "''void'' \<notin> set ts \<Longrightarrow> yields (\<lambda>argv. \<forall>a \<in> set argv. valueKind (opKind a)) (lowerArgs tok name i es ts)"
proof -
  have "yieldsValue (lowerExpr e)"
    and "yields (\<lambda>(a, t). valueKind (opKind a) \<and> t \<noteq> ''void'') (lowerAddress e')"
    and "''void'' \<notin> set ts \<longrightarrow> yields (\<lambda>argv. \<forall>a \<in> set argv. valueKind (opKind a)) (lowerArgs tok name i es ts)"
    for e e' tok name i es ts
  proof (induction e and e' and tok name i es ts rule: lowerExpr_lowerAddress_lowerArgs.induct)
    case (1 tok raw)
    show ?case by (auto intro!: yields_typed yields_fail simp: operandsOk_def)
  next
    case (2 tok raw)
    show ?case unfolding lowerExpr.simps
      by (rule yields_bind [OF yields_lift [where P = "\<lambda>_. True"]]) (auto intro!: yields_typed simp: operandsOk_def)
  next
    case (3 tok name)
    show ?case unfolding lowerExpr.simps
      by (rule yields_bind [OF yields_lookup]) (auto intro!: yields_typed simp: operandsOk_def binaryOpcodes_def unaryOpcodes_def)
  next
    case (4 tok op operand)
    have "yieldsValue (bindL (lowerExpr operand) (\<lambda>ptr. bindL (dereferenced tok ptr) (\<lambda>elemType.
        bindL (loadAddress (tvValue ptr)) (\<lambda>v. returnL (typed v elemType)))))" if "op = TokenStar"
      by (rule yields_bind [OF 4(1) [OF that]], rule yields_bind [OF yields_dereferenced],
        rule yields_bind [OF yields_loadAddress]) (auto intro: yields_return simp: okValue_kind)
    moreover have "yieldsValue (bindL (lowerAddress operand) (\<lambda>(addr, elemType). returnL (typed addr (pointerTo elemType))))"
      if "op \<noteq> TokenStar" "op = TokenAmp"
      by (rule yields_bind [OF 4(2) [OF that]]) (auto intro: yields_return)
    moreover have "yieldsValue (bindL (lowerExpr operand) (\<lambda>v. emitUnary tok op v))"
      if "op \<noteq> TokenStar" "op \<noteq> TokenAmp"
      by (rule yields_bind [OF 4(3) [OF that]]) (auto intro: yields_emitUnary)
    ultimately show ?case by (simp only: lowerExpr.simps if_split) simp
  next
    case (5 tok op lhs rhs)
    show ?case unfolding lowerExpr.simps
      by (rule yields_bind [OF 5(1)], rule yields_bind [OF 5(2)]) (auto intro: yields_emitBinary)
  next
    case (6 tok lhs rhs)
    show ?case unfolding lowerExpr.simps
      by (rule yields_bind [OF 6(1)])
        (auto intro!: yields_bind [OF 6(2)] yields_guard_then yields_then [OF yields_storeAddress] yields_return
          intro: okValue_kind)
  next
    case (7 tok callee args)
    show ?case
    proof (cases callee)
      case (IdentifierExpression ct name)
      show ?thesis unfolding IdentifierExpression lowerExpr.simps expr.case
        by (rule yields_bind [OF yields_callee], rule yields_bind [OF 7 [OF IdentifierExpression, rule_format]])
          (auto intro: yields_emitCall)
    qed (simp_all add: yields_fail)
  next
    case (8 tok name)
    show ?case unfolding lowerAddress.simps by (rule yields_bind [OF yields_lookup]) (auto intro: yields_return)
  next
    case (9 tok op operand)
    have "yields (\<lambda>(a, t). valueKind (opKind a) \<and> t \<noteq> ''void'')
      (bindL (lowerExpr operand) (\<lambda>ptr. bindL (dereferenced tok ptr) (\<lambda>elemType. returnL (tvValue ptr, elemType))))"
      if "\<not> op \<noteq> TokenStar"
      by (rule yields_bind [OF 9 [OF that]], rule yields_bind [OF yields_dereferenced])
        (auto intro: yields_return simp: okValue_kind)
    then show ?case by (simp add: yields_fail)
  next
    case (11 tok name i e es expected ts)
    show ?case unfolding lowerArgs.simps
      by (intro impI, rule yields_bind [OF 11(1)], rule yields_guard_then, rule yields_bind [OF 11(2) [rule_format]])
        (auto intro!: yields_return simp: okValue_def)
  qed (simp_all add: yields_fail yields_return)
  then show "yieldsValue (lowerExpr e)" "yields (\<lambda>(a, t). valueKind (opKind a) \<and> t \<noteq> ''void'') (lowerAddress e)"
    "''void'' \<notin> set ts \<Longrightarrow> yields (\<lambda>argv. \<forall>a \<in> set argv. valueKind (opKind a)) (lowerArgs tok name i es ts)"
    by blast+
qed


section \<open>Statements\<close>

text \<open>\<open>lowered r l l'\<close>: a statement was lowered from \<open>l\<close> to \<open>l'\<close>. Its jumps stay among its own
  labels, which are new, and if it does not fall through it ends in a terminator.\<close>

definition ended :: "lowerer \<Rightarrow> lowerer \<Rightarrow> bool" where
  "ended l l' \<longleftrightarrow> length (codeOf l) < length (codeOf l') \<and> isTerminator (last (codeOf l'))"

definition lowered :: "bool \<Rightarrow> lowerer \<Rightarrow> lowerer \<Rightarrow> bool" where
  "lowered r l l' \<longleftrightarrow> (\<exists>ids. emits ids (set ids) l l' \<and> distinct ids
     \<and> set ids \<subseteq> {lwNextLabelID l..<lwNextLabelID l'}) \<and> (\<not> r \<longrightarrow> ended l l')"

lemma loweredE:
  assumes "lowered r l l'"
  obtains ids where "emits ids (set ids) l l'" "distinct ids" "set ids \<subseteq> {lwNextLabelID l..<lwNextLabelID l'}"
  using assms by (auto simp: lowered_def)

lemma loweredI:
  "emits ids (set ids) l l' \<Longrightarrow> distinct ids \<Longrightarrow> set ids \<subseteq> {lwNextLabelID l..<lwNextLabelID l'}
    \<Longrightarrow> (\<not> r \<Longrightarrow> ended l l') \<Longrightarrow> lowered r l l'"
  by (auto simp: lowered_def)

lemma emits_next: "emits ids T l l' \<Longrightarrow> lwNextLabelID l \<le> lwNextLabelID l'"
  by (simp add: emits_def frame_def)

lemma emits_length: "emits ids T l l' \<Longrightarrow> length (codeOf l) \<le> length (codeOf l')"
  by (auto simp: emits_def)

lemma lowered_okL: "lowered r l l' \<Longrightarrow> okL l'"
  by (auto simp: lowered_def dest: emits_okL)

lemma lowered_emits_nothing: "emits [] {} l l' \<Longrightarrow> lowered True l l'"
  by (auto intro: loweredI [of "[]"])

lemma straight_lowered: "straight l l' \<Longrightarrow> lowered True l l'"
  by (simp add: straight_def lowered_emits_nothing)

lemma silent_lowered: "frame l l' \<Longrightarrow> lwFn l' = lwFn l \<Longrightarrow> lowered True l l'"
  by (intro lowered_emits_nothing emits_silent)

lemma straight_emits: "straight l l' \<Longrightarrow> emits [] T l l'"
  by (auto simp: straight_def intro: emits_mono)

lemma lowered_trans:
  assumes "lowered True l l'" "lowered r l' l''"
  shows "lowered r l l''"
proof -
  obtain ids where 1: "emits ids (set ids) l l'" "distinct ids" "set ids \<subseteq> {lwNextLabelID l..<lwNextLabelID l'}"
    using assms(1) by (rule loweredE)
  obtain ids' where 2: "emits ids' (set ids') l' l''" "distinct ids'" "set ids' \<subseteq> {lwNextLabelID l'..<lwNextLabelID l''}"
    using assms(2) by (rule loweredE)
  have "emits (ids @ ids') (set (ids @ ids')) l l''"
    by (rule emits_trans [OF emits_mono [OF 1(1)] emits_mono [OF 2(1)]]) auto
  moreover have "distinct (ids @ ids')" using 1(2,3) 2(2,3) by fastforce
  moreover have "set (ids @ ids') \<subseteq> {lwNextLabelID l..<lwNextLabelID l''}"
    using 1(3) 2(3) emits_next [OF 1(1)] emits_next [OF 2(1)] by fastforce
  moreover have "\<not> r \<Longrightarrow> ended l l''"
    using assms(2) emits_length [OF 1(1)] by (auto simp: lowered_def ended_def)
  ultimately show ?thesis by (rule loweredI)
qed

lemma lowered_scoped:
  assumes "okL l" "lowered r (pushScope l) l'"
  shows "lowered r l (popScope l')"
  using assms frame_scoped [of l l'] by (auto simp: lowered_def emits_def ended_def)

text \<open>The control instructions, as steps of the monad.\<close>

lemma emits_label:
  "execL (AddLabel (labelText n)) l = Inr (u, l') \<Longrightarrow> okL l \<Longrightarrow> emits [n] T l l'"
  unfolding execL_eq_Inr by (simp, rule emits_emit) (simp_all add: codeOver_control AddLabel_def emit_def)

lemma emits_jmp:
  "execL (AddJmp (labelText n)) l = Inr (u, l') \<Longrightarrow> okL l \<Longrightarrow> n \<in> T \<Longrightarrow> emits [] T l l'"
  unfolding execL_eq_Inr by (simp, rule emits_emit) (simp_all add: codeOver_control AddJmp_def emit_def)

lemma emits_br:
  "execL (AddBr c (labelText m) (labelText n)) l = Inr (u, l') \<Longrightarrow> okL l \<Longrightarrow> valueKind (opKind c) \<Longrightarrow> m \<in> T \<Longrightarrow> n \<in> T
    \<Longrightarrow> emits [] T l l'"
  unfolding execL_eq_Inr
  by (simp, rule emits_emit) (auto simp: AddBr_def emit_def intro!: codeOver_control)

lemma emits_when:
  "whenL b m l = Inr (u, l') \<Longrightarrow> okL l \<Longrightarrow> (b \<Longrightarrow> m l = Inr (u, l') \<Longrightarrow> emits [] T l l') \<Longrightarrow> emits [] T l l'"
  by (auto simp: whenL_eq_Inr intro: emits_silent frame_refl split: if_splits)

lemma lowered_ret: "execL (AddRet v) l = Inr (u, l') \<Longrightarrow> okL l \<Longrightarrow> lowered False l l'"
  unfolding execL_eq_Inr
  by (simp, rule loweredI [of "[]"], rule emits_emit)
    (simp_all add: codeOver_control AddRet_def emit_def ended_def isTerminator_def)

lemma ended_jmp: "execL (AddJmp lab) l = Inr (u, l') \<Longrightarrow> ended l l'"
  by (simp add: execL_eq_Inr ended_def AddJmp_def emit_def isTerminator_def)

lemma ended_prefix: "ended l' l'' \<Longrightarrow> length (codeOf l) \<le> length (codeOf l') \<Longrightarrow> ended l l''"
  by (simp add: ended_def)

text \<open>\<open>lowers m\<close>: from a well-formed state \<open>m\<close> lowers a statement and returns whether it falls through.\<close>

definition lowers :: "bool lower \<Rightarrow> bool" where
  "lowers m \<longleftrightarrow> (\<forall>l r l'. okL l \<longrightarrow> m l = Inr (r, l') \<longrightarrow> lowered r l l')"

lemma lowersD: "lowers m \<Longrightarrow> m l = Inr (r, l') \<Longrightarrow> okL l \<Longrightarrow> lowered r l l'"
  by (simp add: lowers_def)

lemma yieldsD: "yields P m \<Longrightarrow> m l = Inr (x, l') \<Longrightarrow> okL l \<Longrightarrow> straight l l' \<and> P x"
  by (simp add: yields_def)

lemma lowers_scoped: "lowers m \<Longrightarrow> lowers (thenL (modifyL pushScope) (bindL m (\<lambda>r. thenL (modifyL popScope) (returnL r))))"
  by (auto simp: lowers_def lower_simps intro: lowered_scoped okL_pushScope)

lemma lowers_seq: "lowers m \<Longrightarrow> lowers n \<Longrightarrow> lowers (bindL m (\<lambda>r. if r then n else returnL False))"
proof (unfold lowers_def bindL_eq_Inr, intro allI impI, elim exE conjE)
  fix l r l' x l1
  assume *: "\<forall>l r l'. okL l \<longrightarrow> m l = Inr (r, l') \<longrightarrow> lowered r l l'" "\<forall>l r l'. okL l \<longrightarrow> n l = Inr (r, l') \<longrightarrow> lowered r l l'"
    and l: "okL l" and m: "m l = Inr (x, l1)" and n: "(if x then n else returnL False) l1 = Inr (r, l')"
  have "lowered x l l1" using *(1) l m by blast
  then show "lowered r l l'"
    using n *(2) by (cases x) (auto simp: returnL_eq_Inr intro: lowered_trans lowered_okL)
qed

lemma yields_condition: "yields (\<lambda>v. valueKind (opKind v)) (lowerCondition tok what e)"
  unfolding lowerCondition_def
  by (rule yields_bind [OF yields_expr(1)], rule yields_guard_then) (auto intro: yields_return okValue_kind)

lemma lowers_return: "lowers (lowerReturn tok eo)"
proof (cases eo)
  case None
  then show ?thesis by (simp add: lowers_def lowerReturn_def) (auto simp: bindL_eq_Inr thenL_eq_Inr readL_eq_Inr guardL_eq_Inr returnL_eq_Inr intro: lowered_ret)
next
  case (Some e)
  then show ?thesis
    by (simp add: lowers_def lowerReturn_def)
      (auto simp: bindL_eq_Inr thenL_eq_Inr readL_eq_Inr guardL_eq_Inr returnL_eq_Inr
        dest!: yieldsD [OF yields_expr(1)] intro!: lowered_trans [OF straight_lowered lowered_ret] straight_okL)
qed


lemma lowers_declaration: "lowers (thenL (lowerLocalDeclaration decl) (returnL True))"
proof -
  have tail: "yields (\<lambda>_. True) (case declInitializer decl of None \<Rightarrow> returnL ()
      | Some e \<Rightarrow> bindL (lowerExpr e) (\<lambda>v.
          thenL (guardL (tvType v = ty) (err v)) (execL (AddVoidInstruction OpcodeStore [slot, tvValue v]))))"
    if "ty \<noteq> ''void''" "opKind slot = OperandStackSlotPointer" for ty slot err
    using that
    by (cases "declInitializer decl")
      (auto intro!: yields_return yields_bind [OF yields_expr(1)] yields_guard_then yields_void dest: okValue_kind
        simp: operandsOk_def binaryOpcodes_def unaryOpcodes_def twoValues_def)
  show ?thesis
  proof (unfold lowers_def, intro allI impI)
    fix l r l'
    assume l: "okL l" and "thenL (lowerLocalDeclaration decl) (returnL True) l = Inr (r, l')"
    then obtain ty l1 slot l2 l3 where
      ty: "lowerObjectType (declToken decl) (declType decl) = Inr ty"
      and 1: "l1 = setCurrentScope ((currentScope l)(declName decl \<mapsto> \<lparr>symType = ty, symSlot = []\<rparr>)) l"
      and 2: "emitL (AddInstruction OpcodeAlloca [Immediate ty]) l1 = Inr (slot, l2)"
      and 3: "l3 = setLocalSlot (declName decl) (opText slot) l2" and r: "r"
      and 4: "(case declInitializer decl of None \<Rightarrow> returnL ()
      | Some e \<Rightarrow> bindL (lowerExpr e) (\<lambda>v.
          thenL (guardL (tvType v = ty) (newError (declToken decl) (MsgInitializerType (declName decl) ty (tvType v))))
            (execL (AddVoidInstruction OpcodeStore [slot, tvValue v])))) l3 = Inr ((), l')"
      by (simp only: lowerLocalDeclaration_def bindL_eq_Inr thenL_eq_Inr liftE_eq_Inr declareLocal_eq_Inr modifyL_eq_Inr
          returnL_eq_Inr) blast
    have t: "ty \<noteq> ''void''" using ty by (rule lowerObjectType_ok)
    have f1: "frame l l1" unfolding 1 using l t by (rule frame_declare)
    have s2: "straight l1 l2" "opKind slot = OperandStackSlotPointer"
      using yieldsD [OF yields_alloca 2 frame_okL [OF f1]] by auto
    have f3: "frame l2 l3" unfolding 3 by (rule frame_setLocalSlot [OF straight_okL [OF s2(1)]])
    have "straight l3 l'" using yieldsD [OF tail [OF t s2(2)] 4 frame_okL [OF f3]] by blast
    then have "lowered True l3 l'" by (rule straight_lowered)
    moreover have "lowered True l2 l3" by (rule silent_lowered [OF f3]) (simp add: 3)
    moreover have "lowered True l l1" by (rule silent_lowered [OF f1]) (simp add: 1)
    ultimately show "lowered r l l'" using r straight_lowered [OF s2(1)] by (auto intro: lowered_trans)
  qed
qed

lemma newLabelD:
  assumes "newLabel l = Inr (lab, l')" "okL l"
  shows "lab = labelText (lwNextLabelID l)" "lwNextLabelID l' = Suc (lwNextLabelID l)" "okL l'" "emits [] T l l'"
proof -
  have f: "frame l (l\<lparr>lwNextLabelID := lwNextLabelID l + 1\<rparr>)" using assms(2) by (rule frame_newLabel)
  show "lab = labelText (lwNextLabelID l)" "lwNextLabelID l' = Suc (lwNextLabelID l)" "okL l'" "emits [] T l l'"
    using assms(1) f frame_okL [OF f] by (auto simp: newLabel_eq_Inr intro: emits_silent)
qed

text \<open>The lowered code of a branch, followed by a jump to \<open>n\<close> if it falls through.\<close>

lemma lowered_then_jmp:
  assumes "lowered b l l1" "whenL b (execL (AddJmp (labelText n))) l1 = Inr ((), l')"
  obtains ids where "\<forall>T. (b \<longrightarrow> n \<in> T) \<longrightarrow> set ids \<subseteq> T \<longrightarrow> emits ids T l l'" "distinct ids"
    "set ids \<subseteq> {lwNextLabelID l..<lwNextLabelID l'}" "ended l l'" "okL l'" "lwNextLabelID l \<le> lwNextLabelID l'"
proof -
  obtain ids where i: "emits ids (set ids) l l1" "distinct ids" "set ids \<subseteq> {lwNextLabelID l..<lwNextLabelID l1}"
    using assms(1) by (rule loweredE)
  have w: "emits [] T l1 l'" if "b \<Longrightarrow> n \<in> T" for T
    by (rule emits_when [OF assms(2) emits_okL [OF i(1)]]) (rule emits_jmp [OF _ emits_okL [OF i(1)] that])
  note w' = w [of "{n}", simplified]
  have e: "ended l l'"
  proof (cases b)
    case True
    with assms(2) have "ended l1 l'" by (simp add: whenL_def ended_jmp)
    then show ?thesis using emits_length [OF i(1)] by (rule ended_prefix)
  next
    case False
    with assms show ?thesis by (simp add: lowered_def whenL_def returnL_eq_Inr)
  qed
  have m: "emits ids T l l'" if "b \<Longrightarrow> n \<in> T" "set ids \<subseteq> T" for T
    using emits_trans [OF emits_mono [OF i(1) that(2)] w [OF that(1)]] by simp
  have nx: "lwNextLabelID l1 \<le> lwNextLabelID l'" by (rule emits_next [OF w'])
  show thesis
    by (rule that [of ids]) (use m i e nx emits_okL [OF w'] emits_next [OF i(1)] in auto)
qed

lemma lowers_if:
  assumes t: "lowers t" and e: "\<And>m. eo = Some m \<Longrightarrow> lowers m"
  shows "lowers (lowerIfStatement tok c t eo)"
proof (unfold lowers_def, intro allI impI)
  fix l r l'
  assume l: "okL l" and run: "lowerIfStatement tok c t eo l = Inr (r, l')"
  obtain cond l1 lab1 l2 lab2 l3 where
    c: "lowerCondition tok ''if condition'' c l = Inr (cond, l1)" and
    n1: "newLabel l1 = Inr (lab1, l2)" and n2: "newLabel l2 = Inr (lab2, l3)"
    using run by (simp only: lowerIfStatement_def bindL_eq_Inr) blast
  have c': "straight l l1" "valueKind (opKind cond)" using yieldsD [OF yields_condition c l] by auto
  let ?n = "lwNextLabelID l"
  have n: "lwNextLabelID l1 = ?n" using c'(1) by (simp add: straight_def)
  note lab1 = newLabelD [OF n1 straight_okL [OF c'(1)], unfolded n]
  note lab2 = newLabelD [OF n2 lab1(3), unfolded lab1(2)]
  have s: "emits [] T l l3" for T
    using emits_trans [OF emits_trans [OF straight_emits [OF c'(1)] lab1(4)] lab2(4)] by simp
  show "lowered r l l'"
  proof (cases eo)
    case None
    obtain l4 l5 rt l6 l7 where
      br: "execL (AddBr cond (labelText ?n) (labelText (Suc ?n))) l3 = Inr ((), l4)" and
      lb: "execL (AddLabel (labelText ?n)) l4 = Inr ((), l5)" and
      th: "t l5 = Inr (rt, l6)" and
      jm: "whenL rt (execL (AddJmp (labelText (Suc ?n)))) l6 = Inr ((), l7)" and
      le: "execL (AddLabel (labelText (Suc ?n))) l7 = Inr ((), l')" and r: "r"
      using run c n1 n2 lab1(1) lab2(1) None
      by (simp only: lowerIfStatement_def bindL_eq_Inr thenL_eq_Inr returnL_eq_Inr option.case) auto
    have nx: "lwNextLabelID l5 = Suc (Suc ?n)" "lwNextLabelID l' = lwNextLabelID l7" using br lb le lab2(2)
      by (simp_all add: execL_eq_Inr)
    have "okL l4" using br lab2(3) by (simp add: execL_eq_Inr okL_update)
    note e2 = emits_label [OF lb this]
    have "lowered rt l5 l6" using lowersD [OF t th] emits_okL [OF e2] by blast
    then obtain ids where ids: "\<forall>T. (rt \<longrightarrow> Suc ?n \<in> T) \<longrightarrow> set ids \<subseteq> T \<longrightarrow> emits ids T l5 l7" "distinct ids"
      "set ids \<subseteq> {lwNextLabelID l5..<lwNextLabelID l7}" "ended l5 l7" "okL l7" "lwNextLabelID l5 \<le> lwNextLabelID l7"
      using jm by (rule lowered_then_jmp)
    let ?I = "?n # ids @ [Suc ?n]"
    have "emits ([] @ [] @ [?n] @ ids @ [Suc ?n]) (set ?I) l l'"
      by (rule emits_trans [OF s emits_trans [OF emits_br [OF br lab2(3) c'(2)] emits_trans [OF e2
            emits_trans [OF ids(1) [rule_format] emits_label [OF le ids(5)]]]]]) auto
    moreover have "distinct ?I" "set ?I \<subseteq> {?n..<lwNextLabelID l'}"
      using ids(2,3,6) nx by auto
    ultimately show ?thesis using r by (intro loweredI [of ?I]) simp_all
  next
    case (Some e')
    obtain lab3 l4 where n3: "newLabel l3 = Inr (lab3, l4)"
      using run c n1 n2 Some by (simp only: lowerIfStatement_def bindL_eq_Inr option.case) auto
    note lab3 = newLabelD [OF n3 lab2(3), unfolded lab2(2)]
    obtain l5 l6 rt l7 l8 l9 re l10 l11 where
      br: "execL (AddBr cond (labelText ?n) (labelText (Suc (Suc ?n)))) l4 = Inr ((), l5)" and
      lb: "execL (AddLabel (labelText ?n)) l5 = Inr ((), l6)" and
      th: "t l6 = Inr (rt, l7)" and
      jt: "whenL rt (execL (AddJmp (labelText (Suc ?n)))) l7 = Inr ((), l8)" and
      lb2: "execL (AddLabel (labelText (Suc (Suc ?n)))) l8 = Inr ((), l9)" and
      el: "e' l9 = Inr (re, l10)" and
      je: "whenL re (execL (AddJmp (labelText (Suc ?n)))) l10 = Inr ((), l11)" and
      le: "whenL (rt \<or> re) (execL (AddLabel (labelText (Suc ?n)))) l11 = Inr ((), l')" and r: "r = (rt \<or> re)"
      using run c n1 n2 n3 lab1(1) lab2(1) lab3(1) Some
      by (simp only: lowerIfStatement_def bindL_eq_Inr thenL_eq_Inr returnL_eq_Inr option.case) (auto del: iffI iffCE)
    have "okL l5" using br lab3(3) by (simp add: execL_eq_Inr okL_update)
    note e2 = emits_label [OF lb this]
    have "lowered rt l6 l7" using lowersD [OF t th] emits_okL [OF e2] by blast
    then obtain ids where ids: "\<forall>T. (rt \<longrightarrow> Suc ?n \<in> T) \<longrightarrow> set ids \<subseteq> T \<longrightarrow> emits ids T l6 l8" "distinct ids"
      "set ids \<subseteq> {lwNextLabelID l6..<lwNextLabelID l8}" "ended l6 l8" "okL l8" "lwNextLabelID l6 \<le> lwNextLabelID l8"
      using jt by (rule lowered_then_jmp)
    note e3 = emits_label [OF lb2 ids(5)]
    have "lowered re l9 l10" using lowersD [OF e [OF Some] el] emits_okL [OF e3] by blast
    then obtain ids' where ids': "\<forall>T. (re \<longrightarrow> Suc ?n \<in> T) \<longrightarrow> set ids' \<subseteq> T \<longrightarrow> emits ids' T l9 l11" "distinct ids'"
      "set ids' \<subseteq> {lwNextLabelID l9..<lwNextLabelID l11}" "ended l9 l11" "okL l11" "lwNextLabelID l9 \<le> lwNextLabelID l11"
      using je by (rule lowered_then_jmp)
    have nx: "lwNextLabelID l6 = Suc (Suc (Suc ?n))" "lwNextLabelID l9 = lwNextLabelID l8" "lwNextLabelID l' = lwNextLabelID l11"
      using br lb lb2 le lab3(2) by (auto simp: execL_eq_Inr whenL_eq_Inr split: if_splits)
    let ?E = "if r then [Suc ?n] else []"
    let ?I = "?n # ids @ [Suc (Suc ?n)] @ ids' @ ?E"
    have e4: "emits ?E T l11 l'" for T
    proof (cases r)
      case True
      then show ?thesis using le r emits_label [OF _ ids'(5)] by (simp add: whenL_def)
    next
      case False
      then show ?thesis using le r emits_silent [OF frame_refl [OF ids'(5)]] by (simp add: whenL_def returnL_eq_Inr)
    qed
    have "emits ([] @ [] @ [] @ [?n] @ ids @ [Suc (Suc ?n)] @ ids' @ ?E) (set ?I) l l'"
      by (rule emits_trans [OF s emits_trans [OF lab3(4) emits_trans [OF emits_br [OF br lab3(3) c'(2)] emits_trans [OF e2
            emits_trans [OF ids(1) [rule_format] emits_trans [OF e3 emits_trans [OF ids'(1) [rule_format] e4]]]]]]]) (use r in auto)
    moreover have "set ids \<inter> set ids' = {}" using ids(3) ids'(3) nx by fastforce
    then have "distinct ?I" "set ?I \<subseteq> {?n..<lwNextLabelID l'}"
      using ids(2,3,6) ids'(2,3,6) nx by auto
    moreover have "ended l l'" if "\<not> r"
      using that le r ids'(4) emits_length [OF s [of UNIV]] emits_length [OF lab3(4) [of UNIV]] emits_length [OF e2 [of UNIV]]
        emits_length [OF ids(1) [rule_format, of UNIV]] emits_length [OF e3 [of UNIV]] br
      by (simp add: whenL_def returnL_eq_Inr ended_def execL_eq_Inr AddBr_def emit_def)
    ultimately show ?thesis by (intro loweredI [of ?I]) simp_all
  qed
qed


lemma lowers_while:
  assumes b: "lowers body"
  shows "lowers (lowerWhileStatement tok c body)"
proof (unfold lowers_def, intro allI impI)
  fix l r l'
  assume l: "okL l" and run: "lowerWhileStatement tok c body l = Inr (r, l')"
  let ?n = "lwNextLabelID l"
  obtain lab1 l1 lab2 l2 lab3 l3 where
    n1: "newLabel l = Inr (lab1, l1)" and n2: "newLabel l1 = Inr (lab2, l2)" and n3: "newLabel l2 = Inr (lab3, l3)"
    using run by (simp only: lowerWhileStatement_def bindL_eq_Inr) blast
  note lab1 = newLabelD [OF n1 l]
  note lab2 = newLabelD [OF n2 lab1(3), unfolded lab1(2)]
  note lab3 = newLabelD [OF n3 lab2(3), unfolded lab2(2)]
  obtain l4 l5 cond l6 l7 l8 rb l9 l10 where
    jc: "execL (AddJmp (labelText ?n)) l3 = Inr ((), l4)" and
    lc: "execL (AddLabel (labelText ?n)) l4 = Inr ((), l5)" and
    c: "lowerCondition tok ''while condition'' c l5 = Inr (cond, l6)" and
    br: "execL (AddBr cond (labelText (Suc ?n)) (labelText (Suc (Suc ?n)))) l6 = Inr ((), l7)" and
    lb: "execL (AddLabel (labelText (Suc ?n))) l7 = Inr ((), l8)" and
    bd: "body l8 = Inr (rb, l9)" and
    jm: "whenL rb (execL (AddJmp (labelText ?n))) l9 = Inr ((), l10)" and
    le: "execL (AddLabel (labelText (Suc (Suc ?n)))) l10 = Inr ((), l')" and r: "r"
    using run n1 n2 n3 lab1(1) lab2(1) lab3(1)
    by (simp only: lowerWhileStatement_def bindL_eq_Inr thenL_eq_Inr returnL_eq_Inr) (auto del: iffI iffCE)
  have "okL l4" using jc lab3(3) by (simp add: execL_eq_Inr okL_update)
  note e1 = emits_label [OF lc this]
  have c': "straight l5 l6" "valueKind (opKind cond)" using yieldsD [OF yields_condition c emits_okL [OF e1]] by auto
  have "okL l7" using br straight_okL [OF c'(1)] by (simp add: execL_eq_Inr okL_update)
  note e2 = emits_label [OF lb this]
  have "lowered rb l8 l9" using lowersD [OF b bd] emits_okL [OF e2] by blast
  then obtain ids where ids: "\<forall>T. (rb \<longrightarrow> ?n \<in> T) \<longrightarrow> set ids \<subseteq> T \<longrightarrow> emits ids T l8 l10" "distinct ids"
    "set ids \<subseteq> {lwNextLabelID l8..<lwNextLabelID l10}" "ended l8 l10" "okL l10" "lwNextLabelID l8 \<le> lwNextLabelID l10"
    using jm by (rule lowered_then_jmp)
  have nx: "lwNextLabelID l8 = Suc (Suc (Suc ?n))" "lwNextLabelID l' = lwNextLabelID l10"
    using jc lc br lb le c'(1) lab3(2) by (auto simp: execL_eq_Inr straight_def)
  let ?I = "?n # Suc ?n # ids @ [Suc (Suc ?n)]"
  have s: "emits [] T l l3" for T
    using emits_trans [OF emits_trans [OF lab1(4) lab2(4)] lab3(4)] by simp
  have "emits ([] @ [] @ [?n] @ [] @ [] @ [Suc ?n] @ ids @ [Suc (Suc ?n)]) (set ?I) l l'"
    by (rule emits_trans [OF s emits_trans [OF emits_jmp [OF jc lab3(3)] emits_trans [OF e1 emits_trans [OF
          straight_emits [OF c'(1)] emits_trans [OF emits_br [OF br straight_okL [OF c'(1)] c'(2)] emits_trans [OF e2
          emits_trans [OF ids(1) [rule_format] emits_label [OF le ids(5)]]]]]]]]) auto
  moreover have "distinct ?I" "set ?I \<subseteq> {?n..<lwNextLabelID l'}" using ids(2,3,6) nx by auto
  ultimately show "lowered r l l'" using r by (intro loweredI [of ?I]) simp_all
qed


lemma emits_for_condition:
  assumes "(case c of None \<Rightarrow> execL (AddJmp (labelText m))
            | Some e \<Rightarrow> bindL (lowerCondition tok what e) (\<lambda>cond. execL (AddBr cond (labelText m) (labelText n)))) l = Inr ((), l')"
    and "okL l" "m \<in> T" "n \<in> T"
  shows "emits [] T l l'" "lwNextLabelID l' = lwNextLabelID l"
proof -
  have "emits [] T l l' \<and> lwNextLabelID l' = lwNextLabelID l"
  proof (cases c)
    case None
    then show ?thesis using assms emits_jmp [of m l "()" l' T] by (simp add: execL_eq_Inr)
  next
    case (Some e)
    then obtain cond l1 where
      1: "lowerCondition tok what e l = Inr (cond, l1)" and 2: "execL (AddBr cond (labelText m) (labelText n)) l1 = Inr ((), l')"
      using assms(1) by (auto simp: bindL_eq_Inr)
    have s: "straight l l1" "valueKind (opKind cond)" using yieldsD [OF yields_condition 1 assms(2)] by auto
    have "emits ([] @ []) T l l'"
      by (rule emits_trans [OF straight_emits [OF s(1)] emits_br [OF 2 straight_okL [OF s(1)] s(2) assms(3,4)]])
    then show ?thesis using s(1) 2 by (simp add: straight_def execL_eq_Inr)
  qed
  then show "emits [] T l l'" "lwNextLabelID l' = lwNextLabelID l" by auto
qed

lemma straight_post:
  assumes "(case post of None \<Rightarrow> returnL () | Some e \<Rightarrow> whenL b (bindL (lowerExpr e) (\<lambda>_. returnL ()))) l = Inr ((), l')"
    and "okL l"
  shows "straight l l'"
  using assms
  by (auto simp: returnL_eq_Inr whenL_eq_Inr bindL_eq_Inr dest: yieldsD [OF yields_expr(1)] intro: straight_refl
      split: option.splits if_splits)

text \<open>The loop of a \<open>for\<close> statement, after its initialiser: \<open>n\<close> is the number of its first label.\<close>

lemma lowered_for_loop:
  assumes l: "okL l" and n: "lwNextLabelID l = Suc (Suc (Suc (Suc n)))"
    and b: "lowers body"
    and jc: "execL (AddJmp (labelText n)) l = Inr ((), l1)"
    and lc: "execL (AddLabel (labelText n)) l1 = Inr ((), l2)"
    and c: "(case c of None \<Rightarrow> execL (AddJmp (labelText (Suc n)))
             | Some e \<Rightarrow> bindL (lowerCondition tok what e)
                 (\<lambda>cond. execL (AddBr cond (labelText (Suc n)) (labelText (Suc (Suc (Suc n))))))) l2 = Inr ((), l3)"
    and lb: "execL (AddLabel (labelText (Suc n))) l3 = Inr ((), l4)"
    and bd: "body l4 = Inr (rb, l5)"
    and jm: "whenL rb (execL (AddJmp (labelText (Suc (Suc n))))) l5 = Inr ((), l6)"
    and lp: "execL (AddLabel (labelText (Suc (Suc n)))) l6 = Inr ((), l7)"
    and post: "(case post of None \<Rightarrow> returnL () | Some e \<Rightarrow> whenL rb (bindL (lowerExpr e) (\<lambda>_. returnL ()))) l7 = Inr ((), l8)"
    and jp: "whenL rb (execL (AddJmp (labelText n))) l8 = Inr ((), l9)"
    and le: "execL (AddLabel (labelText (Suc (Suc (Suc n))))) l9 = Inr ((), l')"
  shows "\<exists>ids. emits ids (set ids) l l' \<and> distinct ids \<and> set ids \<subseteq> {n..<lwNextLabelID l'}"
proof -
  have "okL l1" using jc l by (simp add: execL_eq_Inr okL_update)
  note e1 = emits_label [OF lc this]
  note e2 = emits_for_condition [OF c emits_okL [OF e1]]
  note e3 = emits_label [OF lb emits_okL [OF e2(1) [where T = UNIV, simplified]]]
  have "lowered rb l4 l5" using lowersD [OF b bd] emits_okL [OF e3] by blast
  then obtain ids where ids: "\<forall>T. (rb \<longrightarrow> Suc (Suc n) \<in> T) \<longrightarrow> set ids \<subseteq> T \<longrightarrow> emits ids T l4 l6" "distinct ids"
    "set ids \<subseteq> {lwNextLabelID l4..<lwNextLabelID l6}" "ended l4 l6" "okL l6" "lwNextLabelID l4 \<le> lwNextLabelID l6"
    using jm by (rule lowered_then_jmp)
  note e4 = emits_label [OF lp ids(5)]
  note e5 = straight_post [OF post emits_okL [OF e4]]
  note e6 = emits_when [OF jp straight_okL [OF e5] emits_jmp [OF _ straight_okL [OF e5]]]
  note e7 = emits_label [OF le emits_okL [OF e6 [where T = UNIV, simplified]]]
  have "lwNextLabelID l9 = lwNextLabelID l8" using jp by (auto simp: whenL_eq_Inr execL_eq_Inr split: if_splits)
  then have nx: "lwNextLabelID l4 = Suc (Suc (Suc (Suc n)))" "lwNextLabelID l' = lwNextLabelID l6"
    using jc lc lb lp le e5 n e2(2) [where T = UNIV] by (auto simp: execL_eq_Inr straight_def)
  let ?I = "[n] @ [] @ [Suc n] @ ids @ [Suc (Suc n)] @ [] @ [] @ [Suc (Suc (Suc n))]"
  have "emits ([] @ ?I) (set ?I) l l'"
    by (rule emits_trans [OF emits_jmp [OF jc l] emits_trans [OF e1 emits_trans [OF e2(1) emits_trans [OF e3 emits_trans [OF
          ids(1) [rule_format] emits_trans [OF e4 emits_trans [OF straight_emits [OF e5] emits_trans [OF e6 e7]]]]]]]]) auto
  moreover have "distinct ?I" "set ?I \<subseteq> {n..<lwNextLabelID l'}" using ids(2,3,6) nx by auto
  ultimately show ?thesis by (intro exI [of _ ?I]) simp
qed


lemma bindL_run: "m l = Inr (x, l') \<Longrightarrow> bindL m f l = f x l'"
  by (simp add: bindL_def)

lemma thenL_modify: "thenL (modifyL g) n l = n (g l)"
  by (simp add: thenL_def bindL_def modifyL_def)

lemma lowers_for:
  assumes i: "\<And>s. init' = Some s \<Longrightarrow> lowers s" and b: "lowers body"
  shows "lowers (lowerForStatement tok init' c post body)"
proof (unfold lowers_def, intro allI impI)
  fix l r l'
  assume l: "okL l" and run: "lowerForStatement tok init' c post body l = Inr (r, l')"
  let ?I = "case init' of None \<Rightarrow> returnL True | Some s \<Rightarrow> s"
  obtain ri l0 where i0: "?I (pushScope l) = Inr (ri, l0)"
    using run by (simp only: lowerForStatement_def bindL_eq_Inr thenL_eq_Inr modifyL_eq_Inr) blast
  have li: "lowered ri (pushScope l) l0"
  proof (cases init')
    case None
    then show ?thesis using i0 okL_pushScope [OF l] by (auto simp: returnL_eq_Inr intro: silent_lowered frame_refl)
  next
    case (Some s)
    then show ?thesis using i0 lowersD [OF i [OF Some]] okL_pushScope [OF l] by simp
  qed
  note l0 = lowered_okL [OF li]
  show "lowered r l l'"
  proof (cases ri)
    case False
    then have "r = False" "l' = popScope l0"
      using run i0 by (auto simp: lowerForStatement_def bindL_eq_Inr thenL_eq_Inr modifyL_eq_Inr returnL_eq_Inr)
    then show ?thesis using lowered_scoped [OF l li] False by simp
  next
    case True
    let ?n = "lwNextLabelID l0"
    obtain lab1 m1 lab2 m2 lab3 m3 lab4 m4 where
      n1: "newLabel l0 = Inr (lab1, m1)" and n2: "newLabel m1 = Inr (lab2, m2)" and
      n3: "newLabel m2 = Inr (lab3, m3)" and n4: "newLabel m3 = Inr (lab4, m4)"
      using run True by (simp add: lowerForStatement_def thenL_modify bindL_run [where m = ?I, OF i0]) (simp add: bindL_eq_Inr, blast)
    note lab1 = newLabelD [OF n1 l0]
    note lab2 = newLabelD [OF n2 lab1(3), unfolded lab1(2)]
    note lab3 = newLabelD [OF n3 lab2(3), unfolded lab2(2)]
    note lab4 = newLabelD [OF n4 lab3(3), unfolded lab3(2)]
    obtain l1 l2 l3 l4 rb l5 l6 l7 l8 l9 l10 where
      "execL (AddJmp (labelText ?n)) m4 = Inr ((), l1)" "execL (AddLabel (labelText ?n)) l1 = Inr ((), l2)"
      "(case c of None \<Rightarrow> execL (AddJmp (labelText (Suc ?n)))
        | Some e \<Rightarrow> bindL (lowerCondition tok ''for condition'' e)
            (\<lambda>cond. execL (AddBr cond (labelText (Suc ?n)) (labelText (Suc (Suc (Suc ?n))))))) l2 = Inr ((), l3)"
      "execL (AddLabel (labelText (Suc ?n))) l3 = Inr ((), l4)" "body l4 = Inr (rb, l5)"
      "whenL rb (execL (AddJmp (labelText (Suc (Suc ?n))))) l5 = Inr ((), l6)"
      "execL (AddLabel (labelText (Suc (Suc ?n)))) l6 = Inr ((), l7)"
      "(case post of None \<Rightarrow> returnL () | Some e \<Rightarrow> whenL rb (bindL (lowerExpr e) (\<lambda>_. returnL ()))) l7 = Inr ((), l8)"
      "whenL rb (execL (AddJmp (labelText ?n))) l8 = Inr ((), l9)"
      "execL (AddLabel (labelText (Suc (Suc (Suc ?n))))) l9 = Inr ((), l10)" and r: "r" "l' = popScope l10"
      using run True lab1(1) lab2(1) lab3(1) lab4(1)
      by (simp add: lowerForStatement_def thenL_modify bindL_run [where m = ?I, OF i0] bindL_run [where m = newLabel, OF n1]
          bindL_run [where m = newLabel, OF n2] bindL_run [where m = newLabel, OF n3] bindL_run [where m = newLabel, OF n4])
        (simp only: bindL_eq_Inr thenL_eq_Inr modifyL_eq_Inr returnL_eq_Inr, auto del: iffI iffCE)
    from lowered_for_loop [OF lab4(3,2) b this(1-10)]
    have loop: "\<exists>ids. emits ids (set ids) m4 l10 \<and> distinct ids \<and> set ids \<subseteq> {?n..<lwNextLabelID l10}" .
    have "emits [] T l0 m4" for T
      using emits_trans [OF emits_trans [OF emits_trans [OF lab1(4) lab2(4)] lab3(4)] lab4(4)] by simp
    then have "lowered True l0 l10"
      using loop emits_trans [of "[]" _ l0 m4] by (fastforce simp: lowered_def)
    then show ?thesis using r lowered_scoped [OF l lowered_trans] li True by auto
  qed
qed

lemma lowers_statement: "lowers (lowerStatement s)" "lowers (lowerBlockStatements ss)"
proof -
  have "lowers (lowerStatement s)" and "lowers (lowerBlockStatements ss)" for s ss
  proof (induction s and ss rule: lowerStatement_lowerBlockStatements.induct)
    case (1 tok stmts)
    then show ?case by (simp add: lowers_scoped)
  next
    case (2 tok decl)
    show ?case by (simp add: lowers_declaration)
  next
    case (3 tok eo)
    show ?case
      by (cases eo) (auto simp: lowers_def returnL_eq_Inr bindL_eq_Inr dest: yieldsD [OF yields_expr(1)]
          intro: straight_lowered straight_refl)
  next
    case (4 tok eo)
    show ?case by (simp add: lowers_return)
  next
    case (5 tok c t eo)
    show ?case unfolding lowerStatement.simps by (rule lowers_if [OF 5(1)]) (use 5(2) in \<open>auto split: option.splits\<close>)
  next
    case (6 tok c body)
    then show ?case by (simp add: lowers_while)
  next
    case (7 tok init' c post body)
    show ?case unfolding lowerStatement.simps by (rule lowers_for [OF _ 7(2)]) (use 7(1) in \<open>auto split: option.splits\<close>)
  next
    case 8
    show ?case by (auto simp: lowers_def returnL_eq_Inr intro: straight_lowered straight_refl)
  next
    case (9 s ss)
    then show ?case by (simp only: lowerBlockStatements.simps) (intro lowers_seq, blast+)
  qed
  then show "lowers (lowerStatement s)" "lowers (lowerBlockStatements ss)" by auto
qed


section \<open>Functions\<close>

lemma lowered_parameters: "lowerParameters ps l = Inr ((), l') \<Longrightarrow> okL l \<Longrightarrow> lowered True l l'"
proof (induction ps arbitrary: l)
  case Nil
  then show ?case by (auto simp: returnL_eq_Inr intro: straight_lowered straight_refl)
next
  case (Cons p ps)
  obtain ty l1 l2 slot l3 l4 l5 where
    ty: "lowerObjectType (fpToken p) (fpType p) = Inr ty"
    and 1: "l1 = setCurrentScope ((currentScope l)(fpName p \<mapsto> \<lparr>symType = ty, symSlot = []\<rparr>)) l"
    and 2: "l2 = l1\<lparr>lwFn := lwFn l1\<lparr>parameters := parameters (lwFn l1)
               @ [\<lparr>paramName = CHR ''%'' # fpName p, paramType = ty\<rparr>]\<rparr>\<rparr>"
    and 3: "emitL (AddInstruction OpcodeAlloca [Immediate ty]) l2 = Inr (slot, l3)"
    and 4: "l4 = setLocalSlot (fpName p) (opText slot) l3"
    and 5: "execL (AddVoidInstruction OpcodeStore [slot, Param (CHR ''%'' # fpName p)]) l4 = Inr ((), l5)"
    and rest: "lowerParameters ps l5 = Inr ((), l')"
    using Cons.prems(1)
    by (simp only: lowerParameters.simps bindL_eq_Inr thenL_eq_Inr liftE_eq_Inr declareLocal_eq_Inr modifyL_eq_Inr
        execL_eq_Inr [where g = "\<lambda>f. f\<lparr>parameters := X f\<rparr>" for X]) blast
  have f1: "frame l l1" unfolding 1 using Cons.prems(2) lowerObjectType_ok [OF ty] by (rule frame_declare)
  have f2: "frame l l2" using f1 by (simp add: 2 frame_update)
  have "lowered True l l2"
    using f2 by (auto simp: 1 2 emits_def codeOver_Nil intro: lowered_emits_nothing)
  moreover have s3: "straight l2 l3" "opKind slot = OperandStackSlotPointer"
    using yieldsD [OF yields_alloca 3 frame_okL [OF f2]] by auto
  moreover have f4: "frame l3 l4" unfolding 4 by (rule frame_setLocalSlot [OF straight_okL [OF s3(1)]])
  moreover have "lowered True l3 l4" by (rule silent_lowered [OF f4]) (simp add: 4)
  moreover have s5: "straight l4 l5"
    using yieldsD [OF yields_void 5 frame_okL [OF f4]] s3(2)
    by (simp add: operandsOk_def binaryOpcodes_def unaryOpcodes_def twoValues_def)
  ultimately show ?case
    using Cons.IH [OF rest straight_okL [OF s5]] straight_lowered [OF s3(1)] straight_lowered [OF s5]
    by (blast intro: lowered_trans)
qed

lemma lowered_wf:
  assumes "lowered False l l'" "codeOf l = []"
  shows "wfInstructions (codeOf l')"
proof -
  obtain ids where ids: "emits ids (set ids) l l'" "distinct ids" using assms(1) by (auto simp: lowered_def)
  have "codeOver ids (set ids) (codeOf l')" using ids(1) assms(2) by (auto simp: emits_def)
  moreover have "isTerminator (last (codeOf l'))" using assms(1) by (simp add: lowered_def ended_def)
  ultimately show ?thesis using ids(2)
    by (auto simp: wfInstructions_def codeOver_def distinct_map inj_on_def)
qed

lemma lowerFunction_wf:
  assumes "lowerFunction pfn functions = Inr fn" "okSignatures functions"
  shows "wfInstructions (instructions fn)"
proof -
  let ?l = "initialLowerer (fdName pfn) (lowerType (fdReturnType pfn)) functions"
  obtain u l' where run: "lowerBody pfn ?l = Inr (u, l')" and fn: "fn = lwFn l'"
    using assms(1) by (auto simp: lowerFunction_def Let_def bindE_eq_Inr split: if_splits)
  have ok: "okL (pushScope ?l)" using assms(2) by (simp add: okL_def pushScope_def initialLowerer_def okScope_def)
  obtain l1 r l2 l3 where ps: "lowerParameters (fdParameters pfn) (pushScope ?l) = Inr ((), l1)"
    and bd: "lowerBlockStatements (fdBodyStatements pfn) l1 = Inr (r, l2)"
    and fin: "whenL r (if tnSpecifier (fdReturnType pfn) = TypeSpecifierVoid then execL (AddRet zeroOperand)
          else failL (newError (fdToken pfn) (MsgMayReachEnd (fdName pfn)))) l2 = Inr ((), l3)"
    and pop: "l' = popScope l3"
    using run by (auto simp: lowerBody_def thenL_modify bindL_eq_Inr thenL_eq_Inr modifyL_eq_Inr)
  have 1: "lowered True (pushScope ?l) l1" using ps ok by (rule lowered_parameters)
  have 2: "lowered r l1 l2" using lowersD [OF lowers_statement(2) bd] lowered_okL [OF 1] by blast
  have "lowered False (pushScope ?l) l3"
  proof (cases r)
    case True
    then have "execL (AddRet zeroOperand) l2 = Inr ((), l3)" using fin by (auto simp: whenL_def failL_def split: if_splits)
    from lowered_ret [OF this lowered_okL [OF 2]] show ?thesis using 1 2 True by (auto intro: lowered_trans)
  next
    case False
    then show ?thesis using 1 2 fin by (auto simp: whenL_eq_Inr intro: lowered_trans)
  qed
  then have "wfInstructions (codeOf l3)" by (rule lowered_wf) (simp add: initialLowerer_def)
  then show ?thesis by (simp add: fn pop)
qed

section \<open>Modules\<close>

lemma signatureParams_ok: "signatureParams ps seen = Inr ts \<Longrightarrow> ''void'' \<notin> set ts"
  by (induction ps seen arbitrary: ts rule: signatureParams.induct)
    (auto simp: bindE_eq_Inr split: if_splits dest: lowerObjectType_ok)

lemma signature_ok: "signatureForFunction tok ret ps = Inr sig \<Longrightarrow> ''void'' \<notin> set (sigParams sig)"
  by (auto simp: signatureForFunction_def Let_def bindE_eq_Inr split: if_splits dest: signatureParams_ok)

lemma okSignatures_update:
  "okSignatures fs \<Longrightarrow> name \<noteq> [] \<Longrightarrow> ''void'' \<notin> set (sigParams sig) \<Longrightarrow> okSignatures (fs(name \<mapsto> sig))"
  by (auto simp: okSignatures_def)

lemma collectPrototypes_ok:
  "collectPrototypes ps protos = Inr protos' \<Longrightarrow> okSignatures protos \<Longrightarrow> [] \<notin> set (map protoName ps) \<Longrightarrow> okSignatures protos'"
proof (induction ps arbitrary: protos)
  case (Cons p ps)
  then show ?case
    by (auto simp: bindE_eq_Inr split: option.splits if_splits dest!: signature_ok
        intro!: Cons.IH intro: okSignatures_update)
qed auto

lemma collectDefinitions_ok:
  "collectDefinitions fs protos defs = Inr defs' \<Longrightarrow> okSignatures defs \<Longrightarrow> [] \<notin> set (map fdName fs)
    \<Longrightarrow> okSignatures defs' \<and> distinct (map fdName fs) \<and> set (map fdName fs) \<inter> dom defs = {}"
proof (induction fs arbitrary: defs)
  case (Cons pfn pfns)
  then obtain sig where sig: "signatureForFunction (fdToken pfn) (fdReturnType pfn) (fdParameters pfn) = Inr sig"
    and new: "defs (fdName pfn) = None" and rest: "collectDefinitions pfns protos (defs(fdName pfn \<mapsto> sig)) = Inr defs'"
    by (auto simp: bindE_eq_Inr split: option.splits if_splits)
  have "okSignatures (defs(fdName pfn \<mapsto> sig))"
    using Cons.prems(2,3) signature_ok [OF sig] by (intro okSignatures_update) auto
  from Cons.IH [OF rest this] Cons.prems(3) new show ?case by auto
qed auto

lemma Lower_eq_Inr:
  "Lower tu = Inr m \<longleftrightarrow> tuDeclarations tu = [] \<and> (\<exists>protos defs fns.
     collectPrototypes (tuPrototypes tu) Map.empty = Inr protos
     \<and> collectDefinitions (tuFunctions tu) protos Map.empty = Inr defs
     \<and> mapE (\<lambda>pfn. lowerFunction pfn (protos ++ defs)) (tuFunctions tu) = Inr fns \<and> m = \<lparr>modFunctions = fns\<rparr>)"
  by (auto simp: Lower_def bindE_eq_Inr split: list.splits)

lemma lowerFunction_header:
  "lowerFunction pfn functions = Inr fn \<Longrightarrow> fnName fn = ''@'' @ fdName pfn \<and> returnType fn = lowerType (fdReturnType pfn)"
  using header.lowered_keep [of pfn "functions" fn] by (simp add: initialLowerer_def)

lemma lowerFunction_singleDef: "lowerFunction pfn functions = Inr fn \<Longrightarrow> singleDef fn"
  using single.lowered_keep [of pfn "functions" fn] by (simp add: initialLowerer_def singleDef_def)

text \<open>The names the parser gives are not empty; under this a lowered module is valid.\<close>

definition namedUnit :: "translationUnit \<Rightarrow> bool" where
  "namedUnit tu \<longleftrightarrow> [] \<notin> set (map protoName (tuPrototypes tu)) \<and> [] \<notin> set (map fdName (tuFunctions tu))"

lemma Lower_functions:
  assumes "Lower tu = Inr m" "namedUnit tu"
  obtains sigs where "okSignatures sigs" "list_all2 (\<lambda>pfn fn. lowerFunction pfn sigs = Inr fn) (tuFunctions tu) (modFunctions m)"
    "distinct (map fdName (tuFunctions tu))"
proof -
  obtain protos defs fns where p: "collectPrototypes (tuPrototypes tu) Map.empty = Inr protos"
    and d: "collectDefinitions (tuFunctions tu) protos Map.empty = Inr defs"
    and f: "list_all2 (\<lambda>pfn fn. lowerFunction pfn (protos ++ defs) = Inr fn) (tuFunctions tu) fns"
    and m: "m = \<lparr>modFunctions = fns\<rparr>"
    using assms(1) by (auto simp: Lower_eq_Inr mapE_eq_Inr)
  have e: "okSignatures Map.empty" by (simp add: okSignatures_def)
  have "okSignatures protos" using collectPrototypes_ok [OF p e] assms(2) by (auto simp: namedUnit_def)
  moreover have D: "okSignatures defs \<and> distinct (map fdName (tuFunctions tu))"
    using collectDefinitions_ok [OF d e] assms(2) by (auto simp: namedUnit_def)
  ultimately have ok: "okSignatures (protos ++ defs)"
    by (auto simp: okSignatures_def map_add_def split: option.splits)
  show thesis using that [OF ok] f m D by simp
qed

lemma Lower_sound:
  assumes "Lower tu = Inr m" "namedUnit tu"
  shows "validModule m" and "map fnName (modFunctions m) = map (\<lambda>pfn. ''@'' @ fdName pfn) (tuFunctions tu)"
    and "distinct (map fnName (modFunctions m))" and "\<forall>fn \<in> set (modFunctions m). singleDef fn"
proof -
  obtain sigs where ok: "okSignatures sigs"
    and f: "list_all2 (\<lambda>pfn fn. lowerFunction pfn sigs = Inr fn) (tuFunctions tu) (modFunctions m)"
    and D: "distinct (map fdName (tuFunctions tu))"
    using Lower_functions [OF assms] .
  show "validModule m"
    using f by (auto simp: validModule_def validate_iff list_all2_conv_all_nth in_set_conv_nth) (metis lowerFunction_wf ok)
  show n: "map fnName (modFunctions m) = map (\<lambda>pfn. ''@'' @ fdName pfn) (tuFunctions tu)"
    using f by (auto simp: list_all2_conv_all_nth intro!: nth_equalityI dest!: lowerFunction_header)
  show "distinct (map fnName (modFunctions m))"
    using D unfolding n by (auto simp: distinct_map inj_on_def)
  show "\<forall>fn \<in> set (modFunctions m). singleDef fn"
    using f by (auto simp: list_all2_conv_all_nth in_set_conv_nth) (metis lowerFunction_singleDef)
qed


section \<open>Agreement of signatures\<close>

lemma sameSignature_iff: "sameSignature a b \<longleftrightarrow> a = b"
  by (cases a; cases b) (auto simp: sameSignature_def list.rel_eq)

lemma map_le_at: "f \<subseteq>\<^sub>m g \<Longrightarrow> f x = Some y \<Longrightarrow> g x = Some y"
  by (metis domI map_le_def)

lemma collectPrototypes_agree:
  "collectPrototypes ps protos = Inr protos' \<Longrightarrow>
     protos \<subseteq>\<^sub>m protos'
     \<and> (\<forall>p \<in> set ps. \<exists>sig. signatureForFunction (protoToken p) (protoReturnType p) (protoParameters p) = Inr sig
          \<and> protos' (protoName p) = Some sig)"
proof (induction ps arbitrary: protos)
  case (Cons p ps)
  obtain sig where sig: "signatureForFunction (protoToken p) (protoReturnType p) (protoParameters p) = Inr sig"
    using Cons.prems by (auto simp: bindE_eq_Inr)
  show ?case
  proof (cases "protos (protoName p)")
    case None
    then have "collectPrototypes ps (protos(protoName p \<mapsto> sig)) = Inr protos'" using Cons.prems sig by simp
    note IH = Cons.IH [OF this]
    have at: "protos' (protoName p) = Some sig"
      using map_le_at [OF IH [THEN conjunct1], of "protoName p"] by simp
    have "protos \<subseteq>\<^sub>m protos'"
      unfolding map_le_def
    proof
      fix x assume x: "x \<in> dom protos"
      then have "x \<noteq> protoName p" using None by auto
      then show "protos x = protos' x" using map_le_at [OF IH [THEN conjunct1], of x] x by auto
    qed
    then show ?thesis using IH sig at by auto
  next
    case (Some prev)
    then have "collectPrototypes ps protos = Inr protos'" "prev = sig"
      using Cons.prems sig by (auto simp: sameSignature_iff split: if_splits)
    note IH = Cons.IH [OF this(1)]
    have "protos' (protoName p) = Some sig" using map_le_at [OF IH [THEN conjunct1] Some] \<open>prev = sig\<close> by simp
    then show ?thesis using IH sig by auto
  qed
qed simp

lemma collectDefinitions_agree:
  "collectDefinitions fs protos defs = Inr defs' \<Longrightarrow> pfn \<in> set fs \<Longrightarrow>
     \<exists>sig. signatureForFunction (fdToken pfn) (fdReturnType pfn) (fdParameters pfn) = Inr sig
       \<and> (protos (fdName pfn) = None \<or> protos (fdName pfn) = Some sig)"
  by (induction fs arbitrary: defs) (auto simp: bindE_eq_Inr sameSignature_iff split: option.splits if_splits)

lemma Lower_agrees:
  assumes "Lower tu = Inr m" "p \<in> set (tuPrototypes tu)" "pfn \<in> set (tuFunctions tu)" "protoName p = fdName pfn"
  shows "signatureForFunction (protoToken p) (protoReturnType p) (protoParameters p)
    = signatureForFunction (fdToken pfn) (fdReturnType pfn) (fdParameters pfn)"
proof -
  obtain protos defs where "collectPrototypes (tuPrototypes tu) Map.empty = Inr protos"
    and d: "collectDefinitions (tuFunctions tu) protos Map.empty = Inr defs"
    using assms(1) by (auto simp: Lower_eq_Inr)
  then obtain sig where "signatureForFunction (protoToken p) (protoReturnType p) (protoParameters p) = Inr sig"
    "protos (protoName p) = Some sig"
    using collectPrototypes_agree assms(2) by blast
  then show ?thesis using collectDefinitions_agree [OF d assms(3)] assms(4) by auto
qed

end
