(* ===== verification/TacText.thy ===== *)
theory TacText
  imports TacBuilder
begin

text \<open>
  The text format of TAC modules: the writer of \<open>internal/tac/writer.go\<close> and the parser of
  \<open>internal/tac/parser.go\<close>. The writer's sink never fails; the parser reads from a text that is
  completely available, so the only reader error is the end of the input.
\<close>

section \<open>Writer\<close>

definition formatParams :: "parameter list \<Rightarrow> string" where
  "formatParams params = joinStr '', '' (map (\<lambda>p. paramName p @ '':'' @ paramType p) params)"

definition formatCallInstructionOperands :: "instruction \<Rightarrow> string" where
  "formatCallInstructionOperands inst =
     (if callArgs inst = [] then callCallee inst @ ''()''
      else callCallee inst @ ''('' @ joinStr '', '' (map opText (callArgs inst)) @ '')'')"

definition formatOperands :: "operand list \<Rightarrow> string" where
  "formatOperands ops = joinStr '', '' (map opText ops)"

datatype writeError = WriteVerify verifyError | WriteUnsupportedKind instructionKind

definition formatInstruction :: "instruction \<Rightarrow> writeError + string" where
  "formatInstruction inst =
     (case instKind inst of
        InstructionLabel \<Rightarrow> Inr (instLabel inst @ '':'')
      | InstructionJmp \<Rightarrow> Inr (''jmp '' @ opText (trueLabel inst))
      | InstructionBr \<Rightarrow>
          Inr (''br '' @ opText (condition inst) @ '', '' @ opText (trueLabel inst) @ '', '' @ opText (falseLabel inst))
      | InstructionRet \<Rightarrow> Inr (if \<not> hasReturnValue inst then ''ret'' else ''ret '' @ opText (returnValue inst))
      | InstructionOp \<Rightarrow>
          (let line = opcodeString (instOpcode inst)
                 @ (if instOpcode inst = OpcodeCall then '' '' @ formatCallInstructionOperands inst
                    else if operands inst \<noteq> [] then '' '' @ formatOperands (operands inst) else [])
           in Inr (if hasDestination inst then opText (destination inst) @ '' = '' @ line else line))
      | InstructionUnknown k \<Rightarrow> Inl (WriteUnsupportedKind (instKind inst)))"

definition newline :: char where
  "newline = CHR 0x0A"

text \<open>The lines of a function body; the header and the braces are written around them.\<close>

definition writeInstruction :: "instruction \<Rightarrow> writeError + string" where
  "writeInstruction inst =
     bindE (mapErr WriteVerify (VerifyInstruction inst)) (\<lambda>_.
     bindE (formatInstruction inst) (\<lambda>line. Inr (''  '' @ line @ [newline])))"

definition writeFunction :: "tacFunction \<Rightarrow> writeError + string" where
  "writeFunction fn =
     bindE (mapE writeInstruction (instructions fn)) (\<lambda>lines.
       Inr (''func '' @ fnName fn @ ''('' @ formatParams (parameters fn) @ '') -> '' @ returnType fn @ '' {'' @ [newline]
            @ concat lines @ ''}'' @ [newline]))"

definition WriteModule :: "tacModule \<Rightarrow> writeError + string" where
  "WriteModule m =
     bindE (mapE writeFunction (modFunctions m)) (\<lambda>fns.
       Inr (''.tac v1'' @ [newline, newline] @ joinStr [newline] fns))"

section \<open>Parser: lines\<close>

text \<open>\<open>ReadString\<close> up to and including a newline; the flag is \<open>err == io.EOF\<close>.\<close>

definition readString :: "string \<Rightarrow> string \<times> string \<times> bool" where
  "readString s =
     (case indexStr s [newline] of
        Some i \<Rightarrow> (take (i + 1) s, drop (i + 1) s, False)
      | None \<Rightarrow> (s, [], True))"

definition stripComment :: "string \<Rightarrow> string" where
  "stripComment line = (case indexStr line '';'' of None \<Rightarrow> line | Some i \<Rightarrow> take i line)"

definition trimNewlines :: "string \<Rightarrow> string" where
  "trimNewlines s = rev (dropWhile (\<lambda>c. c = CHR 0x0D \<or> c = newline) (rev s))"

record textReader =
  rdRest :: string
  rdLine :: nat

lemma indexStr_less: "indexStr s p = Some i \<Longrightarrow> p \<noteq> [] \<Longrightarrow> i < length s"
  by (induction s p arbitrary: i rule: indexStr.induct) (auto split: if_splits)

lemma readString_shrinks: "readString s = (l, r, False) \<Longrightarrow> length r < length s"
  by (auto simp: readString_def split: option.splits dest: indexStr_less)

function nextLogicalLine :: "textReader \<Rightarrow> string option \<times> textReader" where
  "nextLogicalLine p =
     (case readString (rdRest p) of (line0, rest, eof) \<Rightarrow>
       if eof \<and> line0 = [] then (None, p)
       else
         let p' = \<lparr>rdRest = rest, rdLine = rdLine p + 1\<rparr>;
             line = trimSpace (stripComment (trimNewlines line0)) in
         if line = [] then (if eof then (None, p') else nextLogicalLine p') else (Some line, p'))"
  by pat_completeness auto
termination
  by (relation "measure (\<lambda>p. length (rdRest p))") (auto dest!: readString_shrinks [OF sym])

declare nextLogicalLine.simps [simp del]

lemma nextLogicalLine_shrinks:
  "nextLogicalLine p = (Some l, p') \<Longrightarrow> length (rdRest p') < length (rdRest p)"
proof (induction p rule: nextLogicalLine.induct)
  case (1 p)
  obtain line0 rest eof where r: "readString (rdRest p) = (line0, rest, eof)" by (metis prod_cases3)
  have len: "length rest < length (rdRest p)" if "\<not> (eof \<and> line0 = [])"
    using r readString_shrinks [of "rdRest p" line0 rest] that
    by (cases eof) (auto simp: readString_def split: option.splits)
  define q where "q = \<lparr>rdRest = rest, rdLine = rdLine p + 1\<rparr>"
  define line where "line = trimSpace (stripComment (trimNewlines line0))"
  have n: "nextLogicalLine p = (if eof \<and> line0 = [] then (None, p)
      else if line = [] then (if eof then (None, q) else nextLogicalLine q) else (Some line, q))"
    using r by (subst nextLogicalLine.simps) (simp add: q_def line_def)
  have "length (rdRest p') < length (rdRest q)" if "line = []" "\<not> eof"
    using "1.IH" [OF r [symmetric] refl _ q_def line_def that] that "1.prems" n by simp
  then show ?case using n "1.prems" len by (auto simp: q_def split: if_splits)
qed

section \<open>Parser: headers, operands, instructions\<close>

datatype headerError =
    HeaderInvalid string | HeaderNoArrow | HeaderNoReturnType | HeaderParamList | HeaderName string
  | ParamMalformed string | ParamName string | ParamTypeEmpty string

fun parseParamParts :: "string list \<Rightarrow> headerError + parameter list" where
  "parseParamParts [] = Inr []"
| "parseParamParts (part0 # rest) =
     (let part = trimSpace part0; pieces = splitOn CHR '':'' part in
      if length pieces \<noteq> 2 then Inl (ParamMalformed part)
      else
        let name = trimSpace (pieces ! 0); typ = trimSpace (pieces ! 1) in
        if \<not> hasPrefix name ''%'' then Inl (ParamName name)
        else if typ = [] then Inl (ParamTypeEmpty name)
        else bindE (parseParamParts rest) (\<lambda>ps. Inr (\<lparr>paramName = name, paramType = typ\<rparr> # ps)))"

definition parseParams :: "string \<Rightarrow> headerError + parameter list" where
  "parseParams raw = (if raw = [] then Inr [] else parseParamParts (splitOn CHR '','' raw))"

definition parseFunctionHeader :: "string \<Rightarrow> headerError + tacFunction" where
  "parseFunctionHeader line =
     (if \<not> hasPrefix line ''func '' \<or> \<not> hasSuffix line ''{'' then Inl (HeaderInvalid line)
      else
        let withoutBrace = trimSpace (trimSuffix line ''{'');
            signature = trimSpace (trimPrefix withoutBrace ''func '') in
        case indexStr signature ''->'' of None \<Rightarrow> Inl HeaderNoArrow
        | Some arrowIdx \<Rightarrow>
            let left = trimSpace (take arrowIdx signature);
                retType = trimSpace (drop (arrowIdx + 2) signature) in
            if retType = [] then Inl HeaderNoReturnType
            else case (indexStr left ''('', lastIndexChar left CHR '')'') of
              (Some openIdx, Some closeIdx) \<Rightarrow>
                if openIdx = 0 \<or> closeIdx < openIdx then Inl HeaderParamList
                else
                  let name = trimSpace (take openIdx left) in
                  if \<not> hasPrefix name ''@'' then Inl (HeaderName name)
                  else
                    let paramsRaw = trimSpace (take (closeIdx - (openIdx + 1)) (drop (openIdx + 1) left)) in
                    bindE (parseParams paramsRaw) (\<lambda>params.
                      Inr \<lparr>fnName = name, parameters = params, returnType = retType, instructions = [],
                           nextTempID = 0\<rparr>)
            | _ \<Rightarrow> Inl HeaderParamList)"

definition splitCommaSeparated :: "string \<Rightarrow> string list" where
  "splitCommaSeparated raw = filter (\<lambda>p. p \<noteq> []) (map trimSpace (splitOn CHR '','' raw))"

definition classifyPercentOperand :: "string \<Rightarrow> operand" where
  "classifyPercentOperand raw =
     (if hasPrefix raw ''%t'' then Temp raw
      else if hasPrefix raw ''%s'' then StackSlotPointer raw
      else Param raw)"

datatype instError =
    InvalidLabel string | JmpTarget string | BrOperands | BrTargets | DestinationName string
  | EmptyInstruction | OpcodeNotEnabled string | OpcodeUnknownName string | SlotPointerName string
  | CallMalformed string | CallCalleeName string | EmptyOperand

definition parseValueOperand :: "string \<Rightarrow> instError + operand" where
  "parseValueOperand raw0 =
     (let raw = trimSpace raw0 in
      if raw = [] then Inl EmptyOperand
      else if hasPrefix raw ''%'' then Inr (classifyPercentOperand raw)
      else if hasPrefix raw ''@'' then Inr (FunctionSymbol raw)
      else if hasPrefix raw ''.L'' then Inr (Label raw)
      else Inr (Immediate raw))"

definition parseCallOperands :: "string \<Rightarrow> instError + string \<times> operand list" where
  "parseCallOperands raw0 =
     (let raw = trimSpace raw0 in
      case (indexStr raw ''('', lastIndexChar raw CHR '')'') of
        (Some opn, Some cls) \<Rightarrow>
          if opn = 0 \<or> cls < opn then Inl (CallMalformed raw)
          else if trimSpace (drop (cls + 1) raw) \<noteq> [] then Inl (CallMalformed raw)
          else
            let callee = trimSpace (take opn raw) in
            if \<not> hasPrefix callee ''@'' then Inl (CallCalleeName callee)
            else
              let argsRaw = trimSpace (take (cls - (opn + 1)) (drop (opn + 1) raw)) in
              if argsRaw = [] then Inr (callee, [])
              else bindE (mapE parseValueOperand (splitCommaSeparated argsRaw)) (\<lambda>args. Inr (callee, args))
      | _ \<Rightarrow> Inl (CallMalformed raw))"

text \<open>The loop of \<open>parseOpcodeOperands\<close>; the flag says that \<open>out\<close> is still empty.\<close>

fun opcodeOperandList :: "opcode \<Rightarrow> bool \<Rightarrow> string list \<Rightarrow> instError + operand list" where
  "opcodeOperandList op isFirst [] = Inr []"
| "opcodeOperandList op isFirst (p # ps) =
     (if (op = OpcodeLoad \<or> op = OpcodeStore) \<and> isFirst then
        if \<not> hasPrefix p ''%'' then Inl (SlotPointerName p)
        else bindE (opcodeOperandList op False ps) (\<lambda>out. Inr (StackSlotPointer p # out))
      else if op = OpcodeAlloca then
        bindE (opcodeOperandList op False ps) (\<lambda>out. Inr (Immediate p # out))
      else bindE (parseValueOperand p) (\<lambda>x.
        bindE (opcodeOperandList op False ps) (\<lambda>out. Inr (x # out))))"

definition parseOpcodeOperands :: "opcode \<Rightarrow> string \<Rightarrow> instError + operand list" where
  "parseOpcodeOperands op raw = opcodeOperandList op True (splitCommaSeparated raw)"

text \<open>The part of \<open>parseInstruction\<close> after the optional destination: \<open>right\<close> holds the operation.\<close>

definition parseOperation :: "instruction \<Rightarrow> string \<Rightarrow> instError + instruction" where
  "parseOperation inst0 right =
     (case goFields right of [] \<Rightarrow> Inl EmptyInstruction
      | token # _ \<Rightarrow>
          (case ParseOpcode token of (op, ok, optional) \<Rightarrow>
            if \<not> ok then Inl (if optional then OpcodeNotEnabled token else OpcodeUnknownName token)
            else
              let inst = inst0\<lparr>instOpcode := op\<rparr>; rest = trimSpace (trimPrefix right token) in
              if op = OpcodeCall then
                bindE (parseCallOperands rest) (\<lambda>(callee, args).
                  Inr (inst\<lparr>callCallee := callee, callArgs := args\<rparr>))
              else if rest \<noteq> [] then
                bindE (parseOpcodeOperands op rest) (\<lambda>ops. Inr (inst\<lparr>operands := ops\<rparr>))
              else Inr inst))"

definition parseInstruction :: "string \<Rightarrow> instError + instruction" where
  "parseInstruction line =
     (if hasSuffix line '':'' then
        let label = trimSuffix line '':'' in
        if \<not> hasPrefix label ''.L'' then Inl (InvalidLabel label)
        else Inr ((newInst InstructionLabel)\<lparr>instLabel := label\<rparr>)
      else if hasPrefix line ''jmp '' then
        let label = trimSpace (trimPrefix line ''jmp '') in
        if \<not> hasPrefix label ''.L'' then Inl (JmpTarget label)
        else Inr ((newInst InstructionJmp)\<lparr>trueLabel := Label label\<rparr>)
      else if hasPrefix line ''br '' then
        let parts = splitCommaSeparated (trimSpace (trimPrefix line ''br '')) in
        if length parts \<noteq> 3 then Inl BrOperands
        else if \<not> hasPrefix (parts ! 1) ''.L'' \<or> \<not> hasPrefix (parts ! 2) ''.L'' then Inl BrTargets
        else bindE (parseValueOperand (parts ! 0)) (\<lambda>cond.
          Inr ((newInst InstructionBr)\<lparr>condition := cond, trueLabel := Label (parts ! 1),
                 falseLabel := Label (parts ! 2)\<rparr>))
      else if line = ''ret'' \<or> hasPrefix line ''ret '' then
        let val = trimSpace (trimPrefix line ''ret'') in
        if val \<noteq> [] then
          bindE (parseValueOperand val) (\<lambda>op.
            Inr ((newInst InstructionRet)\<lparr>hasReturnValue := True, returnValue := op\<rparr>))
        else Inr (newInst InstructionRet)
      else
        case indexStr line ''='' of
          None \<Rightarrow> parseOperation (newInst InstructionOp) line
        | Some eqIdx \<Rightarrow>
            let left = trimSpace (take eqIdx line); right = trimSpace (drop (eqIdx + 1) line) in
            if \<not> hasPrefix left ''%'' then Inl (DestinationName left)
            else parseOperation
              ((newInst InstructionOp)\<lparr>hasDestination := True, destination := classifyPercentOperand left\<rparr>)
              right)"

section \<open>Parser: functions and modules\<close>

datatype parseFault =
    InvalidHeader | MissingHeader | DuplicateHeader | OutsideFunction string
  | FunctionRedefined string | ModuleRejects irError | FunctionHeader headerError
  | MissingBrace string | BadInstruction instError | BadVerify verifyError
  | LabelTwice string | DestinationTwice string | LabelUndefined | FunctionRejected irError

text \<open>An error with the number of the line read last.\<close>

type_synonym parseError = "nat \<times> parseFault"

text \<open>The body loop: the function built so far and the three sets of names.\<close>

function parseBody ::
  "textReader \<Rightarrow> tacFunction \<Rightarrow> string set \<Rightarrow> string set \<Rightarrow> string set
    \<Rightarrow> parseError + tacFunction \<times> string set \<times> string set \<times> textReader" where
  "parseBody p fn definedLabels usedLabels definedDestinations =
     (case nextLogicalLine p of
        (None, p') \<Rightarrow> Inl (rdLine p', MissingBrace (fnName fn))
      | (Some line, p') \<Rightarrow>
          if line = ''}'' then Inr (fn, definedLabels, usedLabels, p')
          else
            bindE (mapErr (\<lambda>e. (rdLine p', BadInstruction e)) (parseInstruction line)) (\<lambda>inst.
            bindE (mapErr (\<lambda>e. (rdLine p', BadVerify e)) (VerifyInstruction inst)) (\<lambda>_.
              if instKind inst = InstructionLabel \<and> instLabel inst \<in> definedLabels
              then Inl (rdLine p', LabelTwice (instLabel inst))
              else if hasDestination inst \<and> opText (destination inst) \<in> definedDestinations
              then Inl (rdLine p', DestinationTwice (opText (destination inst)))
              else parseBody p' (fn\<lparr>instructions := instructions fn @ [inst]\<rparr>)
                (if instKind inst = InstructionLabel then insert (instLabel inst) definedLabels else definedLabels)
                (usedLabels \<union> set (targetsOf inst))
                (if hasDestination inst then insert (opText (destination inst)) definedDestinations
                 else definedDestinations))))"
  by pat_completeness auto
termination
  by (relation "measure (\<lambda>(p, _). length (rdRest p))") (auto dest!: nextLogicalLine_shrinks [OF sym])

declare parseBody.simps [simp del]

lemma parseBody_shrinks:
  "parseBody p fn dl ul dd = Inr (fn', dl', ul', p') \<Longrightarrow> length (rdRest p') < length (rdRest p)"
proof (induction p fn dl ul dd rule: parseBody.induct)
  case (1 p fn dl ul dd)
  show ?case
  proof (cases "nextLogicalLine p")
    case (Pair r q)
    show ?thesis
    proof (cases r)
      case None
      then show ?thesis using "1.prems" Pair by (simp add: parseBody.simps [of p])
    next
      case (Some line)
      note n = Pair [unfolded Some]
      have "length (rdRest q) < length (rdRest p)" using nextLogicalLine_shrinks [OF n] .
      moreover have "length (rdRest p') < length (rdRest q) \<or> p' = q"
        using "1.prems" "1.IH" [OF n [symmetric] refl] n
        by (subst (asm) parseBody.simps) (auto simp: bindE_eq_Inr split: if_splits)
      ultimately show ?thesis by auto
    qed
  qed
qed

definition parseFunction :: "textReader \<Rightarrow> string \<Rightarrow> parseError + tacFunction \<times> textReader" where
  "parseFunction p header =
     bindE (mapErr (\<lambda>e. (rdLine p, FunctionHeader e)) (parseFunctionHeader header)) (\<lambda>fn0.
     bindE (parseBody p fn0 {} {} {}) (\<lambda>(fn, definedLabels, usedLabels, p').
       if \<not> usedLabels \<subseteq> definedLabels then Inl (rdLine p', LabelUndefined)
       else bindE (mapErr (\<lambda>e. (rdLine p', FunctionRejected e)) (ValidateFunctionIR fn)) (\<lambda>_. Inr (fn, p'))))"

function parseLoop :: "textReader \<Rightarrow> bool \<Rightarrow> string set \<Rightarrow> tacModule \<Rightarrow> parseError + tacModule" where
  "parseLoop p headerSeen funcNames m =
     (case nextLogicalLine p of
        (None, p') \<Rightarrow> if \<not> headerSeen then Inl (rdLine p', MissingHeader) else Inr m
      | (Some line, p') \<Rightarrow>
          if \<not> headerSeen then
            if line \<noteq> ''.tac v1'' then Inl (rdLine p', InvalidHeader) else parseLoop p' True funcNames m
          else if hasPrefix line ''.meta '' then parseLoop p' True funcNames m
          else if line = ''.tac v1'' then Inl (rdLine p', DuplicateHeader)
          else if \<not> hasPrefix line ''func '' then Inl (rdLine p', OutsideFunction line)
          else
            bindE (parseFunction p' line) (\<lambda>(fn, p2).
              if fnName fn \<in> funcNames then Inl (rdLine p2, FunctionRedefined (fnName fn))
              else
                bindE (mapErr (\<lambda>e. (rdLine p2, ModuleRejects e)) (AddFunction fn m)) (\<lambda>m'.
                  parseLoop p2 True (insert (fnName fn) funcNames) m')))"
  by pat_completeness auto
termination
  by (relation "measure (\<lambda>(p, _). length (rdRest p))")
    (auto dest!: nextLogicalLine_shrinks [OF sym] parseBody_shrinks simp: parseFunction_def bindE_eq_Inr split: if_splits)

declare parseLoop.simps [simp del]

definition ParseModule :: "string \<Rightarrow> parseError + tacModule" where
  "ParseModule s = parseLoop \<lparr>rdRest = s, rdLine = 0\<rparr> False {} \<lparr>modFunctions = []\<rparr>"

end
