(* ===== verification/TacTextProps.thy ===== *)
theory TacTextProps
  imports TacText
begin

text \<open>
  The text format round-trips: on functions whose names are plain words the parser reads back what
  the writer wrote. First the effect of the string functions on words and padding, then one line,
  a body, a module.
\<close>

section \<open>Words and padding\<close>

text \<open>Printable ASCII without the space, and the characters of names, which also exclude the
  punctuation of the format.\<close>

definition inkChar :: "char \<Rightarrow> bool" where
  "inkChar c \<longleftrightarrow> 0x21 \<le> (of_char c :: nat) \<and> (of_char c :: nat) \<le> 0x7E"

definition wordChar :: "char \<Rightarrow> bool" where
  "wordChar c \<longleftrightarrow> inkChar c \<and> c \<notin> set ''(),:;={}>''"

definition isWord :: "string \<Rightarrow> bool" where
  "isWord s \<longleftrightarrow> s \<noteq> [] \<and> list_all wordChar s"

text \<open>A text that trimming leaves alone, and a line free of comments and line ends.\<close>

definition tight :: "string \<Rightarrow> bool" where
  "tight s \<longleftrightarrow> s \<noteq> [] \<and> inkChar (hd s) \<and> inkChar (last s)"

definition blank :: "string \<Rightarrow> bool" where
  "blank s \<longleftrightarrow> list_all (\<lambda>c. c = CHR '' '') s"

definition lineChar :: "char \<Rightarrow> bool" where
  "lineChar c \<longleftrightarrow> (inkChar c \<or> c = CHR '' '') \<and> c \<noteq> CHR '';''"

lemma spaceLen_ink:
  assumes "inkChar c" "\<forall>w \<in> set ws. w \<noteq> [] \<and> \<not> inkChar (hd w)"
  shows "spaceLen ws (c # s) = 0"
proof -
  have "c \<notin> set asciiSpaces" using assms(1) by (auto simp: asciiSpaces_def inkChar_def)
  moreover have "filter (hasPrefix (c # s)) ws = []"
    unfolding filter_empty_conv
  proof
    fix w assume "w \<in> set ws"
    with assms have "w \<noteq> []" "hd w \<noteq> c" by auto
    then show "\<not> hasPrefix (c # s) w" by (cases w) auto
  qed
  ultimately show ?thesis by simp
qed

lemma wideSpaces_ink:
  "\<forall>w \<in> set wideSpaces. w \<noteq> [] \<and> \<not> inkChar (hd w)"
  "\<forall>w \<in> set (map rev wideSpaces). w \<noteq> [] \<and> \<not> inkChar (hd w)"
  by (simp_all add: wideSpaces_def inkChar_def)

lemma spaceLen_wide [simp]:
  "inkChar c \<Longrightarrow> spaceLen wideSpaces (c # s) = 0"
  "inkChar c \<Longrightarrow> spaceLen (map rev wideSpaces) (c # s) = 0"
  by (rule spaceLen_ink, assumption, rule wideSpaces_ink)+

lemma spaceLen_space [simp]: "spaceLen ws (CHR '' '' # s) = 1"
  by (simp add: asciiSpaces_def)

lemma stripSpaces_none: "spaceLen ws s = 0 \<Longrightarrow> stripSpaces ws s = s"
  by (subst stripSpaces.simps) simp

lemma stripSpaces_ink:
  "inkChar (hd s) \<Longrightarrow> s \<noteq> [] \<Longrightarrow> stripSpaces wideSpaces s = s"
  "inkChar (hd s) \<Longrightarrow> s \<noteq> [] \<Longrightarrow> stripSpaces (map rev wideSpaces) s = s"
  by (rule stripSpaces_none, cases s, simp, simp del: spaceLen.simps)+

lemma stripSpaces_blank: "blank a \<Longrightarrow> stripSpaces ws (a @ s) = stripSpaces ws s"
proof (induction a)
  case (Cons c a)
  then show ?case by (subst stripSpaces.simps) (simp add: blank_def del: spaceLen.simps)
qed simp

lemma blank_simps [simp]:
  "blank []" "blank (c # s) \<longleftrightarrow> c = CHR '' '' \<and> blank s" "blank (s @ t) \<longleftrightarrow> blank s \<and> blank t"
  "blank (rev s) \<longleftrightarrow> blank s"
  by (auto simp: blank_def list_all_iff)

lemma stripSpaces_Nil [simp]: "stripSpaces ws [] = []"
  by (simp add: stripSpaces.simps)

lemma trimSpace_pad:
  assumes "tight s" "blank a" "blank b"
  shows "trimSpace (a @ s @ b) = s"
proof -
  have s: "s \<noteq> []" "inkChar (hd s)" "inkChar (hd (rev s))" using assms(1) by (auto simp: tight_def hd_rev)
  have "stripSpaces wideSpaces (a @ s @ b) = s @ b"
    using s assms(2) by (simp add: stripSpaces_blank stripSpaces_ink(1))
  then show ?thesis
    using s assms(3) by (simp add: trimSpace_def stripSpaces_blank stripSpaces_ink(2))
qed

lemma trimSpace_tight [simp]: "tight s \<Longrightarrow> trimSpace s = s"
  using trimSpace_pad [of s "[]" "[]"] by simp

lemma trimSpace_Cons_space [simp]: "tight s \<Longrightarrow> trimSpace (CHR '' '' # s) = s"
  using trimSpace_pad [of s "'' ''" "[]"] by simp

lemma trimSpace_Nil [simp]: "trimSpace [] = []"
  by (simp add: trimSpace_def)

lemma trimSpace_snoc_space [simp]: "tight s \<Longrightarrow> trimSpace (s @ '' '') = s"
  using trimSpace_pad [of s "[]" "'' ''"] by simp

lemma wordChar_ink: "wordChar c \<Longrightarrow> inkChar c"
  by (simp add: wordChar_def)

lemma isWord_tight: "isWord s \<Longrightarrow> tight s"
  by (auto simp: isWord_def tight_def list_all_iff wordChar_def)

lemma isWord_notin: "isWord s \<Longrightarrow> \<not> wordChar c \<Longrightarrow> c \<notin> set s"
  by (auto simp: isWord_def list_all_iff)

lemma not_wordChar [simp]:
  "\<not> wordChar CHR ''(''" "\<not> wordChar CHR '')''" "\<not> wordChar CHR '',''" "\<not> wordChar CHR '':''"
  "\<not> wordChar CHR '';''" "\<not> wordChar CHR ''=''" "\<not> wordChar CHR ''>''" "\<not> wordChar CHR '' ''"
  "\<not> wordChar CHR ''{''" "\<not> wordChar CHR ''}''"
  by (simp_all add: wordChar_def inkChar_def)

lemma inkChar_simps [simp]:
  "inkChar CHR ''(''" "inkChar CHR '')''" "inkChar CHR '',''" "inkChar CHR '':''" "inkChar CHR ''=''"
  "inkChar CHR ''{''" "inkChar CHR ''}''" "\<not> inkChar CHR '' ''" "\<not> inkChar newline" "inkChar CHR ''.''"
  "inkChar CHR ''%''" "inkChar CHR ''@''" "inkChar CHR ''f''" "inkChar CHR ''j''" "inkChar CHR ''b''" "inkChar CHR ''r''"
  by (simp_all add: inkChar_def newline_def)

lemma tight_append: "s \<noteq> [] \<Longrightarrow> t \<noteq> [] \<Longrightarrow> inkChar (hd s) \<Longrightarrow> inkChar (last t) \<Longrightarrow> tight (s @ u @ t)"
  by (simp add: tight_def)

section \<open>Splitting and joining\<close>

lemma splitOn_notin: "c \<notin> set s \<Longrightarrow> splitOn c s = [s]"
  by (induction s) auto

lemma splitOn_append: "c \<notin> set s \<Longrightarrow> splitOn c (s @ c # t) = s # splitOn c t"
  by (induction s) auto

lemma splitOn_nonempty [simp]: "splitOn c s \<noteq> []"
  by (induction s) (auto split: list.splits)

lemma splitOn_join:
  "\<forall>s \<in> set (s # ss). CHR '','' \<notin> set s \<Longrightarrow>
     splitOn CHR '','' (joinStr '', '' (s # ss)) = s # map ((#) CHR '' '') ss"
proof (induction ss arbitrary: s)
  case Nil
  then show ?case by (simp add: splitOn_notin)
next
  case (Cons t ts)
  have "splitOn CHR '','' (joinStr '', '' (s # t # ts)) = s # splitOn CHR '','' (CHR '' '' # joinStr '', '' (t # ts))"
    using Cons.prems by (simp add: splitOn_append)
  also have "CHR '' '' # joinStr '', '' (t # ts) = joinStr '', '' ((CHR '' '' # t) # ts)"
    by (cases ts) simp_all
  also have "splitOn CHR '','' \<dots> = (CHR '' '' # t) # map ((#) CHR '' '') ts"
    using Cons.prems by (intro Cons.IH) simp
  finally show ?case by simp
qed

lemma splitCommaSeparated_join:
  assumes "\<forall>s \<in> set ss. tight s \<and> CHR '','' \<notin> set s"
  shows "splitCommaSeparated (joinStr '', '' ss) = ss"
proof (cases ss)
  case Nil
  then show ?thesis by (simp add: splitCommaSeparated_def)
next
  case (Cons s ts)
  have "filter (\<lambda>p. p \<noteq> []) (map trimSpace (s # map ((#) CHR '' '') ts)) = s # ts"
  proof -
    have "map (trimSpace \<circ> (#) CHR '' '') ts = ts" using assms Cons by (simp add: map_idI)
    moreover have "filter (\<lambda>p. p \<noteq> []) ts = ts" using assms Cons by (auto simp: filter_id_conv tight_def)
    moreover have "s \<noteq> []" "trimSpace s = s" using assms Cons by (auto simp: tight_def)
    ultimately show ?thesis by simp
  qed
  moreover have "splitOn CHR '','' (joinStr '', '' (s # ts)) = s # map ((#) CHR '' '') ts"
    using assms Cons by (intro splitOn_join) simp
  ultimately show ?thesis by (simp only: splitCommaSeparated_def Cons)
qed

lemma tight_join: "ss \<noteq> [] \<Longrightarrow> \<forall>s \<in> set ss. tight s \<Longrightarrow> tight (joinStr sep ss)"
proof (induction sep ss rule: joinStr.induct)
  case (3 sep x y xs)
  then have "tight (joinStr sep (y # xs))" by simp
  then show ?case using 3 by (simp add: tight_def)
qed simp_all

lemma set_join: "set (joinStr sep ss) \<subseteq> set sep \<union> \<Union> (set ` set ss)"
  by (induction sep ss rule: joinStr.induct) auto

lemma fieldEnd_word: "list_all inkChar w \<Longrightarrow> fieldEnd (w @ s) = (w @ fst (fieldEnd s), snd (fieldEnd s))"
  by (induction w) (simp, subst fieldEnd.simps, auto split: prod.splits simp del: spaceLen.simps)

lemma fieldEnd_space: "fieldEnd (CHR '' '' # s) = ([], CHR '' '' # s)"
  by (subst fieldEnd.simps) (simp del: spaceLen.simps)

lemma goFields_word:
  assumes "isWord w" "s = [] \<or> (\<exists>t. s = CHR '' '' # t)"
  shows "\<exists>ws. goFields (w @ s) = w # ws"
proof -
  have w: "list_all inkChar w" "w \<noteq> []" using assms(1) by (auto simp: isWord_def list_all_iff wordChar_def)
  have "stripSpaces wideSpaces (w @ s) = w @ s"
    using w by (intro stripSpaces_ink) (auto simp: list_all_iff)
  moreover have "fieldEnd (w @ s) = (w, s)"
    using assms(2) w(1) by (auto simp: fieldEnd_word fieldEnd_space) (simp_all add: fieldEnd.simps)
  ultimately show ?thesis using w(2) by (subst goFields.simps) (cases w; simp)
qed

section \<open>Lines\<close>

lemma lineChar_facts:
  "list_all lineChar s \<Longrightarrow> newline \<notin> set s" "list_all lineChar s \<Longrightarrow> CHR '';'' \<notin> set s"
proof -
  have "\<not> lineChar newline" "\<not> lineChar CHR '';''" by (simp_all add: lineChar_def newline_def inkChar_def)
  then show "list_all lineChar s \<Longrightarrow> newline \<notin> set s" "list_all lineChar s \<Longrightarrow> CHR '';'' \<notin> set s"
    unfolding list_all_iff by blast+
qed

lemma readString_line: "newline \<notin> set l \<Longrightarrow> readString (l @ newline # s) = (l @ [newline], s, False)"
  by (simp add: readString_def indexStr_char)

lemma trimNewlines_line:
  assumes "tight s"
  shows "trimNewlines (a @ s @ [newline]) = a @ s"
proof -
  have "last s \<noteq> newline" "last s \<noteq> CHR 0x0D" "s \<noteq> []"
    using assms by (auto simp: tight_def inkChar_def newline_def)
  then show ?thesis by (cases s rule: rev_cases) (simp_all add: trimNewlines_def)
qed

lemma stripComment_none: "CHR '';'' \<notin> set s \<Longrightarrow> stripComment s = s"
  by (simp add: stripComment_def indexStr_char_None)

lemma blank_notin: "blank a \<Longrightarrow> c \<noteq> CHR '' '' \<Longrightarrow> c \<notin> set a"
  by (auto simp: blank_def list_all_iff)

lemma nextLogicalLine_line:
  assumes "tight s" "list_all lineChar s" "blank a"
  shows "nextLogicalLine \<lparr>rdRest = a @ s @ newline # t, rdLine = n\<rparr> = (Some s, \<lparr>rdRest = t, rdLine = n + 1\<rparr>)"
proof -
  have nl: "newline \<notin> set (a @ s)" "CHR '';'' \<notin> set (a @ s)"
    using assms(2,3) lineChar_facts [of s] blank_notin [of a newline] blank_notin [of a "CHR '';''"]
    by (auto simp: newline_def)
  have "readString (a @ s @ newline # t) = ((a @ s) @ [newline], t, False)"
    using readString_line [OF nl(1), of t] by simp
  moreover have "trimSpace (stripComment (trimNewlines ((a @ s) @ [newline]))) = s"
    using trimNewlines_line [OF assms(1), of a] stripComment_none [OF nl(2)] trimSpace_pad [OF assms(1,3), of "[]"]
    by simp
  moreover have "s \<noteq> []" using assms(1) by (simp add: tight_def)
  ultimately show ?thesis by (subst nextLogicalLine.simps) simp
qed

lemma nextLogicalLine_empty:
  "nextLogicalLine \<lparr>rdRest = newline # t, rdLine = n\<rparr> = nextLogicalLine \<lparr>rdRest = t, rdLine = n + 1\<rparr>"
proof -
  have "readString (newline # t) = ([newline], t, False)" by (simp add: readString_def)
  moreover have "trimSpace (stripComment (trimNewlines [newline])) = []"
    by (simp add: trimNewlines_def stripComment_def)
  ultimately show ?thesis by (subst nextLogicalLine.simps) simp
qed

lemma nextLogicalLine_end: "nextLogicalLine \<lparr>rdRest = [], rdLine = n\<rparr> = (None, \<lparr>rdRest = [], rdLine = n\<rparr>)"
  by (subst nextLogicalLine.simps) (simp add: readString_def)

section \<open>Instructions the format can spell\<close>

text \<open>The lexical convention of operands: which texts stand for which kind.\<close>

fun spelledAs :: "operandKind \<Rightarrow> string \<Rightarrow> bool" where
  "spelledAs OperandTemp s \<longleftrightarrow> hasPrefix s ''%t''"
| "spelledAs OperandStackSlotPointer s \<longleftrightarrow> hasPrefix s ''%s''"
| "spelledAs OperandParam s \<longleftrightarrow> hasPrefix s ''%'' \<and> \<not> hasPrefix s ''%t'' \<and> \<not> hasPrefix s ''%s''"
| "spelledAs OperandFunctionSymbol s \<longleftrightarrow> hasPrefix s ''@''"
| "spelledAs OperandLabel s \<longleftrightarrow> hasPrefix s ''.L''"
| "spelledAs OperandImmediate s \<longleftrightarrow> \<not> hasPrefix s ''%'' \<and> \<not> hasPrefix s ''@'' \<and> \<not> hasPrefix s ''.L''"
| "spelledAs OperandInvalid s \<longleftrightarrow> False"

definition spelled :: "operand \<Rightarrow> bool" where
  "spelled x \<longleftrightarrow> isWord (opText x) \<and> spelledAs (opKind x) (opText x)"

definition labelWord :: "string \<Rightarrow> bool" where
  "labelWord l \<longleftrightarrow> isWord l \<and> hasPrefix l ''.L''"

text \<open>The first operand of \<open>load\<close> and \<open>store\<close> is read as a slot pointer, those of \<open>alloca\<close> as immediates.\<close>

definition operandsSpelled :: "opcode \<Rightarrow> operand list \<Rightarrow> bool" where
  "operandsSpelled op ops \<longleftrightarrow>
     (if op = OpcodeLoad \<or> op = OpcodeStore then
        ops \<noteq> [] \<and> isWord (opText (hd ops)) \<and> hasPrefix (opText (hd ops)) ''%''
        \<and> opKind (hd ops) = OperandStackSlotPointer \<and> list_all spelled (tl ops)
      else if op = OpcodeAlloca then list_all (\<lambda>x. isWord (opText x) \<and> opKind x = OperandImmediate) ops
      else list_all spelled ops)"

definition printable :: "instruction \<Rightarrow> bool" where
  "printable inst \<longleftrightarrow> VerifyInstruction inst = Inr () \<and>
     (case instKind inst of
        InstructionLabel \<Rightarrow>
          labelWord (instLabel inst) \<and> inst = (newInst InstructionLabel)\<lparr>instLabel := instLabel inst\<rparr>
      | InstructionJmp \<Rightarrow>
          labelWord (opText (trueLabel inst)) \<and> inst = (newInst InstructionJmp)\<lparr>trueLabel := Label (opText (trueLabel inst))\<rparr>
      | InstructionBr \<Rightarrow>
          spelled (condition inst) \<and> labelWord (opText (trueLabel inst)) \<and> labelWord (opText (falseLabel inst))
          \<and> inst = (newInst InstructionBr)\<lparr>condition := condition inst, trueLabel := Label (opText (trueLabel inst)),
                     falseLabel := Label (opText (falseLabel inst))\<rparr>
      | InstructionRet \<Rightarrow>
          (if hasReturnValue inst
           then spelled (returnValue inst)
                \<and> inst = (newInst InstructionRet)\<lparr>hasReturnValue := True, returnValue := returnValue inst\<rparr>
           else inst = newInst InstructionRet)
      | InstructionOp \<Rightarrow>
          (hasDestination inst \<longrightarrow> spelled (destination inst) \<and> hasPrefix (opText (destination inst)) ''%'')
          \<and> (\<not> hasDestination inst \<longrightarrow> destination inst = zeroOperand)
          \<and> inst = (newInst InstructionOp)\<lparr>hasDestination := hasDestination inst, destination := destination inst,
                     instOpcode := instOpcode inst, operands := operands inst, callCallee := callCallee inst,
                     callArgs := callArgs inst\<rparr>
          \<and> (if instOpcode inst = OpcodeCall
             then isWord (callCallee inst) \<and> list_all spelled (callArgs inst)
             else callCallee inst = [] \<and> callArgs inst = [] \<and> operandsSpelled (instOpcode inst) (operands inst))
      | InstructionUnknown k \<Rightarrow> False)"

lemma hasPrefix_trans: "hasPrefix s p \<Longrightarrow> hasPrefix p q \<Longrightarrow> hasPrefix s q"
  by (auto simp: hasPrefix_iff)

lemma hasPrefix_single: "hasPrefix s [c] \<longleftrightarrow> s \<noteq> [] \<and> hd s = c"
  by (cases s) auto

lemma classifyPercentOperand_spelled:
  "spelled x \<Longrightarrow> hasPrefix (opText x) ''%'' \<Longrightarrow> classifyPercentOperand (opText x) = x"
  by (cases "opKind x"; cases "opText x")
    (auto simp: spelled_def classifyPercentOperand_def Temp_def StackSlotPointer_def Param_def hasPrefix_single)

lemma parseValueOperand_spelled:
  assumes "spelled x"
  shows "parseValueOperand (opText x) = Inr x"
proof -
  have w: "trimSpace (opText x) = opText x" "opText x \<noteq> []"
    using assms isWord_tight by (auto simp: spelled_def isWord_def)
  show ?thesis
    using w assms classifyPercentOperand_spelled [OF assms]
    by (cases "opKind x"; cases "opText x")
      (auto simp: spelled_def parseValueOperand_def Let_def FunctionSymbol_def Label_def Immediate_def)
qed

lemma mapE_spelled: "list_all spelled xs \<Longrightarrow> mapE parseValueOperand (map opText xs) = Inr xs"
  by (induction xs) (auto simp: parseValueOperand_spelled)

section \<open>One instruction\<close>

lemma hasSuffix_last: "t \<noteq> [] \<Longrightarrow> hasSuffix (s @ t) [c] \<longleftrightarrow> last t = c"
  by (simp add: hasSuffix_snoc)

lemma labelWord_facts:
  assumes "labelWord l"
  shows "tight l" "l \<noteq> []" "hasPrefix l ''.L''" "last l \<noteq> CHR '':''" "CHR '','' \<notin> set l"
proof -
  show "tight l" "l \<noteq> []" "hasPrefix l ''.L''" "CHR '','' \<notin> set l"
    using assms isWord_tight isWord_notin by (auto simp: labelWord_def isWord_def)
  have "CHR '':'' \<notin> set l" using assms isWord_notin by (simp add: labelWord_def)
  then show "last l \<noteq> CHR '':''" using \<open>l \<noteq> []\<close> by (metis last_in_set)
qed

lemma spelled_facts:
  assumes "spelled x"
  shows "tight (opText x)" "opText x \<noteq> []" "last (opText x) \<noteq> CHR '':''" "CHR '','' \<notin> set (opText x)"
    "CHR ''='' \<notin> set (opText x)"
proof -
  have w: "isWord (opText x)" using assms by (simp add: spelled_def)
  then show "tight (opText x)" "opText x \<noteq> []" "CHR '','' \<notin> set (opText x)" "CHR ''='' \<notin> set (opText x)"
    using isWord_tight isWord_notin by (auto simp: isWord_def)
  have "CHR '':'' \<notin> set (opText x)" using isWord_notin [OF w] by simp
  then show "last (opText x) \<noteq> CHR '':''" using \<open>opText x \<noteq> []\<close> by (metis last_in_set)
qed

lemma parse_label: "labelWord l \<Longrightarrow> parseInstruction (l @ '':'') = Inr ((newInst InstructionLabel)\<lparr>instLabel := l\<rparr>)"
  using labelWord_facts [of l] by (simp add: parseInstruction_def)

lemma parse_jmp: "labelWord l \<Longrightarrow> parseInstruction (''jmp '' @ l) = Inr ((newInst InstructionJmp)\<lparr>trueLabel := Label l\<rparr>)"
  using labelWord_facts [of l] trimPrefix_append [of "''jmp ''" l]
  by (simp add: parseInstruction_def hasSuffix_snoc del: trimPrefix_append)

lemma parse_br:
  assumes "spelled c" "labelWord l" "labelWord k"
  shows "parseInstruction (''br '' @ opText c @ '', '' @ l @ '', '' @ k)
    = Inr ((newInst InstructionBr)\<lparr>condition := c, trueLabel := Label l, falseLabel := Label k\<rparr>)"
proof -
  note L = labelWord_facts [OF assms(2)] labelWord_facts [OF assms(3)] spelled_facts [OF assms(1)]
  define body where "body = opText c @ '', '' @ l @ '', '' @ k"
  have b: "body = joinStr '', '' [opText c, l, k]" by (simp add: body_def)
  have "tight body" unfolding b using L by (intro tight_join) auto
  moreover have "splitCommaSeparated body = [opText c, l, k]"
    unfolding b using L by (intro splitCommaSeparated_join) auto
  moreover have "last body = last k" "body \<noteq> []" using L by (simp_all add: body_def)
  ultimately show ?thesis
    using L parseValueOperand_spelled [OF assms(1)] trimPrefix_append [of "''br ''" body]
    unfolding body_def [symmetric]
    by (simp add: parseInstruction_def hasSuffix_snoc del: trimPrefix_append)
qed

lemma parse_ret: "parseInstruction ''ret'' = Inr (newInst InstructionRet)"
  using trimPrefix_append [of "''ret''" "[]"] by (simp add: parseInstruction_def hasSuffix_snoc)

lemma parse_ret_value:
  assumes "spelled x"
  shows "parseInstruction (''ret '' @ opText x)
    = Inr ((newInst InstructionRet)\<lparr>hasReturnValue := True, returnValue := x\<rparr>)"
  using spelled_facts [OF assms] parseValueOperand_spelled [OF assms] trimPrefix_append [of "''ret''" "'' '' @ opText x"]
  by (simp add: parseInstruction_def hasSuffix_snoc del: trimPrefix_append)

lemma opcodeString_word:
  assumes "op \<in> set namedOpcodes"
  shows "isWord (opcodeString op)" "ParseOpcode (opcodeString op) = (op, True, False)"
    "\<not> hasPrefix (opcodeString op @ s) ''jmp ''" "\<not> hasPrefix (opcodeString op @ s) ''br ''"
    "\<not> hasPrefix (opcodeString op @ s) ''ret''"
proof -
  show "ParseOpcode (opcodeString op) = (op, True, False)" using assms by (simp add: ParseOpcode_opcodeString)
  show "isWord (opcodeString op)" "\<not> hasPrefix (opcodeString op @ s) ''jmp ''"
    "\<not> hasPrefix (opcodeString op @ s) ''br ''" "\<not> hasPrefix (opcodeString op @ s) ''ret''"
    using assms by (auto simp: namedOpcodes_def opcodeString_def isWord_def wordChar_def inkChar_def)
qed

lemma verified_named:
  "VerifyInstruction i = Inr () \<Longrightarrow> instKind i = InstructionOp \<Longrightarrow> instOpcode i \<in> set namedOpcodes"
  by (auto simp: VerifyInstruction_def verifyOpcodeOperands_def Let_def bindE_eq_Inr namedOpcodes_def
      binaryOpcodes_def unaryOpcodes_def split: if_splits)

lemma opcodeOperandList_spelled:
  "list_all spelled ops \<Longrightarrow> op \<noteq> OpcodeAlloca \<Longrightarrow> (op = OpcodeLoad \<or> op = OpcodeStore \<longrightarrow> \<not> isFirst) \<Longrightarrow>
     opcodeOperandList op isFirst (map opText ops) = Inr ops"
  by (induction ops arbitrary: isFirst) (auto simp: parseValueOperand_spelled)

lemma opcodeOperandList_alloca:
  "list_all (\<lambda>x. isWord (opText x) \<and> opKind x = OperandImmediate) ops \<Longrightarrow>
     opcodeOperandList OpcodeAlloca isFirst (map opText ops) = Inr ops"
  by (induction ops arbitrary: isFirst) (auto simp: Immediate_def)

lemma operandsSpelled_parse:
  assumes "operandsSpelled op ops"
  shows "opcodeOperandList op True (map opText ops) = Inr ops"
proof -
  consider (slot) "op = OpcodeLoad \<or> op = OpcodeStore" | (alloca) "op = OpcodeAlloca"
    | (other) "op \<notin> {OpcodeLoad, OpcodeStore, OpcodeAlloca}" by auto
  then show ?thesis
  proof cases
    case slot
    then obtain x xs where "ops = x # xs" using assms by (cases ops) (auto simp: operandsSpelled_def)
    then show ?thesis
      using slot assms opcodeOperandList_spelled [of xs op False]
      by (auto simp: operandsSpelled_def StackSlotPointer_def)
  next
    case alloca
    then show ?thesis using assms by (simp add: operandsSpelled_def opcodeOperandList_alloca)
  next
    case other
    then show ?thesis using assms by (intro opcodeOperandList_spelled) (auto simp: operandsSpelled_def)
  qed
qed

lemma operandsSpelled_words: "operandsSpelled op ops \<Longrightarrow> x \<in> set ops \<Longrightarrow> isWord (opText x)"
  by (cases ops) (auto simp: operandsSpelled_def spelled_def list_all_iff split: if_splits)

lemma isWord_separable: "isWord s \<Longrightarrow> tight s \<and> CHR '','' \<notin> set s"
  using isWord_tight isWord_notin by simp

lemma join_words:
  assumes "\<forall>x \<in> set xs. isWord (opText x)"
  shows "splitCommaSeparated (joinStr '', '' (map opText xs)) = map opText xs"
    and "xs \<noteq> [] \<Longrightarrow> tight (joinStr '', '' (map opText xs))"
    and "c \<notin> set '', '' \<Longrightarrow> \<not> wordChar c \<Longrightarrow> c \<notin> set (joinStr '', '' (map opText xs))"
  using assms set_join [of "'', ''" "map opText xs"] isWord_separable isWord_notin
  by (auto intro!: splitCommaSeparated_join tight_join)

lemma parse_call_operands:
  assumes "isWord callee" "hasPrefix callee ''@''" "list_all spelled args"
  shows "parseCallOperands (callee @ ''('' @ joinStr '', '' (map opText args) @ '')'') = Inr (callee, args)"
proof -
  define body where "body = joinStr '', '' (map opText args)"
  define raw where "raw = callee @ CHR ''('' # body @ '')''"
  have words: "\<forall>x \<in> set args. isWord (opText x)" using assms(3) by (simp add: list_all_iff spelled_def)
  have c: "tight callee" "callee \<noteq> []" using isWord_tight [OF assms(1)] assms(1) by (auto simp: isWord_def)
  have "tight raw" using c by (simp add: raw_def tight_def)
  then have tr: "trimSpace raw = raw" by simp
  have opn: "indexStr raw ''('' = Some (length callee)"
    unfolding raw_def using isWord_notin [OF assms(1)] by (intro indexStr_char) simp
  have "raw = (callee @ CHR ''('' # body) @ CHR '')'' # []" by (simp add: raw_def)
  then have cls: "lastIndexChar raw CHR '')'' = Some (length callee + 1 + length body)"
    using lastIndexChar_append [of "CHR '')''" "[]" "callee @ CHR ''('' # body"] by simp
  have parts: "take (length callee) raw = callee" "drop (length callee + 1 + length body + 1) raw = []"
    "take (length callee + 1 + length body - (length callee + 1)) (drop (length callee + 1) raw) = body"
    by (simp_all add: raw_def)
  have "parseCallOperands raw = (if trimSpace body = [] then Inr (callee, [])
      else bindE (mapE parseValueOperand (splitCommaSeparated (trimSpace body))) (\<lambda>args. Inr (callee, args)))"
    unfolding parseCallOperands_def Let_def tr opn cls prod.case option.case parts
    using c assms(2) by simp
  also have "\<dots> = Inr (callee, args)"
  proof (cases args)
    case Nil
    then show ?thesis by (simp add: body_def)
  next
    case (Cons a as)
    then have "tight body" using join_words(2) [OF words] by (simp add: body_def)
    then have "trimSpace body = body" "body \<noteq> []" by (simp_all add: tight_def)
    moreover have "splitCommaSeparated body = map opText args" using join_words(1) [OF words] by (simp add: body_def)
    ultimately show ?thesis using mapE_spelled [OF assms(3)] by simp
  qed
  finally show ?thesis by (simp add: raw_def body_def)
qed

text \<open>The operation without its destination, as the writer spells it.\<close>

definition operationText :: "instruction \<Rightarrow> string" where
  "operationText inst = opcodeString (instOpcode inst)
     @ (if instOpcode inst = OpcodeCall then '' '' @ formatCallInstructionOperands inst
        else if operands inst \<noteq> [] then '' '' @ formatOperands (operands inst) else [])"

lemma formatCall_eq:
  "formatCallInstructionOperands inst = callCallee inst @ ''('' @ joinStr '', '' (map opText (callArgs inst)) @ '')''"
  by (simp add: formatCallInstructionOperands_def)

lemma unchanged_fields:
  "operands i = xs \<Longrightarrow> i\<lparr>operands := xs\<rparr> = i" "callCallee i = c \<Longrightarrow> i\<lparr>callCallee := c\<rparr> = i"
  "callArgs i = xs \<Longrightarrow> i\<lparr>callArgs := xs\<rparr> = i"
  by (cases i; simp)+

lemma parse_operation:
  assumes p: "printable inst" "instKind inst = InstructionOp"
    and i0: "inst = inst0\<lparr>instOpcode := instOpcode inst, operands := operands inst, callCallee := callCallee inst,
               callArgs := callArgs inst\<rparr>"
    and fresh: "operands inst0 = []" "callCallee inst0 = []" "callArgs inst0 = []"
  shows "parseOperation inst0 (operationText inst) = Inr inst"
proof -
  define op where "op = instOpcode inst"
  define rest where "rest = (if op = OpcodeCall then '' '' @ formatCallInstructionOperands inst
        else if operands inst \<noteq> [] then '' '' @ formatOperands (operands inst) else [])"
  have v: "VerifyInstruction inst = Inr ()" using p by (simp add: printable_def)
  have named: "op \<in> set namedOpcodes" using verified_named [OF v p(2)] by (simp add: op_def)
  note O = opcodeString_word(1,2) [OF named]
  have optext: "operationText inst = opcodeString op @ rest" by (simp add: operationText_def op_def rest_def)
  have "rest = [] \<or> (\<exists>t. rest = CHR '' '' # t)" by (simp add: rest_def)
  then obtain ws where f: "goFields (opcodeString op @ rest) = opcodeString op # ws"
    using goFields_word [OF O(1)] by blast
  have P: "parseOperation inst0 (operationText inst) =
      (if op = OpcodeCall then
         bindE (parseCallOperands (trimSpace rest)) (\<lambda>(callee, args).
           Inr (inst0\<lparr>instOpcode := op, callCallee := callee, callArgs := args\<rparr>))
       else if trimSpace rest \<noteq> [] then
         bindE (parseOpcodeOperands op (trimSpace rest)) (\<lambda>ops. Inr (inst0\<lparr>instOpcode := op, operands := ops\<rparr>))
       else Inr (inst0\<lparr>instOpcode := op\<rparr>))"
    unfolding optext parseOperation_def f using O(2) by (simp add: Let_def)
  show ?thesis
  proof (cases "op = OpcodeCall")
    case True
    have w: "isWord (callCallee inst)" "list_all spelled (callArgs inst)"
      using p True by (auto simp: printable_def op_def)
    have sym: "hasPrefix (callCallee inst) ''@''" "operands inst = []"
      using v p(2) True
      by (auto simp: VerifyInstruction_def verifyOpcodeOperands_def Let_def bindE_eq_Inr op_def isFunctionSymbol_def
          hasPrefix_single binaryOpcodes_def unaryOpcodes_def)
    have "tight (formatCallInstructionOperands inst)"
      using isWord_tight [OF w(1)] by (simp add: formatCall_eq tight_def)
    then have "trimSpace rest = formatCallInstructionOperands inst" using True by (simp add: rest_def)
    then have "parseOperation inst0 (operationText inst)
        = Inr (inst0\<lparr>instOpcode := op, callCallee := callCallee inst, callArgs := callArgs inst\<rparr>)"
      using P True parse_call_operands [OF w(1) sym(1) w(2)] by (simp add: formatCall_eq)
    also have "inst0\<lparr>instOpcode := op, callCallee := callCallee inst, callArgs := callArgs inst\<rparr> = inst"
      by (subst (3) i0) (simp add: sym(2) op_def unchanged_fields fresh)
    finally show ?thesis .
  next
    case False
    have s: "callCallee inst = []" "callArgs inst = []" "operandsSpelled op (operands inst)"
      using p False by (auto simp: printable_def op_def)
    show ?thesis
    proof (cases "operands inst = []")
      case True
      then have "parseOperation inst0 (operationText inst) = Inr (inst0\<lparr>instOpcode := op\<rparr>)"
        using P False by (simp add: rest_def)
      also have "inst0\<lparr>instOpcode := op\<rparr> = inst"
        by (subst i0) (simp add: True s op_def unchanged_fields fresh)
      finally show ?thesis .
    next
      case ne: False
      have words: "\<forall>x \<in> set (operands inst). isWord (opText x)" using operandsSpelled_words [OF s(3)] by blast
      have "tight (formatOperands (operands inst))" unfolding formatOperands_def using join_words(2) [OF words ne] .
      then have "trimSpace rest = formatOperands (operands inst)" "formatOperands (operands inst) \<noteq> []"
        using False ne by (simp_all add: rest_def tight_def)
      moreover have "parseOpcodeOperands op (formatOperands (operands inst)) = Inr (operands inst)"
        unfolding parseOpcodeOperands_def formatOperands_def join_words(1) [OF words] by (rule operandsSpelled_parse [OF s(3)])
      ultimately have "parseOperation inst0 (operationText inst) = Inr (inst0\<lparr>instOpcode := op, operands := operands inst\<rparr>)"
        using P False by simp
      also have "inst0\<lparr>instOpcode := op, operands := operands inst\<rparr> = inst"
        by (subst (2) i0) (simp add: s op_def unchanged_fields fresh)
      finally show ?thesis .
    qed
  qed
qed

lemma wordChar_line: "wordChar c \<Longrightarrow> lineChar c"
  by (auto simp: wordChar_def lineChar_def)

lemma isWord_line: "isWord s \<Longrightarrow> list_all lineChar s"
  using wordChar_line by (auto simp: isWord_def list_all_iff)

lemma lineChar_simps [simp]:
  "lineChar CHR '' ''" "lineChar CHR '',''" "lineChar CHR ''(''" "lineChar CHR '')''" "lineChar CHR ''=''"
  "lineChar CHR '':''" "lineChar CHR ''{''" "lineChar CHR ''}''" "lineChar CHR ''-''" "lineChar CHR ''>''"
  "lineChar CHR ''j''" "lineChar CHR ''m''" "lineChar CHR ''p''" "lineChar CHR ''b''" "lineChar CHR ''r''"
  "lineChar CHR ''e''" "lineChar CHR ''t''" "lineChar CHR ''f''" "lineChar CHR ''u''" "lineChar CHR ''n''"
  "lineChar CHR ''c''"
  by (simp_all add: lineChar_def inkChar_def)

lemma join_line_sep: "list_all lineChar sep \<Longrightarrow> \<forall>s \<in> set ss. list_all lineChar s \<Longrightarrow> list_all lineChar (joinStr sep ss)"
  by (induction sep ss rule: joinStr.induct) auto

lemma join_line: "\<forall>s \<in> set ss. list_all lineChar s \<Longrightarrow> list_all lineChar (joinStr '', '' ss)"
  by (rule join_line_sep) simp_all

lemma operationText_facts:
  assumes p: "printable inst" "instKind inst = InstructionOp"
  shows "tight (operationText inst)" "list_all lineChar (operationText inst)"
    "CHR ''='' \<notin> set (operationText inst)" "last (operationText inst) \<noteq> CHR '':''"
proof -
  define op where "op = instOpcode inst"
  have v: "VerifyInstruction inst = Inr ()" using p by (simp add: printable_def)
  have named: "op \<in> set namedOpcodes" using verified_named [OF v p(2)] by (simp add: op_def)
  note O = opcodeString_word(1) [OF named]
  note o = isWord_tight [OF O] isWord_line [OF O] isWord_notin [OF O, of "CHR ''=''"] isWord_notin [OF O, of "CHR '':''"]
  consider (call) "op = OpcodeCall" | (bare) "op \<noteq> OpcodeCall" "operands inst = []"
    | (args) "op \<noteq> OpcodeCall" "operands inst \<noteq> []" by blast
  then have "tight (operationText inst) \<and> list_all lineChar (operationText inst)
    \<and> CHR ''='' \<notin> set (operationText inst) \<and> last (operationText inst) \<noteq> CHR '':''"
  proof cases
    case call
    have w: "isWord (callCallee inst)" "list_all spelled (callArgs inst)"
      using p call by (auto simp: printable_def op_def)
    have words: "\<forall>x \<in> set (callArgs inst). isWord (opText x)" using w(2) by (simp add: list_all_iff spelled_def)
    have "operationText inst = opcodeString op @ '' '' @ callCallee inst @ ''('' @ joinStr '', '' (map opText (callArgs inst)) @ '')''"
      using call by (simp add: operationText_def op_def formatCall_eq)
    then show ?thesis
      using o isWord_line [OF w(1)] isWord_notin [OF w(1), of "CHR ''=''"] join_words(3) [OF words, of "CHR ''=''"]
        join_line [of "map opText (callArgs inst)"] isWord_line words
      by (auto simp: tight_def)
  next
    case bare
    have "operationText inst = opcodeString op" using bare by (simp add: operationText_def op_def)
    moreover have "last (opcodeString op) \<noteq> CHR '':''" using o by (metis last_in_set not_wordChar(4) tight_def)
    ultimately show ?thesis using o by auto
  next
    case args
    have s: "operandsSpelled op (operands inst)" using p args(1) by (auto simp: printable_def op_def)
    have words: "\<forall>x \<in> set (operands inst). isWord (opText x)" using operandsSpelled_words [OF s] by blast
    define j where "j = joinStr '', '' (map opText (operands inst))"
    have j: "tight j" "CHR ''='' \<notin> set j" "CHR '':'' \<notin> set j" "list_all lineChar j"
      using join_words(2) [OF words args(2)] join_words(3) [OF words, of "CHR ''=''"] join_words(3) [OF words, of "CHR '':''"]
        join_line [of "map opText (operands inst)"] isWord_line words by (auto simp: j_def)
    have "operationText inst = opcodeString op @ '' '' @ j"
      using args by (simp add: operationText_def op_def formatOperands_def j_def)
    moreover have "last j \<noteq> CHR '':''" using j by (metis last_in_set tight_def)
    ultimately show ?thesis using o j by (auto simp: tight_def)
  qed
  then show "tight (operationText inst)" "list_all lineChar (operationText inst)"
    "CHR ''='' \<notin> set (operationText inst)" "last (operationText inst) \<noteq> CHR '':''" by simp_all
qed

lemma parse_op_line:
  assumes p: "printable inst" "instKind inst = InstructionOp"
  defines "line \<equiv> (if hasDestination inst then opText (destination inst) @ '' = '' @ operationText inst else operationText inst)"
  shows "parseInstruction line = Inr inst \<and> tight line \<and> list_all lineChar line"
proof -
  note R = operationText_facts [OF p]
  have R_ne: "operationText inst \<noteq> []" using R(1) by (simp add: tight_def)
  show ?thesis
  proof (cases "hasDestination inst")
    case True
    define D where "D = opText (destination inst)"
    have sp: "spelled (destination inst)" "hasPrefix D ''%''"
      using p True by (auto simp: printable_def D_def)
    note d = spelled_facts [OF sp(1), folded D_def]
    have line: "line = (D @ '' '') @ CHR ''='' # '' '' @ operationText inst"
      using True by (simp add: line_def D_def)
    have start: "\<not> hasPrefix line ''jmp ''" "\<not> hasPrefix line ''br ''" "\<not> hasPrefix line ''ret ''" "line \<noteq> ''ret''"
      using sp(2) d(2) by (cases D; simp add: line)+
    have "\<not> hasSuffix line '':''" using R(4) R_ne by (simp add: line hasSuffix_snoc)
    moreover have ix: "indexStr line ''='' = Some (length D + 1)"
      unfolding line using d(5) indexStr_char [of "CHR ''=''" "D @ '' ''"] by simp
    moreover have "trimSpace (take (length D + 1) line) = D" "trimSpace (drop (length D + 1 + 1) line) = operationText inst"
      using d(1) R(1) by (simp_all add: line)
    ultimately have "parseInstruction line =
        parseOperation ((newInst InstructionOp)\<lparr>hasDestination := True, destination := destination inst\<rparr>) (operationText inst)"
      using start sp classifyPercentOperand_spelled [OF sp(1)]
      by (simp add: parseInstruction_def Let_def D_def del: take_append drop_append)
    also have "\<dots> = Inr inst"
    proof (rule parse_operation [OF p])
      have "inst = (newInst InstructionOp)\<lparr>hasDestination := hasDestination inst, destination := destination inst,
                     instOpcode := instOpcode inst, operands := operands inst, callCallee := callCallee inst,
                     callArgs := callArgs inst\<rparr>"
        using p by (simp add: printable_def)
      then show "inst = newInst InstructionOp\<lparr>hasDestination := True, destination := destination inst,
          instOpcode := instOpcode inst, operands := operands inst, callCallee := callCallee inst, callArgs := callArgs inst\<rparr>"
        using True by simp
    qed simp_all
    finally show ?thesis
      using d R isWord_line [of D] sp(1) R_ne by (auto simp: line tight_def spelled_def D_def)
  next
    case False
    have line: "line = operationText inst" using False by (simp add: line_def)
    have v: "VerifyInstruction inst = Inr ()" using p by (simp add: printable_def)
    have named: "instOpcode inst \<in> set namedOpcodes" using verified_named [OF v p(2)] .
    have "\<not> hasPrefix line ''jmp ''" "\<not> hasPrefix line ''br ''" "\<not> hasPrefix line ''ret''"
      using opcodeString_word(3-5) [OF named] by (simp_all add: line operationText_def)
    moreover from this have "\<not> hasPrefix line ''ret ''" "line \<noteq> ''ret''"
      using hasPrefix_trans [of line "''ret ''" "''ret''"] by auto
    moreover have "\<not> hasSuffix line '':''" using R(4) R_ne by (simp add: line hasSuffix_snoc)
    moreover have "indexStr line ''='' = None" using R(3) by (simp add: line indexStr_char_None)
    ultimately have "parseInstruction line = parseOperation (newInst InstructionOp) (operationText inst)"
      by (simp add: parseInstruction_def line)
    also have "\<dots> = Inr inst"
    proof (rule parse_operation [OF p])
      have "inst = (newInst InstructionOp)\<lparr>hasDestination := hasDestination inst, destination := destination inst,
                     instOpcode := instOpcode inst, operands := operands inst, callCallee := callCallee inst,
                     callArgs := callArgs inst\<rparr>"
        using p by (simp add: printable_def)
      moreover have "destination inst = zeroOperand" using p False by (simp add: printable_def)
      ultimately show "inst = newInst InstructionOp\<lparr>instOpcode := instOpcode inst, operands := operands inst,
          callCallee := callCallee inst, callArgs := callArgs inst\<rparr>"
        using False by (simp add: newInst_def)
    qed simp_all
    finally show ?thesis using R by (simp add: line)
  qed
qed

lemma format_parse:
  assumes "printable inst"
  obtains line where "formatInstruction inst = Inr line" "parseInstruction line = Inr inst" "tight line"
    "list_all lineChar line" "line \<noteq> ''}''"
proof -
  have v: "VerifyInstruction inst = Inr ()" using assms by (simp add: printable_def)
  have "\<exists>line. formatInstruction inst = Inr line \<and> parseInstruction line = Inr inst \<and> tight line \<and> list_all lineChar line"
  proof (cases "instKind inst")
    case InstructionLabel
    have l: "labelWord (instLabel inst)" "inst = (newInst InstructionLabel)\<lparr>instLabel := instLabel inst\<rparr>"
      using assms InstructionLabel by (simp_all add: printable_def)
    have "formatInstruction inst = Inr (instLabel inst @ '':'')" using InstructionLabel by (simp add: formatInstruction_def)
    moreover have "tight (instLabel inst @ '':'')" "list_all lineChar (instLabel inst @ '':'')"
      using labelWord_facts [OF l(1)] l(1) isWord_line by (auto simp: tight_def labelWord_def)
    ultimately show ?thesis using parse_label [OF l(1)] l(2) by simp
  next
    case InstructionJmp
    have l: "labelWord (opText (trueLabel inst))" "inst = (newInst InstructionJmp)\<lparr>trueLabel := Label (opText (trueLabel inst))\<rparr>"
      using assms InstructionJmp by (simp_all add: printable_def)
    have "formatInstruction inst = Inr (''jmp '' @ opText (trueLabel inst))"
      using InstructionJmp by (simp add: formatInstruction_def)
    moreover have "tight (''jmp '' @ opText (trueLabel inst))" "list_all lineChar (''jmp '' @ opText (trueLabel inst))"
      using labelWord_facts [OF l(1)] l(1) isWord_line by (auto simp: tight_def labelWord_def)
    ultimately show ?thesis using parse_jmp [OF l(1)] l(2) by simp
  next
    case InstructionBr
    have l: "spelled (condition inst)" "labelWord (opText (trueLabel inst))" "labelWord (opText (falseLabel inst))"
      "inst = (newInst InstructionBr)\<lparr>condition := condition inst, trueLabel := Label (opText (trueLabel inst)),
          falseLabel := Label (opText (falseLabel inst))\<rparr>"
      using assms InstructionBr by (simp_all add: printable_def)
    define line where "line = ''br '' @ opText (condition inst) @ '', '' @ opText (trueLabel inst) @ '', '' @ opText (falseLabel inst)"
    have "formatInstruction inst = Inr line" using InstructionBr by (simp add: formatInstruction_def line_def)
    moreover have "tight line" "list_all lineChar line"
      using labelWord_facts [OF l(3)] l(1-3) isWord_line by (auto simp: tight_def labelWord_def spelled_def line_def)
    ultimately show ?thesis using parse_br [OF l(1-3), folded line_def] l(4) by simp
  next
    case InstructionRet
    show ?thesis
    proof (cases "hasReturnValue inst")
      case True
      have l: "spelled (returnValue inst)"
        "inst = (newInst InstructionRet)\<lparr>hasReturnValue := True, returnValue := returnValue inst\<rparr>"
        using assms InstructionRet True by (simp_all add: printable_def)
      have "formatInstruction inst = Inr (''ret '' @ opText (returnValue inst))"
        using InstructionRet True by (simp add: formatInstruction_def)
      moreover have "tight (''ret '' @ opText (returnValue inst))" "list_all lineChar (''ret '' @ opText (returnValue inst))"
        using spelled_facts [OF l(1)] l(1) isWord_line by (auto simp: tight_def spelled_def)
      ultimately show ?thesis using parse_ret_value [OF l(1)] l(2) by simp
    next
      case False
      then have "inst = newInst InstructionRet" using assms InstructionRet by (simp add: printable_def)
      moreover have "formatInstruction inst = Inr ''ret''" using InstructionRet False by (simp add: formatInstruction_def)
      ultimately show ?thesis using parse_ret by (simp add: tight_def inkChar_def)
    qed
  next
    case InstructionOp
    have "formatInstruction inst
      = Inr (if hasDestination inst then opText (destination inst) @ '' = '' @ operationText inst else operationText inst)"
      using InstructionOp by (simp add: formatInstruction_def operationText_def Let_def)
    then show ?thesis using parse_op_line [OF assms InstructionOp] by blast
  next
    case (InstructionUnknown k)
    then show ?thesis using v by (simp add: VerifyInstruction_def)
  qed
  then obtain line where l: "formatInstruction inst = Inr line" "parseInstruction line = Inr inst" "tight line"
    "list_all lineChar line" by blast
  have "\<not> isOk (parseInstruction ''}'')" by code_simp
  then have "line \<noteq> ''}''" using l(2) by auto
  then show thesis using l that by blast
qed

section \<open>Bodies\<close>

lemma parse_written_body:
  assumes "\<forall>i \<in> set insts. printable i" "distinct (labelsOf insts)" "distinct (destTexts insts)"
    "set (labelsOf insts) \<inter> dl = {}" "set (destTexts insts) \<inter> dd = {}"
  shows "\<exists>lines m. mapE writeInstruction insts = Inr lines
    \<and> parseBody \<lparr>rdRest = concat lines @ ''}'' @ newline # rest, rdLine = n\<rparr> fn dl ul dd
      = Inr (fn\<lparr>instructions := instructions fn @ insts\<rparr>, dl \<union> set (labelsOf insts),
             ul \<union> (\<Union>i \<in> set insts. set (targetsOf i)), \<lparr>rdRest = rest, rdLine = m\<rparr>)"
  using assms
proof (induction insts arbitrary: fn dl ul dd n)
  case Nil
  have "nextLogicalLine \<lparr>rdRest = [] @ ''}'' @ newline # rest, rdLine = n\<rparr> = (Some ''}'', \<lparr>rdRest = rest, rdLine = n + 1\<rparr>)"
    by (rule nextLogicalLine_line) (simp_all add: tight_def)
  then show ?case by (subst parseBody.simps) simp
next
  case (Cons i insts)
  have p: "printable i" using Cons.prems(1) by simp
  have v: "VerifyInstruction i = Inr ()" using p by (simp add: printable_def)
  obtain line where l: "formatInstruction i = Inr line" "parseInstruction line = Inr i" "tight line"
    "list_all lineChar line" "line \<noteq> ''}''" by (rule format_parse [OF p])
  define fn' where "fn' = fn\<lparr>instructions := instructions fn @ [i]\<rparr>"
  define dl' where "dl' = (if instKind i = InstructionLabel then insert (instLabel i) dl else dl)"
  define dd' where "dd' = (if hasDestination i then insert (opText (destination i)) dd else dd)"
  have dt: "destTexts (i # insts) = (if hasDestination i then opText (destination i) # destTexts insts else destTexts insts)"
    by (simp add: destTexts_def)
  have "distinct (labelsOf insts)" "distinct (destTexts insts)" "set (labelsOf insts) \<inter> dl' = {}"
    "set (destTexts insts) \<inter> dd' = {}"
    using Cons.prems by (auto simp: dl'_def dd'_def dt split: if_splits)
  then obtain lines m where m: "mapE writeInstruction insts = Inr lines"
    "parseBody \<lparr>rdRest = concat lines @ ''}'' @ newline # rest, rdLine = n + 1\<rparr> fn' dl' (ul \<union> set (targetsOf i)) dd'
      = Inr (fn'\<lparr>instructions := instructions fn' @ insts\<rparr>, dl' \<union> set (labelsOf insts),
             ul \<union> set (targetsOf i) \<union> (\<Union>i \<in> set insts. set (targetsOf i)), \<lparr>rdRest = rest, rdLine = m\<rparr>)"
    using Cons.IH [of dl' dd' "n + 1" fn' "ul \<union> set (targetsOf i)"] Cons.prems(1) by auto
  define text' where "text' = concat lines @ ''}'' @ newline # rest"
  have w: "writeInstruction i = Inr (''  '' @ line @ [newline])" using l v by (simp add: writeInstruction_def)
  have nl: "nextLogicalLine \<lparr>rdRest = ''  '' @ line @ newline # text', rdLine = n\<rparr> = (Some line, \<lparr>rdRest = text', rdLine = n + 1\<rparr>)"
    using l by (intro nextLogicalLine_line) simp_all
  have fresh: "\<not> (instKind i = InstructionLabel \<and> instLabel i \<in> dl)" "\<not> (hasDestination i \<and> opText (destination i) \<in> dd)"
    using Cons.prems by (auto simp: dt)
  have "parseBody \<lparr>rdRest = ''  '' @ line @ newline # text', rdLine = n\<rparr> fn dl ul dd
      = parseBody \<lparr>rdRest = text', rdLine = n + 1\<rparr> fn' dl' (ul \<union> set (targetsOf i)) dd'"
    by (subst parseBody.simps)
      (simp only: nl l(2) v prod.case option.case mapErr_simps bindE_simps if_not_P [OF l(5)] if_not_P [OF fresh(1)]
        if_not_P [OF fresh(2)] fn'_def dl'_def dd'_def textReader.select_convs)
  also have "\<dots> = Inr (fn\<lparr>instructions := instructions fn @ i # insts\<rparr>, dl \<union> set (labelsOf (i # insts)),
      ul \<union> (\<Union>i \<in> set (i # insts). set (targetsOf i)), \<lparr>rdRest = rest, rdLine = m\<rparr>)"
    using m(2) by (auto simp: text'_def fn'_def dl'_def)
  finally show ?case using w m(1) by (auto simp: text'_def)
qed

section \<open>Function headers\<close>

definition printableParam :: "parameter \<Rightarrow> bool" where
  "printableParam q \<longleftrightarrow> isWord (paramName q) \<and> hasPrefix (paramName q) ''%'' \<and> isWord (paramType q)"

definition paramText :: "parameter \<Rightarrow> string" where
  "paramText q = paramName q @ '':'' @ paramType q"

lemma paramText_facts:
  assumes "printableParam q"
  shows "tight (paramText q)" "CHR '','' \<notin> set (paramText q)" "list_all lineChar (paramText q)"
    "CHR ''>'' \<notin> set (paramText q)" "splitOn CHR '':'' (paramText q) = [paramName q, paramType q]"
proof -
  have w: "isWord (paramName q)" "isWord (paramType q)" using assms by (simp_all add: printableParam_def)
  note n = isWord_tight [OF w(1)] isWord_tight [OF w(2)] isWord_line [OF w(1)] isWord_line [OF w(2)]
  show "tight (paramText q)" using n by (simp add: paramText_def tight_def)
  show "list_all lineChar (paramText q)" using n by (simp add: paramText_def)
  show "CHR '','' \<notin> set (paramText q)" "CHR ''>'' \<notin> set (paramText q)"
    using isWord_notin [OF w(1)] isWord_notin [OF w(2)] by (simp_all add: paramText_def)
  have "CHR '':'' \<notin> set (paramName q)" "CHR '':'' \<notin> set (paramType q)"
    using isWord_notin [OF w(1)] isWord_notin [OF w(2)] by simp_all
  then show "splitOn CHR '':'' (paramText q) = [paramName q, paramType q]"
    by (simp add: paramText_def splitOn_append splitOn_notin)
qed

lemma parseParamParts_texts:
  assumes "\<forall>q \<in> set qs. printableParam q" "list_all2 (\<lambda>part q. trimSpace part = paramText q) parts qs"
  shows "parseParamParts parts = Inr qs"
  using assms(2,1)
proof (induction rule: list_all2_induct)
  case Nil
  then show ?case by simp
next
  case (Cons part parts q qs)
  then have q: "printableParam q" by simp
  have "trimSpace (paramName q) = paramName q" "trimSpace (paramType q) = paramType q" "paramType q \<noteq> []"
    "hasPrefix (paramName q) ''%''"
    using q isWord_tight by (auto simp: printableParam_def isWord_def)
  then show ?case using Cons paramText_facts(5) [OF q] by simp
qed

lemma parseParams_texts:
  assumes "\<forall>q \<in> set qs. printableParam q"
  shows "parseParams (formatParams qs) = Inr qs"
proof (cases qs)
  case Nil
  then show ?thesis by (simp add: formatParams_def parseParams_def)
next
  case (Cons q rs)
  have eq: "formatParams qs = joinStr '', '' (paramText q # map paramText rs)"
    by (simp add: formatParams_def Cons paramText_def [abs_def])
  have f: "\<forall>r \<in> set qs. tight (paramText r) \<and> CHR '','' \<notin> set (paramText r)"
    using assms paramText_facts by blast
  have "splitOn CHR '','' (formatParams qs) = paramText q # map ((#) CHR '' '') (map paramText rs)"
    unfolding eq using f Cons by (intro splitOn_join) auto
  moreover have "list_all2 (\<lambda>part r. trimSpace part = paramText r) (paramText q # map ((#) CHR '' '') (map paramText rs)) qs"
    using f by (auto simp: Cons list.rel_map intro!: list.rel_refl_strong)
  then have "parseParamParts (paramText q # map ((#) CHR '' '') (map paramText rs)) = Inr qs"
    by (rule parseParamParts_texts [OF assms])
  moreover have "tight (formatParams qs)" unfolding eq using f Cons by (intro tight_join) auto
  then have "formatParams qs \<noteq> []" by (simp add: tight_def)
  ultimately show ?thesis by (simp only: parseParams_def if_False)
qed

lemma formatParams_facts:
  assumes "\<forall>q \<in> set qs. printableParam q"
  shows "list_all lineChar (formatParams qs)" "CHR ''>'' \<notin> set (formatParams qs)"
    "qs \<noteq> [] \<Longrightarrow> tight (formatParams qs)"
proof -
  have eq: "formatParams qs = joinStr '', '' (map paramText qs)" by (simp add: formatParams_def paramText_def [abs_def])
  show "list_all lineChar (formatParams qs)" unfolding eq using assms paramText_facts by (intro join_line) auto
  show "CHR ''>'' \<notin> set (formatParams qs)"
    unfolding eq using set_join [of "'', ''" "map paramText qs"] assms paramText_facts by auto
  show "qs \<noteq> [] \<Longrightarrow> tight (formatParams qs)" unfolding eq using assms paramText_facts by (intro tight_join) auto
qed

lemma indexStr_arrow: "CHR ''>'' \<notin> set s \<Longrightarrow> indexStr (s @ ''->'' @ t) ''->'' = Some (length s)"
proof (induction s)
  case (Cons c s)
  have "\<not> hasPrefix (s @ ''->'' @ t) ''>''" using Cons.prems by (cases s) auto
  then show ?case using Cons by simp
qed simp

definition headerText :: "tacFunction \<Rightarrow> string" where
  "headerText fn = ''func '' @ fnName fn @ ''('' @ formatParams (parameters fn) @ '') -> '' @ returnType fn @ '' {''"

lemma parse_header:
  assumes n: "isWord (fnName fn)" "hasPrefix (fnName fn) ''@''" and r: "isWord (returnType fn)"
    and ps: "\<forall>q \<in> set (parameters fn). printableParam q"
  shows "parseFunctionHeader (headerText fn)
    = Inr \<lparr>fnName = fnName fn, parameters = parameters fn, returnType = returnType fn, instructions = [], nextTempID = 0\<rparr>"
    and "tight (headerText fn)" "list_all lineChar (headerText fn)"
proof -
  define F where "F = formatParams (parameters fn)"
  define left where "left = fnName fn @ CHR ''('' # F @ '')''"
  define sig where "sig = (left @ '' '') @ ''->'' @ '' '' @ returnType fn"
  note tn = isWord_tight [OF n(1)] and tr = isWord_tight [OF r]
  note P = formatParams_facts [OF ps, folded F_def]
  have ht: "headerText fn = (''func '' @ sig @ '' '') @ ''{''" by (simp add: headerText_def sig_def left_def F_def)
  have tl: "tight left" using tn by (simp add: left_def tight_def)
  have ts: "tight sig" using tn tr by (simp add: sig_def left_def tight_def)
  have w: "trimSpace (trimSuffix (headerText fn) ''{'') = ''func '' @ sig"
    unfolding ht trimSuffix_append using trimSpace_pad [of "''func '' @ sig" "[]" "'' ''"] ts by (simp add: tight_def)
  have s: "trimSpace (trimPrefix (''func '' @ sig) ''func '') = sig"
    unfolding trimPrefix_append using ts by simp
  have "CHR ''>'' \<notin> set (left @ '' '')"
    using P(2) isWord_notin [OF n(1)] by (simp add: left_def)
  then have a: "indexStr sig ''->'' = Some (length (left @ '' ''))" unfolding sig_def by (rule indexStr_arrow)
  have parts: "trimSpace (take (length (left @ '' '')) sig) = left"
    "trimSpace (drop (length (left @ '' '') + 2) sig) = returnType fn"
    using tl tr by (simp_all add: sig_def)
  have opn: "indexStr left ''('' = Some (length (fnName fn))"
    unfolding left_def using isWord_notin [OF n(1)] by (intro indexStr_char) simp
  have cls: "lastIndexChar left CHR '')'' = Some (length (fnName fn) + 1 + length F)"
    using lastIndexChar_append [of "CHR '')''" "[]" "fnName fn @ CHR ''('' # F"] by (simp add: left_def)
  have inner: "trimSpace (take (length (fnName fn)) left) = fnName fn"
    "trimSpace (take (length (fnName fn) + 1 + length F - (length (fnName fn) + 1)) (drop (length (fnName fn) + 1) left)) = F"
    using tn P(3) by (cases "parameters fn = []"; simp add: left_def F_def formatParams_def)+
  have start: "hasPrefix (headerText fn) ''func ''" "hasSuffix (headerText fn) ''{''"
    unfolding ht by (simp, rule hasSuffix_append)
  have ne: "returnType fn \<noteq> []" "fnName fn \<noteq> []" using n r by (auto simp: isWord_def)
  show "parseFunctionHeader (headerText fn)
    = Inr \<lparr>fnName = fnName fn, parameters = parameters fn, returnType = returnType fn, instructions = [], nextTempID = 0\<rparr>"
    unfolding parseFunctionHeader_def Let_def w s a option.case parts opn cls prod.case inner
    using start ne n(2) parseParams_texts [OF ps] by (simp add: F_def)
  show "tight (headerText fn)" by (simp add: headerText_def tight_def)
  show "list_all lineChar (headerText fn)"
    using P(1) isWord_line [OF n(1)] isWord_line [OF r] by (simp add: headerText_def F_def)
qed

section \<open>Modules\<close>

definition printableFunction :: "tacFunction \<Rightarrow> bool" where
  "printableFunction fn \<longleftrightarrow>
     isWord (fnName fn) \<and> hasPrefix (fnName fn) ''@'' \<and> isWord (returnType fn)
     \<and> list_all printableParam (parameters fn) \<and> list_all printable (instructions fn)
     \<and> distinct (destTexts (instructions fn)) \<and> ValidateFunctionIR fn = Inr ()"

definition printableModule :: "tacModule \<Rightarrow> bool" where
  "printableModule m \<longleftrightarrow> list_all printableFunction (modFunctions m) \<and> distinct (map fnName (modFunctions m))"

text \<open>What the text does not carry: the counter of the builder.\<close>

definition resetCounter :: "tacFunction \<Rightarrow> tacFunction" where
  "resetCounter fn = fn\<lparr>nextTempID := 0\<rparr>"

lemma validate_resetCounter: "ValidateFunctionIR (resetCounter fn) = Inr () \<longleftrightarrow> ValidateFunctionIR fn = Inr ()"
  by (simp add: validate_iff resetCounter_def)

lemma written_function:
  assumes p: "printableFunction fn"
  obtains body m where "writeFunction fn = Inr (headerText fn @ newline # body)"
    and "parseFunction \<lparr>rdRest = body @ rest, rdLine = n\<rparr> (headerText fn)
      = Inr (resetCounter fn, \<lparr>rdRest = rest, rdLine = m\<rparr>)"
proof -
  have wf: "wfInstructions (instructions fn)" using p by (simp add: printableFunction_def validate_iff)
  define fn0 where "fn0 = \<lparr>fnName = fnName fn, parameters = parameters fn, returnType = returnType fn,
    instructions = [], nextTempID = 0\<rparr>"
  have params: "\<forall>q \<in> set (parameters fn). printableParam q" using p by (simp add: printableFunction_def list_all_iff)
  have header: "parseFunctionHeader (headerText fn) = Inr fn0"
    using p parse_header(1) [of fn] params by (simp add: printableFunction_def fn0_def)
  obtain lines m where b: "mapE writeInstruction (instructions fn) = Inr lines"
    "parseBody \<lparr>rdRest = concat lines @ ''}'' @ newline # rest, rdLine = n\<rparr> fn0 {} {} {}
      = Inr (fn0\<lparr>instructions := instructions fn0 @ instructions fn\<rparr>, {} \<union> set (labelsOf (instructions fn)),
             {} \<union> (\<Union>i \<in> set (instructions fn). set (targetsOf i)), \<lparr>rdRest = rest, rdLine = m\<rparr>)"
    using parse_written_body [of "instructions fn" "{}" "{}" rest n fn0 "{}"] p wf
    by (auto simp: printableFunction_def wfInstructions_def list_all_iff)
  define body where "body = concat lines @ ''}'' @ [newline]"
  have fn: "fn0\<lparr>instructions := instructions fn0 @ instructions fn\<rparr> = resetCounter fn"
    by (simp add: fn0_def resetCounter_def)
  have used: "(\<Union>i \<in> set (instructions fn). set (targetsOf i)) \<subseteq> set (labelsOf (instructions fn))"
    using wf by (auto simp: wfInstructions_def)
  have "ValidateFunctionIR (resetCounter fn) = Inr ()" using p by (simp add: validate_resetCounter printableFunction_def)
  then have "parseFunction \<lparr>rdRest = body @ rest, rdLine = n\<rparr> (headerText fn)
      = Inr (resetCounter fn, \<lparr>rdRest = rest, rdLine = m\<rparr>)"
    using header b(2) fn used by (simp add: parseFunction_def body_def)
  moreover have "writeFunction fn = Inr (headerText fn @ newline # body)"
    using b(1) by (simp add: writeFunction_def headerText_def body_def)
  ultimately show thesis by (rule that [rotated])
qed

lemma headerText_kind:
  "\<not> hasPrefix (headerText fn) ''.meta ''" "headerText fn \<noteq> ''.tac v1''" "hasPrefix (headerText fn) ''func ''"
  by (simp_all add: headerText_def)

lemma parseLoop_end: "parseLoop \<lparr>rdRest = [], rdLine = n\<rparr> True names m = Inr m"
  by (subst parseLoop.simps) (simp add: nextLogicalLine_end)

lemma parseLoop_newline:
  "parseLoop \<lparr>rdRest = newline # s, rdLine = n\<rparr> seen names m = parseLoop \<lparr>rdRest = s, rdLine = n + 1\<rparr> seen names m"
  by (subst (1 2) parseLoop.simps) (simp add: nextLogicalLine_empty)

lemma parse_written_functions:
  assumes "list_all printableFunction fns" "distinct (map fnName fns)" "fnName ` set fns \<inter> names = {}"
  shows "\<exists>ts. mapE writeFunction fns = Inr ts
    \<and> parseLoop \<lparr>rdRest = joinStr [newline] ts, rdLine = n\<rparr> True names m
      = Inr (m\<lparr>modFunctions := modFunctions m @ map resetCounter fns\<rparr>)"
  using assms
proof (induction fns arbitrary: n names m)
  case Nil
  then show ?case by (simp add: parseLoop_end)
next
  case (Cons fn fns)
  then have p: "printableFunction fn" by simp
  have h: "tight (headerText fn)" "list_all lineChar (headerText fn)"
    using p parse_header(2,3) [of fn] by (auto simp: printableFunction_def list_all_iff)
  define m1 where "m1 = m\<lparr>modFunctions := modFunctions m @ [resetCounter fn]\<rparr>"
  have fname: "fnName (resetCounter fn) = fnName fn" by (simp add: resetCounter_def)
  have add: "AddFunction (resetCounter fn) m = Inr m1"
    using p by (simp add: AddFunction_eq_Inr validate_resetCounter printableFunction_def m1_def)
  have rest: "fnName ` set fns \<inter> insert (fnName fn) names = {}" using Cons.prems by auto
  have step: "\<exists>body m'. writeFunction fn = Inr (headerText fn @ newline # body)
      \<and> parseLoop \<lparr>rdRest = (headerText fn @ newline # body) @ s, rdLine = n\<rparr> True names m
        = parseLoop \<lparr>rdRest = s, rdLine = m'\<rparr> True (insert (fnName fn) names) m1" for s
  proof -
    obtain body m' where b: "writeFunction fn = Inr (headerText fn @ newline # body)"
      "parseFunction \<lparr>rdRest = body @ s, rdLine = n + 1\<rparr> (headerText fn) = Inr (resetCounter fn, \<lparr>rdRest = s, rdLine = m'\<rparr>)"
      by (rule written_function [OF p])
    have nl: "nextLogicalLine \<lparr>rdRest = (headerText fn @ newline # body) @ s, rdLine = n\<rparr>
        = (Some (headerText fn), \<lparr>rdRest = body @ s, rdLine = n + 1\<rparr>)"
      using nextLogicalLine_line [OF h, of "[]" "body @ s" n] by simp
    have "fnName fn \<notin> names" using Cons.prems by simp
    then have "parseLoop \<lparr>rdRest = (headerText fn @ newline # body) @ s, rdLine = n\<rparr> True names m
        = parseLoop \<lparr>rdRest = s, rdLine = m'\<rparr> True (insert (fnName fn) names) m1"
      by (subst parseLoop.simps) (simp add: nl [simplified] headerText_kind b(2) [simplified] fname add)
    with b(1) show ?thesis by blast
  qed
  have IH: "\<exists>ts. mapE writeFunction fns = Inr ts
      \<and> parseLoop \<lparr>rdRest = joinStr [newline] ts, rdLine = k\<rparr> True (insert (fnName fn) names) m1
        = Inr (m\<lparr>modFunctions := modFunctions m @ map resetCounter (fn # fns)\<rparr>)" for k
    using Cons.IH [of "insert (fnName fn) names" k m1] Cons.prems rest by (simp add: m1_def)
  obtain ts0 where ts0: "mapE writeFunction fns = Inr ts0" using IH [of 0] by blast
  define s where "s = (if ts0 = [] then [] else newline # joinStr [newline] ts0)"
  obtain body m' where b: "writeFunction fn = Inr (headerText fn @ newline # body)"
    "parseLoop \<lparr>rdRest = (headerText fn @ newline # body) @ s, rdLine = n\<rparr> True names m
        = parseLoop \<lparr>rdRest = s, rdLine = m'\<rparr> True (insert (fnName fn) names) m1" using step [of s] by blast
  have join: "joinStr [newline] ((headerText fn @ newline # body) # ts0) = (headerText fn @ newline # body) @ s"
    by (cases ts0) (simp_all add: s_def)
  have "parseLoop \<lparr>rdRest = s, rdLine = m'\<rparr> True (insert (fnName fn) names) m1
      = Inr (m\<lparr>modFunctions := modFunctions m @ map resetCounter (fn # fns)\<rparr>)"
  proof (cases "ts0 = []")
    case True
    then show ?thesis using IH [of m'] ts0 by (simp add: s_def)
  next
    case False
    then show ?thesis using IH [of "m' + 1"] ts0 by (simp add: s_def parseLoop_newline)
  qed
  then show ?case using ts0 b by (simp add: join)
qed

lemma write_parse_module:
  assumes "printableModule m"
  shows "\<exists>s. WriteModule m = Inr s \<and> ParseModule s = Inr \<lparr>modFunctions = map resetCounter (modFunctions m)\<rparr>"
proof -
  obtain ts where ts: "mapE writeFunction (modFunctions m) = Inr ts"
    "parseLoop \<lparr>rdRest = joinStr [newline] ts, rdLine = 2\<rparr> True {} \<lparr>modFunctions = []\<rparr>
      = Inr \<lparr>modFunctions = map resetCounter (modFunctions m)\<rparr>"
    using parse_written_functions [of "modFunctions m" "{}" 2 "\<lparr>modFunctions = []\<rparr>"] assms
    by (auto simp: printableModule_def)
  define s where "s = ''.tac v1'' @ newline # newline # joinStr [newline] ts"
  have "WriteModule m = Inr s" using ts(1) by (simp add: WriteModule_def s_def)
  moreover have "nextLogicalLine \<lparr>rdRest = s, rdLine = 0\<rparr>
      = (Some ''.tac v1'', \<lparr>rdRest = newline # joinStr [newline] ts, rdLine = 1\<rparr>)"
    using nextLogicalLine_line [of "''.tac v1''" "[]" "newline # joinStr [newline] ts" 0]
    by (simp add: s_def tight_def inkChar_def lineChar_def)
  then have "ParseModule s = parseLoop \<lparr>rdRest = newline # joinStr [newline] ts, rdLine = 1\<rparr> True {} \<lparr>modFunctions = []\<rparr>"
    unfolding ParseModule_def by (subst parseLoop.simps) simp
  then have "ParseModule s = Inr \<lparr>modFunctions = map resetCounter (modFunctions m)\<rparr>"
    using ts(2) by (simp add: parseLoop_newline numeral_2_eq_2)
  ultimately show ?thesis by blast
qed

section \<open>What the parser accepts\<close>

definition soundFunction :: "tacFunction \<Rightarrow> bool" where
  "soundFunction fn \<longleftrightarrow> ValidateFunctionIR fn = Inr () \<and> hasPrefix (fnName fn) ''@'' \<and> returnType fn \<noteq> []
     \<and> distinct (destTexts (instructions fn)) \<and> nextTempID fn = 0"

lemma parseBody_sound:
  "parseBody p fn dl ul dd = Inr (fn', dl', ul', p') \<Longrightarrow>
     set (destTexts (instructions fn)) = dd \<Longrightarrow> distinct (destTexts (instructions fn)) \<Longrightarrow>
     distinct (destTexts (instructions fn')) \<and> fnName fn' = fnName fn \<and> returnType fn' = returnType fn
     \<and> nextTempID fn' = nextTempID fn"
proof (induction p fn dl ul dd rule: parseBody.induct)
  case (1 p fn dl ul dd)
  obtain r q where n: "nextLogicalLine p = (r, q)" by (cases "nextLogicalLine p")
  show ?case
  proof (cases r)
    case None
    then show ?thesis using "1.prems"(1) n by (simp add: parseBody.simps [of p])
  next
    case (Some line)
    note n = n [unfolded Some]
    show ?thesis
    proof (cases "line = ''}''")
      case True
      then show ?thesis using "1.prems" n by (simp add: parseBody.simps [of p])
    next
      case False
      define ul2 where "ul2 inst = ul \<union> set (targetsOf inst)" for inst
      from "1.prems"(1) n False obtain inst where
        i: "mapErr (\<lambda>e. (rdLine q, BadInstruction e)) (parseInstruction line) = Inr inst"
        "mapErr (\<lambda>e. (rdLine q, BadVerify e)) (VerifyInstruction inst) = Inr ()"
        "\<not> (instKind inst = InstructionLabel \<and> instLabel inst \<in> dl)"
        "\<not> (hasDestination inst \<and> opText (destination inst) \<in> dd)" and
        next': "parseBody q (fn\<lparr>instructions := instructions fn @ [inst]\<rparr>)
                (if instKind inst = InstructionLabel then insert (instLabel inst) dl else dl) (ul2 inst)
                (if hasDestination inst then insert (opText (destination inst)) dd else dd) = Inr (fn', dl', ul', p')"
        by (subst (asm) parseBody.simps) (auto simp: bindE_eq_Inr ul2_def split: if_splits)
      from "1.IH" [OF n [symmetric] refl False i] next' "1.prems"(2,3) i(4)
      show ?thesis by (auto simp: ul2_def split: if_splits)
    qed
  qed
qed

lemma parseFunctionHeader_sound:
  "parseFunctionHeader h = Inr fn \<Longrightarrow>
     hasPrefix (fnName fn) ''@'' \<and> returnType fn \<noteq> [] \<and> instructions fn = [] \<and> nextTempID fn = 0"
  by (auto simp: parseFunctionHeader_def Let_def bindE_eq_Inr split: if_splits option.splits prod.splits)

lemma parseFunction_sound: "parseFunction p h = Inr (fn, p') \<Longrightarrow> soundFunction fn"
  by (auto simp: parseFunction_def bindE_eq_Inr soundFunction_def split: if_splits
      dest!: parseFunctionHeader_sound parseBody_sound)

lemma parseLoop_sound:
  "parseLoop p seen names m = Inr m' \<Longrightarrow>
     list_all soundFunction (modFunctions m) \<Longrightarrow> distinct (map fnName (modFunctions m)) \<Longrightarrow>
     fnName ` set (modFunctions m) = names \<Longrightarrow>
     list_all soundFunction (modFunctions m') \<and> distinct (map fnName (modFunctions m'))"
proof (induction p seen names m rule: parseLoop.induct)
  case (1 p seen names m)
  obtain r q where n: "nextLogicalLine p = (r, q)" by (cases "nextLogicalLine p")
  show ?case
  proof (cases r)
    case None
    then show ?thesis using "1.prems" n by (auto simp: parseLoop.simps [of p] split: if_splits)
  next
    case (Some line)
    note n = n [unfolded Some]
    consider (header) "\<not> seen" | (meta) "seen" "hasPrefix line ''.meta ''"
      | (fn) "seen" "\<not> hasPrefix line ''.meta ''" by blast
    then show ?thesis
    proof cases
      case header
      then show ?thesis using 1 n by (auto simp: parseLoop.simps [of p] split: if_splits)
    next
      case meta
      then show ?thesis using 1 n by (auto simp: parseLoop.simps [of p])
    next
      case fn
      with "1.prems"(1) n have ok: "line \<noteq> ''.tac v1''" "\<not> \<not> hasPrefix line ''func ''"
        by (auto simp: parseLoop.simps [of p] split: if_splits)
      from "1.prems"(1) n fn ok obtain g q2 where g: "parseFunction q line = Inr (g, q2)" "fnName g \<notin> names"
        "AddFunction g m = Inr (m\<lparr>modFunctions := modFunctions m @ [g]\<rparr>)"
        "parseLoop q2 True (insert (fnName g) names) (m\<lparr>modFunctions := modFunctions m @ [g]\<rparr>) = Inr m'"
        by (subst (asm) parseLoop.simps) (auto simp: bindE_eq_Inr AddFunction_eq_Inr split: if_splits)
      have e: "mapErr (\<lambda>e. (rdLine q2, ModuleRejects e)) (AddFunction g m) = Inr (m\<lparr>modFunctions := modFunctions m @ [g]\<rparr>)"
        using g(3) by simp
      have "\<not> \<not> seen" using fn(1) by simp
      from "1.IH"(3) [OF n [symmetric] refl this fn(2) ok g(1) refl g(2) e g(4)]
      show ?thesis using "1.prems" parseFunction_sound [OF g(1)] g(2) by auto
    qed
  qed
qed

lemma parsed_module_sound:
  "ParseModule s = Inr m \<Longrightarrow> list_all soundFunction (modFunctions m) \<and> distinct (map fnName (modFunctions m))"
  unfolding ParseModule_def by (drule parseLoop_sound) simp_all

end
