(* ===== verification/Command.thy ===== *)
theory Command
  imports LexerTokens UnitSound LowerShape TacTextProps
begin

text \<open>
  The command line of \<open>main.go\<close>: the flags, the files and the pipeline of lexer, parser, lowering and
  writer. The operating system is a parameter: which files can be opened and created, in what pieces a
  file is delivered, and how much of its output a buffered writer has passed on when writing fails.
\<close>

section \<open>The world\<close>

datatype flagError = FlagBadSyntax string | FlagNotDefined string | FlagNeedsArgument string | FlagHelp

datatype runError =
    FlagsFailed flagError
  | WrongArgumentCount
  | OpenFailed string
  | ParseFailed parseErrors
  | LowerFailed semaError
  | CreateFailed string
  | WriteFailed writeError

text \<open>The lines of the standard error stream by what they say.\<close>

datatype message = FlagMessage flagError | UsageMessage | ErrorMessage runError

record world =
  wFiles :: "string \<rightharpoonup> string"
  wStdout :: string
  wStderr :: "message list"

record os =
  osOpen :: "string \<Rightarrow> bool"
  osCreate :: "string \<Rightarrow> bool"
  osDeliver :: "string \<Rightarrow> string \<Rightarrow> reader"
  osFlushed :: "tacModule \<Rightarrow> string"

definition say :: "message list \<Rightarrow> world \<Rightarrow> world" where
  "say ms w = w\<lparr>wStderr := wStderr w @ ms\<rparr>"

section \<open>Flags\<close>

text \<open>
  \<open>FlagSet.Parse\<close> for a set whose only flag is the string \<open>o\<close>: the value of the flag and the remaining
  arguments. A flag is \<open>-o v\<close>, \<open>--o v\<close>, \<open>-o=v\<close> or \<open>--o=v\<close>; \<open>--\<close> ends the flags.
\<close>

definition flagName :: "string \<Rightarrow> string" where
  "flagName s = drop (if s ! 1 = CHR ''-'' then 2 else 1) s"

definition splitValue :: "string \<Rightarrow> string \<times> string option" where
  "splitValue name =
     (case dropWhile (\<lambda>c. c \<noteq> CHR ''='') name of
        [] \<Rightarrow> (name, None)
      | _ # v \<Rightarrow> (takeWhile (\<lambda>c. c \<noteq> CHR ''='') name, Some v))"

function parseFlags :: "string \<Rightarrow> string list \<Rightarrow> flagError + string \<times> string list" where
  "parseFlags out [] = Inr (out, [])"
| "parseFlags out (s # rest) =
     (if length s < 2 \<or> hd s \<noteq> CHR ''-'' then Inr (out, s # rest)
      else if s = ''--'' then Inr (out, rest)
      else
        let name = flagName s in
        if name = [] \<or> hd name = CHR ''-'' \<or> hd name = CHR ''='' then Inl (FlagBadSyntax s)
        else
          case splitValue name of (nm, val) \<Rightarrow>
            if nm \<noteq> ''o'' then Inl (if nm = ''help'' \<or> nm = ''h'' then FlagHelp else FlagNotDefined nm)
            else
              case val of
                Some v \<Rightarrow> parseFlags v rest
              | None \<Rightarrow> (case rest of [] \<Rightarrow> Inl (FlagNeedsArgument nm) | v # rest' \<Rightarrow> parseFlags v rest'))"
  by pat_completeness auto
termination by (relation "measure (\<lambda>(out, args). length args)") auto

section \<open>The compiler\<close>

definition compile :: "reader \<Rightarrow> runError + tacModule" where
  "compile input =
     bindE (mapErr ParseFailed (Parse (outcomes (NewLexer input)))) (\<lambda>tu. mapErr LowerFailed (Lower tu))"

text \<open>Writing to the standard output or to the file just created.\<close>

definition writeOutput :: "string \<Rightarrow> string \<Rightarrow> world \<Rightarrow> world" where
  "writeOutput outPath s w =
     (if outPath = [] then w\<lparr>wStdout := wStdout w @ s\<rparr> else w\<lparr>wFiles := (wFiles w)(outPath \<mapsto> s)\<rparr>)"

definition emitModule :: "os \<Rightarrow> string \<Rightarrow> tacModule \<Rightarrow> world \<Rightarrow> runError option \<times> world" where
  "emitModule sys outPath m w =
     (if outPath \<noteq> [] \<and> \<not> osCreate sys outPath then (Some (CreateFailed outPath), w)
      else
        case WriteModule m of
          Inl e \<Rightarrow> (Some (WriteFailed e), writeOutput outPath (osFlushed sys m) w)
        | Inr s \<Rightarrow> (None, writeOutput outPath s w))"

definition run :: "os \<Rightarrow> string list \<Rightarrow> world \<Rightarrow> runError option \<times> world" where
  "run sys args w =
     (case parseFlags [] args of
        Inl e \<Rightarrow> (Some (FlagsFailed e), say (if e = FlagHelp then [UsageMessage] else [FlagMessage e, UsageMessage]) w)
      | Inr (outPath, rest) \<Rightarrow>
          (case rest of
             [inPath] \<Rightarrow>
               (case wFiles w inPath of
                  Some bytes \<Rightarrow>
                    if \<not> osOpen sys inPath then (Some (OpenFailed inPath), w)
                    else
                      (case compile (osDeliver sys inPath bytes) of
                         Inl e \<Rightarrow> (Some e, w)
                       | Inr m \<Rightarrow> emitModule sys outPath m w)
                | None \<Rightarrow> (Some (OpenFailed inPath), w))
           | _ \<Rightarrow> (Some WrongArgumentCount, say [UsageMessage] w)))"

text \<open>\<open>main\<close>: the exit code and what is left.\<close>

definition mainProgram :: "os \<Rightarrow> string list \<Rightarrow> world \<Rightarrow> int \<times> world" where
  "mainProgram sys args w =
     (case run sys args w of
        (Some e, w') \<Rightarrow> (1, say [ErrorMessage e] w')
      | (None, w') \<Rightarrow> (0, w'))"

section \<open>Compiling tokens\<close>

lemma unitTree_functions: "tuFunctions (unitTree ds) = [fn. ExternalFunction fn \<leftarrow> ds]"
  and unitTree_prototypes: "tuPrototypes (unitTree ds) = [p. ExternalPrototype p \<leftarrow> ds]"
proof -
  have "tuFunctions (foldl (\<lambda>tu d. addExternal d tu) tu ds) = tuFunctions tu @ [fn. ExternalFunction fn \<leftarrow> ds] \<and>
      tuPrototypes (foldl (\<lambda>tu d. addExternal d tu) tu ds) = tuPrototypes tu @ [p. ExternalPrototype p \<leftarrow> ds]" for tu
    by (induction ds arbitrary: tu) (auto simp: addExternal_def split: externalDeclaration.split)
  from this [of emptyUnit] show "tuFunctions (unitTree ds) = [fn. ExternalFunction fn \<leftarrow> ds]"
    "tuPrototypes (unitTree ds) = [p. ExternalPrototype p \<leftarrow> ds]"
    by (simp_all add: unitTree_def emptyUnit_def)
qed

lemma set_externals:
  "set [fn. ExternalFunction fn \<leftarrow> ds] = {fn. ExternalFunction fn \<in> set ds}"
  "set [p. ExternalPrototype p \<leftarrow> ds] = {p. ExternalPrototype p \<in> set ds}"
  by (induction ds) (auto split: externalDeclaration.splits)

lemma typeAndName_good: "typeAndName tt stars nm \<Longrightarrow> goodToken nm \<Longrightarrow> tokRaw nm \<noteq> []"
  by (auto simp: typeAndName_def goodToken_def plainType_def)

lemma external_named:
  assumes "externalOf ts d" "list_all goodToken ts"
  shows "d = ExternalFunction fn \<Longrightarrow> fdName fn \<noteq> []" "d = ExternalPrototype p \<Longrightarrow> protoName p \<noteq> []"
  using assms by (auto elim!: externalOf.cases dest: typeAndName_good)

definition namedExternal :: "externalDeclaration \<Rightarrow> bool" where
  "namedExternal d \<longleftrightarrow>
     (case d of ExternalFunction fn \<Rightarrow> fdName fn \<noteq> [] | ExternalPrototype p \<Rightarrow> protoName p \<noteq> [] | ExternalDeclaration _ \<Rightarrow> True)"

lemma units_named: "unitOf ts ds \<Longrightarrow> list_all goodToken ts \<Longrightarrow> \<forall>d \<in> set ds. namedExternal d"
proof (induction rule: unitOf.induct)
  case (unitOf_cons ts d us ds)
  have "namedExternal d"
    using external_named [OF unitOf_cons.hyps(1)] unitOf_cons.prems by (cases d) (simp_all add: namedExternal_def)
  then show ?case using unitOf_cons by simp
qed simp

lemma unit_named:
  assumes "unitOf ts ds" "list_all goodToken ts"
  shows "namedUnit (unitTree ds)"
proof -
  have "fdName fn \<noteq> []" if "ExternalFunction fn \<in> set ds" for fn
    using units_named [OF assms] that by (force simp: namedExternal_def)
  moreover have "protoName p \<noteq> []" if "ExternalPrototype p \<in> set ds" for p
    using units_named [OF assms] that by (force simp: namedExternal_def)
  ultimately show ?thesis
    unfolding namedUnit_def unitTree_functions unitTree_prototypes set_map set_externals image_iff by force
qed

text \<open>On a steady reader a parse that succeeds saw good tokens only, and the grammar derives them.\<close>

lemma steady_parse:
  assumes "steady input" "Parse (outcomes (NewLexer input)) = Inr tu"
  obtains ts ds where "outcomes (NewLexer input) = map Inr ts" "list_all goodToken ts" "unitOf ts ds" "tu = unitTree ds"
proof -
  consider ts where "outcomes (NewLexer input) = map Inr ts" "list_all goodToken ts"
    | ts e rest where "outcomes (NewLexer input) = map Inr ts @ Inl e # rest" "list_all goodToken ts" "e \<noteq> ReadError IoEOF"
    using good_results_split [OF outcomes_good [OF assms(1)]] by blast
  then show thesis
  proof cases
    case (1 ts)
    then show thesis using that assms(2) Parse_unit [OF goodToken_clean [OF 1(2)]] by auto
  next
    case (2 ts e rest)
    then show thesis
      using assms(2) Parse_fault [OF goodToken_clean [OF 2(2)], of "Inl e" "FatalLex e" rest] by auto
  qed
qed

lemma steady_compile:
  assumes "steady input" "compile input = Inr m"
  obtains tu where "Parse (outcomes (NewLexer input)) = Inr tu" "Lower tu = Inr m" "namedUnit tu"
proof -
  obtain tu where tu: "Parse (outcomes (NewLexer input)) = Inr tu" "Lower tu = Inr m"
    using assms(2) by (auto simp: compile_def bindE_eq_Inr)
  obtain ts ds where "list_all goodToken ts" "unitOf ts ds" "tu = unitTree ds"
    using steady_parse [OF assms(1) tu(1)] .
  then have "namedUnit tu" by (simp add: unit_named)
  with tu show thesis by (rule that)
qed

lemma valid_written:
  assumes "validModule m"
  shows "isOk (WriteModule m)"
proof -
  have "isOk (writeInstruction i)" if "VerifyInstruction i = Inr ()" for i
    using that by (cases "instKind i") (auto simp: writeInstruction_def formatInstruction_def Let_def VerifyInstruction_def)
  then have "\<exists>l. writeInstruction i = Inr l" if "VerifyInstruction i = Inr ()" for i
    using that by (simp add: isOk_iff)
  then obtain l where l: "VerifyInstruction i = Inr () \<Longrightarrow> writeInstruction i = Inr (l i)" for i by metis
  have "\<exists>s. writeFunction fn = Inr s" if "fn \<in> set (modFunctions m)" for fn
  proof -
    have "\<forall>i \<in> set (instructions fn). VerifyInstruction i = Inr ()"
      using assms that by (auto simp: validModule_def validate_iff wfInstructions_def list_all_iff)
    then have "mapE writeInstruction (instructions fn) = Inr (map l (instructions fn))"
      using l by (intro mapE_map_ok) auto
    then show ?thesis by (simp add: writeFunction_def)
  qed
  then obtain s where "\<forall>fn \<in> set (modFunctions m). writeFunction fn = Inr (s fn)" by metis
  then have "mapE writeFunction (modFunctions m) = Inr (map s (modFunctions m))" by (intro mapE_map_ok) auto
  then show ?thesis by (simp add: WriteModule_def isOk_iff)
qed

lemma compiled_written:
  assumes "steady input" "compile input = Inr m"
  shows "validModule m" "isOk (WriteModule m)"
  using steady_compile [OF assms] Lower_sound(1) valid_written by blast+

text \<open>Compiling a steady reader, in one statement.\<close>

lemma compile_iff:
  assumes "steady input"
  shows "compile input = Inr m \<longleftrightarrow>
    (\<exists>ts ds. outcomes (NewLexer input) = map Inr ts \<and> unitOf ts ds \<and> Lower (unitTree ds) = Inr m)"
proof
  assume c: "compile input = Inr m"
  obtain tu where tu: "Parse (outcomes (NewLexer input)) = Inr tu" "Lower tu = Inr m"
    using steady_compile [OF assms c] .
  obtain ts ds where "outcomes (NewLexer input) = map Inr ts" "unitOf ts ds" "tu = unitTree ds"
    using steady_parse [OF assms tu(1)] .
  with tu(2) show "\<exists>ts ds. outcomes (NewLexer input) = map Inr ts \<and> unitOf ts ds \<and> Lower (unitTree ds) = Inr m"
    by blast
next
  assume "\<exists>ts ds. outcomes (NewLexer input) = map Inr ts \<and> unitOf ts ds \<and> Lower (unitTree ds) = Inr m"
  then obtain ts ds where t: "outcomes (NewLexer input) = map Inr ts" "unitOf ts ds" "Lower (unitTree ds) = Inr m" by blast
  have "list_all goodToken ts"
    using outcomes_good [OF assms] unfolding t(1) by (simp add: list_all_iff goodResult_def)
  then have "Parse (outcomes (NewLexer input)) = Inr (unitTree ds)"
    using Parse_unit [OF goodToken_clean] t(1,2) by auto
  then show "compile input = Inr m" using t(3) by (simp add: compile_def)
qed

section \<open>Runs\<close>

text \<open>Files are delivered completely, in pieces that are not empty.\<close>

definition steadyOs :: "os \<Rightarrow> bool" where
  "steadyOs sys \<longleftrightarrow>
     (\<forall>path bytes. steady (osDeliver sys path bytes) \<and> readerBytes (osDeliver sys path bytes) = bytes)"

lemma emit_failed:
  assumes "emitModule sys outPath m w = (Some e, w')" "isOk (WriteModule m)"
  shows "w' = w"
  using assms by (auto simp: emitModule_def isOk_iff split: if_splits)

lemma say_keeps [simp]: "wFiles (say ms w) = wFiles w" "wStdout (say ms w) = wStdout w"
  by (simp_all add: say_def)

lemma run_failed:
  assumes "steadyOs sys" "run sys args w = (Some e, w')"
  shows "wFiles w' = wFiles w \<and> wStdout w' = wStdout w"
proof -
  have "w'' = w" if "emitModule sys outPath m w = (Some e, w'')" "compile (osDeliver sys path bytes) = Inr m"
    for outPath m w'' path bytes
    using emit_failed [OF that(1)] compiled_written(2) [OF _ that(2)] assms(1) by (auto simp: steadyOs_def)
  then show ?thesis
    using assms(2) by (fastforce simp: run_def split: sum.splits prod.splits list.splits option.splits if_splits)
qed

lemma run_succeeded:
  assumes "run sys args w = (None, w')"
  obtains outPath inPath bytes m s where "parseFlags [] args = Inr (outPath, [inPath])" "wFiles w inPath = Some bytes"
    "compile (osDeliver sys inPath bytes) = Inr m" "WriteModule m = Inr s" "w' = writeOutput outPath s w"
  using assms
  by (fastforce simp: run_def emitModule_def split: sum.splits prod.splits list.splits option.splits if_splits)

text \<open>How the operating system delivers a file does not matter.\<close>

lemma compile_delivery:
  "steady r \<Longrightarrow> steady r' \<Longrightarrow> readerBytes r = readerBytes r' \<Longrightarrow> compile r = compile r'"
  using NewLexer_outcomes [of r r'] by (simp add: compile_def)

lemma emit_delivery:
  "isOk (WriteModule m) \<Longrightarrow> osCreate sys = osCreate sys' \<Longrightarrow> emitModule sys outPath m w = emitModule sys' outPath m w"
  by (auto simp: emitModule_def isOk_iff)

lemma run_delivery:
  assumes "steadyOs sys" "steadyOs sys'" "osOpen sys = osOpen sys'" "osCreate sys = osCreate sys'"
  shows "run sys args w = run sys' args w"
proof -
  have c: "compile (osDeliver sys' path bytes) = compile (osDeliver sys path bytes)" for path bytes
    using assms(1,2) by (intro compile_delivery) (auto simp: steadyOs_def)
  have e: "emitModule sys' outPath m w = emitModule sys outPath m w"
    if "compile (osDeliver sys path bytes) = Inr m" for outPath m path bytes
    using that assms(1,4) by (intro emit_delivery compiled_written(2) [OF _ that]) (auto simp: steadyOs_def)
  show ?thesis
    unfolding run_def assms(3) c by (auto simp: e split: sum.split prod.split list.split option.split)
qed

end
