(* ===== verification/Examples.thy ===== *)
theory Examples
  imports TacEvalProps Cfg Command
begin

text \<open>
  Concrete programs on which the properties are applied.
\<close>

text \<open>The sum \<open>n + ... + 1\<close> by a loop over two stack slots.\<close>

definition sumFn :: tacFunction where
  "sumFn = \<lparr>fnName = ''@sum'', parameters = [\<lparr>paramName = ''%n'', paramType = ''i32''\<rparr>], returnType = ''i32'',
     instructions =
       [opInst (StackSlotPointer ''%s1'') OpcodeAlloca [Immediate ''i32''],
        voidInst OpcodeStore [StackSlotPointer ''%s1'', Immediate ''0''],
        opInst (StackSlotPointer ''%s3'') OpcodeAlloca [Immediate ''i32''],
        voidInst OpcodeStore [StackSlotPointer ''%s3'', Param ''%n''],
        labelInst ''.L0'',
        opInst (Temp ''%t4'') OpcodeLoad [StackSlotPointer ''%s3''],
        brInst (Temp ''%t4'') ''.L1'' ''.L2'',
        labelInst ''.L1'',
        opInst (Temp ''%t5'') OpcodeLoad [StackSlotPointer ''%s1''],
        opInst (Temp ''%t6'') OpcodeAdd [Temp ''%t5'', Temp ''%t4''],
        voidInst OpcodeStore [StackSlotPointer ''%s1'', Temp ''%t6''],
        opInst (Temp ''%t7'') OpcodeSub [Temp ''%t4'', Immediate ''1''],
        voidInst OpcodeStore [StackSlotPointer ''%s3'', Temp ''%t7''],
        jmpInst ''.L0'',
        labelInst ''.L2'',
        opInst (Temp ''%t8'') OpcodeLoad [StackSlotPointer ''%s1''],
        retInst (Temp ''%t8'')],
     nextTempID = 9\<rparr>"

definition sumModule :: tacModule where
  "sumModule = \<lparr>modFunctions = [sumFn]\<rparr>"

definition runOpts :: "int \<Rightarrow> int \<Rightarrow> evalOptions" where
  "runOpts steps depth = \<lparr>optStepLimit = steps, optMaxCallDepth = depth\<rparr>"

text \<open>Two returns in a row: accepted by the validator, refused by the graph builder.\<close>

definition retRetFn :: tacFunction where
  "retRetFn = \<lparr>fnName = ''@r'', parameters = [], returnType = ''void'',
     instructions = [newInst InstructionRet, newInst InstructionRet], nextTempID = 0\<rparr>"

lemma sum_two: "EvaluateFunction sumModule ''@sum'' [2] (runOpts 50 5) = Inr 3"
  by code_simp

lemma sum_short: "EvaluateFunction sumModule ''@sum'' [1] (runOpts 5 5) = Inl (EStepLimit ''@sum'')"
  by code_simp

lemma sum_built: "isOk (Build sumFn)"
  by code_simp

definition sumState :: evalState where
  "sumState = \<lparr>evFuncs = [''@sum'' \<mapsto> sumFn], evSteps = 0, evStepLimit = 50, evMaxCallDepth = 5\<rparr>"

lemma sumState_runs: "\<exists>r. evalCall sumState ''@sum'' [ValueI32 1] 0 = Inr r"
proof -
  have "isOk (evalCall sumState ''@sum'' [ValueI32 1] 0)" by code_simp
  then show ?thesis by (simp add: isOk_iff)
qed

text \<open>A graph of one unlabelled block.\<close>

definition bareGraph :: graph where
  "bareGraph = \<lparr>graphFunction = retRetFn,
     graphBlocks = [\<lparr>bbID = 0, bbLabel = [], bbStart = 0, bbInstructions = [newInst InstructionRet],
                     bbPredecessors = [], bbSuccessors = []\<rparr>],
     graphLabels = Map.empty\<rparr>"

lemma bareGraph_indexed: "graph_index.indexed bareGraph" "0 < length (graphBlocks bareGraph)"
  by (simp_all add: graph_index.indexed_def bareGraph_def)

lemma bareGraph_label: "fst (EnsureLabel bareGraph 0) = ''.B0''"
  by code_simp

lemma sumModule_printable: "printableModule sumModule"
  by code_simp

definition returnText :: string where
  "returnText = ''.tac v1'' @ [newline] @ ''func @one(%n:i32) -> i32 {'' @ [newline]
     @ '' %t0 = add %n, 1 ; one more'' @ [newline] @ ''ret %t0'' @ [newline] @ ''}''"

lemma returnText_parses: "isOk (ParseModule returnText)"
  by code_simp


section \<open>Syntax trees\<close>

abbreviation intType :: typeName where
  "intType \<equiv> \<lparr>tnToken = zeroToken, tnSpecifier = TypeSpecifierInt, tnPointerDepth = 0\<rparr>"

abbreviation intParam :: "string \<Rightarrow> functionParameter" where
  "intParam name \<equiv> \<lparr>fpToken = zeroToken, fpType = intType, fpName = name\<rparr>"

abbreviation intFunction :: "string \<Rightarrow> functionParameter list \<Rightarrow> stmt list \<Rightarrow> functionDefinition" where
  "intFunction name ps body \<equiv> \<lparr>fdReturnType = intType, fdName = name, fdParameters = ps,
     fdBodyToken = zeroToken, fdBodyStatements = body, fdToken = zeroToken\<rparr>"

abbreviation ident :: "string \<Rightarrow> expr" where "ident \<equiv> IdentifierExpression zeroToken"
abbreviation literal :: "string \<Rightarrow> expr" where "literal \<equiv> IntegerLiteralExpression zeroToken"

text \<open>\<open>int f(int n); int f(int n) { while (n) n = n - 1; return n; }\<close>\<close>

definition countdownUnit :: translationUnit where
  "countdownUnit = \<lparr>tuFunctions = [intFunction ''f'' [intParam ''n'']
       [WhileStatement zeroToken (ident ''n'')
          (ExpressionStatement zeroToken (Some (AssignmentExpression zeroToken (ident ''n'')
             (BinaryExpression zeroToken TokenMinus (ident ''n'') (literal ''1''))))),
        ReturnStatement zeroToken (Some (ident ''n''))]],
     tuDeclarations = [],
     tuPrototypes = [\<lparr>protoToken = zeroToken, protoReturnType = intType, protoName = ''f'', protoParameters = [intParam ''n'']\<rparr>]\<rparr>"

lemma countdown_lowers: "isOk (Lower countdownUnit)"
  by code_simp

lemma countdown_named: "namedUnit countdownUnit"
  by code_simp

text \<open>\<open>int g(int n) { for (; n; ) return 1; return 0; }\<close>\<close>

definition earlyReturnUnit :: translationUnit where
  "earlyReturnUnit = \<lparr>tuFunctions = [intFunction ''g'' [intParam ''n'']
       [ForStatement zeroToken None (Some (ident ''n'')) None (ReturnStatement zeroToken (Some (literal ''1''))),
        ReturnStatement zeroToken (Some (literal ''0''))]],
     tuDeclarations = [], tuPrototypes = []\<rparr>"

lemma earlyReturn_lowers: "isOk (Lower earlyReturnUnit)"
  by code_simp

text \<open>The validator accepts the lowered function, but no control-flow graph is built for it.\<close>

lemma early_return_loop_has_no_graph:
  "(case Lower earlyReturnUnit of
      Inr m \<Rightarrow> map (\<lambda>fn. (isOk (ValidateFunctionIR fn), isOk (Build fn))) (modFunctions m)
    | Inl _ \<Rightarrow> []) = [(True, False)]"
  by code_simp

text \<open>The tokens of \<open>int f() { return 0; }\<close> and their tree.\<close>

definition tk :: "tokenType \<Rightarrow> string \<Rightarrow> token" where
  "tk tt raw = \<lparr>tokType = tt, tokRaw = raw, tokLine = 1, tokColumn = 1\<rparr>"

definition zeroFunctionTokens :: "token list" where
  "zeroFunctionTokens =
     [tk TokenInt ''int'', tk TokenIdentifier ''f'', tk TokenLParen ''('', tk TokenRParen '')'', tk TokenLBrace ''{'',
      tk TokenReturn ''return'', tk TokenIntegerConstant ''0'', tk TokenSemicolon '';'', tk TokenRBrace ''}'']"

definition zeroFunction :: functionDefinition where
  "zeroFunction =
     \<lparr>fdReturnType = declaredType (tk TokenInt ''int'') [], fdName = ''f'', fdParameters = [], fdBodyToken = tk TokenLBrace ''{'',
      fdBodyStatements = [ReturnStatement (tk TokenReturn ''return'')
        (Some (IntegerLiteralExpression (tk TokenIntegerConstant ''0'') ''0''))], fdToken = tk TokenInt ''int''\<rparr>"

lemma tokType_tk [simp]: "tokType (tk tt raw) = tt" "tokRaw (tk tt raw) = raw"
  by (simp_all add: tk_def)

lemma zeroFunction_clean: "clean zeroFunctionTokens"
  by (simp add: zeroFunctionTokens_def token_types)

lemma zeroFunction_unit: "unitOf zeroFunctionTokens [ExternalFunction zeroFunction]"
proof -
  have "exprOf 12 [tk TokenIntegerConstant ''0''] (IntegerLiteralExpression (tk TokenIntegerConstant ''0'') ''0'')"
    using exprOf_int [of "tk TokenIntegerConstant ''0''"] by simp
  then have "exprOf 0 [tk TokenIntegerConstant ''0''] (IntegerLiteralExpression (tk TokenIntegerConstant ''0'') ''0'')"
    by (rule exprOf_down) simp_all
  then have "stmtOf True (tk TokenReturn ''return'' # [tk TokenIntegerConstant ''0''] @ [tk TokenSemicolon '';''])
      (ReturnStatement (tk TokenReturn ''return'') (Some (IntegerLiteralExpression (tk TokenIntegerConstant ''0'') ''0'')))"
    by (intro stmtOf_return optExprOf_some) auto
  from stmtsOf_cons [OF this stmtsOf_nil]
  have "externalOf (tk TokenInt ''int'' # [] @ tk TokenIdentifier ''f'' # tk TokenLParen ''('' # [] @ tk TokenRParen '')'' #
      tk TokenLBrace ''{'' # ((tk TokenReturn ''return'' # [tk TokenIntegerConstant ''0''] @ [tk TokenSemicolon '';'']) @ []) @
      [tk TokenRBrace ''}''])
    (ExternalFunction \<lparr>fdReturnType = declaredType (tk TokenInt ''int'') [], fdName = tokRaw (tk TokenIdentifier ''f''), fdParameters = [],
      fdBodyToken = tk TokenLBrace ''{'', fdBodyStatements = [ReturnStatement (tk TokenReturn ''return'')
        (Some (IntegerLiteralExpression (tk TokenIntegerConstant ''0'') ''0''))], fdToken = tk TokenInt ''int''\<rparr>)"
    by (intro externalOf_function paramListOf_none) (auto simp: typeAndName_def isTypeSpecifierToken_def)
  from unitOf_cons [OF this unitOf_nil] show ?thesis by (simp add: zeroFunctionTokens_def zeroFunction_def)
qed

definition plainOs :: os where
  "plainOs = \<lparr>osOpen = \<lambda>_. True, osCreate = \<lambda>_. True,
     osDeliver = \<lambda>path bytes. if bytes = [] then [] else [(bytes, None)], osFlushed = \<lambda>_. []\<rparr>"

definition byteOs :: os where
  "byteOs = plainOs\<lparr>osDeliver := \<lambda>path bytes. map (\<lambda>b. ([b], None)) bytes\<rparr>"

lemma plainOs_steady: "steadyOs plainOs"
  by (simp add: steadyOs_def plainOs_def readerBytes_def)

lemma byteOs_steady: "steadyOs byteOs"
proof -
  have "steady (map (\<lambda>b. ([b], None)) bytes) \<and> readerBytes (map (\<lambda>b. ([b], None)) bytes) = bytes" for bytes
    by (induction bytes) (simp_all add: readerBytes_def)
  then show ?thesis by (simp add: steadyOs_def byteOs_def)
qed

definition zeroSource :: string where
  "zeroSource = ''int f(){return 0;}''"

text \<open>The compiler on concrete bytes, without the empty start of the buffer.\<close>

definition compiled :: "string \<Rightarrow> runError + tacModule" where
  "compiled bytes =
     bindE (mapErr ParseFailed (Parse (lexAll (startOn bytes)))) (\<lambda>tu. mapErr LowerFailed (Lower tu))"

lemma compile_compiled: "steady r \<Longrightarrow> readerBytes r = bytes \<Longrightarrow> bytes \<noteq> [] \<Longrightarrow> compile r = compiled bytes"
  by (simp add: compile_def compiled_def outcomes_startOn)

definition zeroModule :: tacModule where
  "zeroModule = \<lparr>modFunctions =
     [\<lparr>fnName = ''@f'', parameters = [], returnType = ''i32'',
        instructions = [opInst (Temp ''%t0'') OpcodeConstI32 [Immediate ''0''], retInst (Temp ''%t0'')], nextTempID = 1\<rparr>]\<rparr>"

lemma zeroSource_compiled: "compiled zeroSource = Inr zeroModule"
  by code_simp

definition zeroText :: string where
  "zeroText = (case WriteModule zeroModule of Inr s \<Rightarrow> s | Inl _ \<Rightarrow> [])"

lemma zeroModule_written: "WriteModule zeroModule = Inr zeroText"
  by code_simp

text \<open>The directory with the source, and the run that compiles it to the standard output.\<close>

definition oneFile :: world where
  "oneFile = \<lparr>wFiles = [''a.c'' \<mapsto> zeroSource], wStdout = [], wStderr = []\<rparr>"

lemma zeroSource_steady: "steady [(zeroSource, None)]" "readerBytes [(zeroSource, None)] = zeroSource" "zeroSource \<noteq> []"
  by (simp_all add: zeroSource_def readerBytes_def)

lemma zero_run: "run plainOs [''a.c''] oneFile = (None, oneFile\<lparr>wStdout := zeroText\<rparr>)"
proof -
  have c: "compile [(zeroSource, None)] = Inr zeroModule"
    using compile_compiled [OF zeroSource_steady] by (simp add: zeroSource_compiled)
  show ?thesis
    using zeroSource_steady(3) c
    by (simp add: run_def oneFile_def plainOs_def emitModule_def zeroModule_written writeOutput_def)
qed

lemma no_arguments_run: "run plainOs [] oneFile = (Some WrongArgumentCount, say [UsageMessage] oneFile)"
  by (simp add: run_def)

end
