(* ===== verification/Findings.thy ===== *)
theory Findings
  imports Examples
begin

text \<open>
  Concrete inputs on which the code does something else than it means to, evaluated on the model.
\<close>

section \<open>The lexer\<close>

text \<open>The raw texts of the tokens, and the errors between them.\<close>

definition texts :: "string \<Rightarrow> (lexErr + string) list" where
  "texts bytes = map (map_sum id tokRaw) (lexAll (startOn bytes))"

text \<open>A string that is never closed ends the input: the end of the input inside it is read as its regular end.\<close>

lemma unterminated_string_is_accepted: "isOk (compiled ''\"a'')"
  by code_simp

text \<open>
  A single-line comment is to continue after a backslash and a newline, but the newline ends the part of the
  comment that follows the backslash: the next line is code.
\<close>

lemma continued_comment_ends: "texts (''// a '' @ [CHR 0x5C, CHR 0x0A] @ ''b'') = [Inr ''b'']"
  by code_simp

text \<open>A directive on the line after a trailing comment has the position of the comment and is refused.\<close>

lemma define_after_comment_is_refused:
  "texts (''x // c'' @ [CHR 0x0A] @ ''#define N 1'' @ [CHR 0x0A]) =
     [Inr ''x'', Inl (DirectiveNotOnLineStart 1 3), Inr ''define'', Inr ''N'', Inr ''1'']"
  by code_simp

text \<open>The first token after a definition is read before the macro is set, and is not replaced.\<close>

lemma first_use_is_not_replaced: "texts (''#define N 1'' @ [CHR 0x0A] @ ''N N'') = [Inr ''N'', Inr ''1'']"
  by code_simp

section \<open>The pipeline\<close>

definition outcomeOf :: "runError + tacModule \<Rightarrow> 32 word list \<Rightarrow> evalError + 32 word" where
  "outcomeOf r args =
     (case r of Inl _ \<Rightarrow> Inl (EMaxDepth []) | Inr m \<Rightarrow> EvaluateFunction m ''@f'' args (runOpts 1000 5))"

text \<open>An octal constant is read as a decimal number, and a hexadecimal one is refused.\<close>

lemma octal_is_decimal: "outcomeOf (compiled ''int f(){return 010;}'') [] = Inr 10"
  by code_simp

lemma hexadecimal_is_refused: "\<not> isOk (compiled ''int f(){return 0x8;}'')"
  by code_simp

text \<open>The right operand of \<open>&&\<close> is evaluated when the left one is zero: this recursion does not end.\<close>

lemma and_evaluates_both: "outcomeOf (compiled ''int f(int a){return a&&f(a);}'') [0] = Inl (EMaxDepth ''@f'')"
  by code_simp

text \<open>A pointer passed to a function is looked up among the slots of that function: this should return 1.\<close>

definition pointerModule :: tacModule where
  "pointerModule = \<lparr>modFunctions =
     [\<lparr>fnName = ''@g'', parameters = [\<lparr>paramName = ''%p'', paramType = ''i32*''\<rparr>], returnType = ''i32'',
        instructions =
          [opInst (StackSlotPointer ''%s0'') OpcodeAlloca [Immediate ''i32''],
           voidInst OpcodeStore [StackSlotPointer ''%s0'', Immediate ''7''],
           opInst (Temp ''%t1'') OpcodeLoadIndirect [Param ''%p''],
           retInst (Temp ''%t1'')], nextTempID = 2\<rparr>,
      \<lparr>fnName = ''@f'', parameters = [], returnType = ''i32'',
        instructions =
          [opInst (StackSlotPointer ''%s0'') OpcodeAlloca [Immediate ''i32''],
           voidInst OpcodeStore [StackSlotPointer ''%s0'', Immediate ''1''],
           callInst (Temp ''%t1'') (FunctionSymbol ''@g'') [StackSlotPointer ''%s0''],
           retInst (Temp ''%t1'')], nextTempID = 2\<rparr>]\<rparr>"

lemma pointer_argument_is_lost: "outcomeOf (Inr pointerModule) [] = Inr 7"
  by code_simp

text \<open>A parameter named like a stack slot is written as one, so its text is read back as a different module.\<close>

lemma slot_named_parameter_changes:
  "case compiled ''int f(int s1){return s1;}'' of
     Inl _ \<Rightarrow> False
   | Inr m \<Rightarrow> (case WriteModule m of
       Inl _ \<Rightarrow> False
     | Inr s \<Rightarrow> ParseModule s \<noteq> Inr \<lparr>modFunctions = map resetCounter (modFunctions m)\<rparr>)"
  by code_simp

text \<open>The slot of a parameter named like a stack slot takes its name: the function returns the address of the slot.\<close>

lemma slot_named_parameter_is_lost: "outcomeOf (compiled ''int f(int s1){return s1;}'') [7] = Inl (EReturnedNonI32 ''@f'')"
  by code_simp

text \<open>
  A declaration as a branch of its own, \<open>int f(int c) { { if (c) int c; return c; } }\<close>: the parser accepts it, and its name then
  hides the parameter although its slot is allocated on the branch only. For 0 this should return 0.
\<close>

definition branchUnit :: translationUnit where
  "branchUnit = \<lparr>tuFunctions = [intFunction ''f'' [intParam ''c'']
       [BlockStatement zeroToken
         [IfStatement zeroToken (ident ''c'') (DeclarationStatement zeroToken
            \<lparr>declToken = zeroToken, declType = intType, declName = ''c'', declInitializer = None\<rparr>) None,
          ReturnStatement zeroToken (Some (ident ''c''))]]],
     tuDeclarations = [], tuPrototypes = []\<rparr>"

lemma branch_declaration_is_accepted: "isOk (compiled ''int f(int c){{if(c)int c;return c;}}'')"
  by code_simp

lemma branch_declaration_escapes:
  "case Lower branchUnit of Inl _ \<Rightarrow> False
   | Inr m \<Rightarrow> EvaluateFunction m ''@f'' [0] (runOpts 20 1) = Inl (EUnknownValue ''%s4'')"
  by code_simp

text \<open>A function of type \<open>void*\<close> may reach its end, as if it were of type \<open>void\<close>.\<close>

lemma pointer_function_returns_nothing:
  "map_sum id (\<lambda>m. map (\<lambda>fn. (returnType fn, map hasReturnValue (instructions fn))) (modFunctions m)) (compiled ''void*f(){}'') =
     Inr [(''void*'', [False])]"
  by code_simp

end
