(* ===== verification/CSemantics.thy ===== *)
theory CSemantics
  imports Lower TacEval
begin

text \<open>
  What the source means: a reference interpreter of the syntax tree, against which lowering and the
  evaluator are proved. It knows nothing of instructions, temporaries or labels. An integer is a
  32-bit word; the objects of a call live in a store of their own, an address is the number of an
  object of that call; both operands of \<open>&&\<close> and \<open>||\<close> are evaluated. \<open>None\<close> means that the fuel was used up or that the
  tree has no meaning (a literal or a name that lowering refuses); a runtime error is a value.
\<close>

section \<open>Stores and actions\<close>

text \<open>An object without a value is one that was never assigned.\<close>

record store =
  stMem :: "nat \<rightharpoonup> runtimeValue"
  stNext :: nat

type_synonym env = "string \<rightharpoonup> nat"

type_synonym 'a action = "store \<Rightarrow> (evalError + 'a \<times> store) option"

type_synonym callee = "string \<Rightarrow> runtimeValue list \<Rightarrow> (evalError + runtimeValue) option"

definition returnM :: "'a \<Rightarrow> 'a action" where
  "returnM x = (\<lambda>st. Some (Inr (x, st)))"

definition throwM :: "evalError \<Rightarrow> 'a action" where
  "throwM e = (\<lambda>st. Some (Inl e))"

definition stuckM :: "'a action" where
  "stuckM = (\<lambda>st. None)"

definition bindM :: "'a action \<Rightarrow> ('a \<Rightarrow> 'b action) \<Rightarrow> 'b action" where
  "bindM m f = (\<lambda>st. case m st of None \<Rightarrow> None | Some (Inl e) \<Rightarrow> Some (Inl e) | Some (Inr (x, st')) \<Rightarrow> f x st')"

definition liftM :: "(evalError + 'a) option \<Rightarrow> 'a action" where
  "liftM r = (\<lambda>st. map_option (map_sum id (\<lambda>x. (x, st))) r)"

lemma bindM_cong [fundef_cong]: "m = m' \<Longrightarrow> (\<And>x. f x = f' x) \<Longrightarrow> bindM m f = bindM m' f'"
  by (metis ext)

definition loadM :: "nat \<Rightarrow> runtimeValue action" where
  "loadM a = (\<lambda>st. case stMem st a of None \<Rightarrow> Some (Inl (EUninitialized a)) | Some v \<Rightarrow> Some (Inr (v, st)))"

definition storeM :: "nat \<Rightarrow> runtimeValue \<Rightarrow> unit action" where
  "storeM a v = (\<lambda>st. Some (Inr ((), st\<lparr>stMem := (stMem st)(a \<mapsto> v)\<rparr>)))"

definition allocM :: "nat action" where
  "allocM = (\<lambda>st. Some (Inr (stNext st, \<lparr>stMem = (stMem st)(stNext st := None), stNext = stNext st + 1\<rparr>)))"

fun integerOf :: "runtimeValue \<Rightarrow> i32 action" where
  "integerOf (ValueI32 w) = returnM w"
| "integerOf (ValuePtr a) = throwM EExpectedI32"

fun addressIn :: "runtimeValue \<Rightarrow> nat action" where
  "addressIn (ValuePtr a) = returnM a"
| "addressIn (ValueI32 w) = throwM EExpectedPtr"

section \<open>Operators\<close>

definition truth :: "bool \<Rightarrow> i32" where
  "truth b = (if b then 1 else 0)"

definition binaryMeaning :: "tokenType \<Rightarrow> i32 \<Rightarrow> i32 \<Rightarrow> i32 action" where
  "binaryMeaning op a b =
     (if op = TokenPlus then returnM (a + b)
      else if op = TokenMinus then returnM (a - b)
      else if op = TokenStar then returnM (a * b)
      else if op = TokenSlash then (if b = 0 then throwM EDivisionByZero else returnM (word_of_int (sint a sdiv sint b)))
      else if op = TokenPercent then (if b = 0 then throwM EModuloByZero else returnM (word_of_int (sint a smod sint b)))
      else if op = TokenAmp then returnM (and a b)
      else if op = TokenPipe then returnM (or a b)
      else if op = TokenCaret then returnM (xor a b)
      else if op = TokenShiftLeft then returnM (a * 2 ^ unat b)
      else if op = TokenShiftRight then returnM (word_of_int (sint a div 2 ^ unat b))
      else if op = TokenEq then returnM (truth (a = b))
      else if op = TokenNe then returnM (truth (a \<noteq> b))
      else if op = TokenLt then returnM (truth (sint a < sint b))
      else if op = TokenLe then returnM (truth (sint a \<le> sint b))
      else if op = TokenGt then returnM (truth (sint b < sint a))
      else if op = TokenGe then returnM (truth (sint b \<le> sint a))
      else if op = TokenAndAnd then returnM (truth (a \<noteq> 0 \<and> b \<noteq> 0))
      else if op = TokenOrOr then returnM (truth (a \<noteq> 0 \<or> b \<noteq> 0))
      else stuckM)"

definition unaryMeaning :: "tokenType \<Rightarrow> runtimeValue \<Rightarrow> runtimeValue action" where
  "unaryMeaning op v =
     (if op = TokenPlus then returnM v
      else if op = TokenMinus then bindM (integerOf v) (\<lambda>a. returnM (ValueI32 (- a)))
      else if op = TokenTilde then bindM (integerOf v) (\<lambda>a. returnM (ValueI32 (not a)))
      else if op = TokenBang then bindM (integerOf v) (\<lambda>a. returnM (ValueI32 (truth (a = 0))))
      else stuckM)"

section \<open>Expressions\<close>

text \<open>\<open>objectOf\<close>: the address an expression on the left of an assignment or under \<open>&\<close> stands for.\<close>

definition variableM :: "env \<Rightarrow> string \<Rightarrow> nat action" where
  "variableM env name = (case env name of None \<Rightarrow> stuckM | Some a \<Rightarrow> returnM a)"

fun evalExpr :: "callee \<Rightarrow> env \<Rightarrow> expr \<Rightarrow> runtimeValue action"
  and objectOf :: "callee \<Rightarrow> env \<Rightarrow> expr \<Rightarrow> runtimeValue action"
  and evalArgs :: "callee \<Rightarrow> env \<Rightarrow> expr list \<Rightarrow> runtimeValue list action" where
  "evalExpr calls env (IntegerLiteralExpression tok raw) =
     (case parseInt 32 raw of None \<Rightarrow> stuckM | Some n \<Rightarrow> returnM (ValueI32 (word_of_int n)))"
| "evalExpr calls env (CharacterLiteralExpression tok raw) =
     (case decodeCharacterLiteral raw of Inl _ \<Rightarrow> stuckM | Inr n \<Rightarrow> returnM (ValueI32 (word_of_int n)))"
| "evalExpr calls env (IdentifierExpression tok name) = bindM (variableM env name) loadM"
| "evalExpr calls env (UnaryExpression tok op e) =
     (if op = TokenStar then bindM (evalExpr calls env e) (\<lambda>v. bindM (addressIn v) loadM)
      else if op = TokenAmp then objectOf calls env e
      else bindM (evalExpr calls env e) (unaryMeaning op))"
| "evalExpr calls env (BinaryExpression tok op e1 e2) =
     bindM (evalExpr calls env e1) (\<lambda>v. bindM (evalExpr calls env e2) (\<lambda>w.
     bindM (integerOf v) (\<lambda>a. bindM (integerOf w) (\<lambda>b.
     bindM (binaryMeaning op a b) (\<lambda>c. returnM (ValueI32 c))))))"
| "evalExpr calls env (AssignmentExpression tok e1 e2) =
     bindM (objectOf calls env e1) (\<lambda>obj. bindM (evalExpr calls env e2) (\<lambda>v.
     bindM (addressIn obj) (\<lambda>a. bindM (storeM a v) (\<lambda>_. returnM v))))"
| "evalExpr calls env (CallExpression tok callee args) =
     (case callee of
        IdentifierExpression calleeTok name \<Rightarrow> bindM (evalArgs calls env args) (\<lambda>vs. liftM (calls name vs))
      | _ \<Rightarrow> stuckM)"
| "objectOf calls env (IdentifierExpression tok name) = bindM (variableM env name) (\<lambda>a. returnM (ValuePtr a))"
| "objectOf calls env (UnaryExpression tok op e) = (if op = TokenStar then evalExpr calls env e else stuckM)"
| "objectOf calls env _ = stuckM"
| "evalArgs calls env [] = returnM []"
| "evalArgs calls env (e # es) =
     bindM (evalExpr calls env e) (\<lambda>v. bindM (evalArgs calls env es) (\<lambda>vs. returnM (v # vs)))"

section \<open>Statements\<close>

text \<open>A statement falls through to the next one, with the names it leaves, or returns a value; \<open>return;\<close> returns 0.\<close>

datatype flow = Continues env | Returns runtimeValue

fun leaving :: "env \<Rightarrow> flow \<Rightarrow> flow" where
  "leaving env (Continues _) = Continues env"
| "leaving env (Returns v) = Returns v"

definition testM :: "callee \<Rightarrow> env \<Rightarrow> expr option \<Rightarrow> bool action" where
  "testM calls env c =
     (case c of None \<Rightarrow> returnM True
      | Some e \<Rightarrow> bindM (evalExpr calls env e) (\<lambda>v. bindM (integerOf v) (\<lambda>w. returnM (w \<noteq> 0))))"

definition discardM :: "callee \<Rightarrow> env \<Rightarrow> expr option \<Rightarrow> unit action" where
  "discardM calls env c =
     (case c of None \<Rightarrow> returnM () | Some e \<Rightarrow> bindM (evalExpr calls env e) (\<lambda>_. returnM ()))"

definition declareM :: "callee \<Rightarrow> env \<Rightarrow> Declaration \<Rightarrow> env action" where
  "declareM calls env decl =
     bindM allocM (\<lambda>a.
       let env' = env(declName decl \<mapsto> a) in
       case declInitializer decl of
         None \<Rightarrow> returnM env'
       | Some e \<Rightarrow> bindM (evalExpr calls env' e) (\<lambda>v. bindM (storeM a v) (\<lambda>_. returnM env')))"

text \<open>\<open>execLoop\<close> is \<open>for (; c; post) body\<close>; each round but the first takes one unit of fuel.\<close>

function execStmt :: "callee \<Rightarrow> nat \<Rightarrow> env \<Rightarrow> stmt \<Rightarrow> flow action"
  and execBlock :: "callee \<Rightarrow> nat \<Rightarrow> env \<Rightarrow> stmt list \<Rightarrow> flow action"
  and execLoop :: "callee \<Rightarrow> nat \<Rightarrow> env \<Rightarrow> expr option \<Rightarrow> expr option \<Rightarrow> stmt \<Rightarrow> flow action" where
  "execStmt calls n env (BlockStatement tok ss) =
     bindM (execBlock calls n env ss) (\<lambda>fl. returnM (leaving env fl))"
| "execStmt calls n env (DeclarationStatement tok decl) =
     bindM (declareM calls env decl) (\<lambda>env'. returnM (Continues env'))"
| "execStmt calls n env (ReturnStatement tok eo) =
     (case eo of None \<Rightarrow> returnM (Returns (ValueI32 0))
      | Some e \<Rightarrow> bindM (evalExpr calls env e) (\<lambda>v. returnM (Returns v)))"
| "execStmt calls n env (ExpressionStatement tok eo) = bindM (discardM calls env eo) (\<lambda>_. returnM (Continues env))"
| "execStmt calls n env (IfStatement tok c t eo) =
     bindM (testM calls env (Some c)) (\<lambda>go.
       if go then execStmt calls n env t
       else case eo of None \<Rightarrow> returnM (Continues env) | Some s \<Rightarrow> execStmt calls n env s)"
| "execStmt calls n env (WhileStatement tok c body) = execLoop calls n env (Some c) None body"
| "execStmt calls n env (ForStatement tok init' c post body) =
     bindM (case init' of None \<Rightarrow> returnM (Continues env) | Some s \<Rightarrow> execStmt calls n env s) (\<lambda>fl.
       case fl of
         Returns v \<Rightarrow> returnM (Returns v)
       | Continues env' \<Rightarrow> bindM (execLoop calls n env' c post body) (\<lambda>fl'. returnM (leaving env fl')))"
| "execBlock calls n env [] = returnM (Continues env)"
| "execBlock calls n env (s # ss) =
     bindM (execStmt calls n env s) (\<lambda>fl.
       case fl of Returns v \<Rightarrow> returnM (Returns v) | Continues env' \<Rightarrow> execBlock calls n env' ss)"
| "execLoop calls n env c post body =
     bindM (testM calls env c) (\<lambda>go.
       if \<not> go then returnM (Continues env)
       else
         bindM (execStmt calls n env body) (\<lambda>fl.
           case fl of
             Returns v \<Rightarrow> returnM (Returns v)
           | Continues _ \<Rightarrow>
               bindM (discardM calls env post) (\<lambda>_.
                 case n of 0 \<Rightarrow> stuckM | Suc m \<Rightarrow> execLoop calls m env c post body)))"
  by pat_completeness auto
termination
  by (relation "measures
      [\<lambda>x. case x of Inl (c, n, e, s) \<Rightarrow> n | Inr (Inl (c, n, e, ss)) \<Rightarrow> n | Inr (Inr (k, n, e, c, p, b)) \<Rightarrow> n,
       \<lambda>x. case x of Inl (c, n, e, s) \<Rightarrow> 2 * size s | Inr (Inl (c, n, e, ss)) \<Rightarrow> 2 * size_list size ss
          | Inr (Inr (k, n, e, c, p, b)) \<Rightarrow> 2 * size b + 1]") auto

declare execLoop.simps [simp del]

section \<open>Functions\<close>

fun bindParams :: "functionParameter list \<Rightarrow> runtimeValue list \<Rightarrow> env \<Rightarrow> env action" where
  "bindParams (p # ps) (v # vs) env =
     bindM allocM (\<lambda>a. bindM (storeM a v) (\<lambda>_. bindParams ps vs (env(fpName p \<mapsto> a))))"
| "bindParams _ _ env = returnM env"

definition callBody :: "callee \<Rightarrow> nat \<Rightarrow> functionDefinition \<Rightarrow> runtimeValue list \<Rightarrow> runtimeValue action" where
  "callBody calls n pfn args =
     bindM (bindParams (fdParameters pfn) args Map.empty) (\<lambda>env.
     bindM (execBlock calls n env (fdBodyStatements pfn)) (\<lambda>fl.
       returnM (case fl of Returns v \<Rightarrow> v | Continues _ \<Rightarrow> ValueI32 0)))"

text \<open>\<open>callFn fns n\<close>: a call of a function of the unit, with nesting depth and rounds of each loop bounded by \<open>n\<close>.\<close>

fun callFn :: "functionDefinition list \<Rightarrow> nat \<Rightarrow> callee" where
  "callFn fns 0 name args = None"
| "callFn fns (Suc n) name args =
     (case find (\<lambda>pfn. fdName pfn = name) fns of
        None \<Rightarrow> Some (Inl (EMissingFunction (''@'' @ name)))
      | Some pfn \<Rightarrow>
          if length args \<noteq> length (fdParameters pfn)
          then Some (Inl (EArgCount (''@'' @ name) (length (fdParameters pfn)) (length args)))
          else map_option (map_sum id fst) (callBody (callFn fns n) n pfn args \<lparr>stMem = Map.empty, stNext = 0\<rparr>))"

end
