(* ===== verification/EvalRuns.thy ===== *)
theory EvalRuns
  imports CSemantics TacEvalProps LowerShape TacTextProps
begin

text \<open>
  Runs of the evaluator under budgets that are large enough: where control goes from one place of
  the code to another, one rule per instruction, and how a run ends.
\<close>

section \<open>Runs of the evaluator\<close>

text \<open>
  \<open>within F N D d s\<close>: at call depth \<open>d\<close> the state \<open>s\<close> still has \<open>N\<close> steps and \<open>D\<close> nested calls, and \<open>F\<close> is
  the table of functions. \<open>leads\<close> and \<open>ends\<close> say where control goes when the budget is large enough.
\<close>

definition within :: "(string \<rightharpoonup> tacFunction) \<Rightarrow> nat \<Rightarrow> nat \<Rightarrow> nat \<Rightarrow> evalState \<Rightarrow> bool" where
  "within F N D d s \<longleftrightarrow> evFuncs s = F \<and> evSteps s + N \<le> evStepLimit s \<and> d + D \<le> evMaxCallDepth s"

definition later :: "nat \<Rightarrow> evalState \<Rightarrow> evalState" where
  "later N s = s\<lparr>evSteps := evSteps s + N\<rparr>"

lemma later_sel [simp]:
  "evFuncs (later N s) = evFuncs s" "evSteps (later N s) = evSteps s + N" "evStepLimit (later N s) = evStepLimit s"
  "evMaxCallDepth (later N s) = evMaxCallDepth s" "later M (later N s) = later (N + M) s" "later 0 s = s"
  "tick s = later (Suc 0) s"
  by (simp_all add: later_def tick_def add.assoc)

lemma within_less: "within F N D d s \<Longrightarrow> N' \<le> N \<Longrightarrow> D' \<le> D \<Longrightarrow> within F N' D' d s"
  by (auto simp: within_def)

lemma within_later: "within F (N + M) D d s \<Longrightarrow> within F M D d (later N s)"
  by (auto simp: within_def)

definition leads :: "(string \<rightharpoonup> tacFunction) \<Rightarrow> evalFrame \<Rightarrow> nat \<Rightarrow> evalFrame \<Rightarrow> nat \<Rightarrow> bool" where
  "leads F f pc f' pc' \<longleftrightarrow>
     (\<exists>N D. \<forall>s d name. within F N D d s \<longrightarrow> evalLoop s f name pc d = evalLoop (later N s) f' name pc' d)"

definition ends :: "(string \<rightharpoonup> tacFunction) \<Rightarrow> evalFrame \<Rightarrow> nat \<Rightarrow> evalError + runtimeValue \<Rightarrow> bool" where
  "ends F f pc r \<longleftrightarrow>
     (\<exists>N D. \<forall>s d name. within F N D d s \<longrightarrow> evalLoop s f name pc d = map_sum id (\<lambda>v. (v, later N s)) r)"

text \<open>\<open>answers F calls\<close>: the functions of \<open>F\<close> return what \<open>calls\<close> says.\<close>

definition answersWith :: "(string \<rightharpoonup> tacFunction) \<Rightarrow> string \<Rightarrow> runtimeValue list \<Rightarrow> evalError + runtimeValue \<Rightarrow> bool" where
  "answersWith F name args r \<longleftrightarrow>
     (\<exists>N D. \<forall>s d. within F N D d s \<longrightarrow> evalCall s (''@'' @ name) args d = map_sum id (\<lambda>v. (v, later N s)) r)"

definition answers :: "(string \<rightharpoonup> tacFunction) \<Rightarrow> callee \<Rightarrow> bool" where
  "answers F calls \<longleftrightarrow> (\<forall>name args r. calls name args = Some r \<longrightarrow> answersWith F name args r)"

lemma leads_refl: "leads F f pc f pc"
  unfolding leads_def by (rule exI [of _ 0]) simp

lemma leads_trans:
  assumes "leads F f pc f1 pc1" "leads F f1 pc1 f2 pc2"
  shows "leads F f pc f2 pc2"
proof -
  obtain N D M E where 1: "\<And>s d name. within F N D d s \<Longrightarrow> evalLoop s f name pc d = evalLoop (later N s) f1 name pc1 d"
    and 2: "\<And>s d name. within F M E d s \<Longrightarrow> evalLoop s f1 name pc1 d = evalLoop (later M s) f2 name pc2 d"
    using assms unfolding leads_def by blast
  have "evalLoop s f name pc d = evalLoop (later (N + M) s) f2 name pc2 d" if w: "within F (N + M) (max D E) d s" for s d name
    using 1 [OF within_less [OF w]] 2 [OF within_less [OF within_later [OF w]]] by simp
  then show ?thesis unfolding leads_def by blast
qed

lemma leads_ends:
  assumes "leads F f pc f1 pc1" "ends F f1 pc1 r"
  shows "ends F f pc r"
proof -
  obtain N D M E where 1: "\<And>s d name. within F N D d s \<Longrightarrow> evalLoop s f name pc d = evalLoop (later N s) f1 name pc1 d"
    and 2: "\<And>s d name. within F M E d s \<Longrightarrow> evalLoop s f1 name pc1 d = map_sum id (\<lambda>v. (v, later M s)) r"
    using assms unfolding leads_def ends_def by blast
  have "evalLoop s f name pc d = map_sum id (\<lambda>v. (v, later (N + M) s)) r" if w: "within F (N + M) (max D E) d s" for s d name
    using 1 [OF within_less [OF w]] 2 [OF within_less [OF within_later [OF w]]] by simp
  then show ?thesis unfolding ends_def by blast
qed

text \<open>One instruction.\<close>

definition codeAt :: "evalFrame \<Rightarrow> nat \<Rightarrow> instruction \<Rightarrow> bool" where
  "codeAt f pc i \<longleftrightarrow> pc < length (instructions (frFn f)) \<and> instAt f pc = i"

lemma codeAt_running: "codeAt f pc i \<Longrightarrow> within F (Suc N) D d s \<Longrightarrow> running s f pc"
  by (auto simp: codeAt_def within_def running_def)

lemma step_leads:
  assumes "\<And>s d name. within F (Suc N) D d s \<Longrightarrow> evalLoop s f name pc d = evalLoop (later (Suc N) s) f' name pc' d"
  shows "leads F f pc f' pc'"
  using assms unfolding leads_def by blast

lemma step_ends:
  assumes "\<And>s d name. within F (Suc N) D d s \<Longrightarrow> evalLoop s f name pc d = map_sum id (\<lambda>v. (v, later (Suc N) s)) r"
  shows "ends F f pc r"
  using assms unfolding ends_def by blast

lemma run_label: "codeAt f pc (labelInst lab) \<Longrightarrow> leads F f pc f (Suc pc)"
  by (rule step_leads [where N = 0 and D = 0]) (simp add: codeAt_def evalLoop_label codeAt_running)

lemma run_jmp: "codeAt f pc (jmpInst lab) \<Longrightarrow> frLabels f lab = Some k \<Longrightarrow> leads F f pc f k"
  by (rule step_leads [where N = 0 and D = 0]) (simp add: codeAt_def evalLoop_jmp codeAt_running, simp add: jmpInst_def)

lemma run_br:
  assumes "codeAt f pc (brInst c t e)" "resolveI32 f (opText c) = Inr w" "frLabels f (if w \<noteq> 0 then t else e) = Some k"
  shows "leads F f pc f k"
proof (rule step_leads [where N = 0 and D = 0])
  fix s d name
  assume "within F (Suc 0) 0 d s"
  then have "running s f pc" by (rule codeAt_running [OF assms(1)])
  moreover have "instAt f pc = brInst c t e" using assms(1) by (simp add: codeAt_def)
  ultimately show "evalLoop s f name pc d = evalLoop (later (Suc 0) s) f name k d"
    using assms(2,3) by (auto simp: evalLoop_br) (auto simp: brInst_def branchTarget_def)
qed

lemma run_br_error:
  assumes "codeAt f pc (brInst c t e)" "resolveI32 f (opText c) = Inl err"
  shows "ends F f pc (Inl err)"
proof (rule step_ends [where N = 0 and D = 0])
  fix s d name
  assume "within F (Suc 0) 0 d s"
  then have "running s f pc" by (rule codeAt_running [OF assms(1)])
  moreover have "instAt f pc = brInst c t e" using assms(1) by (simp add: codeAt_def)
  ultimately show "evalLoop s f name pc d = map_sum id (\<lambda>v. (v, later (Suc 0) s)) (Inl err)"
    using assms(2) by (simp add: evalLoop_br brInst_def)
qed


lemma run_ret:
  assumes "codeAt f pc (retInst v)" "opKind v \<noteq> OperandInvalid" "resolveValue f (opText v) = Inr x"
  shows "ends F f pc (Inr x)"
proof (rule step_ends [where N = 0 and D = 0])
  fix s d name
  assume "within F (Suc 0) 0 d s"
  then have "running s f pc" by (rule codeAt_running [OF assms(1)])
  moreover have "instAt f pc = retInst v" using assms(1) by (simp add: codeAt_def)
  ultimately show "evalLoop s f name pc d = map_sum id (\<lambda>v. (v, later (Suc 0) s)) (Inr x)"
    using assms(2,3) by (simp add: evalLoop_ret retInst_def)
qed

lemma run_ret_nothing:
  assumes "codeAt f pc (retInst v)" "opKind v = OperandInvalid"
  shows "ends F f pc (Inr (ValueI32 0))"
proof (rule step_ends [where N = 0 and D = 0])
  fix s d name
  assume "within F (Suc 0) 0 d s"
  then have "running s f pc" by (rule codeAt_running [OF assms(1)])
  moreover have "instAt f pc = retInst v" using assms(1) by (simp add: codeAt_def)
  ultimately show "evalLoop s f name pc d = map_sum id (\<lambda>v. (v, later (Suc 0) s)) (Inr (ValueI32 0))"
    using assms(2) by (simp add: evalLoop_ret retInst_def)
qed

lemma evalLoop_simple:
  assumes "codeAt f pc i" "instKind i = InstructionOp" "instOpcode i \<noteq> OpcodeCall" "within F (Suc 0) 0 d s"
  shows "evalLoop s f name pc d =
    bindE (evalSimpleOp f i) (\<lambda>(res, f').
      case res of
        None \<Rightarrow> evalLoop (later (Suc 0) s) f' name (Suc pc) d
      | Some v \<Rightarrow> if \<not> hasDestination i then Inl (ENoDestination (instOpcode i) name)
          else evalLoop (later (Suc 0) s) (setDest i v f') name (Suc pc) d)"
proof -
  have "running s f pc" "instAt f pc = i" using assms(1,4) codeAt_running [OF assms(1)] by (auto simp: codeAt_def)
  then show ?thesis
    using assms(2,3) by (cases "evalSimpleOp f i") (auto simp: evalLoop_op evalOp.simps split: option.split)
qed

lemma run_simple_error:
  assumes "codeAt f pc i" "instKind i = InstructionOp" "instOpcode i \<noteq> OpcodeCall" "evalSimpleOp f i = Inl e"
  shows "ends F f pc (Inl e)"
  by (rule step_ends [where N = 0 and D = 0]) (simp add: evalLoop_simple [OF assms(1-3)] assms(4))

lemma run_simple_value:
  assumes "codeAt f pc i" "instKind i = InstructionOp" "instOpcode i \<noteq> OpcodeCall" "hasDestination i"
    "evalSimpleOp f i = Inr (Some v, f')"
  shows "leads F f pc (setDest i v f') (Suc pc)"
  by (rule step_leads [where N = 0 and D = 0]) (simp add: evalLoop_simple [OF assms(1-3)] assms(4,5))

lemma run_simple_none:
  assumes "codeAt f pc i" "instKind i = InstructionOp" "instOpcode i \<noteq> OpcodeCall" "evalSimpleOp f i = Inr (None, f')"
  shows "leads F f pc f' (Suc pc)"
  by (rule step_leads [where N = 0 and D = 0]) (simp add: evalLoop_simple [OF assms(1-3)] assms(4))

text \<open>A call: one step, then those of the called function.\<close>

lemma evalLoop_call:
  assumes i: "codeAt f pc i" "instKind i = InstructionOp" "instOpcode i = OpcodeCall" "callCallee i = ''@'' @ name"
    and args: "mapE (\<lambda>a. resolveValue f (opText a)) (callArgs i) = Inr argv"
    and w: "within F (Suc N) (Suc D) d s"
    and c: "\<And>s d. within F N D d s \<Longrightarrow> evalCall s (''@'' @ name) argv d = map_sum id (\<lambda>v. (v, later N s)) r"
  shows "evalLoop s f n pc d =
    bindE r (\<lambda>v. evalLoop (later (Suc N) s) (if hasDestination i then setDest i v f else f) n (Suc pc) d)"
proof -
  have "running s f pc" "instAt f pc = i" using i(1) codeAt_running [OF i(1) w] by (auto simp: codeAt_def)
  moreover have "within F N D (Suc d) (later (Suc 0) s)" using w by (simp add: within_def)
  note c [OF this]
  ultimately show ?thesis
    using i(2-4) args by (cases r) (simp_all add: evalLoop_op evalOp.simps)
qed

lemma run_call:
  assumes i: "codeAt f pc i" "instKind i = InstructionOp" "instOpcode i = OpcodeCall" "callCallee i = ''@'' @ name"
    and args: "mapE (\<lambda>a. resolveValue f (opText a)) (callArgs i) = Inr argv"
    and c: "answersWith F name argv r"
  shows "r = Inl e \<Longrightarrow> ends F f pc (Inl e)"
    and "r = Inr v \<Longrightarrow> leads F f pc (if hasDestination i then setDest i v f else f) (Suc pc)"
proof -
  obtain N D where c: "\<And>s d. within F N D d s \<Longrightarrow> evalCall s (''@'' @ name) argv d = map_sum id (\<lambda>v. (v, later N s)) r"
    using c unfolding answersWith_def by blast
  note run = evalLoop_call [OF i args _ c]
  show "ends F f pc (Inl e)" if "r = Inl e"
    by (rule step_ends [where N = N and D = "Suc D"]) (simp add: run that)
  show "leads F f pc (if hasDestination i then setDest i v f else f) (Suc pc)" if "r = Inr v"
    by (rule step_leads [where N = N and D = "Suc D"]) (simp add: run that)
qed

end
