(* ===== verification/Simulation.thy ===== *)
theory Simulation
  imports EvalRuns
begin

text \<open>
  Lowering an expression preserves its meaning: the evaluator, run on the emitted code, does what the
  reference interpreter does on the tree, and leaves the value in the operand that lowering returns.
\<close>

section \<open>Frames and stores\<close>

text \<open>
  \<open>freshName n t\<close>: \<open>t\<close> is a temporary or a slot numbered from \<open>n\<close> on, so code emitted with the counter at \<open>n\<close> may
  set it. \<open>agree n f f'\<close>: the frames differ in the memory and in such names only.
\<close>

definition freshName :: "nat \<Rightarrow> string \<Rightarrow> bool" where
  "freshName n t \<longleftrightarrow> (\<exists>k \<ge> n. t = tempName k \<or> t = slotName k)"

definition agree :: "nat \<Rightarrow> evalFrame \<Rightarrow> evalFrame \<Rightarrow> bool" where
  "agree n f f' \<longleftrightarrow> frFn f' = frFn f \<and> frLabels f' = frLabels f
     \<and> (\<forall>t. \<not> freshName n t \<longrightarrow> frValues f' t = frValues f t)"

text \<open>\<open>base st f\<close>: the memory of the frame is the store; \<open>vars\<close>: each name in scope is in the slot of its object.\<close>

definition base :: "store \<Rightarrow> evalFrame \<Rightarrow> bool" where
  "base st f \<longleftrightarrow> distinct (labelsOf (instructions (frFn f))) \<and> frLabels f = labelMap (instructions (frFn f))
     \<and> frValues f ''0'' = None \<and> frNextAddr f = stNext st
     \<and> (\<forall>a. loadCell f a = (case stMem st a of None \<Rightarrow> Inl (EUninitialized a) | Some v \<Rightarrow> Inr v))"

definition vars :: "scope list \<Rightarrow> nat \<Rightarrow> env \<Rightarrow> evalFrame \<Rightarrow> bool" where
  "vars scopes n env f \<longleftrightarrow>
     (\<forall>name vs. resolveIn scopes name = Some vs \<longrightarrow>
        (\<exists>a. env name = Some a \<and> namedBelow n (symSlot vs) \<and> frValues f (symSlot vs) = Some (ValuePtr a)))"

definition holds :: "operand \<Rightarrow> runtimeValue \<Rightarrow> nat \<Rightarrow> evalFrame \<Rightarrow> bool" where
  "holds v x n f \<longleftrightarrow> namedBelow n (opText v) \<and> frValues f (opText v) = Some x"

lemma below_not_fresh: "namedBelow n t \<Longrightarrow> n \<le> m \<Longrightarrow> \<not> freshName m t"
  by (auto simp: namedBelow_def freshName_def)

lemma freshName_self [simp]: "freshName n (tempName k) \<longleftrightarrow> n \<le> k" "freshName n (slotName k) \<longleftrightarrow> n \<le> k"
  by (auto simp: freshName_def)

lemma zero_not_fresh [simp]: "\<not> freshName n ''0''" "tempName k \<noteq> ''0''" "slotName k \<noteq> ''0''"
  by (auto simp: freshName_def tempName_def slotName_def)

lemma freshName_mono: "freshName m t \<Longrightarrow> n \<le> m \<Longrightarrow> freshName n t"
  by (auto simp: freshName_def)

lemma agree_refl: "agree n f f"
  by (simp add: agree_def)

lemma agree_trans: "agree n f f' \<Longrightarrow> agree m f' f'' \<Longrightarrow> n \<le> m \<Longrightarrow> agree n f f''"
  by (auto simp: agree_def dest: freshName_mono)

lemma agree_code: "agree n f f' \<Longrightarrow> frFn f' = frFn f"
  by (simp add: agree_def)

lemma agree_codeAt: "agree n f f' \<Longrightarrow> codeAt f' pc i \<longleftrightarrow> codeAt f pc i"
  by (simp add: agree_def codeAt_def instAt_def)

lemma agree_below: "agree n f f' \<Longrightarrow> namedBelow n t \<Longrightarrow> frValues f' t = frValues f t"
  by (auto simp: agree_def dest: below_not_fresh [OF _ order_refl])

text \<open>Facts that survive the code that follows.\<close>

definition lasting :: "(nat \<Rightarrow> evalFrame \<Rightarrow> bool) \<Rightarrow> bool" where
  "lasting P \<longleftrightarrow> (\<forall>n f n' f'. P n f \<longrightarrow> agree n f f' \<longrightarrow> n \<le> n' \<longrightarrow> P n' f')"

lemma lastingD: "lasting P \<Longrightarrow> P n f \<Longrightarrow> agree n f f' \<Longrightarrow> n \<le> n' \<Longrightarrow> P n' f'"
  by (auto simp: lasting_def)

lemma lasting_const [intro!, simp]: "lasting (\<lambda>n f. c)"
  by (simp add: lasting_def)

lemma lasting_conj [intro!]: "lasting P \<Longrightarrow> lasting Q \<Longrightarrow> lasting (\<lambda>n f. P n f \<and> Q n f)"
  by (auto simp: lasting_def)

lemma lasting_imp [intro!]: "lasting P \<Longrightarrow> lasting (\<lambda>n f. b \<longrightarrow> P n f)"
  by (auto simp: lasting_def)

lemma lasting_holds [intro!, simp]: "lasting (holds v x)"
  by (auto simp: lasting_def holds_def agree_below intro: namedBelow_mono)

lemma vars_agree: "vars scopes n env f \<Longrightarrow> agree n f f' \<Longrightarrow> n \<le> n' \<Longrightarrow> vars scopes n' env f'"
  unfolding vars_def by (metis agree_below namedBelow_mono)

section \<open>Actions against actions\<close>

abbreviation ctr :: "lowerer \<Rightarrow> nat" where "ctr l \<equiv> nextTempID (lwFn l)"
abbreviation pcOf :: "lowerer \<Rightarrow> nat" where "pcOf l \<equiv> length (codeOf l)"

text \<open>\<open>grows l l'\<close>: code and names are only added, the parameters stay.\<close>

definition grows :: "lowerer \<Rightarrow> lowerer \<Rightarrow> bool" where
  "grows l l' \<longleftrightarrow> ctr l \<le> ctr l' \<and> prefix (codeOf l) (codeOf l') \<and> parameters (lwFn l') = parameters (lwFn l)
     \<and> lwFunctions l' = lwFunctions l"

definition quiet :: "'a lower \<Rightarrow> bool" where
  "quiet m \<longleftrightarrow> (\<forall>l a l'. m l = Inr (a, l') \<longrightarrow> okL l \<longrightarrow> grows l l' \<and> lwScopes l' = lwScopes l)"

text \<open>
  \<open>sim F env P m M Q\<close>: where \<open>P\<close> holds, the code that \<open>m\<close> emits does what \<open>M\<close> does on the store, and the
  result of \<open>m\<close> stands for the result of \<open>M\<close> in the sense of \<open>Q\<close>.
\<close>

definition reaches :: "(string \<rightharpoonup> tacFunction) \<Rightarrow> nat \<Rightarrow> evalFrame \<Rightarrow> nat \<Rightarrow> store \<Rightarrow> evalFrame \<Rightarrow> nat \<Rightarrow> bool" where
  "reaches F n f pc st f' pc' \<longleftrightarrow> leads F f pc f' pc' \<and> base st f' \<and> agree n f f'"

definition codeIn :: "lowerer \<Rightarrow> evalFrame \<Rightarrow> bool" where
  "codeIn l f \<longleftrightarrow> prefix (codeOf l) (instructions (frFn f))"

definition sim :: "(string \<rightharpoonup> tacFunction) \<Rightarrow> env \<Rightarrow> (nat \<Rightarrow> evalFrame \<Rightarrow> bool) \<Rightarrow> 'a lower \<Rightarrow> 'b action
    \<Rightarrow> ('a \<Rightarrow> 'b \<Rightarrow> nat \<Rightarrow> evalFrame \<Rightarrow> bool) \<Rightarrow> bool" where
  "sim F env P m M Q \<longleftrightarrow> quiet m \<and>
     (\<forall>l a l' f st r. m l = Inr (a, l') \<longrightarrow> okL l \<longrightarrow> codeIn l' f \<longrightarrow> vars (lwScopes l) (ctr l) env f \<longrightarrow> base st f
        \<longrightarrow> P (ctr l) f \<longrightarrow> M st = Some r \<longrightarrow>
        (case r of
           Inl e \<Rightarrow> ends F f (pcOf l) (Inl e)
         | Inr (b, st') \<Rightarrow> \<exists>f'. reaches F (ctr l) f (pcOf l) st' f' (pcOf l') \<and> Q a b (ctr l') f'))"

lemma simI:
  assumes "quiet m"
    and "\<And>l a l' f st e. m l = Inr (a, l') \<Longrightarrow> okL l \<Longrightarrow> codeIn l' f \<Longrightarrow> vars (lwScopes l) (ctr l) env f \<Longrightarrow> base st f \<Longrightarrow> P (ctr l) f
      \<Longrightarrow> M st = Some (Inl e) \<Longrightarrow> ends F f (pcOf l) (Inl e)"
    and "\<And>l a l' f st b st'. m l = Inr (a, l') \<Longrightarrow> okL l \<Longrightarrow> codeIn l' f \<Longrightarrow> vars (lwScopes l) (ctr l) env f \<Longrightarrow> base st f \<Longrightarrow> P (ctr l) f
      \<Longrightarrow> M st = Some (Inr (b, st')) \<Longrightarrow> \<exists>f'. reaches F (ctr l) f (pcOf l) st' f' (pcOf l') \<and> Q a b (ctr l') f'"
  shows "sim F env P m M Q"
  using assms unfolding sim_def by (auto split: sum.split)

lemma simD_quiet: "sim F env P m M Q \<Longrightarrow> m l = Inr (a, l') \<Longrightarrow> okL l \<Longrightarrow> grows l l' \<and> lwScopes l' = lwScopes l"
  by (simp add: sim_def quiet_def)

lemma simD_error:
  "sim F env P m M Q \<Longrightarrow> m l = Inr (a, l') \<Longrightarrow> okL l \<Longrightarrow> codeIn l' f \<Longrightarrow> vars (lwScopes l) (ctr l) env f \<Longrightarrow> base st f \<Longrightarrow> P (ctr l) f
    \<Longrightarrow> M st = Some (Inl e) \<Longrightarrow> ends F f (pcOf l) (Inl e)"
  unfolding sim_def by fastforce

lemma simD_value:
  assumes "sim F env P m M Q" "m l = Inr (a, l')" "okL l" "codeIn l' f" "vars (lwScopes l) (ctr l) env f" "base st f" "P (ctr l) f"
    "M st = Some (Inr (b, st'))"
  obtains f' where "reaches F (ctr l) f (pcOf l) st' f' (pcOf l')" "Q a b (ctr l') f'"
  using assms unfolding sim_def by fastforce

lemma reaches_trans:
  "reaches F n f pc st f' pc' \<Longrightarrow> reaches F m f' pc' st' f'' pc'' \<Longrightarrow> n \<le> m \<Longrightarrow> reaches F n f pc st' f'' pc''"
  by (auto simp: reaches_def intro: leads_trans agree_trans)

lemma reaches_ends: "reaches F n f pc st f' pc' \<Longrightarrow> ends F f' pc' r \<Longrightarrow> ends F f pc r"
  by (auto simp: reaches_def intro: leads_ends)

lemma reaches_refl: "base st f \<Longrightarrow> reaches F n f pc st f pc"
  by (simp add: reaches_def leads_refl agree_refl)

lemma codeIn_grows: "codeIn l' f \<Longrightarrow> grows l l' \<Longrightarrow> codeIn l f"
  unfolding codeIn_def grows_def by (meson prefix_order.trans)

lemma codeIn_reaches: "reaches F n f pc st f' pc' \<Longrightarrow> codeIn l f' \<longleftrightarrow> codeIn l f"
  by (simp add: reaches_def codeIn_def agree_def)

lemma grows_refl: "grows l l"
  by (simp add: grows_def)

lemma grows_trans: "grows l l' \<Longrightarrow> grows l' l'' \<Longrightarrow> grows l l''"
  unfolding grows_def by (auto intro: prefix_order.trans)

lemma okL_grows: "okL l \<Longrightarrow> grows l l' \<Longrightarrow> lwScopes l' = lwScopes l \<Longrightarrow> okL l'"
  by (simp add: okL_def grows_def)

lemma quiet_bind: "quiet m \<Longrightarrow> (\<And>a. quiet (k a)) \<Longrightarrow> quiet (bindL m k)"
proof (unfold quiet_def bindL_eq_Inr, intro allI impI, elim exE conjE)
  fix l b l' a l1
  assume m: "\<forall>l a l'. m l = Inr (a, l') \<longrightarrow> okL l \<longrightarrow> grows l l' \<and> lwScopes l' = lwScopes l"
    and k: "\<And>a. \<forall>l b l'. k a l = Inr (b, l') \<longrightarrow> okL l \<longrightarrow> grows l l' \<and> lwScopes l' = lwScopes l"
    and run: "m l = Inr (a, l1)" "k a l1 = Inr (b, l')" and ok: "okL l"
  have 1: "grows l l1 \<and> lwScopes l1 = lwScopes l" using m run(1) ok by blast
  then have "grows l1 l' \<and> lwScopes l' = lwScopes l1" using k run(2) okL_grows [OF ok] by blast
  with 1 show "grows l l' \<and> lwScopes l' = lwScopes l" using grows_trans by metis
qed

lemma bindM_eq:
  "bindM M K st = Some (Inl e) \<longleftrightarrow> M st = Some (Inl e) \<or> (\<exists>b st1. M st = Some (Inr (b, st1)) \<and> K b st1 = Some (Inl e))"
  "bindM M K st = Some (Inr (c, st')) \<longleftrightarrow> (\<exists>b st1. M st = Some (Inr (b, st1)) \<and> K b st1 = Some (Inr (c, st')))"
  by (auto simp: bindM_def split: option.splits sum.splits)

text \<open>The rule of sequence: facts about earlier results stay.\<close>

lemma sim_bind:
  assumes m: "sim F env P m M R" and P: "lasting P"
    and k: "\<And>a b. sim F env (\<lambda>n f. P n f \<and> R a b n f) (k a) (K b) Q"
  shows "sim F env P (bindL m k) (bindM M K) Q"
proof (rule simI)
  show "quiet (bindL m k)" using m k by (auto simp: sim_def intro: quiet_bind)
next
  fix l c l' f st e
  assume run: "bindL m k l = Inr (c, l')" and ok: "okL l" and f: "codeIn l' f" "vars (lwScopes l) (ctr l) env f" "base st f" "P (ctr l) f"
    and M: "bindM M K st = Some (Inl e)"
  obtain a l1 where l1: "m l = Inr (a, l1)" "k a l1 = Inr (c, l')" using run by (auto simp: bindL_eq_Inr)
  have q: "grows l l1 \<and> lwScopes l1 = lwScopes l" "grows l1 l' \<and> lwScopes l' = lwScopes l1"
    using simD_quiet [OF m l1(1) ok] simD_quiet [OF k l1(2) okL_grows [OF ok]] by auto
  have ok1: "okL l1" using okL_grows [OF ok] q(1) by blast
  have c1: "codeIn l1 f" using f(1) q(2) by (blast intro: codeIn_grows)
  from M consider "M st = Some (Inl e)" | b st1 where "M st = Some (Inr (b, st1))" "K b st1 = Some (Inl e)"
    by (auto simp: bindM_eq)
  then show "ends F f (pcOf l) (Inl e)"
  proof cases
    case 1
    then show ?thesis using simD_error [OF m l1(1) ok c1 f(2-4)] by blast
  next
    case 2
    obtain f1 where f1: "reaches F (ctr l) f (pcOf l) st1 f1 (pcOf l1)" "R a b (ctr l1) f1"
      using simD_value [where P = P, OF m l1(1) ok c1 f(2-4) 2(1)] .
    then have ag: "agree (ctr l) f f1" "base st1 f1" by (auto simp: reaches_def)
    have n: "ctr l \<le> ctr l1" using q by (simp add: grows_def)
    have "ends F f1 (pcOf l1) (Inl e)"
      using simD_error [OF k l1(2) ok1 _ _ ag(2) _ 2(2)] f(1) codeIn_reaches [OF f1(1)] vars_agree [OF f(2) ag(1) n] q
        lastingD [OF P f(4) ag(1) n] f1(2) by simp
    then show ?thesis by (rule reaches_ends [OF f1(1)])
  qed
next
  fix l c l' f st x st'
  assume run: "bindL m k l = Inr (c, l')" and ok: "okL l" and f: "codeIn l' f" "vars (lwScopes l) (ctr l) env f" "base st f" "P (ctr l) f"
    and M: "bindM M K st = Some (Inr (x, st'))"
  obtain a l1 where l1: "m l = Inr (a, l1)" "k a l1 = Inr (c, l')" using run by (auto simp: bindL_eq_Inr)
  have q: "grows l l1 \<and> lwScopes l1 = lwScopes l" "grows l1 l' \<and> lwScopes l' = lwScopes l1"
    using simD_quiet [OF m l1(1) ok] simD_quiet [OF k l1(2) okL_grows [OF ok]] by auto
  have ok1: "okL l1" using okL_grows [OF ok] q(1) by blast
  have c1: "codeIn l1 f" using f(1) q(2) by (blast intro: codeIn_grows)
  obtain b st1 where 2: "M st = Some (Inr (b, st1))" "K b st1 = Some (Inr (x, st'))" using M by (auto simp: bindM_eq)
  obtain f1 where f1: "reaches F (ctr l) f (pcOf l) st1 f1 (pcOf l1)" "R a b (ctr l1) f1"
    using simD_value [where P = P, OF m l1(1) ok c1 f(2-4) 2(1)] .
  then have ag: "agree (ctr l) f f1" "base st1 f1" by (auto simp: reaches_def)
  have n: "ctr l \<le> ctr l1" using q by (simp add: grows_def)
  have v: "codeIn l' f1" "vars (lwScopes l1) (ctr l1) env f1" "P (ctr l1) f1 \<and> R a b (ctr l1) f1"
    using f(1) codeIn_reaches [OF f1(1)] vars_agree [OF f(2) ag(1) n] q lastingD [OF P f(4) ag(1) n] f1(2) by auto
  obtain f2 where "reaches F (ctr l1) f1 (pcOf l1) st' f2 (pcOf l')" "Q c x (ctr l') f2"
    using simD_value [OF k l1(2) ok1 v(1,2) ag(2) v(3) 2(2)] .
  then show "\<exists>f'. reaches F (ctr l) f (pcOf l) st' f' (pcOf l') \<and> Q c x (ctr l') f'"
    using reaches_trans [OF f1(1) _ n] by blast
qed

section \<open>Rules\<close>

lemma bindM_simps [simp]:
  "bindM (returnM x) K = K x" "bindM (throwM e) K = throwM e" "bindM stuckM K = stuckM" "bindM M returnM = M"
  by (auto simp: bindM_def returnM_def throwM_def stuckM_def fun_eq_iff split: option.splits sum.splits)

lemma bindM_assoc: "bindM (bindM M K) L = bindM M (\<lambda>x. bindM (K x) L)"
  by (auto simp: bindM_def fun_eq_iff split: option.splits sum.splits)

lemma action_eq [simp]:
  "returnM x st = Some r \<longleftrightarrow> r = Inr (x, st)" "throwM e st = Some r' \<longleftrightarrow> r' = Inl e" "stuckM st = None"
  by (auto simp: returnM_def throwM_def stuckM_def)

lemma sim_conseq:
  "sim F env P m M R \<Longrightarrow> (\<And>n f. P' n f \<Longrightarrow> P n f) \<Longrightarrow> (\<And>a b n f. R a b n f \<Longrightarrow> Q a b n f) \<Longrightarrow> sim F env P' m M Q"
proof (rule simI)
  show "sim F env P m M R \<Longrightarrow> quiet m" by (simp add: sim_def)
qed (blast dest: simD_error, blast elim: simD_value)

lemma sim_post: "sim F env P m M R \<Longrightarrow> (\<And>a b n f. R a b n f \<Longrightarrow> Q a b n f) \<Longrightarrow> sim F env P m M Q"
  by (rule sim_conseq)

lemma sim_stuck: "quiet m \<Longrightarrow> sim F env P m stuckM Q"
  by (rule simI) auto

lemma quiet_return: "quiet (returnL a)"
  by (auto simp: quiet_def lower_simps grows_refl)

lemma sim_return:
  assumes "\<And>n f. P n f \<Longrightarrow> Q a b n f"
  shows "sim F env P (returnL a) (returnM b) Q"
  using quiet_return
  by (rule simI) (auto simp: lower_simps intro!: assms reaches_refl)

lemma sim_fail: "sim F env P (failL e) M Q"
  by (rule simI) (auto simp: quiet_def lower_simps)

text \<open>A step of lowering that emits nothing.\<close>

lemma sim_silent:
  assumes m: "\<And>l a l'. m l = Inr (a, l') \<Longrightarrow> okL l \<Longrightarrow> l' = l \<and> G a" and k: "\<And>a. G a \<Longrightarrow> sim F env P (k a) M Q"
  shows "sim F env P (bindL m k) M Q"
proof (rule simI)
  show "quiet (bindL m k)" using k unfolding sim_def quiet_def bindL_eq_Inr by (metis m)
next
  fix l a l' f st e
  assume "bindL m k l = Inr (a, l')" and ok: "okL l" and f: "codeIn l' f" "vars (lwScopes l) (ctr l) env f" "base st f" "P (ctr l) f"
    and M: "M st = Some (Inl e)"
  then obtain x where "k x l = Inr (a, l')" "G x" unfolding bindL_eq_Inr using m by blast
  then show "ends F f (pcOf l) (Inl e)" using simD_error [OF k] ok f M by blast
next
  fix l a l' f st b st'
  assume "bindL m k l = Inr (a, l')" and ok: "okL l" and f: "codeIn l' f" "vars (lwScopes l) (ctr l) env f" "base st f" "P (ctr l) f"
    and M: "M st = Some (Inr (b, st'))"
  then obtain x where "k x l = Inr (a, l')" "G x" unfolding bindL_eq_Inr using m by blast
  then show "\<exists>f'. reaches F (ctr l) f (pcOf l) st' f' (pcOf l') \<and> Q a b (ctr l') f'" using simD_value [OF k] ok f M by metis
qed

lemma sim_guard: "(c \<Longrightarrow> sim F env P m M Q) \<Longrightarrow> sim F env P (thenL (guardL c e) m) M Q"
  unfolding thenL_def by (rule sim_silent [where G = "\<lambda>_. c"]) (auto simp: lower_simps)

lemma sim_map:
  assumes "sim F env P m M R" "lasting P" "\<And>a b n f. R a b n f \<Longrightarrow> Q (g a) b n f"
  shows "sim F env P (bindL m (\<lambda>v. returnL (g v))) M Q"
proof -
  have "sim F env P (bindL m (\<lambda>v. returnL (g v))) (bindM M returnM) Q"
    by (rule sim_bind [OF assms(1,2)]) (rule sim_return, rule assms(3), erule conjunct2)
  then show ?thesis by simp
qed

lemma sim_throw:
  "sim F env P m (throwM e) R \<Longrightarrow> lasting P \<Longrightarrow> (\<And>a. quiet (k a)) \<Longrightarrow> sim F env P (bindL m k) (throwM e) Q"
  using sim_bind [of F env P m "throwM e" R k "\<lambda>_. stuckM" Q] by (simp add: sim_stuck)

lemma sim_lookup:
  "sim F env P (lookupVariable tok name) (variableM env name)
     (\<lambda>vs a. holds (StackSlotPointer (symSlot vs)) (ValuePtr a))"
proof (rule simI)
  fix l vs l' f st a st'
  assume "lookupVariable tok name l = Inr (vs, l')" "vars (lwScopes l) (ctr l) env f" "base st f"
    "variableM env name st = Some (Inr (a, st'))"
  then show "\<exists>f'. reaches F (ctr l) f (pcOf l) st' f' (pcOf l') \<and> holds (StackSlotPointer (symSlot vs)) (ValuePtr a) (ctr l') f'"
    by (fastforce simp: lower_simps resolveVariable_def vars_def variableM_def holds_def operand_defs split: option.splits
        intro: reaches_refl)
qed (auto simp: quiet_def lower_simps grows_refl variableM_def split: option.splits)

end
