(* ===== verification/SimulationExpr.thy ===== *)
theory SimulationExpr
  imports Simulation
begin

text \<open>
  Lowering an expression preserves its meaning: the rules of \<open>Simulation\<close> for each emission, and the
  induction over expressions.
\<close>

section \<open>Operands\<close>

lemma namedBelow_word: "namedBelow n t \<Longrightarrow> isWord t"
proof -
  have d: "wordChar c" if "isDigit c" for c using that by (auto simp: isDigit_def wordChar_def inkChar_def)
  have "isWord (CHR ''%'' # c # itoa (int k))" if "c \<in> {CHR ''t'', CHR ''s''}" for c k
    using that d itoaNat_digits by (auto simp: isWord_def list_all_iff itoa_def wordChar_def inkChar_def)
  then show "namedBelow n t \<Longrightarrow> isWord t" by (auto simp: namedBelow_def tempName_def slotName_def)
qed

lemma resolve_holds:
  assumes "holds v x n f"
  shows "resolveValue f (opText v) = Inr x"
proof -
  have "trimSpace (opText v) = opText v"
    using assms namedBelow_word isWord_tight unfolding holds_def by (metis trimSpace_tight)
  then show ?thesis using assms by (simp add: resolveValue_def holds_def)
qed

lemma resolve_zero: "base st f \<Longrightarrow> resolveI32 f ''0'' = Inr 0"
proof -
  assume "base st f"
  moreover have "trimSpace ''0'' = ''0''" by (intro trimSpace_tight isWord_tight) (simp add: isWord_def wordChar_def inkChar_def)
  moreover have "parseInt 32 ''0'' = Some 0" by code_simp
  ultimately show ?thesis by (simp add: resolveI32_def resolveValue_def base_def)
qed

definition asInteger :: "runtimeValue \<Rightarrow> evalError + i32" where
  "asInteger v = (case v of ValueI32 w \<Rightarrow> Inr w | ValuePtr a \<Rightarrow> Inl EExpectedI32)"

definition asAddress :: "runtimeValue \<Rightarrow> evalError + nat" where
  "asAddress v = (case v of ValuePtr a \<Rightarrow> Inr a | ValueI32 w \<Rightarrow> Inl EExpectedPtr)"

lemma resolve_kinds:
  assumes "holds v x n f"
  shows "resolveI32 f (opText v) = asInteger x" "resolvePtr f (opText v) = asAddress x"
  using resolve_holds [OF assms] by (cases x; simp add: resolveI32_def resolvePtr_def asInteger_def asAddress_def)+

lemma parseInt_trim: "parseInt 32 s = Some n \<Longrightarrow> trimSpace s = s"
proof -
  have digits: "list_all isDigit t" if "atoi acc t = Some m" for acc t m
    using that by (induction acc t rule: atoi.induct) (auto split: if_splits)
  have ink: "inkChar c" if "isDigit c" for c using that by (auto simp: isDigit_def inkChar_def)
  assume p: "parseInt 32 s = Some n"
  obtain c t where s: "s = c # t" using p by (cases s) (auto simp: parseInt_def)
  have b: "(if c = CHR ''-'' \<or> c = CHR ''+'' then t else s) \<noteq> []"
    "atoi 0 (if c = CHR ''-'' \<or> c = CHR ''+'' then t else s) \<noteq> None"
    using p by (auto simp: s parseInt_def Let_def split: if_splits option.splits)
  have "list_all isDigit (if c = CHR ''-'' \<or> c = CHR ''+'' then t else s)" using b(2) digits by auto
  then have "list_all inkChar (if c = CHR ''-'' \<or> c = CHR ''+'' then t else s)" using ink by (simp add: list_all_iff)
  then have "list_all inkChar s" by (auto simp: s inkChar_def split: if_splits)
  then have "tight s" by (auto simp: tight_def s list_all_iff)
  then show ?thesis by simp
qed

section \<open>Emissions\<close>

lemma emit_next:
  "op \<noteq> OpcodeAlloca \<Longrightarrow> AddInstruction op ops f = (Temp (tempName (nextTempID f)),
     f\<lparr>nextTempID := Suc (nextTempID f), instructions := instructions f @ [opInst (Temp (tempName (nextTempID f))) op ops]\<rparr>)"
  "AddInstruction OpcodeAlloca ops f = (StackSlotPointer (slotName (Suc (nextTempID f))),
     f\<lparr>nextTempID := Suc (Suc (nextTempID f)),
       instructions := instructions f @ [opInst (StackSlotPointer (slotName (Suc (nextTempID f)))) OpcodeAlloca ops]\<rparr>)"
  "AddCall c as f = (Temp (tempName (nextTempID f)),
     f\<lparr>nextTempID := Suc (nextTempID f), instructions := instructions f @ [callInst (Temp (tempName (nextTempID f))) c as]\<rparr>)"
  "AddVoidInstruction op ops f = f\<lparr>instructions := instructions f @ [voidInst op ops]\<rparr>"
  "AddCallVoid c as f = f\<lparr>instructions := instructions f @ [callVoidInst c as]\<rparr>"
  by (simp_all add: builder_defs)

lemma quiet_emissions:
  "quiet (emitL (AddInstruction op ops))" "quiet (emitL (AddCall c as))"
  "quiet (execL (AddVoidInstruction op ops))" "quiet (execL (AddCallVoid c as))"
  by (cases "op = OpcodeAlloca") (auto simp: quiet_def lower_simps grows_def emit_next)

lemma codeIn_codeAt: "codeIn l' f \<Longrightarrow> codeOf l' = codeOf l @ [i] \<Longrightarrow> codeAt f (pcOf l) i"
  by (auto simp: codeIn_def codeAt_def instAt_def prefix_def nth_append)

lemma base_setDest: "base st f \<Longrightarrow> opText (destination i) \<noteq> ''0'' \<Longrightarrow> base st (setDest i v f)"
  by (simp add: base_def loadCell_def setDest_def)

lemma agree_setDest: "freshName n (opText (destination i)) \<Longrightarrow> agree n f (setDest i v f)"
  by (auto simp: agree_def setDest_def)

lemma inst_simple [simp]:
  "instOpcode (opInst d op ops) = op" "instOpcode (voidInst op ops) = op" "operands (opInst d op ops) = ops"
  "operands (voidInst op ops) = ops" "opText (Temp t) = t" "opText (StackSlotPointer t) = t"
  "instOpcode (callInst d c as) = OpcodeCall" "instOpcode (callVoidInst c as) = OpcodeCall"
  "callCallee (callInst d c as) = opText c" "callCallee (callVoidInst c as) = opText c"
  "callArgs (callInst d c as) = as" "callArgs (callVoidInst c as) = as"
  by (simp_all add: inst_defs operand_defs)

text \<open>\<open>computes P op ops M\<close>: the instruction gives the result of \<open>M\<close>, which leaves the store alone.\<close>

definition computes :: "(nat \<Rightarrow> evalFrame \<Rightarrow> bool) \<Rightarrow> opcode \<Rightarrow> operand list \<Rightarrow> runtimeValue action \<Rightarrow> bool" where
  "computes P op ops M \<longleftrightarrow> (\<forall>n f st r d. P n f \<longrightarrow> base st f \<longrightarrow> M st = Some r \<longrightarrow>
     evalSimpleOp f (opInst d op ops) = map_sum id (\<lambda>(b, _). (Some b, f)) r \<and> (\<forall>b st'. r = Inr (b, st') \<longrightarrow> st' = st))"

lemma sim_inst:
  assumes "op \<noteq> OpcodeAlloca" "op \<noteq> OpcodeCall" "computes P op ops M"
  shows "sim F env P (emitL (AddInstruction op ops)) M holds"
proof (rule simI [OF quiet_emissions(1)])
  fix l v l' f st e
  assume run: "emitL (AddInstruction op ops) l = Inr (v, l')" and f: "codeIn l' f" "base st f" "P (ctr l) f"
    and M: "M st = Some (Inl e)"
  have "codeAt f (pcOf l) (opInst (Temp (tempName (ctr l))) op ops)"
    using run f(1) assms(1) by (auto simp: lower_simps emit_next intro: codeIn_codeAt)
  moreover have "evalSimpleOp f (opInst (Temp (tempName (ctr l))) op ops) = Inl e"
    using assms(3) f M by (fastforce simp: computes_def)
  ultimately show "ends F f (pcOf l) (Inl e)" using assms(2) by (auto intro: run_simple_error)
next
  fix l v l' f st b st'
  assume run: "emitL (AddInstruction op ops) l = Inr (v, l')" and f: "codeIn l' f" "base st f" "P (ctr l) f"
    and M: "M st = Some (Inr (b, st'))"
  let ?i = "opInst (Temp (tempName (ctr l))) op ops"
  have l': "v = Temp (tempName (ctr l))" "pcOf l' = Suc (pcOf l)" "ctr l' = Suc (ctr l)" "codeAt f (pcOf l) ?i"
    using run f(1) assms(1) by (auto simp: lower_simps emit_next intro: codeIn_codeAt)
  have "evalSimpleOp f ?i = Inr (Some b, f)" "st' = st" using assms(3) f M by (fastforce simp: computes_def)+
  then have "leads F f (pcOf l) (setDest ?i b f) (Suc (pcOf l))"
    using l'(4) assms(2) by (intro run_simple_value) auto
  then have "reaches F (ctr l) f (pcOf l) st' (setDest ?i b f) (pcOf l')"
    using f(2) l'(2) \<open>st' = st\<close> by (simp add: reaches_def base_setDest agree_setDest)
  moreover have "holds v b (ctr l') (setDest ?i b f)" by (simp add: l' holds_def setDest_def)
  ultimately show "\<exists>f'. reaches F (ctr l) f (pcOf l) st' f' (pcOf l') \<and> holds v b (ctr l') f'" by blast
qed

text \<open>\<open>reads P a v\<close>: as an integer, the operand \<open>a\<close> has the value \<open>v\<close>.\<close>

definition reads :: "(nat \<Rightarrow> evalFrame \<Rightarrow> bool) \<Rightarrow> operand \<Rightarrow> runtimeValue \<Rightarrow> bool" where
  "reads P a v \<longleftrightarrow> (\<forall>n f st. P n f \<longrightarrow> base st f \<longrightarrow> resolveI32 f (opText a) = asInteger v)"

lemma reads_holds: "(\<And>n f. P n f \<Longrightarrow> holds a v n f) \<Longrightarrow> reads P a v"
  unfolding reads_def using resolve_kinds(1) by blast

lemma reads_zero: "reads P (Immediate ''0'') (ValueI32 0)"
  by (auto simp: reads_def asInteger_def operand_defs resolve_zero)

lemma evalSimpleOp_binary:
  "op \<in> set binaryOpcodes \<Longrightarrow> evalSimpleOp f (opInst d op [a, b]) =
     bindE (resolveI32 f (opText a)) (\<lambda>x. bindE (resolveI32 f (opText b)) (\<lambda>y. bindE (evalBinary op x y) (\<lambda>v. Inr (Some v, f))))"
  by (auto simp: evalSimpleOp_def needCount_def binaryOpcodes_def unaryOpcodes_def Let_def)

lemma evalSimpleOp_unary:
  "op \<in> set unaryOpcodes \<Longrightarrow> evalSimpleOp f (opInst d op [a]) =
     bindE (resolveI32 f (opText a)) (\<lambda>x. Inr (Some (evalUnary op x), f))"
  by (auto simp: evalSimpleOp_def needCount_def binaryOpcodes_def unaryOpcodes_def Let_def)

lemma evalSimpleOp_load:
  "op \<in> {OpcodeLoad, OpcodeLoadIndirect} \<Longrightarrow> evalSimpleOp f (opInst d op [a]) =
     bindE (resolvePtr f (opText a)) (\<lambda>p. bindE (loadCell f p) (\<lambda>v. Inr (Some v, f)))"
  by (auto simp: evalSimpleOp_def needCount_def Let_def)

lemma evalSimpleOp_store:
  "op \<in> {OpcodeStore, OpcodeStoreIndirect} \<Longrightarrow> evalSimpleOp f (voidInst op [a, b]) =
     bindE (resolvePtr f (opText a)) (\<lambda>p. bindE (resolveValue f (opText b)) (\<lambda>v. Inr (None, storeCell f p v)))"
  by (auto simp: evalSimpleOp_def needCount_def Let_def)

lemma integerOf_as: "integerOf v = (case asInteger v of Inl e \<Rightarrow> throwM e | Inr w \<Rightarrow> returnM w)"
  by (cases v) (simp_all add: asInteger_def)

lemma addressIn_as: "addressIn v = (case asAddress v of Inl e \<Rightarrow> throwM e | Inr a \<Rightarrow> returnM a)"
  by (cases v) (simp_all add: asAddress_def)

lemma computes_const:
  "parseInt 32 raw = Some n \<Longrightarrow> computes P OpcodeConstI32 [Immediate raw] (returnM (ValueI32 (word_of_int n)))"
  by (auto simp: computes_def evalSimpleOp_def Let_def parseInt_trim operand_defs)

lemma computes_load:
  assumes "op \<in> {OpcodeLoad, OpcodeLoadIndirect}" "\<And>n f. P n f \<Longrightarrow> holds a v n f"
  shows "computes P op [a] (bindM (addressIn v) loadM)"
  unfolding computes_def evalSimpleOp_load [OF assms(1)]
  by (auto simp: addressIn_as loadM_def base_def resolve_kinds [OF assms(2)] split: sum.splits option.splits)

lemma computes_unary:
  assumes "op \<in> set unaryOpcodes" "reads P a v"
  shows "computes P op [a] (bindM (integerOf v) (\<lambda>x. returnM (evalUnary op x)))"
  unfolding computes_def evalSimpleOp_unary [OF assms(1)]
  using assms(2) by (auto simp: integerOf_as reads_def split: sum.splits)

lemma computes_binary:
  assumes "op \<in> set binaryOpcodes" "reads P a v" "reads P b w"
  shows "computes P op [a, b] (bindM (integerOf v) (\<lambda>x. bindM (integerOf w) (\<lambda>y. liftM (Some (evalBinary op x y)))))"
  unfolding computes_def evalSimpleOp_binary [OF assms(1)]
proof (intro allI impI, goal_cases)
  case (1 n f st r d)
  then have "resolveI32 f (opText a) = asInteger v" "resolveI32 f (opText b) = asInteger w"
    using assms(2,3) unfolding reads_def by blast+
  then show ?case
    using 1(3) by (cases "asInteger v"; cases "asInteger w"; cases "evalBinary op (projr (asInteger v)) (projr (asInteger w))")
      (auto simp: integerOf_as liftM_def)
qed

abbreviation anything :: "'a \<Rightarrow> 'b \<Rightarrow> nat \<Rightarrow> evalFrame \<Rightarrow> bool" where
  "anything \<equiv> \<lambda>a b n f. True"

lemma base_store: "base st f \<Longrightarrow> base (st\<lparr>stMem := (stMem st)(a \<mapsto> v)\<rparr>) (storeCell f a v)"
  by (auto simp: base_def storeCell_def loadCell_def)

lemma sim_store:
  assumes "op \<in> {OpcodeStore, OpcodeStoreIndirect}" "\<And>n f. P n f \<Longrightarrow> holds addr obj n f \<and> holds val v n f"
  shows "sim F env P (execL (AddVoidInstruction op [addr, val])) (bindM (addressIn obj) (\<lambda>a. storeM a v)) anything"
proof (rule simI [OF quiet_emissions(3)])
  fix l u l' f st e
  assume run: "execL (AddVoidInstruction op [addr, val]) l = Inr (u, l')" and f: "codeIn l' f" "P (ctr l) f"
    and M: "bindM (addressIn obj) (\<lambda>a. storeM a v) st = Some (Inl e)"
  have "codeAt f (pcOf l) (voidInst op [addr, val])" using run f(1) by (auto simp: lower_simps emit_next intro: codeIn_codeAt)
  moreover have "evalSimpleOp f (voidInst op [addr, val]) = Inl e"
    using M resolve_kinds(2) [of addr obj] assms(2) [OF f(2)]
    by (auto simp: evalSimpleOp_store [OF assms(1)] addressIn_as storeM_def split: sum.splits)
  ultimately show "ends F f (pcOf l) (Inl e)" using assms(1) by (auto intro: run_simple_error)
next
  fix l u l' f st b st'
  assume run: "execL (AddVoidInstruction op [addr, val]) l = Inr (u, l')" and f: "codeIn l' f" "base st f" "P (ctr l) f"
    and M: "bindM (addressIn obj) (\<lambda>a. storeM a v) st = Some (Inr (b, st'))"
  have l': "codeAt f (pcOf l) (voidInst op [addr, val])" "pcOf l' = Suc (pcOf l)"
    using run f(1) by (auto simp: lower_simps emit_next intro: codeIn_codeAt)
  obtain a where a: "asAddress obj = Inr a" "st' = st\<lparr>stMem := (stMem st)(a \<mapsto> v)\<rparr>"
    using M by (auto simp: addressIn_as storeM_def split: sum.splits)
  have "evalSimpleOp f (voidInst op [addr, val]) = Inr (None, storeCell f a v)"
    using a(1) resolve_kinds(2) [of addr obj] resolve_holds [of val v] assms(2) [OF f(3)]
    by (auto simp: evalSimpleOp_store [OF assms(1)])
  then have "leads F f (pcOf l) (storeCell f a v) (pcOf l')"
    using l' assms(1) by (auto intro: run_simple_none)
  moreover have "agree (ctr l) f (storeCell f a v)" by (simp add: agree_def storeCell_def)
  ultimately show "\<exists>f'. reaches F (ctr l) f (pcOf l) st' f' (pcOf l') \<and> True"
    using base_store [OF f(2)] a(2) by (auto simp: reaches_def)
qed

text \<open>A call.\<close>

lemma map_sum_inv: "map_sum id g r = Inl e \<Longrightarrow> r = Inl e" "map_sum id g r = Inr y \<Longrightarrow> \<exists>x. r = Inr x \<and> y = g x"
  by (cases r; auto)+

abbreviation holdAll :: "operand list \<Rightarrow> runtimeValue list \<Rightarrow> nat \<Rightarrow> evalFrame \<Rightarrow> bool" where
  "holdAll as xs n f \<equiv> list_all2 (\<lambda>a x. holds a x n f) as xs"

lemma lasting_holdAll [intro!, simp]: "lasting (holdAll as xs)"
  unfolding lasting_def by (auto elim!: list_all2_mono dest: lastingD [OF lasting_holds])

lemma resolve_all: "holdAll as xs n f \<Longrightarrow> mapE (\<lambda>a. resolveValue f (opText a)) as = Inr xs"
  unfolding mapE_eq_Inr by (erule list_all2_mono) (rule resolve_holds)

definition valueOf :: "typedValue \<Rightarrow> runtimeValue \<Rightarrow> nat \<Rightarrow> evalFrame \<Rightarrow> bool" where
  "valueOf tv x n f \<longleftrightarrow> (tvType tv \<noteq> ''void'' \<longrightarrow> holds (tvValue tv) x n f)"

lemma lasting_valueOf [intro!, simp]: "lasting (valueOf tv x)"
  by (auto simp: lasting_def valueOf_def dest: lastingD [OF lasting_holds])

lemma valueOf_typed [simp]: "holds v x n f \<Longrightarrow> valueOf (typed v t) x n f" "valueOf (typed v ''void'') x n f"
  by (simp_all add: valueOf_def)

lemma sim_AddCall:
  assumes "answers F calls" "\<And>n f. P n f \<Longrightarrow> holdAll args vs n f"
  shows "sim F env P (emitL (AddCall (FunctionSymbol (''@'' @ name)) args)) (liftM (calls name vs)) holds"
    and "sim F env P (execL (AddCallVoid (FunctionSymbol (''@'' @ name)) args)) (liftM (calls name vs)) anything"
proof -
  have c: "calls name vs = Some r \<Longrightarrow> answersWith F name vs r" for r using assms(1) by (simp add: answers_def)
  have t: "opText (FunctionSymbol (''@'' @ name)) = ''@'' @ name" by (simp add: operand_defs)
  have run: "calls name vs = Some (Inl e) \<Longrightarrow> ends F f (pcOf l) (Inl e)"
    "calls name vs = Some (Inr x) \<Longrightarrow> leads F f (pcOf l) (if hasDestination i then setDest i x f else f) (Suc (pcOf l))"
    if i: "codeAt f (pcOf l) i" "P (ctr l) f" "i = callInst d (FunctionSymbol (''@'' @ name)) args \<or> i = callVoidInst (FunctionSymbol (''@'' @ name)) args"
    for i d f l e x
  proof -
    have k: "instKind i = InstructionOp" "instOpcode i = OpcodeCall" "callCallee i = ''@'' @ name"
      "mapE (\<lambda>a. resolveValue f (opText a)) (callArgs i) = Inr vs"
      using i(3) resolve_all assms(2) [OF i(2)] by (auto simp: t)
    show "calls name vs = Some (Inl e) \<Longrightarrow> ends F f (pcOf l) (Inl e)"
      by (rule run_call(1) [OF i(1) k c refl])
    show "calls name vs = Some (Inr x) \<Longrightarrow> leads F f (pcOf l) (if hasDestination i then setDest i x f else f) (Suc (pcOf l))"
      by (rule run_call(2) [OF i(1) k c refl])
  qed
  show "sim F env P (emitL (AddCall (FunctionSymbol (''@'' @ name)) args)) (liftM (calls name vs)) holds"
  proof (rule simI [OF quiet_emissions(2)], goal_cases)
    case (1 l v l' f st e)
    then have "codeAt f (pcOf l) (callInst (Temp (tempName (ctr l))) (FunctionSymbol (''@'' @ name)) args)"
      by (auto simp: lower_simps emit_next intro: codeIn_codeAt)
    then show ?case using 1(6,7) by (auto simp: liftM_def dest!: map_sum_inv intro: run(1))
  next
    case (2 l v l' f st b st')
    let ?i = "callInst (Temp (tempName (ctr l))) (FunctionSymbol (''@'' @ name)) args"
    have l': "v = Temp (tempName (ctr l))" "pcOf l' = Suc (pcOf l)" "ctr l' = Suc (ctr l)" "codeAt f (pcOf l) ?i"
      using 2(1,3) by (auto simp: lower_simps emit_next intro: codeIn_codeAt)
    have r: "calls name vs = Some (Inr b)" "st' = st" using 2(7) by (auto simp: liftM_def dest!: map_sum_inv)
    have "reaches F (ctr l) f (pcOf l) st' (setDest ?i b f) (pcOf l')"
      using run(2) [OF l'(4) 2(6) disjI1 [OF refl] r(1)] 2(5) l'(2) r(2) by (simp add: reaches_def base_setDest agree_setDest)
    moreover have "holds v b (ctr l') (setDest ?i b f)" by (simp add: l' holds_def setDest_def)
    ultimately show ?case by blast
  qed
  show "sim F env P (execL (AddCallVoid (FunctionSymbol (''@'' @ name)) args)) (liftM (calls name vs)) anything"
  proof (rule simI [OF quiet_emissions(4)], goal_cases)
    case (1 l v l' f st e)
    then have "codeAt f (pcOf l) (callVoidInst (FunctionSymbol (''@'' @ name)) args)"
      by (auto simp: lower_simps emit_next intro: codeIn_codeAt)
    then show ?case using 1(6,7) by (auto simp: liftM_def dest!: map_sum_inv intro: run(1))
  next
    case (2 l v l' f st b st')
    then have l': "pcOf l' = Suc (pcOf l)" "codeAt f (pcOf l) (callVoidInst (FunctionSymbol (''@'' @ name)) args)"
      by (auto simp: lower_simps emit_next intro: codeIn_codeAt)
    have r: "calls name vs = Some (Inr b)" "st' = st" using 2(7) by (auto simp: liftM_def dest!: map_sum_inv)
    show ?case
      using run(2) [OF l'(2) 2(6) disjI2 [OF refl] r(1)] 2(5) l'(1) r(2) by (auto simp: reaches_def agree_refl)
  qed
qed

lemma sim_emitCall:
  assumes "answers F calls" "lasting P" "\<And>n f. P n f \<Longrightarrow> holdAll args vs n f"
  shows "sim F env P (emitCall name sig args) (liftM (calls name vs)) valueOf"
proof (cases "sigReturnType sig = ''void''")
  case True
  have "sim F env P (bindL (execL (AddCallVoid (FunctionSymbol (''@'' @ name)) args)) (\<lambda>_. returnL (typed zeroOperand ''void'')))
      (bindM (liftM (calls name vs)) returnM) valueOf"
    by (rule sim_bind [OF sim_AddCall(2) [OF assms(1,3)] assms(2)]) (simp_all add: sim_return)
  then show ?thesis by (simp add: emitCall_def Let_def thenL_def True)
next
  case False
  have "sim F env P (bindL (emitL (AddCall (FunctionSymbol (''@'' @ name)) args)) (\<lambda>v. returnL (typed v (sigReturnType sig))))
      (liftM (calls name vs)) valueOf"
    by (rule sim_map [OF sim_AddCall(1) [OF assms(1,3)] assms(2)]) simp_all
  then show ?thesis by (simp add: emitCall_def Let_def False)
qed

section \<open>Operators\<close>

lemma meaning_evalBinary:
  assumes "binaryOpcode op \<noteq> OpcodeInvalid" "op \<noteq> TokenAndAnd" "op \<noteq> TokenOrOr"
  shows "liftM (Some (evalBinary (binaryOpcode op) a b)) = bindM (binaryMeaning op a b) (\<lambda>c. returnM (ValueI32 c))"
  using assms
  by (simp add: binaryOpcode_def binaryMeaning_def evalBinary_def liftM_def returnM_def throwM_def bindM_def fun_eq_iff
      goQuo_def goRem_def goShl_mult boolI32_def truth_def goShr_div goShr_def drop_bit_eq_div split: if_splits)

lemma liftM_returnM [simp]: "liftM (Some (Inr x)) = returnM x" "liftM (Some (Inl e)) = throwM e"
  by (simp_all add: liftM_def returnM_def throwM_def)

text \<open>The three instructions of \<open>&&\<close> and \<open>||\<close>.\<close>

lemma logical_meaning:
  assumes "op \<in> {OpcodeAnd, OpcodeOr}"
  shows "bindM (integerOf v) (\<lambda>x. bindM (integerOf w) (\<lambda>y.
       returnM (ValueI32 (truth (if op = OpcodeAnd then x \<noteq> 0 \<and> y \<noteq> 0 else x \<noteq> 0 \<or> y \<noteq> 0)))))
    = bindM (bindM (integerOf v) (\<lambda>x. bindM (integerOf (ValueI32 0)) (\<lambda>z. liftM (Some (evalBinary OpcodeNe x z))))) (\<lambda>a.
      bindM (bindM (integerOf w) (\<lambda>y. bindM (integerOf (ValueI32 0)) (\<lambda>z. liftM (Some (evalBinary OpcodeNe y z))))) (\<lambda>b.
      bindM (integerOf a) (\<lambda>x. bindM (integerOf b) (\<lambda>y. liftM (Some (evalBinary op x y))))))"
  using assms by (cases v; cases w) (auto simp: evalBinary_def boolI32_def truth_def)

lemma sim_logical:
  assumes "lasting P" "\<And>n f. P n f \<Longrightarrow> holds a v n f \<and> holds b w n f" "op \<in> {OpcodeAnd, OpcodeOr}"
  shows "sim F env P
    (bindL (emitL (AddInstruction OpcodeNe [a, Immediate ''0''])) (\<lambda>x.
     bindL (emitL (AddInstruction OpcodeNe [b, Immediate ''0''])) (\<lambda>y.
     bindL (emitL (AddInstruction op [x, y])) (\<lambda>z. returnL (typed z ''i32'')))))
    (bindM (integerOf v) (\<lambda>x. bindM (integerOf w) (\<lambda>y.
       returnM (ValueI32 (truth (if op = OpcodeAnd then x \<noteq> 0 \<and> y \<noteq> 0 else x \<noteq> 0 \<or> y \<noteq> 0)))))) valueOf"
proof -
  have bin: "OpcodeNe \<in> set binaryOpcodes" "op \<in> set binaryOpcodes" "op \<noteq> OpcodeAlloca" "op \<noteq> OpcodeCall"
    using assms(3) by (auto simp: binaryOpcodes_def)
  have ne: "sim F env Q (emitL (AddInstruction OpcodeNe [c, Immediate ''0'']))
      (bindM (integerOf u) (\<lambda>x. bindM (integerOf (ValueI32 0)) (\<lambda>z. liftM (Some (evalBinary OpcodeNe x z))))) holds"
    if "\<And>n f. Q n f \<Longrightarrow> holds c u n f" for Q c u
    by (rule sim_inst [OF _ _ computes_binary [OF bin(1) reads_holds [OF that] reads_zero]]) simp_all
  have last: "sim F env Q (bindL (emitL (AddInstruction op [x, y])) (\<lambda>z. returnL (typed z ''i32'')))
      (bindM (integerOf p) (\<lambda>x. bindM (integerOf q) (\<lambda>y. liftM (Some (evalBinary op x y))))) valueOf"
    if "lasting Q" "\<And>n f. Q n f \<Longrightarrow> holds x p n f" "\<And>n f. Q n f \<Longrightarrow> holds y q n f" for Q x y p q
    by (rule sim_map [OF sim_inst [OF bin(3,4) computes_binary [OF bin(2) reads_holds [OF that(2)] reads_holds [OF that(3)]]] that(1)]) simp_all
  show ?thesis
    unfolding logical_meaning [OF assms(3)]
  proof (rule sim_bind [OF ne assms(1)], goal_cases)
    case (2 x p)
    let ?Q = "\<lambda>n f. P n f \<and> holds x p n f"
    have Q: "lasting ?Q" using assms(1) by blast
    show ?case
    proof (rule sim_bind [OF ne Q], goal_cases)
      case (2 y q)
      have "lasting (\<lambda>n f. ?Q n f \<and> holds y q n f)" using lasting_conj [OF Q lasting_holds] .
      then show ?case by (rule last) simp_all
    qed (simp add: assms(2))
  qed (simp add: assms(2))
qed

lemma sim_emitBinary:
  assumes "lasting P" "\<And>n f. P n f \<Longrightarrow> valueOf a v n f \<and> valueOf b w n f"
  shows "sim F env P (emitBinary tok op a b)
    (bindM (integerOf v) (\<lambda>x. bindM (integerOf w) (\<lambda>y. bindM (binaryMeaning op x y) (\<lambda>c. returnM (ValueI32 c))))) valueOf"
  unfolding emitBinary_def Let_def
proof (intro sim_guard)
  assume "\<not> (tvType a = ''void'' \<or> tvType b = ''void'')"
  then have h: "P n f \<Longrightarrow> holds (tvValue a) v n f" "P n f \<Longrightarrow> holds (tvValue b) w n f" for n f
    using assms(2) by (auto simp: valueOf_def)
  assume op: "binaryOpcode op \<noteq> OpcodeInvalid"
  show "sim F env P
     (if op = TokenAndAnd \<or> op = TokenOrOr then
       bindL (emitL (AddInstruction OpcodeNe [tvValue a, Immediate ''0''])) (\<lambda>lhsVal.
       bindL (emitL (AddInstruction OpcodeNe [tvValue b, Immediate ''0''])) (\<lambda>rhsVal.
       bindL (emitL (AddInstruction (binaryOpcode op) [lhsVal, rhsVal])) (\<lambda>v. returnL (typed v ''i32''))))
      else bindL (emitL (AddInstruction (binaryOpcode op) [tvValue a, tvValue b]))
        (\<lambda>v. returnL (typed v (if op \<in> {TokenEq, TokenNe, TokenLt, TokenLe, TokenGt, TokenGe} then ''i32'' else tvType a))))
     (bindM (integerOf v) (\<lambda>x. bindM (integerOf w) (\<lambda>y. bindM (binaryMeaning op x y) (\<lambda>c. returnM (ValueI32 c))))) valueOf"
  proof (cases "op = TokenAndAnd \<or> op = TokenOrOr")
    case True
    have m: "binaryOpcode TokenAndAnd = OpcodeAnd" "binaryOpcode TokenOrOr = OpcodeOr"
      "binaryMeaning TokenAndAnd x y = returnM (truth (x \<noteq> 0 \<and> y \<noteq> 0))"
      "binaryMeaning TokenOrOr x y = returnM (truth (x \<noteq> 0 \<or> y \<noteq> 0))" for x y
      by (simp_all add: binaryOpcode_def binaryMeaning_def token_types)
    show ?thesis
      using True sim_logical [OF assms(1), of "tvValue a" v "tvValue b" w "binaryOpcode op" F env] h by (auto simp: m)
  next
    case False
    have bin: "binaryOpcode op \<in> set binaryOpcodes" using op by (rule binaryOpcode_binary)
    then have "binaryOpcode op \<noteq> OpcodeAlloca" "binaryOpcode op \<noteq> OpcodeCall" by (auto simp: binaryOpcodes_def)
    note inst = sim_inst [where P = P, OF this computes_binary [OF bin reads_holds [OF h(1)] reads_holds [OF h(2)]]]
    have "sim F env P (bindL (emitL (AddInstruction (binaryOpcode op) [tvValue a, tvValue b])) (\<lambda>v. returnL (typed v t)))
      (bindM (integerOf v) (\<lambda>x. bindM (integerOf w) (\<lambda>y. bindM (binaryMeaning op x y) (\<lambda>c. returnM (ValueI32 c))))) valueOf" for t
      using sim_map [where Q = valueOf and g = "\<lambda>v. typed v t", OF inst assms(1)] meaning_evalBinary [OF op] False by simp
    then show ?thesis using False by (simp only: if_False)
  qed
qed

lemma sim_emitUnary:
  assumes "lasting P" "\<And>n f. P n f \<Longrightarrow> valueOf a v n f"
  shows "sim F env P (emitUnary tok op a) (unaryMeaning op v) valueOf"
  unfolding emitUnary_def
proof (intro sim_guard)
  assume "tvType a \<noteq> ''void''"
  then have h: "P n f \<Longrightarrow> holds (tvValue a) v n f" for n f using assms(2) by (auto simp: valueOf_def)
  have un: "sim F env P (bindL (emitL (AddInstruction uop [tvValue a])) (\<lambda>x. returnL (typed x t)))
      (bindM (integerOf v) (\<lambda>x. returnM (evalUnary uop x))) valueOf" if "uop \<in> set unaryOpcodes" for uop t
    by (rule sim_map [OF sim_inst [OF _ _ computes_unary [OF that reads_holds [OF h]]] assms(1)])
      (use that in \<open>auto simp: unaryOpcodes_def\<close>)
  have uns: "OpcodeNeg \<in> set unaryOpcodes" "OpcodeNot \<in> set unaryOpcodes" "OpcodeLogicNot \<in> set unaryOpcodes"
    by (simp_all add: unaryOpcodes_def)
  show "sim F env P
     (if op = TokenPlus then returnL a
      else if op = TokenMinus then bindL (emitL (AddInstruction OpcodeNeg [tvValue a])) (\<lambda>v. returnL (typed v (tvType a)))
      else if op = TokenBang then bindL (emitL (AddInstruction OpcodeLogicNot [tvValue a])) (\<lambda>v. returnL (typed v ''i32''))
      else if op = TokenTilde then bindL (emitL (AddInstruction OpcodeNot [tvValue a])) (\<lambda>v. returnL (typed v (tvType a)))
      else failL (unsupportedError tok ''unary operator'')) (unaryMeaning op v) valueOf"
    using un [OF uns(1), of "tvType a"] un [OF uns(2), of "tvType a"] un [OF uns(3), of "''i32''"]
    by (auto simp: unaryMeaning_def evalUnary_def boolI32_def truth_def if_distrib [of ValueI32] token_types
        intro: sim_fail sim_return assms(2))
qed

lemma sim_load:
  assumes "\<And>n f. P n f \<Longrightarrow> holds addr v n f"
  shows "sim F env P (loadAddress addr) (bindM (addressIn v) loadM) holds"
  using sim_inst [OF _ _ computes_load [OF _ assms], of OpcodeLoad] sim_inst [OF _ _ computes_load [OF _ assms], of OpcodeLoadIndirect]
  by (simp add: loadAddress_def)

lemma sim_storeAddress:
  assumes "\<And>n f. P n f \<Longrightarrow> holds addr obj n f \<and> holds val v n f"
  shows "sim F env P (storeAddress addr val) (bindM (addressIn obj) (\<lambda>a. storeM a v)) anything"
  using sim_store [OF _ assms, of OpcodeStore] sim_store [OF _ assms, of OpcodeStoreIndirect]
  by (simp add: storeAddress_def)

section \<open>Expressions\<close>

definition objectIn :: "operand \<times> string \<Rightarrow> runtimeValue \<Rightarrow> nat \<Rightarrow> evalFrame \<Rightarrow> bool" where
  "objectIn ov obj n f \<longleftrightarrow> snd ov \<noteq> ''void'' \<and> holds (fst ov) obj n f"

lemma lasting_objectIn [intro!, simp]: "lasting (objectIn ov obj)"
  unfolding objectIn_def by auto

lemma sim_variable:
  "sim F env P (lookupVariable tok name) (variableM env name)
     (\<lambda>vs a n f. symType vs \<noteq> ''void'' \<and> holds (StackSlotPointer (symSlot vs)) (ValuePtr a) n f)"
proof (rule simI, goal_cases)
  case (2 l vs l' f st e)
  then show ?case using simD_error [OF sim_lookup 2(1-5) TrueI 2(7)] by simp
next
  case (3 l vs l' f st a st')
  have "resolveVariable l name = Some vs" using 3(1) by (simp add: lookupVariable_eq_Inr)
  then have "symType vs \<noteq> ''void''" by (rule okL_resolve [OF 3(2)])
  then show ?case using simD_value [OF sim_lookup [where P = "\<lambda>_ _. True"] 3(1-5) TrueI 3(7)] by metis
qed (auto simp: quiet_def lower_simps grows_refl)

lemma sim_dereferenced:
  "(\<And>t. tvType ptr \<noteq> ''void'' \<Longrightarrow> t \<noteq> ''void'' \<Longrightarrow> sim F env P (k t) M Q) \<Longrightarrow> sim F env P (bindL (dereferenced tok ptr) k) M Q"
  by (rule sim_silent [where G = "\<lambda>t. tvType ptr \<noteq> ''void'' \<and> t \<noteq> ''void''"])
    (auto simp: dereferenced_eq_Inr dest: pointee_not_void)

lemma decode_range: "decodeCharacterLiteral raw = Inr n \<Longrightarrow> 0 \<le> n \<and> n < 256"
proof -
  have c: "0 \<le> (of_char c :: int)" "(of_char c :: int) < 256" for c
    using of_char_less [of c] of_nat_of_char [of c, where 'a = int] by linarith+
  show "decodeCharacterLiteral raw = Inr n \<Longrightarrow> 0 \<le> n \<and> n < 256"
    using c by (auto simp: decodeCharacterLiteral_def Let_def split: if_splits)
qed

lemma sim_constant:
  "parseInt 32 raw = Some n \<Longrightarrow> lasting P \<Longrightarrow>
     sim F env P (bindL (emitL (AddInstruction OpcodeConstI32 [Immediate raw])) (\<lambda>v. returnL (typed v t)))
       (returnM (ValueI32 (word_of_int n))) valueOf"
  by (rule sim_map [OF sim_inst [OF _ _ computes_const]]) simp_all

lemma sim_expr:
  assumes F: "answers F calls"
  shows "lasting P \<Longrightarrow> sim F env P (lowerExpr e) (evalExpr calls env e) valueOf"
    and "lasting P \<Longrightarrow> sim F env P (lowerAddress e) (objectOf calls env e) objectIn"
    and "lasting P \<Longrightarrow> length es = length ts \<Longrightarrow> ''void'' \<notin> set ts \<Longrightarrow>
      sim F env P (lowerArgs tok name i es ts) (evalArgs calls env es) holdAll"
proof -
  have r: "lasting P \<Longrightarrow> sim F env P (lowerExpr e) (evalExpr calls env e) valueOf"
    and r2: "lasting P' \<Longrightarrow> sim F env P' (lowerAddress e') (objectOf calls env e') objectIn"
    and r3: "lasting P'' \<Longrightarrow> length es = length ts \<Longrightarrow> ''void'' \<notin> set ts \<Longrightarrow>
      sim F env P'' (lowerArgs tok name i es ts) (evalArgs calls env es) holdAll"
    for P P' P'' e e' tok name i es ts
  proof (induction e and e' and tok name i es ts arbitrary: P and P' and P'' rule: lowerExpr_lowerAddress_lowerArgs.induct)
    case (1 tok raw)
    then show ?case by (cases "parseInt 32 raw") (simp_all add: sim_fail sim_constant)
  next
    case (2 tok raw)
    show ?case
    proof (cases "decodeCharacterLiteral raw")
      case (Inl e)
      then show ?thesis
        by (simp only: lowerExpr.simps) (rule sim_silent [where G = "\<lambda>_. False"], auto simp: lower_simps)
    next
      case (Inr n)
      have "parseInt 32 (itoa n) = Some n" using decode_range [OF Inr] by (intro parseInt_itoa) auto
      from sim_constant [OF this 2] show ?thesis
        by (simp only: lowerExpr.simps evalExpr.simps Inr mapErr_simps sum.case)
          (rule sim_silent [where G = "\<lambda>x. x = n"], auto simp: lower_simps)
    qed
  next
    case (3 tok name)
    show ?case
      unfolding lowerExpr.simps evalExpr.simps
    proof (rule sim_bind [OF sim_variable 3], goal_cases)
      case (1 vs a)
      let ?P = "\<lambda>n f. P n f \<and> symType vs \<noteq> ''void'' \<and> holds (StackSlotPointer (symSlot vs)) (ValuePtr a) n f"
      have "computes ?P OpcodeLoad [StackSlotPointer (symSlot vs)] (loadM a)"
        using computes_load [of OpcodeLoad ?P "StackSlotPointer (symSlot vs)" "ValuePtr a"] by simp
      then show ?case by (intro sim_map [OF sim_inst]) (use 3 in auto)
    qed
  next
    case (4 tok op operand)
    consider (star) "op = TokenStar" | (amp) "op \<noteq> TokenStar" "op = TokenAmp" | (other) "op \<noteq> TokenStar" "op \<noteq> TokenAmp" by blast
    then show ?case
    proof cases
      case star
      have "sim F env P (bindL (lowerExpr operand) (\<lambda>ptr. bindL (dereferenced tok ptr) (\<lambda>elemType.
          bindL (loadAddress (tvValue ptr)) (\<lambda>v. returnL (typed v elemType)))))
        (bindM (evalExpr calls env operand) (\<lambda>v. bindM (addressIn v) loadM)) valueOf"
      proof (rule sim_bind [OF 4(1) [OF star 4(4)] 4(4)], rule sim_dereferenced, goal_cases)
        case (1 ptr v t)
        then show ?case by (intro sim_map [OF sim_load]) (use 4(4) in \<open>auto simp: valueOf_def\<close>)
      qed
      then show ?thesis by (simp add: star)
    next
      case amp
      have "sim F env P (bindL (lowerAddress operand) (\<lambda>(addr, elemType). returnL (typed addr (pointerTo elemType))))
        (objectOf calls env operand) valueOf"
        unfolding case_prod_beta' by (rule sim_map [OF 4(2) [OF amp 4(4)] 4(4)]) (simp add: objectIn_def)
      then show ?thesis by (simp add: amp token_types)
    next
      case other
      have "sim F env P (bindL (lowerExpr operand) (\<lambda>v. emitUnary tok op v))
        (bindM (evalExpr calls env operand) (unaryMeaning op)) valueOf"
        by (rule sim_bind [OF 4(3) [OF other 4(4)] 4(4)]) (rule sim_emitUnary, use 4(4) in auto)
      then show ?thesis by (simp add: other)
    qed
  next
    case (5 tok op lhs rhs)
    show ?case
      unfolding lowerExpr.simps evalExpr.simps
    proof (rule sim_bind [OF 5(1) [OF 5(3)] 5(3)], goal_cases)
      case (1 a v)
      have P: "lasting (\<lambda>n f. P n f \<and> valueOf a v n f)" using 5(3) by auto
      show ?case by (rule sim_bind [OF 5(2) [OF P] P], rule sim_emitBinary) (use 5(3) in auto)
    qed
  next
    case (6 tok lhs rhs)
    show ?case
      unfolding lowerExpr.simps evalExpr.simps
    proof (rule sim_bind [OF 6(1) [OF 6(3)] 6(3)], goal_cases)
      case (1 ov obj)
      obtain addr t where ov: "ov = (addr, t)" by fastforce
      have P: "lasting (\<lambda>n f. P n f \<and> objectIn ov obj n f)" using 6(3) by auto
      show ?case
        unfolding ov prod.case
      proof (rule sim_bind [OF 6(2) [OF refl P [unfolded ov]] P [unfolded ov]], rule sim_guard, goal_cases)
        case (1 v x)
        let ?P = "\<lambda>n f. (P n f \<and> objectIn (addr, t) obj n f) \<and> valueOf v x n f"
        have P': "lasting ?P" using 6(3) by auto
        have "sim F env ?P (storeAddress addr (tvValue v)) (bindM (addressIn obj) (\<lambda>a. storeM a x)) anything"
          by (rule sim_storeAddress) (use 1 in \<open>auto simp: objectIn_def valueOf_def\<close>)
        then have "sim F env ?P (bindL (storeAddress addr (tvValue v)) (\<lambda>_. returnL v))
            (bindM (bindM (addressIn obj) (\<lambda>a. storeM a x)) (\<lambda>_. returnM x)) valueOf"
          by (rule sim_bind [OF _ P']) (rule sim_return, simp)
        then show ?case by (simp only: thenL_def bindM_assoc)
      qed
    qed
  next
    case (7 tok callee args)
    show ?case
    proof (cases callee)
      case (IdentifierExpression ct name)
      have "sim F env P (bindL (checkCallee tok ct name (length args)) (\<lambda>sig.
          bindL (lowerArgs tok name 0 args (sigParams sig)) (\<lambda>argv. emitCall name sig argv)))
        (bindM (evalArgs calls env args) (\<lambda>vs. liftM (calls name vs))) valueOf"
      proof (rule sim_silent [where G = "\<lambda>sig. length args = length (sigParams sig) \<and> ''void'' \<notin> set (sigParams sig)"])
        fix sig :: functionSignature assume "length args = length (sigParams sig) \<and> ''void'' \<notin> set (sigParams sig)"
        note args = 7(1) [OF IdentifierExpression 7(2) this [THEN conjunct1] this [THEN conjunct2]]
        show "sim F env P (bindL (lowerArgs tok name 0 args (sigParams sig)) (\<lambda>argv. emitCall name sig argv))
            (bindM (evalArgs calls env args) (\<lambda>vs. liftM (calls name vs))) valueOf"
          by (rule sim_bind [OF args 7(2)]) (rule sim_emitCall [OF F], use 7(2) in auto)
      qed (auto simp: checkCallee_eq_Inr dest: okL_callee)
      then show ?thesis by (simp add: IdentifierExpression)
    qed (simp_all add: sim_fail)
  next
    case (8 tok name)
    show ?case
      unfolding lowerAddress.simps objectOf.simps
      by (rule sim_bind [OF sim_variable 8]) (rule sim_return, simp add: objectIn_def)
  next
    case (9 tok op operand)
    show ?case
    proof (cases "op = TokenStar")
      case True
      have "sim F env P' (bindL (lowerExpr operand) (\<lambda>ptr. bindL (dereferenced tok ptr) (\<lambda>elemType. returnL (tvValue ptr, elemType))))
          (bindM (evalExpr calls env operand) returnM) objectIn"
        by (rule sim_bind [OF 9(1) 9(2)], use True 9(2) in simp_all)
          (rule sim_dereferenced, rule sim_return, simp add: objectIn_def valueOf_def)
      then show ?thesis by (simp add: True)
    qed (simp add: sim_fail)
  next
    case (11 tok name i e es expected ts)
    then have t: "expected \<noteq> ''void''" "''void'' \<notin> set ts" "length es = length ts" by auto
    show ?case
      unfolding lowerArgs.simps evalArgs.simps
    proof (rule sim_bind [OF 11(1) [OF 11(3)] 11(3)], rule sim_guard, goal_cases)
      case (1 arg v)
      have P: "lasting (\<lambda>n f. P'' n f \<and> valueOf arg v n f)" using 11(3) by auto
      show ?case
        by (rule sim_bind [OF 11(2) [OF P t(3,2)] P]) (rule sim_return, use 1 t(1) in \<open>auto simp: valueOf_def\<close>)
    qed
  qed (simp_all add: sim_fail sim_return)
  show "lasting P \<Longrightarrow> sim F env P (lowerExpr e) (evalExpr calls env e) valueOf"
    and "lasting P \<Longrightarrow> sim F env P (lowerAddress e) (objectOf calls env e) objectIn"
    and "lasting P \<Longrightarrow> length es = length ts \<Longrightarrow> ''void'' \<notin> set ts \<Longrightarrow>
      sim F env P (lowerArgs tok name i es ts) (evalArgs calls env es) holdAll"
    by (fact r r2 r3)+
qed

end
