(* ===== verification/SimulationStmt.thy ===== *)
theory SimulationStmt
  imports SimulationExpr
begin

text \<open>
  Lowering a statement preserves its meaning: straight code for expressions, declarations and returns,
  jumps and labels for \<open>if\<close>, \<open>while\<close> and \<open>for\<close>.
\<close>

section \<open>Emissions of control flow\<close>

lemma quiet_control:
  "quiet (execL (AddLabel lab))" "quiet (execL (AddJmp lab))" "quiet (execL (AddBr c lab lab'))" "quiet (execL (AddRet v))"
  "quiet newLabel" "quiet (whenL b (execL (AddJmp lab)))" "quiet (whenL b (execL (AddLabel lab)))" "quiet (readL g)"
  by (auto simp: quiet_def lower_simps grows_def AddLabel_def AddJmp_def AddBr_def AddRet_def emit_def split: if_splits)

lemma quietD: "quiet m \<Longrightarrow> m l = Inr (a, l') \<Longrightarrow> okL l \<Longrightarrow> grows l l' \<and> lwScopes l' = lwScopes l \<and> okL l'"
  unfolding quiet_def by (metis okL_grows)

lemma quiet_guard: "quiet m \<Longrightarrow> quiet (thenL (guardL b e) m)"
  by (auto simp: quiet_def lower_simps)

lemma quiet_lowerExpr: "quiet (lowerExpr e)"
  using sim_expr(1) [of Map.empty "\<lambda>_ _. None" "\<lambda>_ _. True"] by (simp add: answers_def sim_def)

lemma quiet_condition: "quiet (lowerCondition tok what e)"
  unfolding lowerCondition_def by (intro quiet_bind quiet_lowerExpr quiet_guard quiet_return)

lemma emitted_control:
  "execL (AddLabel lab) l = Inr (u, l') \<Longrightarrow> codeOf l' = codeOf l @ [labelInst lab] \<and> ctr l' = ctr l"
  "execL (AddJmp lab) l = Inr (u, l') \<Longrightarrow> codeOf l' = codeOf l @ [jmpInst lab] \<and> ctr l' = ctr l"
  "execL (AddBr c lab lab') l = Inr (u, l') \<Longrightarrow> codeOf l' = codeOf l @ [brInst c lab lab'] \<and> ctr l' = ctr l"
  "execL (AddRet v) l = Inr (u, l') \<Longrightarrow> codeOf l' = codeOf l @ [retInst v] \<and> ctr l' = ctr l"
  by (auto simp: lower_simps AddLabel_def AddJmp_def AddBr_def AddRet_def emit_def)

text \<open>A label leads to its place.\<close>

lemma label_found:
  assumes "base st f" "codeIn l' f" "codeOf l' = codeOf l @ [labelInst lab]"
  shows "frLabels f lab = Some (pcOf l)"
proof -
  have "codeAt f (pcOf l) (labelInst lab)" using assms(2,3) by (rule codeIn_codeAt)
  then have "pcOf l < length (instructions (frFn f))" "instructions (frFn f) ! pcOf l = labelInst lab"
    by (simp_all add: codeAt_def instAt_def)
  then show ?thesis
    using assms(1) labelMapFrom_nth [of "instructions (frFn f)" "pcOf l" 0 Map.empty] by (simp add: base_def)
qed

section \<open>Results of statements\<close>

lemma bindM_cases:
  assumes "bindM M K st = Some res"
  obtains (err) e where "M st = Some (Inl e)" "res = Inl e" | (val) b st1 where "M st = Some (Inr (b, st1))" "K b st1 = Some res"
  using assms by (auto simp: bindM_def split: option.splits sum.splits)

text \<open>\<open>flows F n f pc pc' K res\<close>: from \<open>pc\<close>, control ends as \<open>res\<close> says, or goes on at \<open>pc'\<close> with \<open>K\<close>.\<close>

fun flows :: "(string \<rightharpoonup> tacFunction) \<Rightarrow> nat \<Rightarrow> evalFrame \<Rightarrow> nat \<Rightarrow> nat \<Rightarrow> (env \<Rightarrow> evalFrame \<Rightarrow> bool)
    \<Rightarrow> evalError + flow \<times> store \<Rightarrow> bool" where
  "flows F n f pc pc' K (Inl e) \<longleftrightarrow> ends F f pc (Inl e)"
| "flows F n f pc pc' K (Inr (Returns v, st)) \<longleftrightarrow> ends F f pc (Inr v)"
| "flows F n f pc pc' K (Inr (Continues env, st)) \<longleftrightarrow> (\<exists>f'. reaches F n f pc st f' pc' \<and> K env f')"

lemma flows_before:
  assumes "reaches F n f pc st f' pc'" "flows F m f' pc' pc'' K res" "n \<le> m"
  shows "flows F n f pc pc'' K res"
proof (cases res)
  case (Inl e)
  then show ?thesis using assms by (auto intro: reaches_ends)
next
  case (Inr p)
  obtain fl st' where p: "p = (fl, st')" by fastforce
  show ?thesis
    using assms by (cases fl) (auto simp: Inr p intro: reaches_ends reaches_trans)
qed

lemma flows_post:
  "flows F n f pc pc' K res \<Longrightarrow> (\<And>env st f'. res = Inr (Continues env, st) \<Longrightarrow> reaches F n f pc st f' pc' \<Longrightarrow> K env f' \<Longrightarrow>
      \<exists>f''. reaches F n f pc st f'' pc'' \<and> K' env f'') \<Longrightarrow> flows F n f pc pc'' K' res"
  by (cases "(F, n, f, pc, pc', K, res)" rule: flows.cases) auto

section \<open>Loops\<close>

text \<open>
  \<open>holdsAt sc n env f0 f st\<close>: the state of a loop at the start of a round. \<open>p0\<close> is where the condition is tested, \<open>pb\<close> the
  body, \<open>pp\<close> what follows the body, \<open>pe\<close> the end of the loop.
\<close>

definition holdsAt :: "scope list \<Rightarrow> nat \<Rightarrow> env \<Rightarrow> evalFrame \<Rightarrow> evalFrame \<Rightarrow> store \<Rightarrow> bool" where
  "holdsAt sc n env f0 f st \<longleftrightarrow> agree n f0 f \<and> vars sc n env f \<and> base st f"

lemma holdsAt_reaches: "holdsAt sc n env f0 f st \<Longrightarrow> reaches F n f pc st' f' pc' \<Longrightarrow> holdsAt sc n env f0 f' st'"
  unfolding holdsAt_def reaches_def by (meson agree_trans order_refl vars_agree)

lemma loop_flows:
  assumes test: "\<And>f st e. holdsAt sc n env f0 f st \<Longrightarrow> testM calls env c st = Some (Inl e) \<Longrightarrow> ends F f p0 (Inl e)"
      "\<And>f st go st'. holdsAt sc n env f0 f st \<Longrightarrow> testM calls env c st = Some (Inr (go, st'))
        \<Longrightarrow> \<exists>f'. reaches F n f p0 st' f' (if go then pb else pe)"
    and body: "\<And>k f st res. holdsAt sc n env f0 f st \<Longrightarrow> execStmt calls k env b st = Some res
        \<Longrightarrow> flows F n f pb pp (\<lambda>_ _. R) res"
    and post: "\<And>f st e. R \<Longrightarrow> holdsAt sc n env f0 f st \<Longrightarrow> discardM calls env post st = Some (Inl e) \<Longrightarrow> ends F f pp (Inl e)"
      "\<And>f st st'. R \<Longrightarrow> holdsAt sc n env f0 f st \<Longrightarrow> discardM calls env post st = Some (Inr ((), st')) \<Longrightarrow> \<exists>f'. reaches F n f pp st' f' p0"
  shows "holdsAt sc n env f0 f st \<Longrightarrow> execLoop calls k env c post b st = Some res \<Longrightarrow>
    flows F n f p0 pe (\<lambda>env' f'. env' = env) res"
proof (induction k arbitrary: f st rule: less_induct)
  case (less k)
  note h = less.prems(1)
  show ?case
    using less.prems(2) [unfolded execLoop.simps [of calls k]]
  proof (cases rule: bindM_cases)
    case (err e)
    then show ?thesis using test(1) [OF h] by simp
  next
    case (val go st1)
    obtain f1 where f1: "reaches F n f p0 st1 f1 (if go then pb else pe)" using test(2) [OF h val(1)] by blast
    show ?thesis
    proof (cases go)
      case False
      then show ?thesis using val(2) f1 by auto
    next
      case True
      note h1 = holdsAt_reaches [OF h f1]
      from val(2) True have "bindM (execStmt calls k env b) (\<lambda>fl. case fl of
             Returns v \<Rightarrow> returnM (Returns v)
           | Continues _ \<Rightarrow> bindM (discardM calls env post) (\<lambda>_. case k of 0 \<Rightarrow> stuckM | Suc m \<Rightarrow> execLoop calls m env c post b)) st1 = Some res"
        by simp
      then have "flows F n f1 pb pe (\<lambda>env' f'. env' = env) res"
      proof (cases rule: bindM_cases)
        case (err e)
        then show ?thesis using body [OF h1 err(1)] by simp
      next
        case (val fl st2)
        show ?thesis
        proof (cases fl)
          case (Returns v)
          then show ?thesis using body [OF h1 val(1)] val(2) by auto
        next
          case (Continues env')
          then obtain f2 where R and f2: "reaches F n f1 pb st2 f2 pp" using body [OF h1 val(1)] by auto
          note h2 = holdsAt_reaches [OF h1 f2]
          from val(2) Continues have
            "bindM (discardM calls env post) (\<lambda>_. case k of 0 \<Rightarrow> stuckM | Suc m \<Rightarrow> execLoop calls m env c post b) st2 = Some res"
            by simp
          then have "flows F n f2 pp pe (\<lambda>env' f'. env' = env) res"
          proof (cases rule: bindM_cases)
            case (err e)
            then show ?thesis using post(1) [OF \<open>R\<close> h2] by simp
          next
            case (val u st3)
            obtain f3 where f3: "reaches F n f2 pp st3 f3 p0" using post(2) [OF \<open>R\<close> h2, of st3] val(1) by auto
            obtain k' where "k = Suc k'" "execLoop calls k' env c post b st3 = Some res"
              using val(2) by (cases k) auto
            then have "flows F n f3 p0 pe (\<lambda>env' f'. env' = env) res" using less.IH holdsAt_reaches [OF h2 f3] by blast
            then show ?thesis by (rule flows_before [OF f3 _ order_refl])
          qed
          then show ?thesis by (rule flows_before [OF f2 _ order_refl])
        qed
      qed
      then show ?thesis using f1 True by (auto intro: flows_before)
    qed
  qed
qed

section \<open>Statements against statements\<close>

text \<open>\<open>tidy\<close>: only the innermost scope may gain names. \<open>simS F m X\<close>: the code that \<open>m\<close> emits does what \<open>X\<close> does.\<close>

definition tidy :: "'a lower \<Rightarrow> bool" where
  "tidy m \<longleftrightarrow> (\<forall>l a l'. m l = Inr (a, l') \<longrightarrow> okL l \<longrightarrow> grows l l' \<and> okL l' \<and> tl (lwScopes l') = tl (lwScopes l))"

definition simS :: "(string \<rightharpoonup> tacFunction) \<Rightarrow> bool lower \<Rightarrow> (env \<Rightarrow> flow action) \<Rightarrow> bool" where
  "simS F m X \<longleftrightarrow> tidy m \<and>
     (\<forall>l r l' f env st res. m l = Inr (r, l') \<longrightarrow> okL l \<longrightarrow> codeIn l' f \<longrightarrow> vars (lwScopes l) (ctr l) env f \<longrightarrow> base st f
        \<longrightarrow> X env st = Some res \<longrightarrow>
        flows F (ctr l) f (pcOf l) (pcOf l') (\<lambda>env' f'. r \<and> vars (lwScopes l') (ctr l') env' f') res)"

lemma simSI:
  assumes "tidy m"
    and "\<And>l r l' f env st res. m l = Inr (r, l') \<Longrightarrow> okL l \<Longrightarrow> codeIn l' f \<Longrightarrow> vars (lwScopes l) (ctr l) env f \<Longrightarrow> base st f
        \<Longrightarrow> X env st = Some res
        \<Longrightarrow> flows F (ctr l) f (pcOf l) (pcOf l') (\<lambda>env' f'. r \<and> vars (lwScopes l') (ctr l') env' f') res"
  shows "simS F m X"
  using assms unfolding simS_def by blast

lemma simSD:
  "simS F m X \<Longrightarrow> m l = Inr (r, l') \<Longrightarrow> okL l \<Longrightarrow> codeIn l' f \<Longrightarrow> vars (lwScopes l) (ctr l) env f \<Longrightarrow> base st f
    \<Longrightarrow> X env st = Some res \<Longrightarrow> flows F (ctr l) f (pcOf l) (pcOf l') (\<lambda>env' f'. r \<and> vars (lwScopes l') (ctr l') env' f') res"
  unfolding simS_def by blast

lemma tidyD: "tidy m \<Longrightarrow> m l = Inr (a, l') \<Longrightarrow> okL l \<Longrightarrow> grows l l' \<and> okL l' \<and> tl (lwScopes l') = tl (lwScopes l)"
  by (simp add: tidy_def)

lemma simS_tidy: "simS F m X \<Longrightarrow> tidy m"
  by (simp add: simS_def)

lemma quiet_tidy: "quiet m \<Longrightarrow> tidy m"
  unfolding tidy_def by (auto dest: quietD)

lemma tidy_bind: "tidy m \<Longrightarrow> (\<And>a. tidy (k a)) \<Longrightarrow> tidy (bindL m k)"
proof (unfold tidy_def bindL_eq_Inr, intro allI impI, elim exE conjE)
  fix l b l' a l1
  assume m: "\<forall>l a l'. m l = Inr (a, l') \<longrightarrow> okL l \<longrightarrow> grows l l' \<and> okL l' \<and> tl (lwScopes l') = tl (lwScopes l)"
    and k: "\<And>a. \<forall>l b l'. k a l = Inr (b, l') \<longrightarrow> okL l \<longrightarrow> grows l l' \<and> okL l' \<and> tl (lwScopes l') = tl (lwScopes l)"
    and run: "m l = Inr (a, l1)" "k a l1 = Inr (b, l')" and ok: "okL l"
  have 1: "grows l l1 \<and> okL l1 \<and> tl (lwScopes l1) = tl (lwScopes l)" using m run(1) ok by blast
  then have "grows l1 l' \<and> okL l' \<and> tl (lwScopes l') = tl (lwScopes l1)" using k run(2) by blast
  with 1 show "grows l l' \<and> okL l' \<and> tl (lwScopes l') = tl (lwScopes l)" using grows_trans by metis
qed

lemma grows_ctr: "grows l l' \<Longrightarrow> ctr l \<le> ctr l'"
  by (simp add: grows_def)

lemma reaches_vars:
  "reaches F n f pc st f' pc' \<Longrightarrow> vars sc n env f \<Longrightarrow> n \<le> n' \<Longrightarrow> vars sc n' env f'"
  by (auto simp: reaches_def intro: vars_agree)

text \<open>An expression statement.\<close>

lemma simS_discard:
  assumes "\<And>env. sim F env (\<lambda>_ _. True) m (M env) Q"
  shows "simS F (bindL m (\<lambda>_. returnL True)) (\<lambda>env. bindM (M env) (\<lambda>_. returnM (Continues env)))"
proof (rule simSI)
  have q: "quiet m" using assms by (simp add: sim_def)
  then show "tidy (bindL m (\<lambda>_. returnL True))" by (intro quiet_tidy quiet_bind quiet_return)
  fix l r l' f env st res
  assume "bindL m (\<lambda>_. returnL True) l = Inr (r, l')" and l: "okL l" "codeIn l' f" "vars (lwScopes l) (ctr l) env f" "base st f"
    and X: "bindM (M env) (\<lambda>_. returnM (Continues env)) st = Some res"
  then obtain a where m: "m l = Inr (a, l')" "r" by (auto simp: lower_simps)
  from X show "flows F (ctr l) f (pcOf l) (pcOf l') (\<lambda>env' f'. r \<and> vars (lwScopes l') (ctr l') env' f') res"
  proof (cases rule: bindM_cases)
    case (err e)
    then show ?thesis using simD_error [OF assms m(1) l TrueI err(1)] by simp
  next
    case (val b st1)
    obtain f' where "reaches F (ctr l) f (pcOf l) st1 f' (pcOf l')" using simD_value [OF assms m(1) l TrueI val(1)] .
    then show ?thesis using val(2) m(2) quietD [OF q m(1) l(1)] reaches_vars [OF _ l(3)] grows_ctr by auto
  qed
qed

lemma simS_return: "answers F calls \<Longrightarrow> simS F (lowerReturn tok eo) (\<lambda>env. execStmt calls n env (ReturnStatement tok eo))"
proof (rule simSI)
  show "tidy (lowerReturn tok eo)"
    unfolding lowerReturn_def by (cases eo) (auto intro!: quiet_tidy quiet_bind quiet_guard quiet_control quiet_lowerExpr quiet_return
        simp: thenL_def [of "execL (AddRet v)" for v])
  fix l r l' f env st res
  assume F: "answers F calls" and run: "lowerReturn tok eo l = Inr (r, l')" and l: "okL l" "codeIn l' f"
    "vars (lwScopes l) (ctr l) env f" "base st f" and X: "execStmt calls n env (ReturnStatement tok eo) st = Some res"
  show "flows F (ctr l) f (pcOf l) (pcOf l') (\<lambda>env' f'. r \<and> vars (lwScopes l') (ctr l') env' f') res"
  proof (cases eo)
    case None
    then have "codeOf l' = codeOf l @ [retInst zeroOperand]"
      using run by (auto simp: lowerReturn_def lower_simps AddRet_def emit_def)
    from run_ret_nothing [OF codeIn_codeAt [OF l(2) this]] show ?thesis
      using X None by (auto simp: zeroOperand_def)
  next
    case (Some e)
    obtain v l1 where e: "lowerExpr e l = Inr (v, l1)" "tvType v \<noteq> ''void''" "codeOf l' = codeOf l1 @ [retInst (tvValue v)]"
      using run Some by (auto simp: lowerReturn_def lower_simps AddRet_def emit_def)
    have c1: "codeIn l1 f" using l(2) e(3) by (auto simp: codeIn_def prefix_def)
    note ex = sim_expr(1) [OF F lasting_const [where c = True], of env e]
    from X Some have "bindM (evalExpr calls env e) (\<lambda>v. returnM (Returns v)) st = Some res" by simp
    then show ?thesis
    proof (cases rule: bindM_cases)
      case (err x)
      then show ?thesis using simD_error [OF ex e(1) l(1) c1 l(3,4) TrueI err(1)] by simp
    next
      case (val x st1)
      obtain f' where f': "reaches F (ctr l) f (pcOf l) st1 f' (pcOf l1)" "valueOf v x (ctr l1) f'"
        using simD_value [OF ex e(1) l(1) c1 l(3,4) TrueI val(1)] .
      have h: "holds (tvValue v) x (ctr l1) f'" using f'(2) e(2) by (simp add: valueOf_def)
      have "codeAt f' (pcOf l1) (retInst (tvValue v))"
        using codeIn_codeAt [OF l(2) e(3)] agree_codeAt f'(1) by (auto simp: reaches_def)
      moreover have "opKind (tvValue v) \<noteq> OperandInvalid"
        using yieldsD [OF yields_expr(1) e(1) l(1)] e(2) by (auto simp: okValue_def valueKind_def)
      ultimately have "ends F f' (pcOf l1) (Inr x)" using resolve_holds [OF h] by (rule run_ret)
      then show ?thesis using reaches_ends [OF f'(1)] val(2) by auto
    qed
  qed
qed

text \<open>One statement after another, and a block with a scope of its own.\<close>

lemma simS_seq:
  assumes m: "simS F m X" and n: "simS F n Y"
  shows "simS F (bindL m (\<lambda>r. if r then n else returnL False))
    (\<lambda>env. bindM (X env) (\<lambda>fl. case fl of Returns v \<Rightarrow> returnM (Returns v) | Continues env' \<Rightarrow> Y env'))"
proof (rule simSI)
  show "tidy (bindL m (\<lambda>r. if r then n else returnL False))"
    by (rule tidy_bind [OF simS_tidy [OF m]]) (simp add: simS_tidy [OF n] quiet_tidy [OF quiet_return])
  fix l r l' f env st res
  assume run: "bindL m (\<lambda>r. if r then n else returnL False) l = Inr (r, l')" and l: "okL l" "codeIn l' f"
    "vars (lwScopes l) (ctr l) env f" "base st f"
    and X: "bindM (X env) (\<lambda>fl. case fl of Returns v \<Rightarrow> returnM (Returns v) | Continues env' \<Rightarrow> Y env') st = Some res"
  obtain r1 l1 where l1: "m l = Inr (r1, l1)" "(if r1 then n else returnL False) l1 = Inr (r, l')"
    using run by (auto simp: bindL_eq_Inr)
  note t = tidyD [OF simS_tidy [OF m] l1(1) l(1)]
  have g: "grows l1 l'"
    using l1(2) t tidyD [OF simS_tidy [OF n], of l1] by (auto simp: lower_simps grows_refl split: if_splits)
  have c1: "codeIn l1 f" using l(2) g by (rule codeIn_grows)
  from X show "flows F (ctr l) f (pcOf l) (pcOf l') (\<lambda>env' f'. r \<and> vars (lwScopes l') (ctr l') env' f') res"
  proof (cases rule: bindM_cases)
    case (err e)
    then show ?thesis using simSD [OF m l1(1) l(1) c1 l(3,4) err(1)] by simp
  next
    case (val fl st1)
    show ?thesis
    proof (cases fl)
      case (Returns v)
      then show ?thesis using simSD [OF m l1(1) l(1) c1 l(3,4) val(1)] val(2) by auto
    next
      case (Continues env')
      then obtain f' where f': "reaches F (ctr l) f (pcOf l) st1 f' (pcOf l1)" "r1" "vars (lwScopes l1) (ctr l1) env' f'"
        using simSD [OF m l1(1) l(1) c1 l(3,4) val(1)] by auto
      have "flows F (ctr l1) f' (pcOf l1) (pcOf l') (\<lambda>env' f'. r \<and> vars (lwScopes l') (ctr l') env' f') res"
        using simSD [OF n, of l1 r l' f' env' st1 res] l1(2) f' t l(2) val(2) codeIn_reaches [OF f'(1)]
        by (simp add: Continues reaches_def)
      then show ?thesis by (rule flows_before [OF f'(1)]) (use t grows_ctr in blast)
    qed
  qed
qed

lemma scopes_pushed: "tl (lwScopes l1) = tl (lwScopes (pushScope l)) \<Longrightarrow> lwScopes (popScope l1) = lwScopes l"
  by (simp add: pushScope_def popScope_def)

lemma grows_scope [simp]:
  "grows (pushScope l) l' \<longleftrightarrow> grows l l'" "grows l (popScope l') \<longleftrightarrow> grows l l'" "codeIn (popScope l) f \<longleftrightarrow> codeIn l f"
  by (auto simp: grows_def codeIn_def)

lemma vars_pushScope: "vars (lwScopes l) n env f \<Longrightarrow> vars (lwScopes (pushScope l)) n env f"
  by (simp add: vars_def pushScope_def)

lemma simS_scoped:
  assumes m: "simS F m X"
  shows "quiet (thenL (modifyL pushScope) (bindL m (\<lambda>r. thenL (modifyL popScope) (returnL r))))"
    and "simS F (thenL (modifyL pushScope) (bindL m (\<lambda>r. thenL (modifyL popScope) (returnL r))))
      (\<lambda>env. bindM (X env) (\<lambda>fl. returnM (leaving env fl)))"
proof -
  show q: "quiet (thenL (modifyL pushScope) (bindL m (\<lambda>r. thenL (modifyL popScope) (returnL r))))"
    by (auto simp: quiet_def lower_simps dest!: tidyD [OF simS_tidy [OF m]] intro: scopes_pushed okL_pushScope)
  show "simS F (thenL (modifyL pushScope) (bindL m (\<lambda>r. thenL (modifyL popScope) (returnL r))))
      (\<lambda>env. bindM (X env) (\<lambda>fl. returnM (leaving env fl)))"
  proof (rule simSI [OF quiet_tidy [OF q]])
    fix l r l' f env st res
    assume run: "thenL (modifyL pushScope) (bindL m (\<lambda>r. thenL (modifyL popScope) (returnL r))) l = Inr (r, l')"
      and l: "okL l" "codeIn l' f" "vars (lwScopes l) (ctr l) env f" "base st f"
      and X: "bindM (X env) (\<lambda>fl. returnM (leaving env fl)) st = Some res"
    obtain l1 where l1: "m (pushScope l) = Inr (r, l1)" "l' = popScope l1" using run by (auto simp: lower_simps)
    note t = quietD [OF q run l(1)]
    note s = simSD [OF m l1(1) okL_pushScope [OF l(1)], of f env st]
    from X show "flows F (ctr l) f (pcOf l) (pcOf l') (\<lambda>env' f'. r \<and> vars (lwScopes l') (ctr l') env' f') res"
    proof (cases rule: bindM_cases)
      case (err e)
      then show ?thesis using s [OF _ _ l(4) err(1)] l l1(2) by (simp add: vars_pushScope)
    next
      case (val fl st1)
      then show ?thesis
        using s [OF _ _ l(4) val(1)] l l1(2) t grows_ctr reaches_vars [OF _ l(3)]
        by (cases fl) (auto simp: vars_pushScope)
    qed
  qed
qed

section \<open>Declarations\<close>

lemma declared_run:
  assumes "okL l" "t \<noteq> ''void''" "declareLocal tok name t l = Inr (u, l1)" "lwScopes l2 = lwScopes l1" "lwFunctions l2 = lwFunctions l1"
    "emitL (AddInstruction OpcodeAlloca [Immediate t]) l2 = Inr (slot, l3)"
  shows "slot = StackSlotPointer (slotName (Suc (ctr l2)))" "currentScope l name = None"
    "lwScopes (setLocalSlot name (opText slot) l3)
       = (currentScope l)(name \<mapsto> \<lparr>symType = t, symSlot = slotName (Suc (ctr l2))\<rparr>) # tl (lwScopes l)"
    "okL (setLocalSlot name (opText slot) l3)"
    "lwFn (setLocalSlot name (opText slot) l3) = (lwFn l2)\<lparr>nextTempID := Suc (Suc (ctr l2)),
       instructions := codeOf l2 @ [opInst (StackSlotPointer (slotName (Suc (ctr l2)))) OpcodeAlloca [Immediate t]]\<rparr>"
    "lwFunctions (setLocalSlot name (opText slot) l3) = lwFunctions l"
proof -
  have d: "currentScope l name = None" "l1 = setCurrentScope ((currentScope l)(name \<mapsto> \<lparr>symType = t, symSlot = []\<rparr>)) l"
    using assms(3) by (auto simp: declareLocal_def split: if_splits)
  have e: "slot = StackSlotPointer (slotName (Suc (ctr l2)))" "l3 = l2\<lparr>lwFn := (lwFn l2)\<lparr>nextTempID := Suc (Suc (ctr l2)),
       instructions := codeOf l2 @ [opInst (StackSlotPointer (slotName (Suc (ctr l2)))) OpcodeAlloca [Immediate t]]\<rparr>\<rparr>"
    using assms(6) by (auto simp: emitL_def emit_next)
  show "slot = StackSlotPointer (slotName (Suc (ctr l2)))" "currentScope l name = None" by fact+
  show sc: "lwScopes (setLocalSlot name (opText slot) l3)
       = (currentScope l)(name \<mapsto> \<lparr>symType = t, symSlot = slotName (Suc (ctr l2))\<rparr>) # tl (lwScopes l)"
    using e d(2) assms(4) by (simp add: setLocalSlot_def setCurrentScope_def currentScope_def Let_def)
  show fs: "lwFunctions (setLocalSlot name (opText slot) l3) = lwFunctions l"
    using e d(2) assms(5) by (simp add: setLocalSlot_def setCurrentScope_def Let_def)
  show "lwFn (setLocalSlot name (opText slot) l3) = (lwFn l2)\<lparr>nextTempID := Suc (Suc (ctr l2)),
       instructions := codeOf l2 @ [opInst (StackSlotPointer (slotName (Suc (ctr l2)))) OpcodeAlloca [Immediate t]]\<rparr>"
    using e by (simp add: setLocalSlot_def setCurrentScope_def Let_def)
  show "okL (setLocalSlot name (opText slot) l3)"
    using assms(1,2) unfolding okL_def sc fs
    by (cases "lwScopes l") (auto simp: okScope_def currentScope_def)
qed

lemma alloca_runs:
  assumes i: "codeAt f pc (opInst (StackSlotPointer (slotName (Suc n))) OpcodeAlloca [Immediate t])" and b: "base st f"
    and a: "allocM st = Some (Inr (a, st'))"
  obtains f' where "reaches F n f pc st' f' (Suc pc)" "frValues f' (slotName (Suc n)) = Some (ValuePtr a)"
proof
  let ?i = "opInst (StackSlotPointer (slotName (Suc n))) OpcodeAlloca [Immediate t]"
  let ?f = "setDest ?i (ValuePtr a) (snd (allocCell f))"
  have a': "a = frNextAddr f" using a b by (simp add: allocM_def base_def)
  have "leads F f pc ?f (Suc pc)"
    by (rule run_simple_value [OF i]) (simp_all add: evalSimpleOp_def needCount_def allocCell_def a' Let_def)
  moreover have "base st' ?f"
    using a b zero_not_fresh(3) [symmetric] by (auto simp: allocM_def base_def allocCell_def setDest_def loadCell_def)
  moreover have "agree n f ?f" by (auto simp: agree_def allocCell_def setDest_def)
  ultimately show "reaches F n f pc st' ?f (Suc pc)" by (simp add: reaches_def)
  show "frValues ?f (slotName (Suc n)) = Some (ValuePtr a)" by (simp add: setDest_def)
qed

lemma vars_declare:
  assumes "vars sc n env f" "sc \<noteq> []" "agree n f f'" "n \<le> m" "namedBelow m slot" "frValues f' slot = Some (ValuePtr a)"
  shows "vars ((hd sc)(name \<mapsto> \<lparr>symType = t, symSlot = slot\<rparr>) # tl sc) m (env(name \<mapsto> a)) f'"
proof -
  have "vars sc m env f'" using assms(1,3,4) by (rule vars_agree)
  then show ?thesis using assms(2,5,6) by (cases sc) (auto simp: vars_def split: option.splits)
qed

lemma namedBelow_slot [simp]: "namedBelow (Suc (Suc n)) (slotName (Suc n))"
  by (auto simp: namedBelow_def)

lemma sim_initializer:
  assumes F: "answers F calls" and t: "t \<noteq> ''void''"
  shows "sim F env (holds slot (ValuePtr a))
    (bindL (lowerExpr e) (\<lambda>v. thenL (guardL (tvType v = t) (err v)) (execL (AddVoidInstruction OpcodeStore [slot, tvValue v]))))
    (bindM (evalExpr calls env e) (\<lambda>v. storeM a v)) anything"
proof (rule sim_bind [OF sim_expr(1) [OF F lasting_holds] lasting_holds], rule sim_guard)
  fix v :: typedValue and x
  assume "tvType v = t"
  then show "sim F env (\<lambda>n f. holds slot (ValuePtr a) n f \<and> valueOf v x n f)
      (execL (AddVoidInstruction OpcodeStore [slot, tvValue v])) (storeM a x) anything"
    using sim_store [where op = OpcodeStore and addr = slot and val = "tvValue v" and obj = "ValuePtr a" and v = x] t
    by (simp add: valueOf_def)
qed

lemma simS_declaration:
  assumes F: "answers F calls"
  shows "simS F (thenL (lowerLocalDeclaration decl) (returnL True))
    (\<lambda>env. bindM (declareM calls env decl) (\<lambda>env'. returnM (Continues env')))"
proof -
  let ?m = "thenL (lowerLocalDeclaration decl) (returnL True)"
  let ?init = "\<lambda>t slot. case declInitializer decl of None \<Rightarrow> returnL ()
      | Some e \<Rightarrow> bindL (lowerExpr e) (\<lambda>v. thenL (guardL (tvType v = t)
            (newError (declToken decl) (MsgInitializerType (declName decl) t (tvType v))))
          (execL (AddVoidInstruction OpcodeStore [slot, tvValue v])))"
  let ?initM = "\<lambda>env a. case declInitializer decl of None \<Rightarrow> returnM ()
      | Some e \<Rightarrow> bindM (evalExpr calls env e) (\<lambda>v. storeM a v)"
  let ?slot = "\<lambda>l. StackSlotPointer (slotName (Suc (ctr l)))"
  have init: "sim F env (holds slot (ValuePtr a)) (?init t slot) (?initM env a) anything" if "t \<noteq> ''void''" for env slot a t
    using sim_initializer [OF F that] by (cases "declInitializer decl") (simp_all add: sim_return)
  have X: "bindM (declareM calls env decl) (\<lambda>env'. returnM (Continues env'))
      = bindM allocM (\<lambda>a. bindM (?initM (env(declName decl \<mapsto> a)) a) (\<lambda>_. returnM (Continues (env(declName decl \<mapsto> a)))))" for env
    by (cases "declInitializer decl") (simp_all add: declareM_def bindM_assoc Let_def)
  have run: "\<exists>t l2. t \<noteq> ''void'' \<and> okL l2 \<and> r \<and> ?init t (?slot l) l2 = Inr ((), l')
      \<and> lwScopes l2 = (hd (lwScopes l))(declName decl \<mapsto> \<lparr>symType = t, symSlot = slotName (Suc (ctr l))\<rparr>) # tl (lwScopes l)
      \<and> codeOf l2 = codeOf l @ [opInst (?slot l) OpcodeAlloca [Immediate t]] \<and> ctr l2 = Suc (Suc (ctr l)) \<and> grows l l2"
    if m: "?m l = Inr (r, l')" and ok: "okL l" for l r l'
  proof -
    obtain t l1 slot l3 where d: "lowerObjectType (declToken decl) (declType decl) = Inr t" "r"
      "declareLocal (declToken decl) (declName decl) t l = Inr ((), l1)"
      "emitL (AddInstruction OpcodeAlloca [Immediate t]) l1 = Inr (slot, l3)"
      "?init t slot (setLocalSlot (declName decl) (opText slot) l3) = Inr ((), l')"
      using m by (auto simp: lowerLocalDeclaration_def thenL_def bindL_eq_Inr liftE_eq_Inr returnL_eq_Inr modifyL_def)
    have t: "t \<noteq> ''void''" using d(1) by (auto simp: lowerObjectType_def Let_def split: if_splits)
    have f: "lwFn l1 = lwFn l" using d(3) by (auto simp: declareLocal_def setCurrentScope_def split: if_splits)
    note s = declared_run [OF ok t d(3) refl refl d(4), unfolded f]
    show ?thesis
      using d(2) d(5) [unfolded s(1)] s [unfolded s(1)] t
      by (intro exI [of _ t] exI [of _ "setLocalSlot (declName decl) (opText slot) l3"]) (simp add: s(1) f grows_def currentScope_def)
  qed
  show ?thesis
    unfolding X
  proof (rule simSI)
    show "tidy ?m"
      unfolding tidy_def
    proof (intro allI impI)
      fix l r l'
      assume l: "?m l = Inr (r, l')" "okL l"
      obtain t l2 where l2: "t \<noteq> ''void''" "okL l2" "?init t (?slot l) l2 = Inr ((), l')" "tl (lwScopes l2) = tl (lwScopes l)" "grows l l2"
        using run [OF l] by auto
      have "grows l2 l' \<and> lwScopes l' = lwScopes l2" using simD_quiet [OF init [OF l2(1)] l2(3,2)] .
      then show "grows l l' \<and> okL l' \<and> tl (lwScopes l') = tl (lwScopes l)"
        using l2 okL_grows grows_trans by metis
    qed
    fix l r l' f env st res
    assume r: "?m l = Inr (r, l')" and l: "okL l" "codeIn l' f" "vars (lwScopes l) (ctr l) env f" "base st f"
      and M: "bindM allocM (\<lambda>a. bindM (?initM (env(declName decl \<mapsto> a)) a) (\<lambda>_. returnM (Continues (env(declName decl \<mapsto> a))))) st = Some res"
    show "flows F (ctr l) f (pcOf l) (pcOf l') (\<lambda>env' f'. r \<and> vars (lwScopes l') (ctr l') env' f') res"
    proof -
      obtain t l2 where l2: "t \<noteq> ''void''" "okL l2" "r" "?init t (?slot l) l2 = Inr ((), l')"
        "lwScopes l2 = (hd (lwScopes l))(declName decl \<mapsto> \<lparr>symType = t, symSlot = slotName (Suc (ctr l))\<rparr>) # tl (lwScopes l)"
        "codeOf l2 = codeOf l @ [opInst (?slot l) OpcodeAlloca [Immediate t]]" "ctr l2 = Suc (Suc (ctr l))" "grows l l2"
        using run [OF r l(1)] by blast
      obtain a st1 where a: "allocM st = Some (Inr (a, st1))" by (simp add: allocM_def)
      let ?env = "env(declName decl \<mapsto> a)"
      have M1: "bindM (?initM ?env a) (\<lambda>_. returnM (Continues ?env)) st1 = Some res" using M a by (simp add: bindM_def)
      have q: "grows l2 l' \<and> lwScopes l' = lwScopes l2" using simD_quiet [OF init [OF l2(1)] l2(4,2)] .
      have c2: "codeIn l2 f" using codeIn_grows l(2) q by blast
      obtain f1 where f1: "reaches F (ctr l) f (pcOf l) st1 f1 (pcOf l2)" "frValues f1 (slotName (Suc (ctr l))) = Some (ValuePtr a)"
        using alloca_runs [OF codeIn_codeAt [OF c2 l2(6)] l(4) a] l2(6) by auto
      have v1: "vars (lwScopes l2) (ctr l2) ?env f1"
        unfolding l2(5,7) using f1 l(1) by (intro vars_declare [OF l(3)]) (auto simp: reaches_def okL_def)
      have h1: "holds (?slot l) (ValuePtr a) (ctr l2) f1" using f1(2) l2(7) by (simp add: holds_def)
      have c1: "codeIn l' f1" "base st1 f1" using f1(1) l(2) codeIn_reaches [OF f1(1)] by (auto simp: reaches_def)
      note sim = init [OF l2(1), of ?env "?slot l" a]
      from M1 have "flows F (ctr l2) f1 (pcOf l2) (pcOf l') (\<lambda>env' f'. r \<and> vars (lwScopes l') (ctr l') env' f') res"
      proof (cases rule: bindM_cases)
        case (err e)
        then show ?thesis using simD_error [OF sim l2(4,2) c1(1) v1 c1(2) h1 err(1)] by simp
      next
        case (val u st2)
        obtain f2 where "reaches F (ctr l2) f1 (pcOf l2) st2 f2 (pcOf l')" using simD_value [OF sim l2(4,2) c1(1) v1 c1(2) h1 val(1)] .
        then show ?thesis using val(2) l2(3) q reaches_vars [OF _ v1] grows_ctr by auto
      qed
      then show ?thesis using l2(7) by (intro flows_before [OF f1(1)]) auto
    qed
  qed
qed

end
