(* ===== verification/SimulationFlow.thy ===== *)
theory SimulationFlow
  imports SimulationStmt
begin

text \<open>
  Lowering preserves the meaning of statements: \<open>if\<close>, \<open>while\<close> and \<open>for\<close>, and the induction over statements.
\<close>

section \<open>Pieces of code\<close>

text \<open>\<open>emitted l l' is\<close>: between \<open>l\<close> and \<open>l'\<close> only \<open>is\<close> was emitted.\<close>

definition emitted :: "lowerer \<Rightarrow> lowerer \<Rightarrow> instruction list \<Rightarrow> bool" where
  "emitted l l' is \<longleftrightarrow> codeOf l' = codeOf l @ is \<and> ctr l' = ctr l \<and> lwScopes l' = lwScopes l
     \<and> lwFunctions l' = lwFunctions l \<and> parameters (lwFn l') = parameters (lwFn l)"

lemma emitted_grows: "emitted l l' is \<Longrightarrow> grows l l'"
  by (simp add: emitted_def grows_def)

lemma emitted_okL: "emitted l l' is \<Longrightarrow> okL l' \<longleftrightarrow> okL l"
  by (simp add: emitted_def okL_def)

lemma codeAt_emitted: "codeIn l' f \<Longrightarrow> emitted l l' (xs @ i # ys) \<Longrightarrow> codeAt f (pcOf l + length xs) i"
  by (auto simp: emitted_def codeIn_def codeAt_def instAt_def prefix_def nth_append)

lemma label_at: "base st f \<Longrightarrow> codeAt f pc (labelInst lab) \<Longrightarrow> frLabels f lab = Some pc"
  using labelMapFrom_nth [of "instructions (frFn f)" pc 0 Map.empty] by (simp add: base_def codeAt_def instAt_def)

lemma reaches_label: "base st f \<Longrightarrow> codeAt f pc (labelInst lab) \<Longrightarrow> reaches F n f pc st f (Suc pc)"
  by (simp add: reaches_def run_label agree_refl)

lemma reaches_jump: "base st f \<Longrightarrow> codeAt f pc (jmpInst lab) \<Longrightarrow> codeAt f pc' (labelInst lab) \<Longrightarrow> reaches F n f pc st f pc'"
  using run_jmp [OF _ label_at] by (simp add: reaches_def agree_refl)

lemma codeAt_reaches: "reaches F n f pc st f' pc' \<Longrightarrow> codeAt f' k i \<longleftrightarrow> codeAt f k i"
  by (auto simp: reaches_def dest: agree_codeAt)

lemma reaches_base: "reaches F n f pc st f' pc' \<Longrightarrow> base st f'"
  by (simp add: reaches_def)

lemma flows_less: "flows F m f pc pc' K res \<Longrightarrow> base st f \<Longrightarrow> n \<le> m \<Longrightarrow> flows F n f pc pc' K res"
  by (rule flows_before [OF reaches_refl])

lemma flows_after_label:
  "flows F n f (Suc pc) pc' K res \<Longrightarrow> base st f \<Longrightarrow> codeAt f pc (labelInst lab) \<Longrightarrow> flows F n f pc pc' K res"
  by (rule flows_before [OF reaches_label _ order_refl])

lemma flows_to_label:
  assumes "flows F n f pc pc' K res" "codeAt f pc' (labelInst lab)" "\<And>env' f'. K env' f' \<Longrightarrow> K' env' f'"
  shows "flows F n f pc (Suc pc') K' res"
proof (rule flows_post [OF assms(1)])
  fix env st f'
  assume r: "reaches F n f pc st f' pc'" and k: "K env f'"
  then have "reaches F n f' pc' st f' (Suc pc')"
    using assms(2) by (intro reaches_label) (auto simp: reaches_base codeAt_reaches)
  then show "\<exists>f''. reaches F n f pc st f'' (Suc pc') \<and> K' env f''" using reaches_trans [OF r] k assms(3) by blast
qed

text \<open>A test: a branch on a condition, or a jump when there is none.\<close>

definition tests :: "expr option \<Rightarrow> lowerer \<Rightarrow> lowerer \<Rightarrow> string \<Rightarrow> string \<Rightarrow> evalFrame \<Rightarrow> bool" where
  "tests c l l1 bl en f \<longleftrightarrow>
     (case c of None \<Rightarrow> l1 = l \<and> codeAt f (pcOf l) (jmpInst bl)
      | Some e \<Rightarrow> \<exists>tok what cond. lowerCondition tok what e l = Inr (cond, l1) \<and> codeAt f (pcOf l1) (brInst cond bl en))"

lemma sim_condition:
  assumes "answers F calls"
  shows "sim F env (\<lambda>_ _. True) (lowerCondition tok what e) (evalExpr calls env e) holds"
proof -
  have "sim F env (\<lambda>_ _. True) (lowerCondition tok what e) (bindM (evalExpr calls env e) returnM) holds"
    unfolding lowerCondition_def
    by (rule sim_bind [OF sim_expr(1) [OF assms lasting_const] lasting_const]) (auto intro!: sim_guard sim_return simp: valueOf_def)
  then show ?thesis by simp
qed

lemma integerOf_eq:
  "integerOf v st = Some (Inl x) \<longleftrightarrow> asInteger v = Inl x"
  "integerOf v st = Some (Inr (w, st')) \<longleftrightarrow> st' = st \<and> asInteger v = Inr w"
  by (cases "asInteger v"; auto simp: integerOf_as)+

lemma test_runs:
  assumes F: "answers F calls" and t: "tests c l l1 bl en f" "codeAt f pb (labelInst bl)" "codeAt f pe (labelInst en)"
    and l: "okL l" "codeIn l1 f" "vars (lwScopes l) (ctr l) env f" "base st f"
  shows "testM calls env c st = Some (Inl x) \<Longrightarrow> ends F f (pcOf l) (Inl x)"
    and "testM calls env c st = Some (Inr (go, st')) \<Longrightarrow> \<exists>f'. reaches F (ctr l) f (pcOf l) st' f' (if go then pb else pe)"
proof -
  have "(\<forall>x. testM calls env c st = Some (Inl x) \<longrightarrow> ends F f (pcOf l) (Inl x)) \<and>
    (\<forall>go st'. testM calls env c st = Some (Inr (go, st')) \<longrightarrow> (\<exists>f'. reaches F (ctr l) f (pcOf l) st' f' (if go then pb else pe)))"
  proof (cases c)
    case None
    then have "codeAt f (pcOf l) (jmpInst bl)" using t(1) by (simp add: tests_def)
    from reaches_jump [OF l(4) this t(2)] None show ?thesis by (auto simp: testM_def)
  next
    case (Some e)
    then obtain tok what cond where c: "lowerCondition tok what e l = Inr (cond, l1)" "codeAt f (pcOf l1) (brInst cond bl en)"
      using t(1) by (auto simp: tests_def)
    note sim = sim_condition [OF F, of env tok what e]
    have br: "\<exists>f'. reaches F (ctr l) f (pcOf l) st1 f' (pcOf l1) \<and> codeAt f' (pcOf l1) (brInst cond bl en)
        \<and> resolveI32 f' (opText cond) = asInteger v \<and> frLabels f' bl = Some pb \<and> frLabels f' en = Some pe \<and> base st1 f'"
      if v: "evalExpr calls env e st = Some (Inr (v, st1))" for v st1
    proof -
      obtain f' where f': "reaches F (ctr l) f (pcOf l) st1 f' (pcOf l1)" "holds cond v (ctr l1) f'"
        using simD_value [OF sim c(1) l TrueI v] .
      have b: "base st1 f'" using f'(1) by (rule reaches_base)
      show ?thesis
        using f' c(2) t(2,3) b resolve_kinds(1) [OF f'(2)] label_at [OF b] codeAt_reaches [OF f'(1)] by blast
    qed
    have err: "ends F f (pcOf l) (Inl x)" if x: "testM calls env c st = Some (Inl x)" for x
    proof -
      from x Some consider "evalExpr calls env e st = Some (Inl x)"
        | v st1 where "evalExpr calls env e st = Some (Inr (v, st1))" "asInteger v = Inl x"
        by (auto simp: testM_def bindM_eq integerOf_eq)
      then show ?thesis
      proof cases
        case 1
        then show ?thesis using simD_error [OF sim c(1) l TrueI] by simp
      next
        case 2
        then show ?thesis using br [OF 2(1)] run_br_error reaches_ends by fastforce
      qed
    qed
    have val: "\<exists>f'. reaches F (ctr l) f (pcOf l) st' f' (if go then pb else pe)" if x: "testM calls env c st = Some (Inr (go, st'))" for go st'
    proof -
      from x Some obtain v w where v: "evalExpr calls env e st = Some (Inr (v, st'))" "asInteger v = Inr w" "go \<longleftrightarrow> w \<noteq> 0"
        by (auto simp: testM_def bindM_eq integerOf_eq)
      obtain f' where f': "reaches F (ctr l) f (pcOf l) st' f' (pcOf l1)" "codeAt f' (pcOf l1) (brInst cond bl en)"
        "resolveI32 f' (opText cond) = Inr w" "frLabels f' (if w \<noteq> 0 then bl else en) = Some (if go then pb else pe)" "base st' f'"
        using br [OF v(1)] v(2,3) by auto
      have "reaches F (ctr l) f' (pcOf l1) st' f' (if go then pb else pe)"
        using run_br [OF f'(2-4)] f'(5) by (simp add: reaches_def agree_refl)
      then show ?thesis using reaches_trans [OF f'(1)] by blast
    qed
    show ?thesis using err val by blast
  qed
  then show "testM calls env c st = Some (Inl x) \<Longrightarrow> ends F f (pcOf l) (Inl x)"
    and "testM calls env c st = Some (Inr (go, st')) \<Longrightarrow> \<exists>f'. reaches F (ctr l) f (pcOf l) st' f' (if go then pb else pe)"
    by blast+
qed

text \<open>A branch or a body, and the jump after it when its end is reachable.\<close>

lemma branch_flows:
  assumes m: "simS F m X" "m l = Inr (r, l1)"
    and l: "okL l" "codeIn l1 f" "vars (lwScopes l) (ctr l) env f" "base st f" "X env st = Some res"
    and j: "r \<Longrightarrow> codeAt f (pcOf l1) (jmpInst en)" "r \<Longrightarrow> codeAt f pe (labelInst en)"
  shows "flows F (ctr l) f (pcOf l) pe (\<lambda>env' f'. r \<and> vars (lwScopes l1) (ctr l1) env' f') res"
proof (rule flows_post [OF simSD [OF m l]])
  fix env' st' f'
  assume f': "reaches F (ctr l) f (pcOf l) st' f' (pcOf l1)" "r \<and> vars (lwScopes l1) (ctr l1) env' f'"
  then have "reaches F (ctr l) f' (pcOf l1) st' f' pe"
    using j by (intro reaches_jump) (auto simp: reaches_base codeAt_reaches)
  then show "\<exists>f''. reaches F (ctr l) f (pcOf l) st' f'' pe \<and> r \<and> vars (lwScopes l1) (ctr l1) env' f''"
    using reaches_trans [OF f'(1)] f'(2) by blast
qed

section \<open>Branches\<close>

lemma quiet_then: "quiet m \<Longrightarrow> quiet n \<Longrightarrow> quiet (thenL m n)"
  unfolding thenL_def by (rule quiet_bind)

lemmas quiet_intros = quiet_then quiet_bind quiet_control quiet_condition quiet_lowerExpr quiet_return quiet_guard

lemmas emitting = lower_simps emitted_def AddLabel_def AddJmp_def AddBr_def emit_def

lemma quiet_if: "quiet m \<Longrightarrow> (\<And>n. eo = Some n \<Longrightarrow> quiet n) \<Longrightarrow> quiet (lowerIfStatement tok c m eo)"
  unfolding lowerIfStatement_def by (cases eo) (auto intro!: quiet_intros)

lemma if_run:
  assumes "lowerIfStatement tok c m None l = Inr (r, l')"
  obtains cond l1 t en l2 r1 l3 where "lowerCondition tok ''if condition'' c l = Inr (cond, l1)" "emitted l1 l2 [brInst cond t en, labelInst t]"
    "m l2 = Inr (r1, l3)" "emitted l3 l' ((if r1 then [jmpInst en] else []) @ [labelInst en])" "r"
proof -
  obtain cond l1 where c: "lowerCondition tok ''if condition'' c l = Inr (cond, l1)" using assms
    by (auto simp: lowerIfStatement_def bindL_eq_Inr)
  obtain t en la lb lc l2 r1 l3 ld where e: "newLabel l1 = Inr (t, la)" "newLabel la = Inr (en, lb)"
    "execL (AddBr cond t en) lb = Inr ((), lc)" "execL (AddLabel t) lc = Inr ((), l2)"
    and m: "m l2 = Inr (r1, l3)"
    and e': "whenL r1 (execL (AddJmp en)) l3 = Inr ((), ld)" "execL (AddLabel en) ld = Inr ((), l')" and r
    using assms c by (auto simp: lowerIfStatement_def bindL_eq_Inr thenL_eq_Inr returnL_eq_Inr)
  have "emitted l1 l2 [brInst cond t en, labelInst t]" using e by (simp add: emitting)
  moreover have "emitted l3 l' ((if r1 then [jmpInst en] else []) @ [labelInst en])" using e' by (cases r1) (simp_all add: emitting)
  ultimately show ?thesis using that c m \<open>r\<close> by blast
qed

lemma if_else_run:
  assumes "lowerIfStatement tok c m (Some n) l = Inr (r, l')"
  obtains cond l1 t el en l2 r1 l3 l4 r2 l5 where "lowerCondition tok ''if condition'' c l = Inr (cond, l1)"
    "emitted l1 l2 [brInst cond t el, labelInst t]" "m l2 = Inr (r1, l3)"
    "emitted l3 l4 ((if r1 then [jmpInst en] else []) @ [labelInst el])" "n l4 = Inr (r2, l5)"
    "emitted l5 l' ((if r2 then [jmpInst en] else []) @ (if r1 \<or> r2 then [labelInst en] else []))" "r \<longleftrightarrow> r1 \<or> r2"
proof -
  obtain cond l1 where c: "lowerCondition tok ''if condition'' c l = Inr (cond, l1)" using assms
    by (auto simp: lowerIfStatement_def bindL_eq_Inr)
  obtain t el en la lb ld le l2 r1 l3 lf l4 r2 l5 lg where e: "newLabel l1 = Inr (t, la)" "newLabel la = Inr (en, lb)"
    "newLabel lb = Inr (el, ld)" "execL (AddBr cond t el) ld = Inr ((), le)" "execL (AddLabel t) le = Inr ((), l2)"
    and m: "m l2 = Inr (r1, l3)"
    and e': "whenL r1 (execL (AddJmp en)) l3 = Inr ((), lf)" "execL (AddLabel el) lf = Inr ((), l4)"
    and n: "n l4 = Inr (r2, l5)"
    and e'': "whenL r2 (execL (AddJmp en)) l5 = Inr ((), lg)" "whenL (r1 \<or> r2) (execL (AddLabel en)) lg = Inr ((), l')"
    and r: "r \<longleftrightarrow> r1 \<or> r2"
    using assms c by (clarsimp simp: lowerIfStatement_def bindL_eq_Inr thenL_eq_Inr returnL_eq_Inr)
  have "emitted l1 l2 [brInst cond t el, labelInst t]" using e by (simp add: emitting)
  moreover have "emitted l3 l4 ((if r1 then [jmpInst en] else []) @ [labelInst el])" using e' by (cases r1) (simp_all add: emitting)
  moreover have "emitted l5 l' ((if r2 then [jmpInst en] else []) @ (if r1 \<or> r2 then [labelInst en] else []))"
    using e'' by (cases r1; cases r2) (simp_all add: emitting)
  ultimately show ?thesis using that c m n r by blast
qed

lemma quiet_body: "quiet m \<Longrightarrow> m l = Inr (r, l') \<Longrightarrow> okL l \<Longrightarrow> okL l' \<and> lwScopes l' = lwScopes l \<and> ctr l \<le> ctr l' \<and> grows l l'"
  by (auto dest: quietD grows_ctr)

lemma codeIn_emitted: "codeIn l' f \<Longrightarrow> emitted l l' is \<Longrightarrow> codeIn l f"
  by (auto intro: codeIn_grows emitted_grows)

lemma if_flows:
  assumes F: "answers F calls" and m: "simS F m X" "quiet m"
    and run: "lowerIfStatement tok c m None l = Inr (r, l')"
    and l: "okL l" "codeIn l' f" "vars (lwScopes l) (ctr l) env f" "base st f"
    and M: "bindM (testM calls env (Some c)) (\<lambda>go. if go then X env else returnM (Continues env)) st = Some res"
  shows "flows F (ctr l) f (pcOf l) (pcOf l') (\<lambda>env' f'. r \<and> vars (lwScopes l') (ctr l') env' f') res"
  using run
proof (cases rule: if_run)
  case (1 cond l1 t en l2 r1 l3)
  have q1: "okL l1 \<and> lwScopes l1 = lwScopes l \<and> ctr l \<le> ctr l1 \<and> grows l l1" using quiet_body [OF quiet_condition 1(1) l(1)] .
  then have ok2: "okL l2" using emitted_okL [OF 1(2)] by blast
  have q3: "okL l3 \<and> lwScopes l3 = lwScopes l2 \<and> ctr l2 \<le> ctr l3 \<and> grows l2 l3" using quiet_body [OF m(2) 1(3) ok2] .
  have c3: "codeIn l3 f" using codeIn_emitted l(2) 1(4) by blast
  have c2: "codeIn l2 f" using codeIn_grows c3 q3 by blast
  have c1: "codeIn l1 f" using codeIn_emitted c2 1(2) by blast
  let ?pe = "pcOf l3 + length (if r1 then [jmpInst en] else [])"
  have code: "codeAt f (pcOf l1) (brInst cond t en)" "codeAt f (pcOf l1 + 1) (labelInst t)"
    "codeAt f ?pe (labelInst en)" "r1 \<Longrightarrow> codeAt f (pcOf l3) (jmpInst en)"
    using codeAt_emitted [OF c2, of l1 "[]"] codeAt_emitted [OF c2, of l1 "[brInst cond t en]"] 1(2)
      codeAt_emitted [OF l(2), of l3 "if r1 then [jmpInst en] else []"] codeAt_emitted [OF l(2), of l3 "[]"] 1(4) by auto
  have p: "pcOf l2 = pcOf l1 + 2" "pcOf l' = Suc ?pe" "lwScopes l2 = lwScopes l1" "ctr l2 = ctr l1" "lwScopes l' = lwScopes l3" "ctr l' = ctr l3"
    using 1(2,4) by (auto simp: emitted_def)
  have test: "tests (Some c) l l1 t en f" using 1(1) code(1) by (auto simp: tests_def)
  note t = test_runs [OF F test code(2,3) l(1) c1 l(3,4)]
  have "flows F (ctr l) f (pcOf l) ?pe (\<lambda>env' f'. vars (lwScopes l') (ctr l') env' f') res"
    using M
  proof (cases rule: bindM_cases)
    case (err e)
    then show ?thesis using t(1) by simp
  next
    case (val go st1)
    obtain f1 where f1: "reaches F (ctr l) f (pcOf l) st1 f1 (if go then pcOf l1 + 1 else ?pe)" using t(2) [OF val(1)] by blast
    note b1 = reaches_base [OF f1] and at1 = codeAt_reaches [OF f1]
    show ?thesis
    proof (cases go)
      case False
      then show ?thesis using val(2) f1 reaches_vars [OF f1 l(3), of "ctr l'"] q1 q3 p by auto
    next
      case True
      then have X: "X env st1 = Some res" using val(2) by simp
      have v2: "vars (lwScopes l2) (ctr l2) env f1" using reaches_vars [OF f1 l(3)] q1 p by simp
      have "flows F (ctr l2) f1 (pcOf l2) ?pe (\<lambda>env' f'. r1 \<and> vars (lwScopes l3) (ctr l3) env' f') res"
        using branch_flows [OF m(1) 1(3) ok2 _ v2 b1 X, of en ?pe] c3 codeIn_reaches [OF f1] code at1 by blast
      then have "flows F (ctr l2) f1 (pcOf l1 + 1) ?pe (\<lambda>env' f'. r1 \<and> vars (lwScopes l3) (ctr l3) env' f') res"
        using flows_after_label [OF _ b1] code(2) at1 p(1) by simp
      then have "flows F (ctr l) f (pcOf l) ?pe (\<lambda>env' f'. r1 \<and> vars (lwScopes l3) (ctr l3) env' f') res"
        using flows_before f1 True p q1 by simp
      then show ?thesis by (rule flows_post) (use p in auto)
    qed
  qed
  then show ?thesis
    unfolding p(2) by (rule flows_to_label) (use code(3) \<open>r\<close> in auto)
qed

lemma if_else_flows:
  assumes F: "answers F calls" and m: "simS F m X" "quiet m" and n: "simS F n Y" "quiet n"
    and run: "lowerIfStatement tok c m (Some n) l = Inr (r, l')"
    and l: "okL l" "codeIn l' f" "vars (lwScopes l) (ctr l) env f" "base st f"
    and M: "bindM (testM calls env (Some c)) (\<lambda>go. if go then X env else Y env) st = Some res"
  shows "flows F (ctr l) f (pcOf l) (pcOf l') (\<lambda>env' f'. r \<and> vars (lwScopes l') (ctr l') env' f') res"
  using run
proof (cases rule: if_else_run)
  case (1 cond l1 t el en l2 r1 l3 l4 r2 l5)
  have q1: "okL l1 \<and> lwScopes l1 = lwScopes l \<and> ctr l \<le> ctr l1 \<and> grows l l1" using quiet_body [OF quiet_condition 1(1) l(1)] .
  then have ok2: "okL l2" using emitted_okL [OF 1(2)] by blast
  have q3: "okL l3 \<and> lwScopes l3 = lwScopes l2 \<and> ctr l2 \<le> ctr l3 \<and> grows l2 l3" using quiet_body [OF m(2) 1(3) ok2] .
  then have ok4: "okL l4" using emitted_okL [OF 1(4)] by blast
  have q5: "okL l5 \<and> lwScopes l5 = lwScopes l4 \<and> ctr l4 \<le> ctr l5 \<and> grows l4 l5" using quiet_body [OF n(2) 1(5) ok4] .
  have c5: "codeIn l5 f" using codeIn_emitted l(2) 1(6) by blast
  have c4: "codeIn l4 f" using codeIn_grows c5 q5 by blast
  have c3: "codeIn l3 f" using codeIn_emitted c4 1(4) by blast
  have c2: "codeIn l2 f" using codeIn_grows c3 q3 by blast
  have c1: "codeIn l1 f" using codeIn_emitted c2 1(2) by blast
  let ?pl = "pcOf l3 + length (if r1 then [jmpInst en] else [])"
  let ?pe = "pcOf l5 + length (if r2 then [jmpInst en] else [])"
  have code: "codeAt f (pcOf l1) (brInst cond t el)" "codeAt f (pcOf l1 + 1) (labelInst t)"
    "codeAt f ?pl (labelInst el)" "r1 \<Longrightarrow> codeAt f (pcOf l3) (jmpInst en)"
    "r \<Longrightarrow> codeAt f ?pe (labelInst en)" "r2 \<Longrightarrow> codeAt f (pcOf l5) (jmpInst en)"
    using codeAt_emitted [OF c2, of l1 "[]"] codeAt_emitted [OF c2, of l1 "[brInst cond t el]"] 1(2)
      codeAt_emitted [OF c4, of l3 "if r1 then [jmpInst en] else []"] codeAt_emitted [OF c4, of l3 "[]"] 1(4)
      codeAt_emitted [OF l(2), of l5 "if r2 then [jmpInst en] else []"] codeAt_emitted [OF l(2), of l5 "[]"] 1(6,7) by auto
  have p: "pcOf l2 = pcOf l1 + 2" "r \<Longrightarrow> pcOf l' = Suc ?pe" "lwScopes l2 = lwScopes l1" "ctr l2 = ctr l1"
    "pcOf l4 = Suc ?pl" "lwScopes l4 = lwScopes l3" "ctr l4 = ctr l3" "lwScopes l' = lwScopes l5" "ctr l' = ctr l5"
    using 1(2,4,6,7) by (auto simp: emitted_def)
  have test: "tests (Some c) l l1 t el f" using 1(1) code(1) by (auto simp: tests_def)
  note t = test_runs [OF F test code(2,3) l(1) c1 l(3,4)]
  have "flows F (ctr l) f (pcOf l) ?pe (\<lambda>env' f'. r \<and> vars (lwScopes l') (ctr l') env' f') res"
    using M
  proof (cases rule: bindM_cases)
    case (err e)
    then show ?thesis using t(1) by simp
  next
    case (val go st1)
    obtain f1 where f1: "reaches F (ctr l) f (pcOf l) st1 f1 (if go then pcOf l1 + 1 else ?pl)" using t(2) [OF val(1)] by blast
    note b1 = reaches_base [OF f1] and at1 = codeAt_reaches [OF f1]
    have v: "ctr l \<le> k \<Longrightarrow> vars (lwScopes l) k env f1" for k using reaches_vars [OF f1 l(3)] .
    show ?thesis
    proof (cases go)
      case False
      then have Y: "Y env st1 = Some res" using val(2) by simp
      have v4: "vars (lwScopes l4) (ctr l4) env f1" using v q1 q3 p by simp
      have "flows F (ctr l4) f1 (pcOf l4) ?pe (\<lambda>env' f'. r2 \<and> vars (lwScopes l5) (ctr l5) env' f') res"
        using branch_flows [OF n(1) 1(5) ok4 _ v4 b1 Y, of en ?pe] c5 codeIn_reaches [OF f1] code at1 1(7) by blast
      then have "flows F (ctr l4) f1 ?pl ?pe (\<lambda>env' f'. r2 \<and> vars (lwScopes l5) (ctr l5) env' f') res"
        unfolding p(5) by (rule flows_after_label [OF _ b1]) (use code(3) at1 in blast)
      then have "flows F (ctr l) f (pcOf l) ?pe (\<lambda>env' f'. r2 \<and> vars (lwScopes l5) (ctr l5) env' f') res"
        using flows_before f1 False p q1 q3 by simp
      then show ?thesis by (rule flows_post) (use p 1(7) in auto)
    next
      case True
      then have X: "X env st1 = Some res" using val(2) by simp
      have v2: "vars (lwScopes l2) (ctr l2) env f1" using v q1 p by simp
      have "flows F (ctr l2) f1 (pcOf l2) ?pe (\<lambda>env' f'. r1 \<and> vars (lwScopes l3) (ctr l3) env' f') res"
        using branch_flows [OF m(1) 1(3) ok2 _ v2 b1 X, of en ?pe] c3 codeIn_reaches [OF f1] code at1 1(7) by blast
      then have "flows F (ctr l2) f1 (pcOf l1 + 1) ?pe (\<lambda>env' f'. r1 \<and> vars (lwScopes l3) (ctr l3) env' f') res"
        using flows_after_label [OF _ b1] code(2) at1 p(1) by simp
      then have "flows F (ctr l) f (pcOf l) ?pe (\<lambda>env' f'. r1 \<and> vars (lwScopes l3) (ctr l3) env' f') res"
        using flows_before f1 True p q1 by simp
      then show ?thesis
      proof (rule flows_post)
        fix env' st' f'
        assume f': "reaches F (ctr l) f (pcOf l) st' f' ?pe" and k: "r1 \<and> vars (lwScopes l3) (ctr l3) env' f'"
        have "vars (lwScopes l') (ctr l') env' f'"
          using k vars_agree [OF _ agree_refl] q3 q5 p by metis
        then show "\<exists>f''. reaches F (ctr l) f (pcOf l) st' f'' ?pe \<and> r \<and> vars (lwScopes l') (ctr l') env' f''"
          using f' k 1(7) by blast
      qed
    qed
  qed
  note out = this
  show ?thesis
  proof (cases r)
    case True
    show ?thesis unfolding p(2) [OF True] by (rule flows_to_label [OF out]) (use code(5) True in auto)
  next
    case False
    show ?thesis by (rule flows_post [OF out]) (simp add: False)
  qed
qed

lemma simS_if:
  assumes F: "answers F calls" and m: "simS F m X" "quiet m"
  shows "simS F (lowerIfStatement tok c m None) (\<lambda>env. bindM (testM calls env (Some c)) (\<lambda>go. if go then X env else returnM (Continues env)))"
  by (rule simSI [OF quiet_tidy [OF quiet_if [OF m(2)]]]) (simp, rule if_flows [OF F m])

lemma simS_if_else:
  assumes F: "answers F calls" and m: "simS F m X" "quiet m" and n: "simS F n Y" "quiet n"
  shows "simS F (lowerIfStatement tok c m (Some n)) (\<lambda>env. bindM (testM calls env (Some c)) (\<lambda>go. if go then X env else Y env))"
  by (rule simSI [OF quiet_tidy [OF quiet_if [OF m(2)]]]) (use n(2) in simp, rule if_else_flows [OF F m n])

section \<open>Loops\<close>

lemma holdsAt_code: "holdsAt sc n env f f1 st \<Longrightarrow> codeAt f1 pc i \<longleftrightarrow> codeAt f pc i"
  by (auto simp: holdsAt_def agree_codeAt)

lemma holdsAt_codeIn: "holdsAt sc n env f f1 st \<Longrightarrow> codeIn l f1 \<longleftrightarrow> codeIn l f"
  by (auto simp: holdsAt_def codeIn_def agree_def)

lemma holdsAt_vars: "holdsAt sc n env f f1 st \<Longrightarrow> n \<le> m \<Longrightarrow> vars sc m env f1"
  unfolding holdsAt_def by (meson agree_refl vars_agree)

lemma holdsAt_base: "holdsAt sc n env f f1 st \<Longrightarrow> base st f1"
  by (simp add: holdsAt_def)

lemma reaches_less: "reaches F m f pc st f' pc' \<Longrightarrow> n \<le> m \<Longrightarrow> reaches F n f pc st f' pc'"
  unfolding reaches_def agree_def by (auto dest: freshName_mono)

text \<open>The code of a loop: the test behind a label at \<open>p0\<close>, the body behind one at \<open>pb\<close>, the end at \<open>pe\<close>.\<close>

lemma loop_code:
  assumes F: "answers F calls" and m: "\<And>k. simS F m (\<lambda>env. execStmt calls k env b)"
    and t: "tests c l2 l3 bl en f" "codeAt f p0 (labelInst cl)" "pcOf l2 = Suc p0" "okL l2" "codeIn l3 f" "n \<le> ctr l2"
    and b: "m l4 = Inr (r, l5)" "codeAt f pb (labelInst bl)" "pcOf l4 = Suc pb" "okL l4" "codeIn l5 f" "n \<le> ctr l4"
    and sc: "lwScopes l2 = sc" "lwScopes l4 = sc"
    and j: "r \<Longrightarrow> codeAt f (pcOf l5) (jmpInst pl)" "r \<Longrightarrow> codeAt f pp (labelInst pl)" "codeAt f pe (labelInst en)"
    and post: "\<And>f1 st e. r \<Longrightarrow> holdsAt sc n env f f1 st \<Longrightarrow> discardM calls env post st = Some (Inl e) \<Longrightarrow> ends F f1 pp (Inl e)"
      "\<And>f1 st st'. r \<Longrightarrow> holdsAt sc n env f f1 st \<Longrightarrow> discardM calls env post st = Some (Inr ((), st')) \<Longrightarrow>
         \<exists>f'. reaches F n f1 pp st' f' p0"
    and run: "holdsAt sc n env f f1 st" "execLoop calls k env c post b st = Some res"
  shows "flows F n f1 p0 pe (\<lambda>env' f'. env' = env) res"
proof (rule loop_flows [where R = r and pb = pb and pp = pp, OF _ _ _ post run])
  fix f1 st assume h: "holdsAt sc n env f f1 st"
  note code = holdsAt_code [OF h]
  have label: "reaches F n f1 p0 st f1 (pcOf l2)" unfolding t(3) using reaches_label [OF holdsAt_base [OF h]] t(2) code by blast
  have t1: "tests c l2 l3 bl en f1" using t(1) code by (auto simp: tests_def split: option.splits)
  have v2: "vars (lwScopes l2) (ctr l2) env f1" using holdsAt_vars [OF h t(6)] sc by simp
  note test = test_runs [OF F t1 _ _ t(4) _ v2 holdsAt_base [OF h], of pb pe]
  show "testM calls env c st = Some (Inl e) \<Longrightarrow> ends F f1 p0 (Inl e)" for e
    using reaches_ends [OF label] test(1) t(5) b(2) j(3) code holdsAt_codeIn [OF h] by simp
  show "\<exists>f'. reaches F n f1 p0 st' f' (if go then pb else pe)" if go: "testM calls env c st = Some (Inr (go, st'))" for go st'
  proof -
    obtain f' where "reaches F (ctr l2) f1 (pcOf l2) st' f' (if go then pb else pe)"
      using test(2) [OF _ _ _ go] t(5) b(2) j(3) code holdsAt_codeIn [OF h] by blast
    then show ?thesis using reaches_trans [OF label] t(6) by blast
  qed
  fix k res assume x: "execStmt calls k env b st = Some res"
  have v4: "vars (lwScopes l4) (ctr l4) env f1" using holdsAt_vars [OF h b(6)] sc by simp
  have "flows F (ctr l4) f1 (pcOf l4) pp (\<lambda>env' f'. r \<and> vars (lwScopes l5) (ctr l5) env' f') res"
    using branch_flows [OF m b(1,4) _ v4 holdsAt_base [OF h] x, of pl pp] b(5) holdsAt_codeIn [OF h] j code by blast
  then have "flows F (ctr l4) f1 pb pp (\<lambda>env' f'. r \<and> vars (lwScopes l5) (ctr l5) env' f') res"
    unfolding b(3) by (rule flows_after_label [OF _ holdsAt_base [OF h]]) (use b(2) code in blast)
  then have "flows F n f1 pb pp (\<lambda>env' f'. r \<and> vars (lwScopes l5) (ctr l5) env' f') res"
    by (rule flows_less [OF _ holdsAt_base [OF h] b(6)])
  then show "flows F n f1 pb pp (\<lambda>_ _. r) res" by (rule flows_post) blast
qed

lemma while_run:
  assumes "lowerWhileStatement tok c m l = Inr (r, l')"
  obtains cl bl en l2 cond l3 l4 r1 l5 where "emitted l l2 [jmpInst cl, labelInst cl]"
    "lowerCondition tok ''while condition'' c l2 = Inr (cond, l3)" "emitted l3 l4 [brInst cond bl en, labelInst bl]"
    "m l4 = Inr (r1, l5)" "emitted l5 l' ((if r1 then [jmpInst cl] else []) @ [labelInst en])" "r"
proof -
  obtain cl bl en la lb lc ld le l2 cond l3 l4 r1 l5 lf where e: "newLabel l = Inr (cl, la)" "newLabel la = Inr (bl, lb)"
    "newLabel lb = Inr (en, lc)" "execL (AddJmp cl) lc = Inr ((), ld)" "execL (AddLabel cl) ld = Inr ((), l2)"
    and c: "lowerCondition tok ''while condition'' c l2 = Inr (cond, l3)"
    and e': "execL (AddBr cond bl en) l3 = Inr ((), le)" "execL (AddLabel bl) le = Inr ((), l4)"
    and m: "m l4 = Inr (r1, l5)"
    and e'': "whenL r1 (execL (AddJmp cl)) l5 = Inr ((), lf)" "execL (AddLabel en) lf = Inr ((), l')" and r
    using assms by (clarsimp simp: lowerWhileStatement_def bindL_eq_Inr thenL_eq_Inr returnL_eq_Inr)
  have "emitted l l2 [jmpInst cl, labelInst cl]" using e by (simp add: emitting)
  moreover have "emitted l3 l4 [brInst cond bl en, labelInst bl]" using e' by (simp add: emitting)
  moreover have "emitted l5 l' ((if r1 then [jmpInst cl] else []) @ [labelInst en])" using e'' by (cases r1) (simp_all add: emitting)
  ultimately show ?thesis using that c m \<open>r\<close> by blast
qed

lemma quiet_while: "quiet m \<Longrightarrow> quiet (lowerWhileStatement tok c m)"
  unfolding lowerWhileStatement_def by (intro quiet_intros)

text \<open>The end of a loop: the names are those of its start.\<close>

lemma loop_ends:
  assumes "flows F n f pc pe (\<lambda>env' f'. env' = env) res" "vars sc n env f" "n \<le> n'" "codeAt f pe (labelInst en)"
  shows "flows F n f pc (Suc pe) (\<lambda>env' f'. vars sc n' env' f') res"
proof -
  have "flows F n f pc pe (\<lambda>env' f'. vars sc n' env' f') res"
    by (rule flows_post [OF assms(1)]) (use reaches_vars [OF _ assms(2,3)] in blast)
  then show ?thesis by (rule flows_to_label [OF _ assms(4)])
qed

lemma while_flows:
  assumes F: "answers F calls" and m: "\<And>k. simS F m (\<lambda>env. execStmt calls k env b)" "quiet m"
    and run: "lowerWhileStatement tok c m l = Inr (r, l')"
    and l: "okL l" "codeIn l' f" "vars (lwScopes l) (ctr l) env f" "base st f"
    and M: "execLoop calls k env (Some c) None b st = Some res"
  shows "flows F (ctr l) f (pcOf l) (pcOf l') (\<lambda>env' f'. r \<and> vars (lwScopes l') (ctr l') env' f') res"
  using run
proof (cases rule: while_run)
  case (1 cl bl en l2 cond l3 l4 r1 l5)
  have ok2: "okL l2" using emitted_okL [OF 1(1)] l(1) by blast
  have q3: "okL l3 \<and> lwScopes l3 = lwScopes l2 \<and> ctr l2 \<le> ctr l3 \<and> grows l2 l3" using quiet_body [OF quiet_condition 1(2) ok2] .
  then have ok4: "okL l4" using emitted_okL [OF 1(3)] by blast
  have q5: "okL l5 \<and> lwScopes l5 = lwScopes l4 \<and> ctr l4 \<le> ctr l5 \<and> grows l4 l5" using quiet_body [OF m(2) 1(4) ok4] .
  have c5: "codeIn l5 f" using codeIn_emitted l(2) 1(5) by blast
  have c4: "codeIn l4 f" using codeIn_grows c5 q5 by blast
  have c3: "codeIn l3 f" using codeIn_emitted c4 1(3) by blast
  have c2: "codeIn l2 f" using codeIn_grows c3 q3 by blast
  let ?pe = "pcOf l5 + length (if r1 then [jmpInst cl] else [])"
  have code: "codeAt f (pcOf l) (jmpInst cl)" "codeAt f (pcOf l + 1) (labelInst cl)" "codeAt f (pcOf l3) (brInst cond bl en)"
    "codeAt f (pcOf l3 + 1) (labelInst bl)" "r1 \<Longrightarrow> codeAt f (pcOf l5) (jmpInst cl)" "codeAt f ?pe (labelInst en)"
    using codeAt_emitted [OF c2, of l "[]"] codeAt_emitted [OF c2, of l "[jmpInst cl]"] 1(1)
      codeAt_emitted [OF c4, of l3 "[]"] codeAt_emitted [OF c4, of l3 "[brInst cond bl en]"] 1(3)
      codeAt_emitted [OF l(2), of l5 "[]"] codeAt_emitted [OF l(2), of l5 "if r1 then [jmpInst cl] else []"] 1(5) by auto
  have p: "pcOf l2 = Suc (pcOf l + 1)" "pcOf l4 = Suc (pcOf l3 + 1)" "pcOf l' = Suc ?pe" "lwScopes l2 = lwScopes l" "lwScopes l4 = lwScopes l3"
    "ctr l2 = ctr l" "ctr l4 = ctr l3" "lwScopes l' = lwScopes l5" "ctr l' = ctr l5"
    using 1(1,3,5) by (auto simp: emitted_def)
  have test: "tests (Some c) l2 l3 bl en f" using 1(2) code(3) by (auto simp: tests_def)
  have h: "holdsAt (lwScopes l) (ctr l) env f f st" using l(3,4) by (simp add: holdsAt_def agree_refl)
  have "flows F (ctr l) f (pcOf l + 1) ?pe (\<lambda>env' f'. env' = env) res"
    by (rule loop_code [where b = b and k = k and post = None and pp = "pcOf l + 1", OF F m(1) test code(2) p(1) ok2 c3 _ 1(4) code(4) p(2) ok4 c5 _ _ _
          code(5) code(2) code(6) _ _ h M])
      (use p q3 in \<open>auto simp: discardM_def intro!: exI reaches_refl holdsAt_base\<close>)
  then have "flows F (ctr l) f (pcOf l) ?pe (\<lambda>env' f'. env' = env) res"
    by (rule flows_before [OF reaches_jump [OF l(4) code(1,2)] _ order_refl])
  from loop_ends [OF this l(3) _ code(6), of "ctr l'"] show ?thesis
    using p q3 q5 1(6) by simp
qed

lemma simS_while:
  assumes F: "answers F calls" and m: "\<And>k. simS F m (\<lambda>env. execStmt calls k env b)" "quiet m"
  shows "simS F (lowerWhileStatement tok c m) (\<lambda>env. execLoop calls k env (Some c) None b)"
  by (rule simSI [OF quiet_tidy [OF quiet_while [OF m(2)]]]) (rule while_flows [OF F m])

text \<open>A \<open>for\<close> after its first part.\<close>

definition lowerForLoop :: "token \<Rightarrow> expr option \<Rightarrow> expr option \<Rightarrow> bool lower \<Rightarrow> bool lower" where
  "lowerForLoop tok c post body =
     bindL newLabel (\<lambda>condLabel. bindL newLabel (\<lambda>bodyLabel. bindL newLabel (\<lambda>postLabel. bindL newLabel (\<lambda>endLabel.
       thenL (execL (AddJmp condLabel))
       (thenL (execL (AddLabel condLabel))
       (thenL (case c of
                 None \<Rightarrow> execL (AddJmp bodyLabel)
               | Some e \<Rightarrow> bindL (lowerCondition tok ''for condition'' e) (\<lambda>cond. execL (AddBr cond bodyLabel endLabel)))
       (thenL (execL (AddLabel bodyLabel))
       (bindL body (\<lambda>bodyReachable.
         thenL (whenL bodyReachable (execL (AddJmp postLabel)))
         (thenL (execL (AddLabel postLabel))
         (thenL (case post of None \<Rightarrow> returnL ()
                 | Some e \<Rightarrow> whenL bodyReachable (bindL (lowerExpr e) (\<lambda>_. returnL ())))
         (thenL (whenL bodyReachable (execL (AddJmp condLabel)))
         (thenL (execL (AddLabel endLabel)) (returnL True))))))))))))))"

lemma bindL_assoc: "bindL (bindL m k) h = bindL m (\<lambda>x. bindL (k x) h)"
  by (auto simp: bindL_def fun_eq_iff bindE_def split: sum.splits)

lemma bindL_returnL [simp]: "bindL (returnL x) k = k x"
  by (simp add: bindL_def returnL_def)

lemma lowerFor_eq:
  "lowerForStatement tok i c post body =
     thenL (modifyL pushScope)
     (bindL (bindL (case i of None \<Rightarrow> returnL True | Some s \<Rightarrow> s) (\<lambda>r. if r then lowerForLoop tok c post body else returnL False))
       (\<lambda>r. thenL (modifyL popScope) (returnL r)))"
proof -
  have n: "(if \<not> b then x else y) = (if b then y else x)" for b and x y :: "bool lower" by simp
  have d: "bindL (if b then x else y) k = (if b then bindL x k else bindL y k)" for b and x y :: "bool lower" and k :: "bool \<Rightarrow> bool lower"
    by simp
  show ?thesis
    unfolding lowerForStatement_def lowerForLoop_def thenL_def bindL_assoc bindL_returnL n d ..
qed

lemma for_run:
  assumes "lowerForLoop tok c post m l = Inr (r, l')"
  obtains cl bl pl en l2 l3 l3' l4 r1 l5 l6 l7 where "emitted l l2 [jmpInst cl, labelInst cl]"
    "(case c of None \<Rightarrow> l3 = l2 \<and> emitted l3 l3' [jmpInst bl]
      | Some e \<Rightarrow> \<exists>cond. lowerCondition tok ''for condition'' e l2 = Inr (cond, l3) \<and> emitted l3 l3' [brInst cond bl en])"
    "emitted l3' l4 [labelInst bl]" "m l4 = Inr (r1, l5)" "emitted l5 l6 ((if r1 then [jmpInst pl] else []) @ [labelInst pl])"
    "(case post of None \<Rightarrow> l7 = l6 | Some e \<Rightarrow> if r1 then \<exists>v. lowerExpr e l6 = Inr (v, l7) else l7 = l6)"
    "emitted l7 l' ((if r1 then [jmpInst cl] else []) @ [labelInst en])" "r"
proof -
  obtain cl bl pl en la lb lc ld le l2 l3' l4 r1 l5 lf l6 l7 lg
    where e: "newLabel l = Inr (cl, la)" "newLabel la = Inr (bl, lb)"
    "newLabel lb = Inr (pl, lc)" "newLabel lc = Inr (en, ld)" "execL (AddJmp cl) ld = Inr ((), le)" "execL (AddLabel cl) le = Inr ((), l2)"
    and c: "(case c of None \<Rightarrow> execL (AddJmp bl)
        | Some e \<Rightarrow> bindL (lowerCondition tok ''for condition'' e) (\<lambda>cond. execL (AddBr cond bl en))) l2 = Inr ((), l3')"
    and e': "execL (AddLabel bl) l3' = Inr ((), l4)"
    and m: "m l4 = Inr (r1, l5)"
    and e'': "whenL r1 (execL (AddJmp pl)) l5 = Inr ((), lf)" "execL (AddLabel pl) lf = Inr ((), l6)"
    and p: "(case post of None \<Rightarrow> returnL () | Some e \<Rightarrow> whenL r1 (bindL (lowerExpr e) (\<lambda>_. returnL ()))) l6 = Inr ((), l7)"
    and e3: "whenL r1 (execL (AddJmp cl)) l7 = Inr ((), lg)" "execL (AddLabel en) lg = Inr ((), l')" and r
    using assms by (clarsimp simp: lowerForLoop_def bindL_eq_Inr [where m = newLabel] bindL_eq_Inr [where m = m] thenL_eq_Inr returnL_eq_Inr)
  have "emitted l l2 [jmpInst cl, labelInst cl]" using e by (simp add: emitting)
  moreover have "emitted l3' l4 [labelInst bl]" using e' by (simp add: emitting)
  moreover have "emitted l5 l6 ((if r1 then [jmpInst pl] else []) @ [labelInst pl])" using e'' by (cases r1) (simp_all add: emitting)
  moreover have "emitted l7 l' ((if r1 then [jmpInst cl] else []) @ [labelInst en])" using e3 by (cases r1) (simp_all add: emitting)
  moreover have "case post of None \<Rightarrow> l7 = l6 | Some e \<Rightarrow> if r1 then \<exists>v. lowerExpr e l6 = Inr (v, l7) else l7 = l6"
    using p by (auto simp: lower_simps split: option.splits if_splits)
  moreover have "\<exists>l3. case c of None \<Rightarrow> l3 = l2 \<and> emitted l3 l3' [jmpInst bl]
      | Some e \<Rightarrow> \<exists>cond. lowerCondition tok ''for condition'' e l2 = Inr (cond, l3) \<and> emitted l3 l3' [brInst cond bl en]"
    using c by (cases c) (fastforce simp: emitting)+
  ultimately show ?thesis using that m \<open>r\<close> by blast
qed

lemma quiet_for: "quiet m \<Longrightarrow> quiet (lowerForLoop tok c post m)"
  unfolding lowerForLoop_def by (intro quiet_intros) (auto intro!: quiet_intros simp: whenL_def split: option.split)

lemma discard_runs:
  assumes F: "answers F calls" and e: "case post of None \<Rightarrow> l' = l | Some e \<Rightarrow> \<exists>v. lowerExpr e l = Inr (v, l')"
    and l: "okL l" "codeIn l' f" "vars (lwScopes l) (ctr l) env f" "base st f"
  shows "discardM calls env post st = Some (Inl x) \<Longrightarrow> ends F f (pcOf l) (Inl x)"
    and "discardM calls env post st = Some (Inr ((), st')) \<Longrightarrow> \<exists>f'. reaches F (ctr l) f (pcOf l) st' f' (pcOf l')"
proof -
  have "(discardM calls env post st = Some (Inl x) \<longrightarrow> ends F f (pcOf l) (Inl x)) \<and>
    (discardM calls env post st = Some (Inr ((), st')) \<longrightarrow> (\<exists>f'. reaches F (ctr l) f (pcOf l) st' f' (pcOf l')))"
  proof (cases post)
    case None
    then show ?thesis using e reaches_refl [OF l(4)] by (auto simp: discardM_def)
  next
    case (Some y)
    then obtain v where v: "lowerExpr y l = Inr (v, l')" using e by auto
    note sim = sim_expr(1) [OF F lasting_const [where c = True], of env y]
    show ?thesis
      using Some simD_error [OF sim v l TrueI] simD_value [OF sim v l TrueI] by (auto simp: discardM_def bindM_eq) metis
  qed
  then show "discardM calls env post st = Some (Inl x) \<Longrightarrow> ends F f (pcOf l) (Inl x)"
    and "discardM calls env post st = Some (Inr ((), st')) \<Longrightarrow> \<exists>f'. reaches F (ctr l) f (pcOf l) st' f' (pcOf l')"
    by blast+
qed

lemma for_flows:
  assumes F: "answers F calls" and m: "\<And>k. simS F m (\<lambda>env. execStmt calls k env b)" "quiet m"
    and run: "lowerForLoop tok c post m l = Inr (r, l')"
    and l: "okL l" "codeIn l' f" "vars (lwScopes l) (ctr l) env f" "base st f"
    and M: "execLoop calls k env c post b st = Some res"
  shows "flows F (ctr l) f (pcOf l) (pcOf l') (\<lambda>env' f'. r \<and> vars (lwScopes l') (ctr l') env' f') res"
  using run
proof (cases rule: for_run)
  case (1 cl bl pl en l2 l3 l3' l4 r1 l5 l6 l7)
  have ok2: "okL l2" using emitted_okL [OF 1(1)] l(1) by blast
  have q3: "okL l3 \<and> lwScopes l3 = lwScopes l2 \<and> ctr l2 \<le> ctr l3 \<and> grows l2 l3"
    using 1(2) ok2 quiet_body [OF quiet_condition _ ok2] by (auto simp: grows_refl split: option.splits)
  have e3: "emitted l3 l3' [last (codeOf l3')]" using 1(2) by (auto simp: emitted_def split: option.splits)
  have ok4: "okL l4" using q3 emitted_okL [OF 1(3)] emitted_okL [OF e3] by blast
  have q5: "okL l5 \<and> lwScopes l5 = lwScopes l4 \<and> ctr l4 \<le> ctr l5 \<and> grows l4 l5" using quiet_body [OF m(2) 1(4) ok4] .
  then have ok6: "okL l6" using emitted_okL [OF 1(5)] by blast
  have q7: "okL l7 \<and> lwScopes l7 = lwScopes l6 \<and> ctr l6 \<le> ctr l7 \<and> grows l6 l7"
    using 1(6) ok6 quiet_body [OF quiet_lowerExpr _ ok6] by (auto simp: grows_refl split: option.splits if_splits)
  have c7: "codeIn l7 f" using codeIn_emitted l(2) 1(7) by blast
  have c6: "codeIn l6 f" using codeIn_grows c7 q7 by blast
  have c5: "codeIn l5 f" using codeIn_emitted c6 1(5) by blast
  have c4: "codeIn l4 f" using codeIn_grows c5 q5 by blast
  have c3': "codeIn l3' f" using codeIn_emitted c4 1(3) by blast
  have c3: "codeIn l3 f" using codeIn_emitted c3' e3 by blast
  have c2: "codeIn l2 f" using codeIn_grows c3 q3 by blast
  let ?pp = "pcOf l5 + length (if r1 then [jmpInst pl] else [])"
  let ?pe = "pcOf l7 + length (if r1 then [jmpInst cl] else [])"
  have code: "codeAt f (pcOf l) (jmpInst cl)" "codeAt f (pcOf l + 1) (labelInst cl)" "codeAt f (pcOf l3') (labelInst bl)"
    "r1 \<Longrightarrow> codeAt f (pcOf l5) (jmpInst pl)" "codeAt f ?pp (labelInst pl)"
    "r1 \<Longrightarrow> codeAt f (pcOf l7) (jmpInst cl)" "codeAt f ?pe (labelInst en)"
    using codeAt_emitted [OF c2, of l "[]"] codeAt_emitted [OF c2, of l "[jmpInst cl]"] 1(1)
      codeAt_emitted [OF c4, of l3' "[]"] 1(3)
      codeAt_emitted [OF c6, of l5 "[]"] codeAt_emitted [OF c6, of l5 "if r1 then [jmpInst pl] else []"] 1(5)
      codeAt_emitted [OF l(2), of l7 "[]"] codeAt_emitted [OF l(2), of l7 "if r1 then [jmpInst cl] else []"] 1(7) by auto
  have p: "pcOf l2 = Suc (pcOf l + 1)" "pcOf l4 = Suc (pcOf l3')" "pcOf l6 = Suc ?pp" "pcOf l' = Suc ?pe" "lwScopes l2 = lwScopes l"
    "lwScopes l4 = lwScopes l3" "lwScopes l6 = lwScopes l5" "lwScopes l' = lwScopes l7" "ctr l2 = ctr l" "ctr l4 = ctr l3" "ctr l6 = ctr l5" "ctr l' = ctr l7"
    using 1(1,3,5,7) e3 by (auto simp: emitted_def)
  have test: "tests c l2 l3 bl en f"
    using 1(2) codeAt_emitted [OF c3', of l3 "[]" _ "[]"] by (fastforce simp: tests_def split: option.splits)
  have h: "holdsAt (lwScopes l) (ctr l) env f f st" using l(3,4) by (simp add: holdsAt_def agree_refl)
  have post: "case post of None \<Rightarrow> l7 = l6 | Some e \<Rightarrow> \<exists>v. lowerExpr e l6 = Inr (v, l7)" if r: "r1"
    using 1(6) r by (auto split: option.splits)
  have again: "(discardM calls env post st = Some (Inl x) \<longrightarrow> ends F f1 ?pp (Inl x)) \<and>
      (discardM calls env post st = Some (Inr ((), st')) \<longrightarrow> (\<exists>f'. reaches F (ctr l) f1 ?pp st' f' (pcOf l + 1)))"
    if r: "r1" and h: "holdsAt (lwScopes l) (ctr l) env f f1 st" for f1 st x st'
  proof -
    note c = holdsAt_code [OF h] and b = holdsAt_base [OF h]
    have label: "reaches F (ctr l) f1 ?pp st f1 (pcOf l6)" unfolding p(3) using reaches_label [OF b] code(5) c by blast
    have v: "vars (lwScopes l6) (ctr l6) env f1" using holdsAt_vars [OF h, of "ctr l6"] p q3 q5 by simp
    note d = discard_runs [OF F post [OF r] ok6 _ v b]
    have "\<exists>f'. reaches F (ctr l) f1 ?pp st' f' (pcOf l + 1)" if x: "discardM calls env post st = Some (Inr ((), st'))"
    proof -
      obtain f' where "reaches F (ctr l6) f1 (pcOf l6) st' f' (pcOf l7)" using d(2) [OF _ x] c7 holdsAt_codeIn [OF h] by blast
      then have f': "reaches F (ctr l) f1 ?pp st' f' (pcOf l7)" using reaches_trans [OF label] p q3 q5 by simp
      have "reaches F (ctr l) f' (pcOf l7) st' f' (pcOf l + 1)"
        using reaches_jump [OF reaches_base [OF f']] code(2) code(6) [OF r] c codeAt_reaches [OF f'] by blast
      then show ?thesis using reaches_trans [OF f'] by blast
    qed
    then show ?thesis using d(1) c7 holdsAt_codeIn [OF h] reaches_ends [OF label] by blast
  qed
  have "flows F (ctr l) f (pcOf l + 1) ?pe (\<lambda>env' f'. env' = env) res"
    by (rule loop_code [where b = b and k = k and post = post and pp = ?pp, OF F m(1) test code(2) p(1) ok2 c3 _ 1(4) code(3) p(2) ok4 c5 _ _ _
          code(4) code(5) code(7) _ _ h M])
      (use p q3 again in auto)
  then have "flows F (ctr l) f (pcOf l) ?pe (\<lambda>env' f'. env' = env) res"
    by (rule flows_before [OF reaches_jump [OF l(4) code(1,2)] _ order_refl])
  from loop_ends [OF this l(3) _ code(7), of "ctr l'"] show ?thesis
    using p q3 q5 q7 1(8) by simp
qed

lemma simS_for:
  assumes F: "answers F calls" and m: "\<And>k. simS F m (\<lambda>env. execStmt calls k env b)" "quiet m"
  shows "simS F (lowerForLoop tok c post m) (\<lambda>env. execLoop calls k env c post b)"
  by (rule simSI [OF quiet_tidy [OF quiet_for [OF m(2)]]]) (rule for_flows [OF F m])

section \<open>All statements\<close>

text \<open>
  \<open>scopedStmt s\<close>: no declaration is itself a branch or the body of a loop. The parser accepts such a declaration, and
  lowering then puts its name into the scope around the branch.
\<close>

fun isDeclaration :: "stmt \<Rightarrow> bool" where
  "isDeclaration (DeclarationStatement tok decl) \<longleftrightarrow> True"
| "isDeclaration _ \<longleftrightarrow> False"

fun scopedStmt :: "stmt \<Rightarrow> bool" and scopedStmts :: "stmt list \<Rightarrow> bool" where
  "scopedStmt (BlockStatement tok ss) \<longleftrightarrow> scopedStmts ss"
| "scopedStmt (DeclarationStatement tok decl) \<longleftrightarrow> True"
| "scopedStmt (ExpressionStatement tok eo) \<longleftrightarrow> True"
| "scopedStmt (ReturnStatement tok eo) \<longleftrightarrow> True"
| "scopedStmt (IfStatement tok c t eo) \<longleftrightarrow> scopedStmt t \<and> \<not> isDeclaration t
     \<and> (case eo of None \<Rightarrow> True | Some s \<Rightarrow> scopedStmt s \<and> \<not> isDeclaration s)"
| "scopedStmt (WhileStatement tok c body) \<longleftrightarrow> scopedStmt body \<and> \<not> isDeclaration body"
| "scopedStmt (ForStatement tok init' c post body) \<longleftrightarrow>
     (case init' of None \<Rightarrow> True | Some s \<Rightarrow> scopedStmt s) \<and> scopedStmt body \<and> \<not> isDeclaration body"
| "scopedStmts [] \<longleftrightarrow> True"
| "scopedStmts (s # ss) \<longleftrightarrow> scopedStmt s \<and> scopedStmts ss"

lemma simS_skip: "simS F (returnL True) (\<lambda>env. returnM (Continues env))"
  by (rule simSI [OF quiet_tidy [OF quiet_return]]) (auto simp: lower_simps intro!: reaches_refl)

lemma quiet_return_stmt: "quiet (lowerReturn tok eo)"
  unfolding lowerReturn_def by (cases eo) (auto intro!: quiet_intros)

lemma simS_expression:
  assumes "answers F calls"
  shows "quiet (lowerStatement (ExpressionStatement tok eo))"
    and "simS F (lowerStatement (ExpressionStatement tok eo)) (\<lambda>env. execStmt calls k env (ExpressionStatement tok eo))"
proof -
  show "quiet (lowerStatement (ExpressionStatement tok eo))" by (cases eo) (auto intro!: quiet_intros)
  show "simS F (lowerStatement (ExpressionStatement tok eo)) (\<lambda>env. execStmt calls k env (ExpressionStatement tok eo))"
  proof (cases eo)
    case None
    then show ?thesis using simS_skip by (simp add: discardM_def)
  next
    case (Some e)
    have "simS F (bindL (lowerExpr e) (\<lambda>_. returnL True)) (\<lambda>env. bindM (evalExpr calls env e) (\<lambda>_. returnM (Continues env)))"
      by (rule simS_discard) (rule sim_expr(1) [OF assms lasting_const])
    then show ?thesis using Some by (simp add: discardM_def bindM_assoc)
  qed
qed

lemma flow_eq: "(case fl of Returns v \<Rightarrow> returnM (Returns v) | Continues env' \<Rightarrow> returnM (Continues env')) = returnM fl"
  by (cases fl) simp_all

lemma sim_statement:
  assumes F: "answers F calls"
  shows "scopedStmt s \<Longrightarrow> (\<forall>k. simS F (lowerStatement s) (\<lambda>env. execStmt calls k env s)) \<and> (\<not> isDeclaration s \<longrightarrow> quiet (lowerStatement s))"
    and "scopedStmts ss \<Longrightarrow> \<forall>k. simS F (lowerBlockStatements ss) (\<lambda>env. execBlock calls k env ss)"
proof (induction s and ss rule: lowerStatement_lowerBlockStatements.induct)
  case (1 tok stmts)
  then show ?case using simS_scoped by auto
next
  case (2 tok decl)
  then show ?case using simS_declaration [OF F] by simp
next
  case (3 tok eo)
  show ?case using simS_expression [OF F] by blast
next
  case (4 tok eo)
  show ?case using simS_return [OF F] quiet_return_stmt by simp
next
  case (5 tok c t eo)
  show ?case
  proof (cases eo)
    case None
    from None 5 have t: "simS F (lowerStatement t) (\<lambda>env. execStmt calls k env t)" "quiet (lowerStatement t)" for k by auto
    show ?thesis
      unfolding None lowerStatement.simps execStmt.simps option.case using simS_if [OF F t] quiet_if [OF t(2), of None] by simp
  next
    case (Some e)
    then show ?thesis using 5 simS_if_else [OF F] quiet_if [where eo = "Some (lowerStatement e)"] by auto
  qed
next
  case (6 tok c body)
  then show ?case using simS_while [OF F, of "lowerStatement body" body] quiet_while by auto
next
  case (7 tok i c post body)
  let ?init = "case i of None \<Rightarrow> returnL True | Some s \<Rightarrow> lowerStatement s"
  let ?initM = "\<lambda>k env. case i of None \<Rightarrow> returnM (Continues env) | Some s \<Rightarrow> execStmt calls k env s"
  have init: "simS F ?init (?initM k)" for k using 7 simS_skip by (cases i) auto
  have body: "\<And>k. simS F (lowerStatement body) (\<lambda>env. execStmt calls k env body)" "quiet (lowerStatement body)" using 7 by auto
  note seq = simS_seq [OF init simS_for [OF F body]]
  have eq: "(case (case i of None \<Rightarrow> None | Some s \<Rightarrow> Some (lowerStatement s)) of None \<Rightarrow> returnL True | Some s \<Rightarrow> s) = ?init"
    by (cases i) simp_all
  have X: "bindM (bindM (?initM k env) (\<lambda>fl. case fl of Returns v \<Rightarrow> returnM (Returns v)
        | Continues env' \<Rightarrow> execLoop calls k env' c post body)) (\<lambda>fl. returnM (leaving env fl))
      = execStmt calls k env (ForStatement tok i c post body)" for k env
    unfolding bindM_assoc execStmt.simps by (rule arg_cong [where f = "bindM _"], rule ext) (simp split: flow.split)
  show ?case
    unfolding lowerStatement.simps lowerFor_eq eq X [symmetric] using simS_scoped [OF seq] by blast
next
  case 8
  then show ?case using simS_skip by simp
next
  case (9 s ss)
  then show ?case using simS_seq by auto
qed

end
