(* ===== verification/SimulationTop.thy ===== *)
theory SimulationTop
  imports Examples SimulationFlow
begin

text \<open>
  Lowering preserves the meaning of a translation unit: parameters, bodies, calls between functions, and
  \<open>EvaluateFunction\<close> on the lowered module against the reference interpreter on the tree.
\<close>

section \<open>Parameters\<close>

text \<open>
  \<open>plainName\<close>: a word that is not spelled like a temporary or a slot without its sign. The code does not keep the two apart: the
  slot of a parameter called \<open>s1\<close> has the name of the parameter.
\<close>

definition plainName :: "string \<Rightarrow> bool" where
  "plainName s \<longleftrightarrow> isWord s \<and> \<not> (tl s \<noteq> [] \<and> hd s \<in> {CHR ''t'', CHR ''s''} \<and> list_all isDigit (tl s))"

lemma plain_not_fresh:
  assumes "plainName s"
  shows "\<not> freshName n (CHR ''%'' # s)"
proof
  assume "freshName n (CHR ''%'' # s)"
  then obtain k where "s = CHR ''t'' # itoa (int k) \<or> s = CHR ''s'' # itoa (int k)"
    by (auto simp: freshName_def tempName_def slotName_def)
  moreover have "itoa (int k) \<noteq> [] \<and> list_all isDigit (itoa (int k))"
    using itoaNat_digits by (auto simp: itoa_def list_all_iff)
  ultimately show False using assms by (auto simp: plainName_def)
qed

lemma plain_resolve:
  assumes "plainName s" "frValues f (CHR ''%'' # s) = Some v"
  shows "resolveValue f (CHR ''%'' # s) = Inr v"
proof -
  have "isWord (CHR ''%'' # s)" using assms(1) by (auto simp: plainName_def isWord_def wordChar_def inkChar_def)
  then have "trimSpace (CHR ''%'' # s) = CHR ''%'' # s" by (intro trimSpace_tight isWord_tight)
  then show ?thesis using assms(2) by (simp add: resolveValue_def)
qed

lemma parameter_run:
  assumes "lowerParameters (p # ps) l = Inr ((), l')" "okL l"
  obtains t l1 where "currentScope l (fpName p) = None" "okL l1" "lowerParameters ps l1 = Inr ((), l')"
    "lwScopes l1 = (currentScope l)(fpName p \<mapsto> \<lparr>symType = t, symSlot = slotName (Suc (ctr l))\<rparr>) # tl (lwScopes l)"
    "codeOf l1 = codeOf l @ [opInst (StackSlotPointer (slotName (Suc (ctr l)))) OpcodeAlloca [Immediate t],
       voidInst OpcodeStore [StackSlotPointer (slotName (Suc (ctr l))), Param (CHR ''%'' # fpName p)]]"
    "ctr l1 = Suc (Suc (ctr l))" "lwFunctions l1 = lwFunctions l"
    "parameters (lwFn l1) = parameters (lwFn l) @ [\<lparr>paramName = CHR ''%'' # fpName p, paramType = t\<rparr>]"
proof -
  obtain t l2 l3 slot l4 l5 where t: "lowerObjectType (fpToken p) (fpType p) = Inr t"
    and d: "declareLocal (fpToken p) (fpName p) t l = Inr ((), l2)"
    and e: "execL (\<lambda>f. f\<lparr>parameters := parameters f @ [\<lparr>paramName = CHR ''%'' # fpName p, paramType = t\<rparr>]\<rparr>) l2 = Inr ((), l3)"
    and a: "emitL (AddInstruction OpcodeAlloca [Immediate t]) l3 = Inr (slot, l4)"
    and s: "execL (AddVoidInstruction OpcodeStore [slot, Param (CHR ''%'' # fpName p)]) (setLocalSlot (fpName p) (opText slot) l4) = Inr ((), l5)"
    and r: "lowerParameters ps l5 = Inr ((), l')"
    using assms(1)
    by (auto simp: thenL_eq_Inr liftE_eq_Inr bindL_eq_Inr [where m = "liftE m" for m] bindL_eq_Inr [where m = "emitL m" for m] modifyL_eq_Inr)
  have nv: "t \<noteq> ''void''" using t by (auto simp: lowerObjectType_def Let_def split: if_splits)
  have fn: "lwFn l2 = lwFn l" using d by (auto simp: declareLocal_def setCurrentScope_def split: if_splits)
  have l3: "lwScopes l3 = lwScopes l2" "lwFunctions l3 = lwFunctions l2" "ctr l3 = ctr l" "codeOf l3 = codeOf l"
    "parameters (lwFn l3) = parameters (lwFn l) @ [\<lparr>paramName = CHR ''%'' # fpName p, paramType = t\<rparr>]"
    using e fn by (auto simp: lower_simps)
  note run = declared_run [OF assms(2) nv d l3(1,2) a]
  have l5: "l5 = (setLocalSlot (fpName p) (opText slot) l4)\<lparr>lwFn :=
      AddVoidInstruction OpcodeStore [slot, Param (CHR ''%'' # fpName p)] (lwFn (setLocalSlot (fpName p) (opText slot) l4))\<rparr>"
    using s by (simp add: lower_simps)
  show ?thesis
  proof
    show "currentScope l (fpName p) = None" "lowerParameters ps l5 = Inr ((), l')" by fact+
    show "okL l5" using run(4) by (simp add: l5 okL_def)
    show "lwScopes l5 = (currentScope l)(fpName p \<mapsto> \<lparr>symType = t, symSlot = slotName (Suc (ctr l))\<rparr>) # tl (lwScopes l)"
      "lwFunctions l5 = lwFunctions l" using run(3,6) l3 by (simp_all add: l5)
    show "codeOf l5 = codeOf l @ [opInst (StackSlotPointer (slotName (Suc (ctr l)))) OpcodeAlloca [Immediate t],
       voidInst OpcodeStore [StackSlotPointer (slotName (Suc (ctr l))), Param (CHR ''%'' # fpName p)]]"
      "ctr l5 = Suc (Suc (ctr l))"
      "parameters (lwFn l5) = parameters (lwFn l) @ [\<lparr>paramName = CHR ''%'' # fpName p, paramType = t\<rparr>]"
      using run(5) l3 by (simp_all add: l5 run(1) emit_next)
  qed
qed

text \<open>What the parameters leave: one instruction pair each, one name each in the innermost scope.\<close>

lemma parameters_static:
  "lowerParameters ps l = Inr ((), l') \<Longrightarrow> okL l \<Longrightarrow>
     okL l' \<and> prefix (codeOf l) (codeOf l') \<and> ctr l \<le> ctr l' \<and> lwFunctions l' = lwFunctions l
     \<and> map paramName (parameters (lwFn l')) = map paramName (parameters (lwFn l)) @ map (\<lambda>p. CHR ''%'' # fpName p) ps
     \<and> distinct (map fpName ps) \<and> (\<forall>p \<in> set ps. currentScope l (fpName p) = None)"
proof (induction ps arbitrary: l)
  case Nil
  then show ?case by (simp add: lower_simps)
next
  case (Cons p ps)
  from Cons.prems show ?case
  proof (cases rule: parameter_run)
    case (1 t l1)
    have "prefix (codeOf l) (codeOf l1)" using 1(5) by simp
    moreover have "currentScope l1 = (currentScope l)(fpName p \<mapsto> \<lparr>symType = t, symSlot = slotName (Suc (ctr l))\<rparr>)"
      using 1(4) by (simp add: currentScope_def)
    ultimately show ?thesis
      using Cons.IH [OF 1(3,2)] 1 by (auto intro: append_prefixD split: if_splits)
  qed
qed

lemma parameters_run:
  assumes "lowerParameters ps l = Inr ((), l')" "okL l" "codeIn l' f" "vars (lwScopes l) (ctr l) env f" "base st f"
    "length args = length ps" "\<forall>(p, v) \<in> set (zip ps args). plainName (fpName p) \<and> frValues f (CHR ''%'' # fpName p) = Some v"
  shows "\<exists>env' st' f'. bindParams ps args env st = Some (Inr (env', st')) \<and> reaches F (ctr l) f (pcOf l) st' f' (pcOf l')
    \<and> vars (lwScopes l') (ctr l') env' f'"
  using assms
proof (induction ps arbitrary: l f env st args)
  case Nil
  then show ?case by (auto simp: lower_simps intro: reaches_refl)
next
  case (Cons p ps)
  obtain v vs where args: "args = v # vs" "length vs = length ps" using Cons.prems(6) by (cases args) auto
  have v: "plainName (fpName p)" "frValues f (CHR ''%'' # fpName p) = Some v" using Cons.prems(7) by (auto simp: args)
  from Cons.prems(1,2) show ?case
  proof (cases rule: parameter_run)
    case (1 t l1)
    let ?slot = "slotName (Suc (ctr l))"
    let ?i = "voidInst OpcodeStore [StackSlotPointer ?slot, Param (CHR ''%'' # fpName p)]"
    have c1: "codeIn l1 f"
      using Cons.prems(3) parameters_static [OF 1(3,2)] unfolding codeIn_def by (auto intro: prefix_order.trans)
    have code: "codeAt f (pcOf l) (opInst (StackSlotPointer ?slot) OpcodeAlloca [Immediate t])" "codeAt f (Suc (pcOf l)) ?i"
      using c1 1(5) by (auto simp: codeIn_def codeAt_def instAt_def prefix_def nth_append)
    obtain a st1 where a: "allocM st = Some (Inr (a, st1))" by (simp add: allocM_def)
    obtain f1 where f1: "reaches F (ctr l) f (pcOf l) st1 f1 (Suc (pcOf l))" "frValues f1 ?slot = Some (ValuePtr a)"
      using alloca_runs [OF code(1) Cons.prems(5) a] .
    let ?f2 = "storeCell f1 a v" and ?st2 = "st1\<lparr>stMem := (stMem st1)(a \<mapsto> v)\<rparr>" and ?env = "env(fpName p \<mapsto> a)"
    have v1: "frValues f1 (CHR ''%'' # fpName p) = Some v"
      using f1(1) v plain_not_fresh by (simp add: reaches_def agree_def)
    have slot: "resolvePtr f1 ?slot = Inr a"
      using resolve_kinds(2) [of "StackSlotPointer ?slot" "ValuePtr a" "Suc (Suc (ctr l))" f1] f1(2)
      by (simp add: holds_def asAddress_def)
    have "evalSimpleOp f1 ?i = Inr (None, ?f2)"
      using slot plain_resolve [OF v(1) v1] by (simp add: evalSimpleOp_store operand_defs)
    then have "leads F f1 (Suc (pcOf l)) ?f2 (pcOf l1)"
      using run_simple_none [of f1 "Suc (pcOf l)" ?i] code(2) codeAt_reaches [OF f1(1)] 1(5) by simp
    then have "reaches F (ctr l) f1 (Suc (pcOf l)) ?st2 ?f2 (pcOf l1)"
      using base_store [OF reaches_base [OF f1(1)]] by (simp add: reaches_def agree_def storeCell_def)
    then have f2: "reaches F (ctr l) f (pcOf l) ?st2 ?f2 (pcOf l1)" using reaches_trans [OF f1(1)] by blast
    have v2: "vars (lwScopes l1) (ctr l1) ?env ?f2"
      unfolding 1(4,6) currentScope_def
      by (rule vars_declare [OF Cons.prems(4)]) (use f1(2) f2 Cons.prems(2) in \<open>auto simp: reaches_def okL_def storeCell_def\<close>)
    have rest: "\<forall>(p, v) \<in> set (zip ps vs). plainName (fpName p) \<and> frValues ?f2 (CHR ''%'' # fpName p) = Some v"
      using Cons.prems(7) f2 plain_not_fresh by (fastforce simp: args reaches_def agree_def)
    obtain env' st' f' where ih: "bindParams ps vs ?env ?st2 = Some (Inr (env', st'))"
      "reaches F (ctr l1) ?f2 (pcOf l1) st' f' (pcOf l')" "vars (lwScopes l') (ctr l') env' f'"
      using Cons.IH [OF 1(3,2) _ v2 reaches_base [OF f2] args(2) rest] Cons.prems(3) codeIn_reaches [OF f2] by blast
    have "bindParams (p # ps) args env st = Some (Inr (env', st'))"
      using a ih(1) by (simp add: args bindM_def storeM_def)
    moreover have "reaches F (ctr l) f (pcOf l) st' f' (pcOf l')"
      using reaches_trans [OF f2 ih(2)] 1(6) by simp
    ultimately show ?thesis using ih(3) by blast
  qed
qed

section \<open>Functions\<close>

lemma newFrame_values:
  fixes m0 :: "string \<rightharpoonup> runtimeValue" and ps :: "parameter list"
  shows "distinct (map paramName ps) \<Longrightarrow> length args = length ps \<Longrightarrow> (p, v) \<in> set (zip ps args) \<Longrightarrow>
     foldl (\<lambda>m (p, v). m(paramName p \<mapsto> v)) m0 (zip ps args) (paramName p) = Some v"
    and "n \<notin> set (map paramName ps) \<Longrightarrow> foldl (\<lambda>m (p, v). m(paramName p \<mapsto> v)) m0 (zip ps args) n = m0 n"
proof -
  have other: "n \<notin> set (map paramName ps) \<Longrightarrow> foldl (\<lambda>m (p, v). m(paramName p \<mapsto> v)) m0 (zip ps args) n = m0 n" for n args and ps :: "parameter list" and m0 :: "string \<rightharpoonup> runtimeValue"
    by (induction ps args arbitrary: m0 rule: list_induct2') auto
  then show "n \<notin> set (map paramName ps) \<Longrightarrow> foldl (\<lambda>m (p, v). m(paramName p \<mapsto> v)) m0 (zip ps args) n = m0 n" .
  show "distinct (map paramName ps) \<Longrightarrow> length args = length ps \<Longrightarrow> (p, v) \<in> set (zip ps args) \<Longrightarrow>
     foldl (\<lambda>m (p, v). m(paramName p \<mapsto> v)) m0 (zip ps args) (paramName p) = Some v"
    by (induction ps args arbitrary: m0 rule: list_induct2') (auto simp: other)
qed

lemma newFrame_base:
  assumes "distinct (labelsOf (instructions fn))" "''0'' \<notin> set (map paramName (parameters fn))"
  shows "base \<lparr>stMem = Map.empty, stNext = 0\<rparr> (newFrame fn args)"
  using assms newFrame_values(2) [OF assms(2), of Map.empty args] by (simp add: base_def newFrame_def loadCell_def)

lemma body_run:
  assumes "lowerBody pfn l = Inr ((), l')"
  obtains l1 l2 r l3 where "lowerParameters (fdParameters pfn) (pushScope l) = Inr ((), l1)"
    "lowerBlockStatements (fdBodyStatements pfn) l1 = Inr (r, l2)"
    "emitted l2 l3 (if r then [retInst zeroOperand] else [])" "lwFn l' = lwFn l3"
proof -
  obtain l1 l2 r l3 where "lowerParameters (fdParameters pfn) (pushScope l) = Inr ((), l1)"
    "lowerBlockStatements (fdBodyStatements pfn) l1 = Inr (r, l2)"
    and w: "whenL r (if tnSpecifier (fdReturnType pfn) = TypeSpecifierVoid then execL (AddRet zeroOperand)
          else failL (newError (fdToken pfn) (MsgMayReachEnd (fdName pfn)))) l2 = Inr ((), l3)" and "l' = popScope l3"
    using assms by (auto simp: lowerBody_def thenL_eq_Inr modifyL_eq_Inr bindL_eq_Inr [where m = "lowerBlockStatements s" for s])
  moreover have "emitted l2 l3 (if r then [retInst zeroOperand] else [])"
    using w by (auto simp: emitted_def lower_simps AddRet_def emit_def split: if_splits)
  ultimately show ?thesis using that by (simp add: popScope_def)
qed

text \<open>A unit in which the parameters have plain names and no declaration is itself a branch or the body of a loop.\<close>

definition regularFunction :: "functionDefinition \<Rightarrow> bool" where
  "regularFunction pfn \<longleftrightarrow> list_all (\<lambda>p. plainName (fpName p)) (fdParameters pfn) \<and> scopedStmts (fdBodyStatements pfn)"

lemma tidy_block: "scopedStmts ss \<Longrightarrow> tidy (lowerBlockStatements ss)"
  using sim_statement(2) [of Map.empty "\<lambda>_ _. None" ss] by (auto simp: answers_def dest: simS_tidy)

lemma initial_okL: "okSignatures functions \<Longrightarrow> okL (pushScope (initialLowerer name t functions))"
  by (simp add: okL_def pushScope_def initialLowerer_def okScope_def)

lemma function_parameters:
  assumes "lowerFunction pfn functions = Inr fn" "okSignatures functions" "scopedStmts (fdBodyStatements pfn)"
  shows "map paramName (parameters fn) = map (\<lambda>p. CHR ''%'' # fpName p) (fdParameters pfn)" "distinct (map paramName (parameters fn))"
proof -
  obtain l' where body: "lowerBody pfn (initialLowerer (fdName pfn) (lowerType (fdReturnType pfn)) functions) = Inr ((), l')"
    and fn: "fn = lwFn l'"
    using assms(1) by (auto simp: lowerFunction_def Let_def bindE_eq_Inr split: if_splits)
  have "map paramName (parameters fn) = map (\<lambda>p. CHR ''%'' # fpName p) (fdParameters pfn) \<and> distinct (map paramName (parameters fn))"
    using body
  proof (cases rule: body_run)
    case (1 l1 l2 r l3)
    note static = parameters_static [OF 1(1) initial_okL [OF assms(2)]]
    have "grows l1 l2" using tidyD [OF tidy_block [OF assms(3)] 1(2)] static by blast
    then show ?thesis
      using static 1(3,4) fn by (auto simp: grows_def emitted_def pushScope_def initialLowerer_def distinct_map inj_on_def)
  qed
  then show "map paramName (parameters fn) = map (\<lambda>p. CHR ''%'' # fpName p) (fdParameters pfn)" "distinct (map paramName (parameters fn))"
    by blast+
qed

text \<open>The name, the parameters and the instructions are all that a run depends on.\<close>

definition sameCode :: "tacFunction \<Rightarrow> tacFunction \<Rightarrow> bool" where
  "sameCode f g \<longleftrightarrow> fnName g = fnName f \<and> parameters g = parameters f \<and> instructions g = instructions f"

lemma sameCode_refl: "list_all2 sameCode fs fs"
  by (rule list_all2_refl) (simp add: sameCode_def)

lemma function_ends:
  assumes F: "answers F calls" and low: "lowerFunction pfn functions = Inr fn" "okSignatures functions" "regularFunction pfn"
    and same: "sameCode fn fn'"
    and args: "length args = length (fdParameters pfn)"
    and run: "callBody calls n pfn args \<lparr>stMem = Map.empty, stNext = 0\<rparr> = Some r"
  shows "ends F (newFrame fn' args) 0 (map_sum id fst r)"
proof -
  let ?l = "initialLowerer (fdName pfn) (lowerType (fdReturnType pfn)) functions"
  let ?f = "newFrame fn' args" and ?st = "\<lparr>stMem = Map.empty, stNext = 0\<rparr>"
  obtain l' where body: "lowerBody pfn ?l = Inr ((), l')" and fn: "fn = lwFn l'"
    using low(1) by (auto simp: lowerFunction_def Let_def bindE_eq_Inr split: if_splits)
  from body show ?thesis
  proof (cases rule: body_run)
    case (1 l1 l2 r' l3)
    note ok0 = initial_okL [OF low(2), of "fdName pfn" "lowerType (fdReturnType pfn)"]
    note static = parameters_static [OF 1(1) ok0]
    note params = function_parameters(1) [OF low(1,2)] and distinct = function_parameters(2) [OF low(1,2)]
    note params = params [OF low(3) [unfolded regularFunction_def, THEN conjunct2]]
      and distinct = distinct [OF low(3) [unfolded regularFunction_def, THEN conjunct2]]
    have block: "simS F (lowerBlockStatements (fdBodyStatements pfn)) (\<lambda>env. execBlock calls n env (fdBodyStatements pfn))"
      using sim_statement(2) [OF F] low(3) by (simp add: regularFunction_def)
    note t = tidyD [OF simS_tidy [OF block] 1(2)]
    have g: "grows l1 l2" using t static by blast
    have code: "codeIn l3 ?f" using 1(4) fn same by (simp add: codeIn_def newFrame_def sameCode_def)
    have c2: "codeIn l2 ?f" using codeIn_emitted [OF code 1(3)] .
    have c1: "codeIn l1 ?f" using codeIn_grows [OF c2 g] .
    have base: "base ?st ?f"
      using lowerFunction_wf [OF low(1,2)] same by (intro newFrame_base) (auto simp: wfInstructions_def params sameCode_def)
    have len: "length (parameters fn) = length (fdParameters pfn)" using params by (metis length_map)
    have vals: "\<forall>(p, v) \<in> set (zip (fdParameters pfn) args). plainName (fpName p) \<and> frValues ?f (CHR ''%'' # fpName p) = Some v"
    proof clarify
      fix p v assume "(p, v) \<in> set (zip (fdParameters pfn) args)"
      then obtain i where i: "i < length args" "p = fdParameters pfn ! i" "v = args ! i" "i < length (fdParameters pfn)"
        by (auto simp: in_set_zip)
      have "paramName (parameters fn ! i) = CHR ''%'' # fpName p"
        using arg_cong [OF params, of "\<lambda>xs. xs ! i"] i len by simp
      moreover have "(parameters fn ! i, v) \<in> set (zip (parameters fn) args)" using i len by (auto simp: in_set_zip)
      ultimately have "frValues ?f (CHR ''%'' # fpName p) = Some v"
        using newFrame_values(1) [OF distinct, of args] args len same by (fastforce simp: newFrame_def sameCode_def)
      moreover have "plainName (fpName p)" using low(3) i by (auto simp: regularFunction_def list_all_length)
      ultimately show "plainName (fpName p) \<and> frValues ?f (CHR ''%'' # fpName p) = Some v" by blast
    qed
    have v0: "vars (lwScopes (pushScope ?l)) (ctr (pushScope ?l)) Map.empty ?f"
      by (simp add: vars_def pushScope_def initialLowerer_def)
    obtain env st1 f1 where p: "bindParams (fdParameters pfn) args Map.empty ?st = Some (Inr (env, st1))"
      "reaches F (ctr (pushScope ?l)) ?f (pcOf (pushScope ?l)) st1 f1 (pcOf l1)" "vars (lwScopes l1) (ctr l1) env f1"
      using parameters_run [OF 1(1) ok0 c1 v0 base args vals] by blast
    have start: "reaches F 0 ?f 0 st1 f1 (pcOf l1)" using p(2) by (simp add: pushScope_def initialLowerer_def)
    have M: "bindM (execBlock calls n env (fdBodyStatements pfn)) (\<lambda>fl. returnM (case fl of Returns v \<Rightarrow> v | Continues _ \<Rightarrow> ValueI32 0)) st1 = Some r"
      using run p(1) by (simp add: callBody_def bindM_def [of "bindParams a b c" for a b c])
    have ok1: "okL l1" using static by blast
    note flow = simSD [OF block 1(2) ok1 _ p(3) reaches_base [OF start]]
    from M have "ends F f1 (pcOf l1) (map_sum id fst r)"
    proof (cases rule: bindM_cases)
      case (err e)
      then show ?thesis using flow [OF _ err(1)] c2 codeIn_reaches [OF start] by simp
    next
      case (val fl st2)
      note fl = flow [OF _ val(1)]
      show ?thesis
      proof (cases fl)
        case (Returns v)
        then show ?thesis using fl val(2) c2 codeIn_reaches [OF start] by auto
      next
        case (Continues env')
        then obtain f2 where f2: "reaches F (ctr l1) f1 (pcOf l1) st2 f2 (pcOf l2)" r'
          using fl c2 codeIn_reaches [OF start] by auto
        have "codeAt ?f (pcOf l2) (retInst zeroOperand)" using codeAt_emitted [OF code, of l2 "[]"] 1(3) f2(2) by simp
        then have "ends F f2 (pcOf l2) (Inr (ValueI32 0))"
          using codeAt_reaches [OF f2(1)] codeAt_reaches [OF start] by (intro run_ret_nothing) (auto simp: zeroOperand_def)
        then show ?thesis using reaches_ends [OF f2(1)] val(2) Continues by simp
      qed
    qed
    then show ?thesis by (rule reaches_ends [OF start])
  qed
qed

section \<open>Modules\<close>

lemma registerFuncs_lookup:
  "registerFuncs fns m = Inr F \<Longrightarrow> distinct (map fnName fns) \<Longrightarrow>
     (\<forall>fn \<in> set fns. F (fnName fn) = Some fn) \<and> (\<forall>n. n \<notin> fnName ` set fns \<longrightarrow> F n = m n)"
proof (induction fns arbitrary: m)
  case (Cons g fns)
  then have "registerFuncs fns (m(fnName g \<mapsto> g)) = Inr F" by (auto simp: bindE_eq_Inr)
  from Cons.IH [OF this] show ?case using Cons.prems(2) by auto
qed simp

definition regularUnit :: "translationUnit \<Rightarrow> bool" where
  "regularUnit tu \<longleftrightarrow> list_all regularFunction (tuFunctions tu)"

lemma answersI:
  assumes "\<And>s d. within F N (Suc D) d s \<Longrightarrow> evalCall s (''@'' @ name) args d = map_sum id (\<lambda>v. (v, later N s)) r"
  shows "answersWith F name args r"
  unfolding answersWith_def using assms by blast

lemma sameCode_names: "list_all2 sameCode fs gs \<Longrightarrow> map fnName gs = map fnName fs"
  by (induction rule: list_all2_induct) (auto simp: sameCode_def)

lemma module_answers:
  assumes low: "Lower tu = Inr m" "namedUnit tu" "regularUnit tu" and same: "list_all2 sameCode (modFunctions m) (modFunctions m')"
    and reg: "registerFuncs (modFunctions m') Map.empty = Inr F"
  shows "answers F (callFn (tuFunctions tu) n)"
proof (induction n)
  case 0
  then show ?case by (simp add: answers_def)
next
  case (Suc n)
  obtain sigs where sigs: "okSignatures sigs"
    and fs: "list_all2 (\<lambda>pfn fn. lowerFunction pfn sigs = Inr fn) (tuFunctions tu) (modFunctions m)"
    using Lower_functions [OF low(1,2)] by blast
  have eq: "map fnName (modFunctions m') = map fnName (modFunctions m)" using same by (rule sameCode_names)
  have "distinct (map fnName (modFunctions m'))" unfolding eq by (rule Lower_sound(3) [OF low(1,2)])
  note F = registerFuncs_lookup [OF reg this]
  have names: "fnName ` set (modFunctions m') = (\<lambda>pfn. ''@'' @ fdName pfn) ` set (tuFunctions tu)"
    using Lower_sound(2) [OF low(1,2)] eq by (metis set_map)
  show ?case
    unfolding answers_def
  proof (intro allI impI)
    fix name args r
    assume r: "callFn (tuFunctions tu) (Suc n) name args = Some r"
    show "answersWith F name args r"
    proof (cases "find (\<lambda>pfn. fdName pfn = name) (tuFunctions tu)")
      case None
      then have "''@'' @ name \<notin> fnName ` set (modFunctions m')" unfolding names by (auto simp: find_None_iff)
      then have "F (''@'' @ name) = None" using F by blast
      then show ?thesis using r None by (intro answersI [of F 0 0]) (auto simp: evalCall.simps within_def)
    next
      case (Some pfn)
      then have pfn: "pfn \<in> set (tuFunctions tu)" "fdName pfn = name" by (auto simp: find_Some_iff)
      obtain i where "i < length (tuFunctions tu)" "tuFunctions tu ! i = pfn" using pfn(1) by (auto simp: in_set_conv_nth)
      then have "lowerFunction pfn sigs = Inr (modFunctions m ! i)" "modFunctions m' ! i \<in> set (modFunctions m')"
          "sameCode (modFunctions m ! i) (modFunctions m' ! i)"
        using fs same by (auto simp: list_all2_conv_all_nth)
      then obtain fn fn' where fn: "fn' \<in> set (modFunctions m')" "lowerFunction pfn sigs = Inr fn" "sameCode fn fn'" by blast
      have f: "F (''@'' @ name) = Some fn'" using F fn lowerFunction_header [OF fn(2)] pfn(2) by (auto simp: sameCode_def)
      have regular: "regularFunction pfn" using low(3) pfn(1) by (auto simp: regularUnit_def list_all_iff)
      have len: "length (parameters fn') = length (fdParameters pfn)"
        using function_parameters(1) [OF fn(2) sigs] regular fn(3) by (metis length_map regularFunction_def sameCode_def)
      show ?thesis
      proof (cases "length args = length (fdParameters pfn)")
        case False
        then show ?thesis using r Some f len by (intro answersI [of F 0 0]) (auto simp: evalCall.simps within_def)
      next
        case True
        then obtain q where q: "callBody (callFn (tuFunctions tu) n) n pfn args \<lparr>stMem = Map.empty, stNext = 0\<rparr> = Some q" "r = map_sum id fst q"
          using r Some by auto
        obtain N D where "\<And>s d name. within F N D d s \<Longrightarrow> evalLoop s (newFrame fn' args) name 0 d = map_sum id (\<lambda>v. (v, later N s)) r"
          using function_ends [OF Suc.IH fn(2) sigs regular fn(3) True q(1)] q(2) unfolding ends_def by blast
        then show ?thesis
          using f True len by (intro answersI [of F N D]) (auto simp: evalCall.simps within_def)
      qed
    qed
  qed
qed

text \<open>What \<open>EvaluateFunction\<close> makes of a result.\<close>

fun asInt :: "string \<Rightarrow> evalError + runtimeValue \<Rightarrow> evalError + i32" where
  "asInt name (Inl e) = Inl e"
| "asInt name (Inr (ValueI32 w)) = Inr w"
| "asInt name (Inr (ValuePtr p)) = Inl (EReturnedNonI32 (''@'' @ name))"

lemma evaluate_refines:
  assumes low: "Lower tu = Inr m" "namedUnit tu" "regularUnit tu"
    and same: "list_all2 sameCode (modFunctions m) (modFunctions m')"
    and run: "callFn (tuFunctions tu) n name (map ValueI32 args) = Some r"
  shows "\<exists>steps depth. \<forall>opts :: evalOptions. steps \<le> optStepLimit opts \<longrightarrow> depth \<le> optMaxCallDepth opts \<longrightarrow>
    EvaluateFunction m' (''@'' @ name) args opts = asInt name r"
proof -
  have "\<forall>fn \<in> set (modFunctions m'). ValidateFunctionIR fn = Inr ()"
    using Lower_sound(1) [OF low(1,2)] same
    by (fastforce simp: validModule_def validate_iff sameCode_def list_all2_conv_all_nth in_set_conv_nth)
  then obtain F where F: "registerFuncs (modFunctions m') Map.empty = Inr F"
    using registerFuncs_error [of "modFunctions m'" Map.empty] by (cases "registerFuncs (modFunctions m') Map.empty") fastforce+
  obtain N D where a: "\<And>s d. within F N D d s \<Longrightarrow> evalCall s (''@'' @ name) (map ValueI32 args) d = map_sum id (\<lambda>v. (v, later N s)) r"
    using module_answers [OF low same F, of n] run unfolding answers_def answersWith_def by blast
  show ?thesis
  proof (intro exI allI impI)
    fix opts :: evalOptions assume o: "int (Suc N) \<le> optStepLimit opts" "int (Suc D) \<le> optMaxCallDepth opts"
    have "N \<le> positiveOr (optStepLimit opts) defaultStepLimit" "D \<le> positiveOr (optMaxCallDepth opts) defaultMaxCallDepth"
      using o by (simp_all add: positiveOr_def)
    then have "within F N D 0 \<lparr>evFuncs = F, evSteps = 0, evStepLimit = positiveOr (optStepLimit opts) defaultStepLimit,
        evMaxCallDepth = positiveOr (optMaxCallDepth opts) defaultMaxCallDepth\<rparr>" by (simp add: within_def)
    from a [OF this] show "EvaluateFunction m' (''@'' @ name) args opts = asInt name r"
      by (cases "(name, r)" rule: asInt.cases) (simp_all add: EvaluateFunction_def F)
  qed
qed

section \<open>An example\<close>

lemma countdown_regular: "regularUnit countdownUnit"
  by code_simp

lemma countdown_meaning: "callFn (tuFunctions countdownUnit) 4 ''f'' (map ValueI32 [2]) = Some (Inr (ValueI32 0))"
  by code_simp

end
