(* ===== verification/Spec2Isabelle.thy ===== *)
theory Spec2Isabelle
  imports Findings SimulationTop
begin

text \<open>
  Verification development for wihajster, a compiler from a subset of C to a three-address code (TAC), with an
  evaluator for the code, its text format and a control-flow graph for a later backend.

  \<^bold>\<open>The program and the model.\<close> A run of \<open>main.go\<close> reads its flags, lexes and parses the input, lowers the tree
  to a TAC module and writes the module as text. Theories, in the order in which they build on one another:

  \<^item> \<open>Prelude\<close>, \<open>GoStrings\<close>: a Go function that returns \<open>(T, error)\<close> is a value of \<open>'e + 'a\<close>; the parts of \<open>strings\<close>,
  \<open>strconv\<close> and \<open>fmt\<close> that the code calls, on byte strings.
  \<^item> \<open>TacTypes\<close>, \<open>TacValidate\<close>, \<open>TacBuilder\<close>, \<open>TacEval\<close> (\<open>internal/tac/\<close> \<open>types.go\<close>, \<open>validate.go\<close>, \<open>builder.go\<close>, \<open>evaluator.go\<close>):
  operands, instructions, functions and modules; \<open>ValidateFunctionIR\<close> with its blocks and its sort; the methods of
  \<open>*Function\<close> as functions from the old to the new function; \<open>EvaluateFunction\<close>, whose \<open>evalState\<close> carries the step and
  call-depth budgets and whose \<open>evalFrame\<close> carries the values, the memory and the labels of one call.
  \<^item> \<open>Cfg\<close> (\<open>internal/tac/cfg/cfg.go\<close>, \<open>internal/backend/function_view.go\<close>): \<open>Build\<close> with its leaders, blocks, successors and
  predecessors, and the lookups by label.
  \<^item> \<open>TacText\<close> (\<open>internal/tac/\<close> \<open>writer.go\<close>, \<open>parser.go\<close>): \<open>WriteModule\<close> and \<open>ParseModule\<close>.
  \<^item> \<open>Tokens\<close>, \<open>Scanner\<close>, \<open>Tokenizer\<close>, \<open>Preprocessor\<close>, \<open>Lexer\<close> (\<open>internal/lexer/\<close>): the buffered scanner over an \<open>io.Reader\<close>,
  which is the list of the results of its \<open>Read\<close> calls; one function per \<open>lex\<close> function; directives and macro
  substitution; \<open>Peek\<close> and \<open>Next\<close>. Go's embedding of the scanner in the tokenizer and of the tokenizer in the preprocessor
  is record extension.
  \<^item> \<open>Ast\<close>, \<open>ParserState\<close>, \<open>Parser\<close>, \<open>ParserStmt\<close> (\<open>internal/parser/\<close>): the tree, the state of the parser with its diagnostics
  and its fatal error, and one function per method, over the list of the results of its token source.
  \<^item> \<open>Lower\<close> (\<open>internal/sema/\<close>): every function of \<open>lower.go\<close> as a state transformer with an error result.
  \<^item> \<open>Command\<close> (\<open>main.go\<close>): \<open>run\<close> and \<open>main\<close> over a world of files and output streams.

  \<^bold>\<open>Interfaces.\<close> \<open>token_source\<close> is what the parser asks of its tokens (\<open>Peek\<close> repeats, \<open>Next\<close> advances, the end stays the end);
  it is interpreted on the lexer and on a list, which gives that the parser may run on the list of the lexer's results.
  \<open>label_index\<close> is the map from labels to blocks, interpreted on the validator's index and on the graph. \<open>scanning\<close>,
  \<open>parser_relation\<close> and \<open>emission\<close> state that each primitive step of the tokenizer, the parser or the builder stays in a
  preorder, and give that every operation does; they are interpreted on the size of the remaining input, on
  the accumulated bytes, on the recorded diagnostics, on a fault ahead, on distinct destinations and on the header of a function.

  \<^bold>\<open>What the lemmas show.\<close>

  \<^item> \<open>TacEvalProps\<close>: one unfolding rule per kind of instruction, the budgets, no structural faults, arithmetic.
  \<open>TacValidate\<close> and \<open>Cfg\<close> end with theirs: the validator against a declarative well-formedness, the graph
  against the step relation \<open>flow\<close> of control. \<open>TacTextProps\<close>: writing then parsing is the identity on printable modules.
  \<^item> \<open>LexerStream\<close>, \<open>LexerTokens\<close>: tokens depend on the bytes only, not on how the reader delivers them; the shape of a token.
  \<^item> \<open>Grammar\<close> is the language as inductive relations; \<open>GrammarSound\<close>, \<open>GrammarComplete\<close>, \<open>StmtSound\<close>, \<open>StmtComplete\<close> and \<open>UnitSound\<close>
  show that the parser accepts it and returns the tree of the derivation; \<open>ParserSteps\<close> that diagnostics are kept.
  \<^item> \<open>LowerProps\<close>, \<open>LowerShape\<close>: what lowering emits is valid, assigns each destination once and matches the prototypes.
  \<^item> \<open>CSemantics\<close> is a reference interpreter of the tree, which knows of no instruction, slot or label. \<open>EvalRuns\<close> says where runs
  of the evaluator go when the budgets are large enough, \<open>Simulation\<close> relates a lowering action to an action of the
  interpreter, and \<open>SimulationExpr\<close>, \<open>SimulationStmt\<close>, \<open>SimulationFlow\<close> and \<open>SimulationTop\<close> carry the relation through expressions, straight
  statements, branches and loops, and functions and modules.
  \<^item> \<open>Examples\<close> holds the inputs of the witnesses, \<open>Findings\<close> inputs on which the code does something else than it means to.

  \<^bold>\<open>Termination and fuel.\<close> Loops over input are functions with a measure (the bytes left to deliver and in the buffer, the
  tokens left); the evaluator ends because each step uses up the step budget, as in the code. No code model
  has fuel of its own. The reference interpreter takes fuel for the rounds of a loop and the
  nesting of calls. Preservation of meaning is stated for calls to which some fuel gives a result, a value or a runtime error; then
  the evaluator returns it under every large enough budget. About calls for which no fuel is enough it says nothing.

  \<^bold>\<open>Not modelled.\<close> The text of error messages (\<open>Error\<close> methods, \<open>tokenDescription\<close>, \<open>operandKindName\<close>, \<open>byteClass.String\<close>): an error
  is a constructor with its position and its data. Which of several undefined labels an error names, which
  depends on the order of a Go map. The mutex of \<open>Lexer\<close>, which no code locks. Errors of writing the output. The
  operating system (which files exist, in what pieces they are read) is a parameter of \<open>Command\<close>. Go's \<open>int\<close> is
  unbounded where it counts bytes, lines, labels and instructions.
\<close>

section \<open>The meaning of programs\<close>



section \<open>The compiler\<close>

text \<open>C2. The compiler from bytes to a module is exactly the composition of its specifications: it gives a module iff every result of the lexer is a token, the grammar derives these tokens and \<open>Lower\<close> accepts the tree of the derivation.\<close>

theorem compile_is_grammar_then_lowering:
  assumes "steady input"
  shows "compile input = Inr m \<longleftrightarrow>
    (\<exists>ts ds. outcomes (NewLexer input) = map Inr ts \<and> unitOf ts ds \<and> Lower (unitTree ds) = Inr m)"
  using assms by (rule compile_iff)

theorem compile_is_grammar_then_lowering_witness:
  "\<exists>ts ds. outcomes (NewLexer [(zeroSource, None)]) = map Inr ts \<and> unitOf ts ds \<and> Lower (unitTree ds) = Inr zeroModule"
proof -
  have "compile [(zeroSource, None)] = Inr zeroModule"
    using compile_compiled [OF zeroSource_steady] by (simp add: zeroSource_compiled)
  then show ?thesis using compile_is_grammar_then_lowering [OF zeroSource_steady(1)] by blast
qed



text \<open>C4. A run without an error wrote, where \<open>-o\<close> says, the text of the module compiled from the bytes of the one input file; every function of that module passes \<open>ValidateFunctionIR\<close>, and nothing else changed.\<close>

theorem successful_runs_write_the_module:
  assumes "steadyOs sys" and "run sys args w = (None, w')"
  shows "\<exists>outPath inPath bytes m s. parseFlags [] args = Inr (outPath, [inPath]) \<and> wFiles w inPath = Some bytes
    \<and> compile (osDeliver sys inPath bytes) = Inr m \<and> validModule m \<and> WriteModule m = Inr s \<and> w' = writeOutput outPath s w"
proof -
  obtain outPath inPath bytes m s where r: "parseFlags [] args = Inr (outPath, [inPath])" "wFiles w inPath = Some bytes"
    "compile (osDeliver sys inPath bytes) = Inr m" "WriteModule m = Inr s" "w' = writeOutput outPath s w"
    using assms(2) by (rule run_succeeded)
  moreover have "validModule m"
    using assms(1) r(3) by (intro compiled_written(1)) (auto simp: steadyOs_def)
  ultimately show ?thesis by blast
qed

theorem successful_runs_write_the_module_witness:
  "\<exists>outPath inPath bytes m s. parseFlags [] [''a.c''] = Inr (outPath, [inPath]) \<and> wFiles oneFile inPath = Some bytes
    \<and> compile (osDeliver plainOs inPath bytes) = Inr m \<and> validModule m \<and> WriteModule m = Inr s
    \<and> oneFile\<lparr>wStdout := zeroText\<rparr> = writeOutput outPath s oneFile"
  using successful_runs_write_the_module [OF plainOs_steady zero_run] .

text \<open>C5. The exit code, the files and the messages of a run are the same on two systems that differ only in the pieces in which they deliver a file.\<close>

theorem runs_do_not_depend_on_delivery:
  assumes "steadyOs sys" and "steadyOs sys'" and "osOpen sys = osOpen sys'" and "osCreate sys = osCreate sys'"
  shows "mainProgram sys args w = mainProgram sys' args w"
  using run_delivery [OF assms] by (simp add: mainProgram_def)

theorem runs_do_not_depend_on_delivery_witness:
  "mainProgram byteOs [''a.c''] oneFile = mainProgram plainOs [''a.c''] oneFile"
  using runs_do_not_depend_on_delivery [OF byteOs_steady plainOs_steady] by (simp add: byteOs_def)

section \<open>Lowering\<close>

text \<open>C6. When \<open>Lower\<close> accepts a translation unit whose functions and prototypes have non-empty names, every function it returns passes the validator, and the functions are the definitions of the unit in order, named by a leading at sign, with no name twice.\<close>

theorem lowered_modules_are_valid:
  assumes "Lower tu = Inr m" and "namedUnit tu"
  shows "(\<forall>fn \<in> set (modFunctions m). ValidateFunctionIR fn = Inr ())
    \<and> map fnName (modFunctions m) = map (\<lambda>pfn. ''@'' @ fdName pfn) (tuFunctions tu)
    \<and> distinct (map fnName (modFunctions m))"
  using Lower_sound(1-3) [OF assms] by (simp add: validModule_def)

theorem lowered_modules_are_valid_witness:
  "\<exists>m. Lower countdownUnit = Inr m \<and> (\<forall>fn \<in> set (modFunctions m). ValidateFunctionIR fn = Inr ())"
proof -
  obtain m where "Lower countdownUnit = Inr m" using countdown_lowers by (auto simp: isOk_iff)
  with lowered_modules_are_valid [OF this countdown_named] show ?thesis by blast
qed

text \<open>C7. A lowered function assigns no temporary and no stack slot twice: the destinations of its instructions are pairwise different, and all of them were numbered below the function's counter.\<close>

theorem lowered_destinations_are_distinct:
  assumes "lowerFunction pfn sigs = Inr fn"
  shows "distinct (destTexts (instructions fn)) \<and> (\<forall>t \<in> set (destTexts (instructions fn)). namedBelow (nextTempID fn) t)"
  using lowerFunction_singleDef [OF assms] by (simp add: singleDef_def)

theorem lowered_destinations_are_distinct_witness:
  "\<exists>fn. lowerFunction (hd (tuFunctions countdownUnit)) Map.empty = Inr fn \<and> distinct (destTexts (instructions fn))"
proof -
  have "isOk (lowerFunction (hd (tuFunctions countdownUnit)) Map.empty)" by code_simp
  then obtain fn where "lowerFunction (hd (tuFunctions countdownUnit)) Map.empty = Inr fn" by (auto simp: isOk_iff)
  with lowered_destinations_are_distinct [OF this] show ?thesis by blast
qed

text \<open>C8. A unit is lowered only if each definition has the very signature of every prototype of the same name.\<close>

theorem definitions_match_their_prototypes:
  assumes "Lower tu = Inr m" and "p \<in> set (tuPrototypes tu)" and "pfn \<in> set (tuFunctions tu)" and "protoName p = fdName pfn"
  shows "signatureForFunction (protoToken p) (protoReturnType p) (protoParameters p)
    = signatureForFunction (fdToken pfn) (fdReturnType pfn) (fdParameters pfn)"
  using assms by (rule Lower_agrees)

theorem definitions_match_their_prototypes_witness:
  "signatureForFunction zeroToken intType [intParam ''n'']
    = signatureForFunction (fdToken (hd (tuFunctions countdownUnit))) intType [intParam ''n'']"
proof -
  obtain m where m: "Lower countdownUnit = Inr m" using countdown_lowers by (auto simp: isOk_iff)
  show ?thesis
    using definitions_match_their_prototypes [OF m, of "hd (tuPrototypes countdownUnit)" "hd (tuFunctions countdownUnit)"]
    by (simp add: countdownUnit_def)
qed

section \<open>The parser\<close>

text \<open>C9. On a list of tokens that are neither the end nor an error the parser succeeds exactly when the grammar of Grammar.thy derives the list, and its result is the tree of the derivation: no token is skipped, none is invented, operators bind by precedence and to the left, and an \<open>else\<close> belongs to the nearest \<open>if\<close>.\<close>

theorem parser_accepts_the_grammar:
  assumes "clean ts"
  shows "Parse (map Inr ts) = Inr tu \<longleftrightarrow> (\<exists>ds. unitOf ts ds \<and> tu = unitTree ds)"
  using assms by (rule Parse_unit)

theorem parser_accepts_the_grammar_witness:
  "Parse (map Inr zeroFunctionTokens) = Inr \<lparr>tuFunctions = [zeroFunction], tuDeclarations = [], tuPrototypes = []\<rparr>"
  using parser_accepts_the_grammar [OF zeroFunction_clean] zeroFunction_unit
  by (auto simp: unitTree_def addExternal_def emptyUnit_def)

text \<open>C10. Whatever the tokens, the parser reads all of them, recovering after every error; when the grammar does not derive them it returns at least one diagnostic and no fatal error.\<close>

theorem rejected_input_is_read_and_reported:
  assumes "clean ts"
  shows "psTokens (snd (ParseTranslationUnit (newParser (map Inr ts)))) = []
    \<and> ((\<nexists>ds. unitOf ts ds) \<longrightarrow>
         (\<exists>d ds. Parse (map Inr ts) = Inl \<lparr>FatalLexer = None, Diagnostics = d # ds\<rparr>))"
  using assms by (rule Parse_reads_all)

theorem rejected_input_is_read_and_reported_witness:
  "psTokens (snd (ParseTranslationUnit (newParser (map Inr [tk TokenInt ''int''])))) = []"
  using rejected_input_is_read_and_reported [of "[tk TokenInt ''int'']"] by (simp add: token_types)

text \<open>C11. An error of the lexer other than the end of the input, or an error token, is never passed over: the parse fails and reports the first one, whatever follows it and whatever the parser does to recover.\<close>

theorem lexer_faults_fail_the_parse:
  assumes "clean ts" and "faultOf r = Some e"
  shows "\<exists>ds. Parse (map Inr ts @ r # rest) = Inl \<lparr>FatalLexer = Some e, Diagnostics = ds\<rparr>"
  using assms by (rule Parse_fault)

theorem lexer_faults_fail_the_parse_witness:
  "\<exists>ds. Parse (map Inr zeroFunctionTokens @ Inl ErrNotImplementedInV0 # map Inr zeroFunctionTokens)
     = Inl \<lparr>FatalLexer = Some (FatalLex ErrNotImplementedInV0), Diagnostics = ds\<rparr>"
  using lexer_faults_fail_the_parse [OF zeroFunction_clean, of "Inl ErrNotImplementedInV0"] by simp


section \<open>The text format\<close>

text \<open>C13. A module whose names are plain words spelled after their operand kinds, with valid functions, distinct function names and distinct destinations, is written to a text that \<open>ParseModule\<close> reads back to the same module, apart from the temporary counter, which the text does not carry.\<close>

theorem text_format_round_trips:
  assumes "printableModule m"
  shows "\<exists>s. WriteModule m = Inr s \<and> ParseModule s = Inr \<lparr>modFunctions = map resetCounter (modFunctions m)\<rparr>"
  using assms by (rule write_parse_module)

theorem text_format_round_trips_witness:
  "\<exists>s. WriteModule sumModule = Inr s \<and> ParseModule s = Inr \<lparr>modFunctions = [resetCounter sumFn]\<rparr>"
  using text_format_round_trips [OF sumModule_printable] by (simp add: sumModule_def)

text \<open>C14. Every function of a parsed module passes the validator, has a name that starts with \<open>@\<close>, a return type and no destination assigned twice, and no two functions have the same name.\<close>

theorem parsed_modules_are_valid:
  assumes "ParseModule s = Inr m"
  shows "distinct (map fnName (modFunctions m))
    \<and> (\<forall>fn \<in> set (modFunctions m). ValidateFunctionIR fn = Inr () \<and> hasPrefix (fnName fn) ''@''
         \<and> returnType fn \<noteq> [] \<and> distinct (destTexts (instructions fn)))"
  using parsed_module_sound [OF assms] by (simp add: list_all_iff soundFunction_def)

theorem parsed_modules_are_valid_witness:
  "\<exists>m. ParseModule returnText = Inr m \<and> (\<forall>fn \<in> set (modFunctions m). ValidateFunctionIR fn = Inr ())"
proof -
  obtain m where "ParseModule returnText = Inr m" using returnText_parses by (auto simp: isOk_iff)
  with parsed_modules_are_valid [OF this] show ?thesis by blast
qed

section \<open>The evaluator\<close>

text \<open>C15. A run of the evaluator never reports a structural fault: an invalid jump or branch label, an unsupported instruction kind or opcode, a wrong operand count or a missing callee. It reports that a function ended without \<open>ret\<close> only for a function of the module with no instructions at all.\<close>

theorem evaluation_never_faults_structurally:
  assumes "EvaluateFunction m name args options = Inl e"
  shows "\<not> structuralFault e
    \<and> (\<forall>g. e = EEndedWithoutRet g \<longrightarrow>
         (\<exists>fn \<in> set (modFunctions m). fnName fn = g \<and> instructions fn = []))"
  using assms by (rule evaluate_faults)

theorem evaluation_never_faults_structurally_witness:
  "\<not> structuralFault (EStepLimit ''@sum'')"
  using evaluation_never_faults_structurally [OF sum_short] by blast

text \<open>C16. A result obtained under some step limit and call-depth limit is obtained under every larger pair of limits.\<close>

theorem raising_budgets_keeps_results:
  assumes "EvaluateFunction m name args small = Inr w"
    and "0 < optStepLimit small" "optStepLimit small \<le> optStepLimit large"
    and "0 < optMaxCallDepth small" "optMaxCallDepth small \<le> optMaxCallDepth large"
  shows "EvaluateFunction m name args large = Inr w"
  using assms by (rule evaluate_budget_mono)

theorem raising_budgets_keeps_results_witness:
  "EvaluateFunction sumModule ''@sum'' [2] (runOpts 1000000 200) = Inr 3"
  by (rule raising_budgets_keeps_results [OF sum_two]) (simp_all add: runOpts_def)

text \<open>C17. A call that returns has consumed at least one step and never more than the step limit, and it leaves the function table and both limits as they were.\<close>

theorem calls_stay_within_budget:
  assumes "evalCall s name args depth = Inr (v, s')"
  shows "evSteps s < evSteps s' \<and> evSteps s' \<le> evStepLimit s \<and> evStepLimit s' = evStepLimit s
    \<and> evFuncs s' = evFuncs s \<and> evMaxCallDepth s' = evMaxCallDepth s"
  using eval_spends(1) [OF assms] by (auto simp: spends_def keepsBudget_def)

theorem calls_stay_within_budget_witness:
  "\<exists>v s'. evalCall sumState ''@sum'' [ValueI32 1] 0 = Inr (v, s') \<and> 0 < evSteps s' \<and> evSteps s' \<le> 50"
proof -
  obtain v s' where r: "evalCall sumState ''@sum'' [ValueI32 1] 0 = Inr (v, s')" using sumState_runs by auto
  with calls_stay_within_budget [OF r] show ?thesis by (auto simp: sumState_def)
qed

text \<open>C18. For a non-zero divisor \<open>div_s\<close> and \<open>mod_s\<close> return a quotient and a remainder with \<open>q * b + r = a\<close>, a remainder smaller than the divisor, and the quotient truncated towards zero, except for the one overflowing case \<open>MinInt32 / -1\<close>, where the quotient wraps to \<open>MinInt32\<close>.\<close>

theorem division_follows_go:
  assumes "b \<noteq> 0"
  shows "\<exists>q r. evalBinary OpcodeDivS a b = Inr (ValueI32 q) \<and> evalBinary OpcodeModS a b = Inr (ValueI32 r)
    \<and> q * b + r = a \<and> \<bar>sint r\<bar> < \<bar>sint b\<bar> \<and> sint r = sint a smod sint b
    \<and> (if sint a = - (2 ^ 31) \<and> sint b = -1 then q = a else sint q = sint a sdiv sint b)"
  using assms goQuo_goRem [of a b] goRem_sign [OF assms, of a] goRem_exact [OF assms, of a]
    goQuo_wraps [of a b] goQuo_exact [of a b]
  by (auto simp: evalBinary_def)

theorem division_follows_go_witness:
  "\<exists>q r. evalBinary OpcodeDivS (- 7) 2 = Inr (ValueI32 q) \<and> evalBinary OpcodeModS (- 7) 2 = Inr (ValueI32 r)
    \<and> q * 2 + r = - 7"
  using division_follows_go [of 2 "- 7"] by auto

text \<open>C19. \<open>shl\<close> multiplies by a power of two modulo \<open>2^32\<close> and \<open>shr_s\<close> divides by it rounding down, for every count read as an unsigned word: a count of 32 or more leaves 0, or -1 for \<open>shr_s\<close> of a negative value.\<close>

theorem shifts_use_the_whole_count:
  "evalBinary OpcodeShl a b = Inr (ValueI32 (a * 2 ^ unat b))
   \<and> (\<exists>r. evalBinary OpcodeShrS a b = Inr (ValueI32 r) \<and> sint r = sint a div 2 ^ unat b)"
  by (simp add: evalBinary_def goShl_mult goShr_div)

section \<open>The validator\<close>

text \<open>C20. \<open>ValidateFunctionIR\<close>, with its block construction and its sort, accepts exactly the functions whose instructions all verify, whose labels are distinct, whose jumps and branches name defined labels, and whose last instruction, if there is one, is a terminator.\<close>

theorem validator_decides_well_formedness:
  "ValidateFunctionIR fn = Inr () \<longleftrightarrow> wfInstructions (instructions fn)"
  by (rule validate_iff)

section \<open>The control-flow graph\<close>

text \<open>C21. \<open>Build\<close> succeeds exactly on the functions the validator accepts in which every instruction after a \<open>ret\<close> is the target of some jump or branch.\<close>

theorem graph_exists_iff:
  "isOk (Build fn) \<longleftrightarrow> ValidateFunctionIR fn = Inr () \<and> retsClosed (instructions fn)"
  by (simp add: Build_ok_iff validate_iff)

text \<open>C22. The blocks of a graph, in order, are the function's instructions cut into non-empty pieces; block \<open>i\<close> has identifier \<open>i\<close> and starts where block \<open>i - 1\<close> ends; no block has a terminator before its last instruction.\<close>

theorem graph_partitions_the_function:
  assumes "Build fn = Inr g"
  shows "partitions (instructions fn) (graphBlocks g)"
  using assms by (rule Build_partitions)

theorem graph_partitions_the_function_witness:
  "\<exists>g. Build sumFn = Inr g \<and> concat (map bbInstructions (graphBlocks g)) = instructions sumFn"
proof -
  obtain g where "Build sumFn = Inr g" using sum_built by (auto simp: isOk_iff)
  with graph_partitions_the_function [OF this] show ?thesis by (auto simp: partitions_def)
qed

text \<open>C23. The successor list of a block has no repetition, stays in range, and names exactly the blocks that start at a position control may reach from the last instruction of the block.\<close>

theorem edges_are_control_transfers:
  assumes "Build fn = Inr g"
  shows "edgesAgree (instructions fn) (graphBlocks g)"
  using assms by (rule Build_edges(1))

theorem edges_are_control_transfers_witness:
  "\<exists>g. Build sumFn = Inr g \<and> edgesAgree (instructions sumFn) (graphBlocks g)"
  using sum_built edges_are_control_transfers [of sumFn] by (auto simp: isOk_iff)

text \<open>C24. The predecessor list of a block is the increasing list, without repetition, of the blocks that have it as a successor.\<close>

theorem predecessors_invert_successors:
  assumes "Build fn = Inr g" and "j < length (graphBlocks g)"
  shows "bbPredecessors (graphBlocks g ! j)
    = map int (filter (\<lambda>i. int j \<in> set (bbSuccessors (graphBlocks g ! i))) [0..<length (graphBlocks g)])"
  using Build_edges(2) [OF assms(1)] assms(2) by (simp add: predecessorsAgree_def)

theorem predecessors_invert_successors_witness:
  "\<exists>g. Build sumFn = Inr g \<and> bbPredecessors (graphBlocks g ! 0)
    = map int (filter (\<lambda>i. int 0 \<in> set (bbSuccessors (graphBlocks g ! i))) [0..<length (graphBlocks g)])"
proof -
  obtain g where g: "Build sumFn = Inr g" using sum_built by (auto simp: isOk_iff)
  have "graphBlocks g \<noteq> []" using Build_partitions [OF g] by (auto simp: partitions_def sumFn_def)
  then show ?thesis using predecessors_invert_successors [OF g, of 0] g by auto
qed



text \<open>C26. In a graph whose labels are all indexed and whose \<open>.Bk\<close> labels are on block \<open>k\<close>, the label \<open>EnsureLabel\<close> returns for a block leads back to it, the graph stays indexed, and asking again changes nothing.\<close>

theorem generated_labels_are_found:
  assumes "graph_index.indexed g" and "k < length (graphBlocks g)"
  shows "BlockByLabel (snd (EnsureLabel g (int k))) (fst (EnsureLabel g (int k))) = Some (int k)
     \<and> graph_index.indexed (snd (EnsureLabel g (int k)))
     \<and> EnsureLabel (snd (EnsureLabel g (int k))) (int k) = EnsureLabel g (int k)"
  using graph_index.ensure_found [OF assms] graph_index.ensure_indexed [OF assms(1)]
    graph_index.ensure_idempotent [of "int k" g] assms(2) by simp

theorem generated_labels_are_found_witness:
  "BlockByLabel (snd (EnsureLabel bareGraph 0)) ''.B0'' = Some 0"
  using generated_labels_are_found [OF bareGraph_indexed]
  by (simp add: bareGraph_label)

section \<open>The lexer\<close>

text \<open>C27. Every interleaving of \<open>Peek\<close> and \<open>Next\<close> on the lexer gives the same results as on the plain list of its results, which is what the parser is run on.\<close>

theorem lexer_is_its_list_of_results:
  "interact Peek Next bs l = interact sourcePeek sourceNext bs (outcomes l)"
  by (rule lexer_source.interaction)

text \<open>C28. The lexer ends on every input, macros included: call \<open>m\<close> of \<open>Next\<close> gives entry \<open>m\<close> of a finite list, and once the list is used up every further call gives \<open>io.EOF\<close>.\<close>

theorem lexer_reaches_the_end:
  "fst (Next (((snd \<circ> Next) ^^ m) l)) = (if m < length (outcomes l) then outcomes l ! m else Inl (ReadError IoEOF))"
  by (rule lexer_source.taken)

text \<open>C29. How the reader cuts the file into pieces cannot be observed: two readers that deliver the same bytes in non-empty pieces and end without an error give the same tokens, errors and positions on every interleaving of \<open>Peek\<close> and \<open>Next\<close>, although tokens cross the boundaries of the buffer at different places.\<close>

theorem tokens_depend_on_the_bytes:
  assumes "steady r" and "steady r'" and "readerBytes r = readerBytes r'"
  shows "interact Peek Next bs (NewLexer r) = interact Peek Next bs (NewLexer r')"
  using NewLexer_outcomes [OF assms] lexer_source.interaction by simp

theorem tokens_depend_on_the_bytes_witness:
  "interact Peek Next [True, False, False, True] (NewLexer [(''in'', None), (''t f'', None)])
    = interact Peek Next [True, False, False, True] (NewLexer [(''int f'', None)])"
  by (rule tokens_depend_on_the_bytes) (simp_all add: readerBytes_def)



section \<open>The builder\<close>

text \<open>C31. \<open>SetBlock\<close> and \<open>AddBlock\<close> append the label and validate at once, so the function ends in a label and the validator always refuses it: both report an error on every function, although they have changed it.\<close>

theorem opening_a_block_always_fails:
  "\<not> isOk (fst (AddBlock label f)) \<and> \<not> isOk (fst (SetBlock label f))
   \<and> instructions (snd (AddBlock label f)) = instructions f @ [labelInst label]"
  by (auto simp: AddBlock_def SetBlock_def AddLabel_def emit_def Let_def isOk_iff validate_iff wfInstructions_def
      isTerminator_def labelInst_def)

text \<open>C32. Parsing the spelling of an opcode gives the opcode back exactly for the opcodes that have a spelling.\<close>

theorem opcode_names_round_trip:
  "ParseOpcode (opcodeString op) = (op, True, False) \<longleftrightarrow> op \<in> set namedOpcodes"
  by (rule ParseOpcode_opcodeString)

end
